(* ===== verification/Store_Prelude.thy ===== *)
theory Store_Prelude
  imports Main "HOL-Library.Word"
begin

text \<open>
  What every theory of the development shares: the names of the machine integer types of
  the C++ sources, the collections of lemmas the component proofs are stated over, and the
  generic facts on words, lists and maps that no component owns.
\<close>

unbundle bit_operations_syntax

type_synonym u8 = "8 word"
type_synonym u32 = "32 word"
type_synonym u64 = "64 word"

named_theorems bin_arith \<open>arithmetic of the size classes of the offset allocator\<close>
named_theorems frame \<open>what an operation leaves unchanged\<close>
named_theorems defs \<open>definitions unfolded by the component proofs\<close>

section \<open>Words\<close>

lemma u32_lt_of_unat: "unat (w :: u32) < 4294967296"
  using unsigned_less [of w] by simp

lemma u64_lt_of_unat: "unat (w :: u64) < 18446744073709551616"
  using unsigned_less [of w] by simp

lemma unat_ucast_u64 [simp]: "unat (ucast (w :: u32) :: u64) = unat w"
  using u32_lt_of_unat [of w] by (simp add: unsigned_ucast_eq take_bit_nat_eq_self)

lemma unat_drop_bit_div: "unat (drop_bit n (w :: 'a::len word)) = unat w div 2 ^ n"
  using unat_drop_bit_eq [of n w] by (simp only: drop_bit_eq_div [of n "unat w"])

lemma unat_plus_no_wrap:
  "unat (a :: 'a::len word) + unat b < 2 ^ LENGTH('a) \<Longrightarrow> unat (a + b) = unat a + unat b"
  by (simp add: unat_word_ariths)

lemma unat_minus_no_wrap: "b \<le> (a :: 'a::len word) \<Longrightarrow> unat (a - b) = unat a - unat b"
  by (rule unat_sub) (simp add: word_le_nat_alt)

lemma unat_take_bit_mod: "unat (take_bit n (w :: 'a::len word)) = unat w mod 2 ^ n"
proof -
  have "unat (take_bit n w) = take_bit n (unat w)" by (simp only: unsigned_take_bit_eq)
  then show ?thesis by (simp only: take_bit_eq_mod [of n "unat w"])
qed

lemma unat_push_bit_no_wrap:
  assumes "unat (w :: 'a::len word) * 2 ^ k < 2 ^ LENGTH('a)"
  shows "unat (push_bit k w) = unat w * 2 ^ k"
proof -
  have "unat (push_bit k w) = take_bit LENGTH('a) (push_bit k (unat w))"
    by (simp only: unsigned_push_bit_eq)
  also have "\<dots> = (unat w * 2 ^ k) mod 2 ^ LENGTH('a)"
    by (simp only: take_bit_eq_mod push_bit_eq_mult)
  finally show ?thesis using assms by simp
qed

end
