(* ===== verification/Small_Float.thy ===== *)
theory Small_Float
  imports Store_Prelude
begin

text \<open>
  The size classes of the offset allocator: the namespace \<open>SmallFloat\<close> and the bit scans of
  \<open>mooncake-store/src/offset_allocator.cpp\<close>, on 32-bit words as the code has them, followed
  by the arithmetic on natural numbers they amount to.
\<close>

section \<open>Bit scans\<close>

text \<open>
  \<open>__builtin_clz\<close> and \<open>__builtin_ctz\<close>: the positions of the highest and of the lowest set bit.
\<close>

fun msb_pos :: "nat \<Rightarrow> nat" where
  "msb_pos n = (if n < 2 then 0 else Suc (msb_pos (n div 2)))"

fun lsb_pos :: "nat \<Rightarrow> nat" where
  "lsb_pos n = (if n = 0 \<or> odd n then 0 else Suc (lsb_pos (n div 2)))"

declare msb_pos.simps [simp del] lsb_pos.simps [simp del]

definition lzcnt_nonzero :: "u32 \<Rightarrow> u32" where
  "lzcnt_nonzero v = word_of_nat (31 - msb_pos (unat v))"

definition tzcnt_nonzero :: "u32 \<Rightarrow> u32" where
  "tzcnt_nonzero v = word_of_nat (lsb_pos (unat v))"

section \<open>SmallFloat\<close>

definition MANTISSA_BITS :: nat where "MANTISSA_BITS = 3"
definition MANTISSA_VALUE :: u32 where "MANTISSA_VALUE = push_bit MANTISSA_BITS 1"
definition MANTISSA_MASK :: u32 where "MANTISSA_MASK = MANTISSA_VALUE - 1"
definition MAX_BIN_SIZE :: u64 where "MAX_BIN_SIZE = 4026531840"

definition uintToFloatRoundUp :: "u32 \<Rightarrow> u32" where
  "uintToFloatRoundUp sz =
     (if sz < MANTISSA_VALUE then push_bit MANTISSA_BITS 0 + sz
      else
        let leadingZeros = lzcnt_nonzero sz;
            highestSetBit = 31 - leadingZeros;
            mantissaStartBit = highestSetBit - of_nat MANTISSA_BITS;
            exp = mantissaStartBit + 1;
            mantissa = drop_bit (unat mantissaStartBit) sz AND MANTISSA_MASK;
            lowBitsMask = push_bit (unat mantissaStartBit) 1 - 1;
            mantissa = (if sz AND lowBitsMask \<noteq> 0 then mantissa + 1 else mantissa)
        in push_bit MANTISSA_BITS exp + mantissa)"

definition uintToFloatRoundDown :: "u32 \<Rightarrow> u32" where
  "uintToFloatRoundDown sz =
     (if sz < MANTISSA_VALUE then push_bit MANTISSA_BITS 0 OR sz
      else
        let leadingZeros = lzcnt_nonzero sz;
            highestSetBit = 31 - leadingZeros;
            mantissaStartBit = highestSetBit - of_nat MANTISSA_BITS;
            exp = mantissaStartBit + 1;
            mantissa = drop_bit (unat mantissaStartBit) sz AND MANTISSA_MASK
        in push_bit MANTISSA_BITS exp OR mantissa)"

definition floatToUint :: "u32 \<Rightarrow> u32" where
  "floatToUint floatValue =
     (let exponent = drop_bit MANTISSA_BITS floatValue;
          mantissa = floatValue AND MANTISSA_MASK
      in if exponent = 0 then mantissa
         else push_bit (unat (exponent - 1)) (mantissa OR MANTISSA_VALUE))"

definition NO_SPACE :: u32 where "NO_SPACE = 0xffffffff"

definition findLowestSetBitAfter :: "u32 \<Rightarrow> u32 \<Rightarrow> u32" where
  "findLowestSetBitAfter bitMask startBitIndex =
     (let maskBeforeStartIndex = push_bit (unat startBitIndex) 1 - 1;
          maskAfterStartIndex = NOT maskBeforeStartIndex;
          bitsAfter = bitMask AND maskAfterStartIndex
      in if bitsAfter = 0 then NO_SPACE else tzcnt_nonzero bitsAfter)"

section \<open>The same classes on natural numbers\<close>

text \<open>
  Class \<open>b\<close> holds the sizes from \<open>bin_size b\<close> up to, not including, \<open>bin_size (b + 1)\<close>:
  eight classes for the sizes below eight, then eight per power of two.
\<close>

definition bin_size :: "nat \<Rightarrow> nat" where
  "bin_size b = (if b < 8 then b else (8 + b mod 8) * 2 ^ (b div 8 - 1))"

definition bin_down :: "nat \<Rightarrow> nat" where
  "bin_down n = (if n < 8 then n
     else let s = msb_pos n - 3 in 8 * (s + 1) + (n div 2 ^ s - 8))"

definition bin_up :: "nat \<Rightarrow> nat" where
  "bin_up n = (if n < 8 then n
     else let s = msb_pos n - 3
          in 8 * (s + 1) + (n div 2 ^ s - 8) + (if n mod 2 ^ s \<noteq> 0 then 1 else 0))"

lemma msb_pos_bounds: "0 < n \<Longrightarrow> 2 ^ msb_pos n \<le> n \<and> n < 2 ^ Suc (msb_pos n)"
proof (induction n rule: msb_pos.induct)
  case (1 n)
  show ?case
  proof (cases "n < 2")
    case True
    with "1.prems" show ?thesis by (simp add: msb_pos.simps [of n])
  next
    case False
    with "1.IH" have "2 ^ msb_pos (n div 2) \<le> n div 2" "n div 2 < 2 ^ Suc (msb_pos (n div 2))"
      by auto
    with False show ?thesis by (simp add: msb_pos.simps [of n]) linarith
  qed
qed

lemma msb_pos_ge: "2 ^ k \<le> n \<Longrightarrow> k \<le> msb_pos n"
proof -
  assume n: "2 ^ k \<le> n"
  then have "0 < n" by (meson less_le_trans zero_less_numeral zero_less_power)
  from msb_pos_bounds [OF this] n have "(2::nat) ^ k < 2 ^ Suc (msb_pos n)" by linarith
  then show ?thesis by (simp only: power_strict_increasing_iff)
qed

lemma msb_pos_lt: "0 < n \<Longrightarrow> n < 2 ^ k \<Longrightarrow> msb_pos n < k"
proof -
  assume "0 < n" "n < 2 ^ k"
  with msb_pos_bounds have "(2::nat) ^ msb_pos n < 2 ^ k" by (meson le_less_trans)
  then show ?thesis by simp
qed

lemma lsb_pos_spec: "0 < n \<Longrightarrow> bit n (lsb_pos n) \<and> (\<forall>k < lsb_pos n. \<not> bit n k)"
proof (induction n rule: lsb_pos.induct)
  case (1 n)
  show ?case
  proof (cases "odd n")
    case True
    then show ?thesis by (simp add: lsb_pos.simps [of n] bit_0)
  next
    case False
    with "1.prems" have "0 < n div 2" by auto
    with "1.IH" "1.prems" False
    have IH: "bit (n div 2) (lsb_pos (n div 2))" "\<forall>k < lsb_pos (n div 2). \<not> bit (n div 2) k" by auto
    have e: "lsb_pos n = Suc (lsb_pos (n div 2))" using False "1.prems" by (simp add: lsb_pos.simps [of n])
    have "\<not> bit n k" if "k < Suc (lsb_pos (n div 2))" for k
      using that IH(2) False by (cases k) (auto simp: bit_0 bit_Suc)
    with IH(1) show ?thesis by (simp add: e bit_Suc)
  qed
qed

lemma bin_size_block: "m \<le> 8 \<Longrightarrow> bin_size (8 * (s + 1) + m) = (8 + m) * 2 ^ s"
proof (cases "m = 8")
  case True
  have "bin_size (8 * (s + 2)) = 8 * 2 ^ (s + 1)" by (simp add: bin_size_def)
  with True show ?thesis by (simp add: algebra_simps)
next
  case False
  assume "m \<le> 8"
  with False have "m < 8" by simp
  then have "(8 * (s + 1) + m) mod 8 = m" "(8 * (s + 1) + m) div 8 = s + 1"
    by (simp_all only: mod_mult_self4 div_mult_self4) simp_all
  then show ?thesis by (simp add: bin_size_def)
qed

lemma bin_block_cases:
  fixes b :: nat
  obtains "b < 8" | s m where "b = 8 * (s + 1) + m" "m < 8"
proof (cases "b < 8")
  case False
  then have "b = 8 * ((b div 8 - 1) + 1) + b mod 8" by (simp add: algebra_simps)
  then show thesis using that(2) by (metis mod_less_divisor zero_less_numeral)
qed (use that(1) in simp)

lemma bin_size_Suc: "bin_size b < bin_size (Suc b)"
proof (cases b rule: bin_block_cases)
  case 1
  then show ?thesis by (auto simp: bin_size_def)
next
  case (2 s m)
  have "bin_size b = (8 + m) * 2 ^ s" using 2 bin_size_block [of m s] by simp
  moreover have "bin_size (Suc b) = (8 + Suc m) * 2 ^ s"
    using 2 bin_size_block [of "Suc m" s] by simp
  ultimately show ?thesis by simp
qed

lemma bin_size_strict_mono: "strict_mono bin_size"
  by (rule strict_mono_Suc_iff [THEN iffD2]) (simp add: bin_size_Suc)

lemma bin_size_less_iff [bin_arith]: "bin_size a < bin_size b \<longleftrightarrow> a < b"
  by (rule strict_mono_less [OF bin_size_strict_mono])

lemma bin_size_le_iff [bin_arith]: "bin_size a \<le> bin_size b \<longleftrightarrow> a \<le> b"
  by (rule strict_mono_less_eq [OF bin_size_strict_mono])

lemma msb_split:
  assumes "8 \<le> n"
  obtains s q r where "s = msb_pos n - 3" "n = q * 2 ^ s + r" "8 \<le> q" "q \<le> 15" "r < 2 ^ s"
    "n div 2 ^ s = q" "n mod 2 ^ s = r"
proof -
  define s where "s = msb_pos n - 3"
  have "3 \<le> msb_pos n" using assms msb_pos_ge [of 3 n] by simp
  then have h: "msb_pos n = s + 3" by (simp add: s_def)
  have b: "2 ^ s * 8 \<le> n" "n < 2 ^ s * 16"
    using msb_pos_bounds [of n] assms by (simp_all add: h power_add)
  have "n div 2 ^ s \<le> 15" using b(2) by (simp add: less_mult_imp_div_less mult.commute flip: less_Suc_eq_le)
  moreover have "8 \<le> n div 2 ^ s" using b(1) by (simp add: less_eq_div_iff_mult_less_eq mult.commute)
  ultimately show thesis
    by (intro that [of s "n div 2 ^ s" "n mod 2 ^ s"]) (simp_all only: s_def div_mult_mod_eq, simp)
qed

lemma bin_down_bounds: "bin_size (bin_down n) \<le> n \<and> n < bin_size (Suc (bin_down n))"
proof (cases "n < 8")
  case True
  then show ?thesis by (auto simp: bin_down_def bin_size_def)
next
  case False
  then have "8 \<le> n" by simp
  then obtain s q r where d: "s = msb_pos n - 3" "n = q * 2 ^ s + r" "8 \<le> q" "q \<le> 15" "r < 2 ^ s"
    "n div 2 ^ s = q" "n mod 2 ^ s = r" by (rule msb_split)
  have e: "bin_down n = 8 * (s + 1) + (q - 8)"
    using False by (simp add: bin_down_def Let_def d(6) flip: d(1))
  have "bin_size (bin_down n) = q * 2 ^ s" using d(3,4) bin_size_block [of "q - 8" s] by (simp add: e)
  moreover have "bin_size (Suc (bin_down n)) = Suc q * 2 ^ s"
    using d(3,4) bin_size_block [of "Suc q - 8" s] by (simp add: e Suc_diff_le)
  ultimately show ?thesis using d(2,5) by simp
qed

lemma bin_up_down: "bin_up n = (if bin_size (bin_down n) = n then bin_down n else Suc (bin_down n))"
proof (cases "n < 8")
  case True
  then show ?thesis by (auto simp: bin_up_def bin_down_def bin_size_def)
next
  case False
  then have "8 \<le> n" by simp
  then obtain s q r where d: "s = msb_pos n - 3" "n = q * 2 ^ s + r" "8 \<le> q" "q \<le> 15" "r < 2 ^ s"
    "n div 2 ^ s = q" "n mod 2 ^ s = r" by (rule msb_split)
  have e: "bin_down n = 8 * (s + 1) + (q - 8)"
    using False by (simp add: bin_down_def Let_def d(6) flip: d(1))
  have "bin_size (bin_down n) = q * 2 ^ s" using d(3,4) bin_size_block [of "q - 8" s] by (simp add: e)
  then have "bin_size (bin_down n) = n \<longleftrightarrow> r = 0" using d(2) by auto
  moreover have "bin_up n = bin_down n + (if r \<noteq> 0 then 1 else 0)"
    using False by (simp add: bin_up_def bin_down_def Let_def d(7) flip: d(1))
  ultimately show ?thesis by simp
qed

lemma le_bin_down_iff [bin_arith]: "b \<le> bin_down n \<longleftrightarrow> bin_size b \<le> n"
  using bin_down_bounds [of n] bin_size_le_iff [of b "bin_down n"] bin_size_le_iff [of "Suc (bin_down n)" b]
  by linarith

lemma bin_up_le_iff [bin_arith]: "bin_up n \<le> b \<longleftrightarrow> n \<le> bin_size b"
  using bin_down_bounds [of n] bin_size_le_iff [of "Suc (bin_down n)" b] bin_size_less_iff [of "bin_down n" b]
    bin_size_le_iff [of "bin_down n" b]
  by (auto simp: bin_up_down)

lemma bin_down_eq_iff: "bin_down n = b \<longleftrightarrow> bin_size b \<le> n \<and> n < bin_size (Suc b)"
  using le_bin_down_iff [of b n] le_bin_down_iff [of "Suc b" n] by (auto simp: not_le)

lemma bin_down_bin_size [simp]: "bin_down (bin_size b) = b"
  by (simp add: bin_down_eq_iff bin_size_Suc)

lemma bin_down_mono: "m \<le> n \<Longrightarrow> bin_down m \<le> bin_down n"
  using bin_down_bounds [of m] by (simp add: le_bin_down_iff)

lemma bin_size_bin_up: "n \<le> bin_size (bin_up n)"
  using bin_up_le_iff [of n "bin_up n"] by simp

lemma bin_up_pos: "0 < n \<Longrightarrow> 0 < bin_up n"
  using bin_size_bin_up [of n] by (cases "bin_up n") (auto simp: bin_size_def)

text \<open>Rounding a size up to its class costs at most an eighth of it.\<close>

lemma bin_size_gap: "8 \<le> b \<Longrightarrow> 8 * (bin_size (Suc b) - bin_size b) \<le> bin_size b"
proof (cases b rule: bin_block_cases)
  case (2 s m)
  have "bin_size b = (8 + m) * 2 ^ s" using 2 bin_size_block [of m s] by simp
  moreover have "bin_size (Suc b) = (8 + Suc m) * 2 ^ s" using 2 bin_size_block [of "Suc m" s] by simp
  ultimately show ?thesis by (simp add: algebra_simps)
qed simp

lemma bin_size_overhead: "bin_size (bin_up n) \<le> n + n div 8"
proof (cases "bin_size (bin_down n) = n")
  case False
  have "8 \<le> n" using False by (cases "n < 8") (auto simp: bin_down_def bin_size_def)
  then have "8 \<le> bin_down n" by (simp add: le_bin_down_iff bin_size_def)
  from bin_size_gap [OF this] have "bin_size (Suc (bin_down n)) \<le> n + n div 8"
    using bin_down_bounds [of n] by linarith
  then show ?thesis using False by (simp add: bin_up_down)
qed (simp add: bin_up_down)

section \<open>The word functions compute the classes\<close>

lemma mantissa_consts: "MANTISSA_VALUE = 8" "MANTISSA_MASK = mask 3" "MANTISSA_BITS = 3"
  by (simp_all add: MANTISSA_VALUE_def MANTISSA_MASK_def MANTISSA_BITS_def push_bit_eq_mult mask_eq_exp_minus_1)

lemma unat_and_mask3: "unat ((w :: u32) AND mask 3) = unat w mod 8"
  using unat_take_bit_mod [of 3 w] by (simp add: take_bit_eq_mask)

lemma mantissa_start:
  assumes "8 \<le> unat (w :: u32)"
  shows "unat (31 - lzcnt_nonzero w - of_nat MANTISSA_BITS) = msb_pos (unat w) - 3"
    and "msb_pos (unat w) \<le> 31"
proof -
  define h where "h = msb_pos (unat w)"
  have h: "3 \<le> h" "h < 32"
    using msb_pos_ge [of 3 "unat w"] msb_pos_lt [of "unat w" 32] assms u32_lt_of_unat [of w]
    by (simp_all add: h_def)
  then show "msb_pos (unat w) \<le> 31" by (simp add: h_def)
  have z: "unat (lzcnt_nonzero w) = 31 - h"
    by (simp add: lzcnt_nonzero_def h_def unat_of_nat)
  have "unat (31 - lzcnt_nonzero w) = 31 - unat (lzcnt_nonzero w)"
    by (subst unat_minus_no_wrap) (use z h in \<open>auto simp: word_le_nat_alt\<close>)
  then have a: "unat (31 - lzcnt_nonzero w) = h" using z h by simp
  have "unat (31 - lzcnt_nonzero w - 3) = unat (31 - lzcnt_nonzero w) - unat (3 :: u32)"
    by (rule unat_minus_no_wrap) (use a h in \<open>auto simp: word_le_nat_alt\<close>)
  then show "unat (31 - lzcnt_nonzero w - of_nat MANTISSA_BITS) = msb_pos (unat w) - 3"
    using a by (simp add: mantissa_consts h_def)
qed

lemma and_low_mask_zero:
  assumes "s < 32"
  shows "(w :: u32) AND (push_bit s 1 - 1) = 0 \<longleftrightarrow> unat w mod 2 ^ s = 0"
proof -
  have "push_bit s 1 - 1 = (mask s :: u32)" by (simp add: mask_eq_exp_minus_1 push_bit_eq_mult)
  then have "w AND (push_bit s 1 - 1) = take_bit s w" by (simp add: take_bit_eq_mask)
  moreover have "take_bit s w = 0 \<longleftrightarrow> unat (take_bit s w) = 0" by (simp add: unat_eq_0)
  ultimately show ?thesis by (simp only: unat_take_bit_mod)
qed

lemma exp_bits:
  assumes "unat (s :: u32) \<le> 28"
  shows "unat (push_bit MANTISSA_BITS (s + 1)) = 8 * (unat s + 1)"
proof -
  have "unat (s + 1) = unat s + 1" using assms by (subst unat_plus_no_wrap) auto
  then show ?thesis using assms by (simp add: mantissa_consts push_bit_eq_mult unat_word_ariths)
qed

lemma uintToFloatRoundDown_unat: "unat (uintToFloatRoundDown w) = bin_down (unat w)"
proof (cases "unat w < 8")
  case True
  then have "w < MANTISSA_VALUE" by (simp add: mantissa_consts word_less_nat_alt)
  with True show ?thesis by (simp add: uintToFloatRoundDown_def bin_down_def)
next
  case False
  then have w8: "8 \<le> unat w" and nlt: "\<not> w < MANTISSA_VALUE"
    by (simp_all add: mantissa_consts word_less_nat_alt)
  define st where "st = 31 - lzcnt_nonzero w - of_nat MANTISSA_BITS"
  have st: "unat st = msb_pos (unat w) - 3" "unat st \<le> 28"
    using mantissa_start [OF w8] by (auto simp: st_def)
  from w8 obtain s q r where d: "s = msb_pos (unat w) - 3" "unat w = q * 2 ^ s + r" "8 \<le> q" "q \<le> 15"
    "r < 2 ^ s" "unat w div 2 ^ s = q" "unat w mod 2 ^ s = r" by (rule msb_split)
  have ss: "unat st = s" by (simp add: st d(1))
  have m: "unat (drop_bit (unat st) w AND MANTISSA_MASK) = q - 8"
    using d(3,4) by (simp add: mantissa_consts unat_and_mask3 unat_drop_bit_div ss d(6) mod_if)
  have e: "unat (push_bit MANTISSA_BITS (st + 1)) = 8 * (s + 1)"
    using exp_bits [OF st(2)] by (simp add: ss)
  have disj: "push_bit MANTISSA_BITS (st + 1) AND (drop_bit (unat st) w AND MANTISSA_MASK) = 0"
    by (rule bit_eqI) (auto simp: mantissa_consts bit_simps)
  have "push_bit MANTISSA_BITS (st + 1) OR (drop_bit (unat st) w AND MANTISSA_MASK)
      = push_bit MANTISSA_BITS (st + 1) + (drop_bit (unat st) w AND MANTISSA_MASK)"
    using disj by (simp add: disjunctive_add_eq_or)
  then have "unat (uintToFloatRoundDown w)
      = unat (push_bit MANTISSA_BITS (st + 1) + (drop_bit (unat st) w AND MANTISSA_MASK))"
    using nlt by (simp only: uintToFloatRoundDown_def Let_def st_def if_False)
  also have "\<dots> = 8 * (s + 1) + (q - 8)"
    by (subst unat_plus_no_wrap) (use e m d(4) st(2) ss in auto)
  also have "\<dots> = bin_down (unat w)" using False by (simp add: bin_down_def Let_def d(6) flip: d(1))
  finally show ?thesis .
qed

lemma uintToFloatRoundUp_unat: "unat (uintToFloatRoundUp w) = bin_up (unat w)"
proof (cases "unat w < 8")
  case True
  then have "w < MANTISSA_VALUE" by (simp add: mantissa_consts word_less_nat_alt)
  with True show ?thesis by (simp add: uintToFloatRoundUp_def bin_up_def)
next
  case False
  then have w8: "8 \<le> unat w" and nlt: "\<not> w < MANTISSA_VALUE"
    by (simp_all add: mantissa_consts word_less_nat_alt)
  define st where "st = 31 - lzcnt_nonzero w - of_nat MANTISSA_BITS"
  have st: "unat st = msb_pos (unat w) - 3" "unat st \<le> 28"
    using mantissa_start [OF w8] by (auto simp: st_def)
  from w8 obtain s q r where d: "s = msb_pos (unat w) - 3" "unat w = q * 2 ^ s + r" "8 \<le> q" "q \<le> 15"
    "r < 2 ^ s" "unat w div 2 ^ s = q" "unat w mod 2 ^ s = r" by (rule msb_split)
  have ss: "unat st = s" by (simp add: st d(1))
  define m where "m = drop_bit (unat st) w AND MANTISSA_MASK"
  have m: "unat m = q - 8"
    using d(3,4) by (simp add: m_def mantissa_consts unat_and_mask3 unat_drop_bit_div ss d(6) mod_if)
  define m' where "m' = (if w AND (push_bit (unat st) 1 - 1) \<noteq> 0 then m + 1 else m)"
  have "unat (m + 1) = q - 8 + 1" by (subst unat_plus_no_wrap) (use m d(4) in auto)
  then have m': "unat m' = q - 8 + (if r \<noteq> 0 then 1 else 0)"
    using and_low_mask_zero [of "unat st" w] st(2) m by (simp add: m'_def ss d(7))
  have e: "unat (push_bit MANTISSA_BITS (st + 1)) = 8 * (s + 1)"
    using exp_bits [OF st(2)] by (simp add: ss)
  have "unat (uintToFloatRoundUp w) = unat (push_bit MANTISSA_BITS (st + 1) + m')"
    using nlt by (simp only: uintToFloatRoundUp_def Let_def m'_def m_def st_def if_False)
  also have "\<dots> = 8 * (s + 1) + (q - 8) + (if r \<noteq> 0 then 1 else 0)"
    by (subst unat_plus_no_wrap) (use e m' d(4) st(2) ss in auto)
  also have "\<dots> = bin_up (unat w)"
    using False by (simp add: bin_up_def Let_def d(6,7) flip: d(1))
  finally show ?thesis .
qed

lemma floatToUint_unat:
  assumes "bin_size (unat b) < 2 ^ 32"
  shows "unat (floatToUint b) = bin_size (unat b)"
proof -
  have ex: "unat (drop_bit MANTISSA_BITS b) = unat b div 8"
    by (simp add: mantissa_consts unat_drop_bit_div)
  have mn: "unat (b AND MANTISSA_MASK) = unat b mod 8" by (simp add: mantissa_consts unat_and_mask3)
  show ?thesis
  proof (cases "unat b < 8")
    case True
    then have "drop_bit MANTISSA_BITS b = 0" using ex by (simp add: unat_eq_0 flip: unat_eq_0)
    then show ?thesis using mn True by (simp add: floatToUint_def bin_size_def)
  next
    case False
    then have pos: "0 < unat b div 8" by (simp add: div_greater_zero_iff)
    then have nz: "drop_bit MANTISSA_BITS b \<noteq> 0" using ex by auto
    then have ex1: "unat (drop_bit MANTISSA_BITS b - 1) = unat b div 8 - 1"
      using ex pos by (subst unat_minus_no_wrap) (simp_all add: word_le_nat_alt Suc_le_eq)
    have "(b AND MANTISSA_MASK) AND MANTISSA_VALUE = 0"
      by (simp add: mantissa_consts and.assoc mask_eq_exp_minus_1)
    then have "(b AND MANTISSA_MASK) OR MANTISSA_VALUE = (b AND MANTISSA_MASK) + MANTISSA_VALUE"
      by (simp add: disjunctive_add_eq_or)
    then have mo: "unat ((b AND MANTISSA_MASK) OR MANTISSA_VALUE) = unat b mod 8 + 8"
      using mn by (simp add: mantissa_consts) (subst unat_plus_no_wrap, auto)
    define x where "x = (b AND MANTISSA_MASK) OR MANTISSA_VALUE"
    have bs: "bin_size (unat b) = unat x * 2 ^ (unat b div 8 - 1)"
      using False by (simp add: bin_size_def x_def mo)
    have "floatToUint b = push_bit (unat b div 8 - 1) x"
      using nz by (simp only: floatToUint_def Let_def if_False ex1 x_def)
    then show ?thesis using assms unat_push_bit_no_wrap [of x "unat b div 8 - 1"] by (simp add: bs)
  qed
qed

section \<open>The bit scans find the bit they look for\<close>

lemma unat_lsb_pos_lt: "(w :: u32) \<noteq> 0 \<Longrightarrow> lsb_pos (unat w) < 32"
proof -
  assume "w \<noteq> 0"
  then have "bit (unat w) (lsb_pos (unat w))" using lsb_pos_spec [of "unat w"] by (simp add: unat_gt_0)
  then have "bit w (lsb_pos (unat w))" by (simp add: bit_unsigned_iff)
  then show ?thesis using bit_imp_le_length by fastforce
qed

lemma tzcnt_nonzero_spec:
  assumes "(w :: u32) \<noteq> 0"
  shows "bit w (unat (tzcnt_nonzero w))" and "unat (tzcnt_nonzero w) < 32"
    and "k < unat (tzcnt_nonzero w) \<Longrightarrow> \<not> bit w k"
proof -
  have u: "unat (tzcnt_nonzero w) = lsb_pos (unat w)"
    using unat_lsb_pos_lt [OF assms] by (simp add: tzcnt_nonzero_def unat_of_nat)
  have s: "bit (unat w) (lsb_pos (unat w))" "\<forall>k < lsb_pos (unat w). \<not> bit (unat w) k"
    using lsb_pos_spec [of "unat w"] assms by (auto simp: unat_gt_0)
  show "bit w (unat (tzcnt_nonzero w))" using s(1) by (simp add: u bit_unsigned_iff)
  show "unat (tzcnt_nonzero w) < 32" using unat_lsb_pos_lt [OF assms] by (simp add: u)
  show "\<not> bit w k" if "k < unat (tzcnt_nonzero w)" using s(2) that by (simp add: u bit_unsigned_iff)
qed

lemma lzcnt_nonzero_spec:
  assumes "(w :: u32) \<noteq> 0"
  shows "bit w (unat (31 - lzcnt_nonzero w))" and "unat (31 - lzcnt_nonzero w) < 32"
    and "unat (31 - lzcnt_nonzero w) < k \<Longrightarrow> \<not> bit w k"
proof -
  define h where "h = msb_pos (unat w)"
  have pos: "0 < unat w" using assms by (simp add: unat_gt_0)
  have h: "h < 32" using msb_pos_lt [OF pos, of 32] u32_lt_of_unat [of w] by (simp add: h_def)
  have "unat (lzcnt_nonzero w) = 31 - h" by (simp add: lzcnt_nonzero_def h_def unat_of_nat)
  then have u: "unat (31 - lzcnt_nonzero w) = h"
    using h by (subst unat_minus_no_wrap) (auto simp: word_le_nat_alt)
  have b: "2 ^ h \<le> unat w" "unat w < 2 ^ Suc h" using msb_pos_bounds [OF pos] by (auto simp: h_def)
  then have "unat w div 2 ^ h = 1" by (simp add: div_nat_eqI)
  then have "bit (unat w) h" by (simp add: bit_iff_odd)
  then show "bit w (unat (31 - lzcnt_nonzero w))" by (simp add: u bit_unsigned_iff)
  show "unat (31 - lzcnt_nonzero w) < 32" using h by (simp add: u)
  show "\<not> bit w k" if "unat (31 - lzcnt_nonzero w) < k"
  proof -
    have "2 ^ Suc h \<le> (2 :: nat) ^ k" using that u by (intro power_increasing) auto
    then have "unat w < 2 ^ k" using b(2) by linarith
    then have "\<not> bit (unat w) k" by (simp add: bit_iff_odd)
    then show ?thesis by (simp add: bit_unsigned_iff)
  qed
qed

lemma bits_after:
  assumes "unat (st :: u32) < 32"
  shows "bit (m AND NOT (push_bit (unat st) 1 - 1) :: u32) k \<longleftrightarrow> bit m k \<and> unat st \<le> k"
proof -
  have "push_bit (unat st) 1 - 1 = (mask (unat st) :: u32)"
    by (simp add: mask_eq_exp_minus_1 push_bit_eq_mult)
  then show ?thesis using assms bit_imp_le_length [of m k] by (auto simp: bit_simps)
qed

lemma findLowestSetBitAfter_NO_SPACE_iff:
  assumes "unat st < 32"
  shows "findLowestSetBitAfter m st = NO_SPACE \<longleftrightarrow> (\<forall>k. unat st \<le> k \<longrightarrow> \<not> bit m k)"
proof -
  define a where "a = m AND NOT (push_bit (unat st) 1 - 1)"
  have "a = 0 \<longleftrightarrow> (\<forall>k. \<not> bit a k)" by (metis bit_0_eq bit_eqI bot_apply bot_bool_def)
  then have "a = 0 \<longleftrightarrow> (\<forall>k. unat st \<le> k \<longrightarrow> \<not> bit m k)" using bits_after [OF assms, of m] by (auto simp: a_def)
  moreover have "tzcnt_nonzero a \<noteq> NO_SPACE" if "a \<noteq> 0"
    using tzcnt_nonzero_spec(2) [OF that] by (auto simp: NO_SPACE_def)
  moreover have "findLowestSetBitAfter m st = (if a = 0 then NO_SPACE else tzcnt_nonzero a)"
    by (simp only: findLowestSetBitAfter_def Let_def a_def)
  ultimately show ?thesis by auto
qed

lemma findLowestSetBitAfter_found:
  assumes "unat st < 32" and "findLowestSetBitAfter m st \<noteq> NO_SPACE"
  shows "bit m (unat (findLowestSetBitAfter m st))" "unat st \<le> unat (findLowestSetBitAfter m st)"
    "unat (findLowestSetBitAfter m st) < 32"
    "unat st \<le> k \<Longrightarrow> k < unat (findLowestSetBitAfter m st) \<Longrightarrow> \<not> bit m k"
proof -
  define a where "a = m AND NOT (push_bit (unat st) 1 - 1)"
  have nz: "a \<noteq> 0" and r: "findLowestSetBitAfter m st = tzcnt_nonzero a"
    using assms(2) by (auto simp: findLowestSetBitAfter_def Let_def a_def split: if_splits)
  note t = tzcnt_nonzero_spec [OF nz] and ba = bits_after [OF assms(1), of m, folded a_def]
  show "bit m (unat (findLowestSetBitAfter m st))" "unat st \<le> unat (findLowestSetBitAfter m st)"
    using t(1) ba by (auto simp: r)
  show "unat (findLowestSetBitAfter m st) < 32" using t(2) by (simp add: r)
  show "\<not> bit m k" if "unat st \<le> k" "k < unat (findLowestSetBitAfter m st)"
    using t(3) [of k] that ba by (auto simp: r)
qed

section \<open>Properties\<close>

text \<open>
  C36: The bit manipulations of \<open>SmallFloat\<close> compute the size classes: class \<open>b\<close> stands for
  the size \<open>floatToUint b\<close>; \<open>uintToFloatRoundDown\<close> gives the last class that is not larger
  than a size and \<open>uintToFloatRoundUp\<close> the first one that is not smaller, for every 32-bit
  size (so a block filed under the first always serves a request filed under the second).
\<close>

theorem SmallFloat_classes:
  "(b \<le> unat (uintToFloatRoundDown w) \<longleftrightarrow> bin_size b \<le> unat w)
   \<and> (unat (uintToFloatRoundUp w) \<le> b \<longleftrightarrow> unat w \<le> bin_size b)
   \<and> (bin_size (unat c) < 2 ^ 32 \<longrightarrow> unat (floatToUint c) = bin_size (unat c))"
  by (simp add: uintToFloatRoundDown_unat uintToFloatRoundUp_unat le_bin_down_iff bin_up_le_iff floatToUint_unat)

theorem SmallFloat_classes_witness: "bin_size 64 < 2 ^ 32 \<and> unat (floatToUint 64) = 1024 \<and> unat (uintToFloatRoundUp 1000) \<le> 64"
proof -
  have b: "bin_size 64 = 1024" by code_simp
  show ?thesis using SmallFloat_classes [of 64 1000 64] by (simp add: b)
qed

end
