(* ===== verification/Offset_Core.thy ===== *)
theory Offset_Core
  imports Small_Float
begin

text \<open>
  The class \<open>__Allocator\<close> of \<open>mooncake-store/src/offset_allocator.cpp\<close>: the state of the
  two-level segregated fit allocator and its operations, with every field at the width the
  code gives it. The arrays are total functions on 32-bit indices; the invariant of
  \<open>Offset_Invariant\<close> confines the indices that are ever used to the arrays' bounds.
  The macro \<open>OFFSET_ALLOCATOR_NOT_ROUND_UP\<close> is not set, and the assertions, which a release
  build compiles to nothing, are not part of the model.
\<close>

section \<open>State\<close>

definition NUM_TOP_BINS :: u32 where "NUM_TOP_BINS = 32"
definition BINS_PER_LEAF :: u32 where "BINS_PER_LEAF = 8"
definition TOP_BINS_INDEX_SHIFT :: nat where "TOP_BINS_INDEX_SHIFT = 3"
definition LEAF_BINS_INDEX_MASK :: u32 where "LEAF_BINS_INDEX_MASK = 0x7"
definition NUM_LEAF_BINS :: u32 where "NUM_LEAF_BINS = NUM_TOP_BINS * BINS_PER_LEAF"

record OffsetAllocation =
  a_offset :: u32
  a_metadata :: u32

definition no_space :: OffsetAllocation where
  "no_space = \<lparr>a_offset = NO_SPACE, a_metadata = NO_SPACE\<rparr>"

definition isNoSpace :: "OffsetAllocation \<Rightarrow> bool" where
  "isNoSpace a \<longleftrightarrow> a_offset a = NO_SPACE"

definition getOffset :: "OffsetAllocation \<Rightarrow> u64" where
  "getOffset a = ucast (a_offset a)"

definition Node_unused :: u32 where "Node_unused = 0xffffffff"

record Node =
  dataOffset :: u32
  dataSize :: u32
  binListPrev :: u32
  binListNext :: u32
  neighborPrev :: u32
  neighborNext :: u32
  used :: bool

definition Node_default :: Node where
  "Node_default = \<lparr>dataOffset = 0, dataSize = 0, binListPrev = Node_unused, binListNext = Node_unused,
     neighborPrev = Node_unused, neighborNext = Node_unused, used = False\<rparr>"

text \<open>\<open>m_nodes_set\<close> is false when the pointer \<open>m_nodes\<close> is null, as in an object moved from.\<close>

record Allocator =
  m_size :: u32
  m_current_capacity :: u32
  m_max_capacity :: u32
  m_freeStorage :: u32
  m_usedBinsTop :: u32
  m_usedBins :: "u32 \<Rightarrow> u8"
  m_binIndices :: "u32 \<Rightarrow> u32"
  m_nodes_set :: bool
  m_nodes :: "u32 \<Rightarrow> Node"
  m_freeNodes :: "u32 \<Rightarrow> u32"
  m_freeOffset :: u32

definition upd_node :: "u32 \<Rightarrow> (Node \<Rightarrow> Node) \<Rightarrow> Allocator \<Rightarrow> Allocator" where
  "upd_node i f s = s\<lparr>m_nodes := (m_nodes s)(i := f (m_nodes s i))\<rparr>"

section \<open>Operations\<close>

text \<open>Push a node index on the stack of unused node slots.\<close>

definition push_free_node :: "u32 \<Rightarrow> Allocator \<Rightarrow> Allocator" where
  "push_free_node i s =
     s\<lparr>m_freeOffset := m_freeOffset s - 1, m_freeNodes := (m_freeNodes s)(m_freeOffset s - 1 := i)\<rparr>"

text \<open>The bin \<open>8 * top + leaf\<close> has become empty: clear its bit, and the bit of its group.\<close>

definition clear_bin_bits :: "u32 \<Rightarrow> u32 \<Rightarrow> Allocator \<Rightarrow> Allocator" where
  "clear_bin_bits topBin leafBin s =
     (let s = s\<lparr>m_usedBins := (m_usedBins s)(topBin := m_usedBins s topBin AND NOT (push_bit (unat leafBin) 1))\<rparr>
      in if m_usedBins s topBin = 0
         then s\<lparr>m_usedBinsTop := m_usedBinsTop s AND NOT (push_bit (unat topBin) 1)\<rparr>
         else s)"

definition insertNodeIntoBin :: "u32 \<Rightarrow> u32 \<Rightarrow> Allocator \<Rightarrow> Allocator \<times> u32" where
  "insertNodeIntoBin sz off s =
     (let binIndex = uintToFloatRoundDown sz;
          topBinIndex = drop_bit TOP_BINS_INDEX_SHIFT binIndex;
          leafBinIndex = binIndex AND LEAF_BINS_INDEX_MASK;
          s = (if m_binIndices s binIndex = Node_unused
               then s\<lparr>m_usedBins := (m_usedBins s)
                        (topBinIndex := m_usedBins s topBinIndex OR push_bit (unat leafBinIndex) 1),
                      m_usedBinsTop := m_usedBinsTop s OR push_bit (unat topBinIndex) 1\<rparr>
               else s);
          topNodeIndex = m_binIndices s binIndex;
          nodeIndex = m_freeNodes s (m_freeOffset s);
          s = s\<lparr>m_freeOffset := m_freeOffset s + 1\<rparr>;
          s = upd_node nodeIndex
                (\<lambda>_. Node_default\<lparr>dataOffset := off, dataSize := sz, binListNext := topNodeIndex\<rparr>) s;
          s = (if topNodeIndex \<noteq> Node_unused
               then upd_node topNodeIndex (binListPrev_update (\<lambda>_. nodeIndex)) s else s);
          s = s\<lparr>m_binIndices := (m_binIndices s)(binIndex := nodeIndex)\<rparr>;
          s = s\<lparr>m_freeStorage := m_freeStorage s + sz\<rparr>
      in (s, nodeIndex))"

definition removeNodeFromBin :: "u32 \<Rightarrow> Allocator \<Rightarrow> Allocator" where
  "removeNodeFromBin nodeIndex s =
     (let node = m_nodes s nodeIndex;
          s = (if binListPrev node \<noteq> Node_unused then
                 let s = upd_node (binListPrev node) (binListNext_update (\<lambda>_. binListNext node)) s
                 in if binListNext node \<noteq> Node_unused
                    then upd_node (binListNext node) (binListPrev_update (\<lambda>_. binListPrev node)) s
                    else s
               else
                 let binIndex = uintToFloatRoundDown (dataSize node);
                     topBinIndex = drop_bit TOP_BINS_INDEX_SHIFT binIndex;
                     leafBinIndex = binIndex AND LEAF_BINS_INDEX_MASK;
                     s = s\<lparr>m_binIndices := (m_binIndices s)(binIndex := binListNext node)\<rparr>;
                     s = (if binListNext node \<noteq> Node_unused
                          then upd_node (binListNext node) (binListPrev_update (\<lambda>_. Node_unused)) s
                          else s)
                 in if m_binIndices s binIndex = Node_unused
                    then clear_bin_bits topBinIndex leafBinIndex s else s);
          s = push_free_node nodeIndex s
      in s\<lparr>m_freeStorage := m_freeStorage s - dataSize node\<rparr>)"

text \<open>
  \<open>reset\<close>: the node array is default initialised; the entries of the stack of free slots
  above the current capacity are indeterminate in C++ and are never read before they are
  written (they are 0 here).
\<close>

definition reset :: "Allocator \<Rightarrow> Allocator" where
  "reset s =
     (let s = s\<lparr>m_freeStorage := 0, m_usedBinsTop := 0, m_freeOffset := 0,
               m_usedBins := (\<lambda>_. 0), m_binIndices := (\<lambda>_. Node_unused),
               m_nodes_set := True, m_nodes := (\<lambda>_. Node_default),
               m_freeNodes := (\<lambda>i. if i < m_current_capacity s then i else 0)\<rparr>
      in fst (insertNodeIntoBin (m_size s) 0 s))"

definition Allocator_new :: "u32 \<Rightarrow> u32 \<Rightarrow> u32 \<Rightarrow> Allocator" where
  "Allocator_new sz init_capacity max_capacity =
     reset \<lparr>m_size = sz, m_current_capacity = init_capacity,
            m_max_capacity = max init_capacity max_capacity,
            m_freeStorage = 0, m_usedBinsTop = 0, m_usedBins = (\<lambda>_. 0), m_binIndices = (\<lambda>_. 0),
            m_nodes_set = False, m_nodes = (\<lambda>_. Node_default), m_freeNodes = (\<lambda>_. 0), m_freeOffset = 0\<rparr>"

text \<open>The move constructor: the new object and what is left of the old one.\<close>

definition Allocator_move :: "Allocator \<Rightarrow> Allocator \<times> Allocator" where
  "Allocator_move other =
     (other, other\<lparr>m_nodes_set := False, m_freeOffset := 0, m_current_capacity := 0,
                   m_max_capacity := 0, m_usedBinsTop := 0\<rparr>)"

text \<open>\<open>allocate\<close>, first part: out of node slots, or one more slot is put into use.\<close>

definition grow_capacity :: "Allocator \<Rightarrow> Allocator" where
  "grow_capacity s =
     (if m_freeOffset s = m_current_capacity s
      then s\<lparr>m_freeNodes := (m_freeNodes s)(m_current_capacity s := m_current_capacity s),
             m_current_capacity := m_current_capacity s + 1\<rparr>
      else s)"

text \<open>Second part: the smallest non-empty bin whose blocks all fit, as (top, leaf).\<close>

definition find_bin :: "u32 \<Rightarrow> Allocator \<Rightarrow> (u32 \<times> u32) option" where
  "find_bin minBinIndex s =
     (let minTopBinIndex = drop_bit TOP_BINS_INDEX_SHIFT minBinIndex;
          minLeafBinIndex = minBinIndex AND LEAF_BINS_INDEX_MASK;
          leafBinIndex =
            (if m_usedBinsTop s AND push_bit (unat minTopBinIndex) 1 \<noteq> 0
             then findLowestSetBitAfter (ucast (m_usedBins s minTopBinIndex)) minLeafBinIndex
             else NO_SPACE)
      in if leafBinIndex = NO_SPACE then
           (let topBinIndex = findLowestSetBitAfter (m_usedBinsTop s) (minTopBinIndex + 1)
            in if topBinIndex = NO_SPACE then None
               else Some (topBinIndex, tzcnt_nonzero (ucast (m_usedBins s topBinIndex))))
         else Some (minTopBinIndex, leafBinIndex))"

text \<open>Third part: pop the first node of the bin and take it into use.\<close>

definition pop_bin :: "u32 \<Rightarrow> u32 \<Rightarrow> u32 \<Rightarrow> Allocator \<Rightarrow> Allocator" where
  "pop_bin topBin leafBin roundupSize s =
     (let binIndex = push_bit TOP_BINS_INDEX_SHIFT topBin OR leafBin;
          nodeIndex = m_binIndices s binIndex;
          node = m_nodes s nodeIndex;
          nodeTotalSize = dataSize node;
          s = upd_node nodeIndex (\<lambda>n. n\<lparr>dataSize := roundupSize, used := True\<rparr>) s;
          s = s\<lparr>m_binIndices := (m_binIndices s)(binIndex := binListNext node)\<rparr>;
          s = (if binListNext node \<noteq> Node_unused
               then upd_node (binListNext node) (binListPrev_update (\<lambda>_. Node_unused)) s else s);
          s = s\<lparr>m_freeStorage := m_freeStorage s - nodeTotalSize\<rparr>
      in if m_binIndices s binIndex = Node_unused then clear_bin_bits topBin leafBin s else s)"

text \<open>Fourth part: what is left of the node becomes a free node behind it.\<close>

definition split_remainder :: "u32 \<Rightarrow> u32 \<Rightarrow> Allocator \<Rightarrow> Allocator" where
  "split_remainder nodeIndex reminderSize s =
     (if reminderSize > 0 then
        let node = m_nodes s nodeIndex;
            (s, newNodeIndex) = insertNodeIntoBin reminderSize (dataOffset node + dataSize node) s;
            next = neighborNext (m_nodes s nodeIndex);
            s = (if next \<noteq> Node_unused
                 then upd_node next (neighborPrev_update (\<lambda>_. newNodeIndex)) s else s);
            s = upd_node newNodeIndex (neighborPrev_update (\<lambda>_. nodeIndex)) s;
            s = upd_node newNodeIndex (neighborNext_update (\<lambda>_. next)) s
        in upd_node nodeIndex (neighborNext_update (\<lambda>_. newNodeIndex)) s
      else s)"

definition allocate :: "u32 \<Rightarrow> Allocator \<Rightarrow> Allocator \<times> OffsetAllocation" where
  "allocate sz s =
     (if m_freeOffset s = m_max_capacity s then (s, no_space)
      else
        let s = grow_capacity s;
            minBinIndex = uintToFloatRoundUp sz
        in case find_bin minBinIndex s of
             None \<Rightarrow> (s, no_space)
           | Some (topBinIndex, leafBinIndex) \<Rightarrow>
               let nodeIndex = m_binIndices s (push_bit TOP_BINS_INDEX_SHIFT topBinIndex OR leafBinIndex);
                   nodeTotalSize = dataSize (m_nodes s nodeIndex);
                   roundupSize = floatToUint minBinIndex;
                   s = pop_bin topBinIndex leafBinIndex roundupSize s;
                   reminderSize = nodeTotalSize - roundupSize;
                   s = split_remainder nodeIndex reminderSize s
               in (s, \<lparr>a_offset = dataOffset (m_nodes s nodeIndex), a_metadata = nodeIndex\<rparr>))"

text \<open>\<open>free\<close>: merge with the free neighbours, then put the combined node into its bin.\<close>

definition merge_prev :: "u32 \<Rightarrow> Allocator \<Rightarrow> Allocator \<times> u32 \<times> u32" where
  "merge_prev nodeIndex s =
     (let node = m_nodes s nodeIndex; p = neighborPrev node
      in if p \<noteq> Node_unused \<and> \<not> used (m_nodes s p) then
           let prevNode = m_nodes s p;
               s = removeNodeFromBin p s;
               s = upd_node nodeIndex (neighborPrev_update (\<lambda>_. neighborPrev (m_nodes s p))) s
           in (s, dataOffset prevNode, dataSize node + dataSize prevNode)
         else (s, dataOffset node, dataSize node))"

definition merge_next :: "u32 \<Rightarrow> u32 \<Rightarrow> Allocator \<Rightarrow> Allocator \<times> u32" where
  "merge_next nodeIndex sz s =
     (let node = m_nodes s nodeIndex; n = neighborNext node
      in if n \<noteq> Node_unused \<and> \<not> used (m_nodes s n) then
           let nextNode = m_nodes s n;
               s = removeNodeFromBin n s;
               s = upd_node nodeIndex (neighborNext_update (\<lambda>_. neighborNext (m_nodes s n))) s
           in (s, sz + dataSize nextNode)
         else (s, sz))"

definition connect_neighbors :: "u32 \<Rightarrow> u32 \<Rightarrow> u32 \<Rightarrow> Allocator \<Rightarrow> Allocator" where
  "connect_neighbors i prv nxt s =
     (let s = (if nxt \<noteq> Node_unused
               then upd_node nxt (neighborPrev_update (\<lambda>_. i)) (upd_node i (neighborNext_update (\<lambda>_. nxt)) s)
               else s)
      in if prv \<noteq> Node_unused
         then upd_node prv (neighborNext_update (\<lambda>_. i)) (upd_node i (neighborPrev_update (\<lambda>_. prv)) s)
         else s)"

definition free :: "OffsetAllocation \<Rightarrow> Allocator \<Rightarrow> Allocator" where
  "free allocation s =
     (if \<not> m_nodes_set s then s
      else
        let nodeIndex = a_metadata allocation;
            (s, off, sz) = merge_prev nodeIndex s;
            (s, sz) = merge_next nodeIndex sz s;
            nxt = neighborNext (m_nodes s nodeIndex);
            prv = neighborPrev (m_nodes s nodeIndex);
            s = push_free_node nodeIndex s;
            (s, combinedNodeIndex) = insertNodeIntoBin sz off s
        in connect_neighbors combinedNodeIndex prv nxt s)"

definition allocationSize :: "OffsetAllocation \<Rightarrow> Allocator \<Rightarrow> u32" where
  "allocationSize allocation s =
     (if a_metadata allocation = NO_SPACE then 0
      else if \<not> m_nodes_set s then 0
      else dataSize (m_nodes s (a_metadata allocation)))"

record OffsetAllocStorageReport =
  totalFreeSpace :: u64
  largestFreeRegion :: u64

definition storageReport :: "Allocator \<Rightarrow> OffsetAllocStorageReport" where
  "storageReport s =
     (if m_freeOffset s < m_max_capacity s then
        \<lparr>totalFreeSpace = ucast (m_freeStorage s),
         largestFreeRegion =
           (if m_usedBinsTop s \<noteq> 0 then
              let topBinIndex = 31 - lzcnt_nonzero (m_usedBinsTop s);
                  leafBinIndex = 31 - lzcnt_nonzero (ucast (m_usedBins s topBinIndex))
              in ucast (floatToUint (push_bit TOP_BINS_INDEX_SHIFT topBinIndex OR leafBinIndex))
            else 0)\<rparr>
      else \<lparr>totalFreeSpace = 0, largestFreeRegion = 0\<rparr>)"

text \<open>\<open>storageReportFull\<close>: walk the list of each bin; the walk ends only if the list does.\<close>

partial_function (option) count_bin :: "Allocator \<Rightarrow> u32 \<Rightarrow> u32 \<Rightarrow> u32 option" where
  "count_bin s nodeIndex count =
     (if nodeIndex \<noteq> Node_unused
      then count_bin s (binListNext (m_nodes s nodeIndex)) (count + 1)
      else Some count)"

definition storageReportFull :: "Allocator \<Rightarrow> u32 \<Rightarrow> (u64 \<times> u64) option" where
  "storageReportFull s i =
     map_option (\<lambda>count. (ucast (floatToUint i), ucast count)) (count_bin s (m_binIndices s i) 0)"

end
