(* ===== verification/Linked_Lists.thy ===== *)
theory Linked_Lists
  imports Main
begin

text \<open>
  Doubly linked lists threaded through an array of nodes by index, as the offset allocator
  keeps them (the list of the free nodes of each bin, and the list of all nodes in address
  order). The links are given by two functions from an index to an index, a sentinel marks
  the ends, and the predicate below says which list of indices the links spell out.
\<close>

section \<open>Segments of a doubly linked list\<close>

text \<open>
  \<open>dseg pv nx p s xs l e\<close>: following \<open>nx\<close> from \<open>s\<close> visits exactly \<open>xs\<close> and arrives at \<open>e\<close>;
  each node points back with \<open>pv\<close>, the first to \<open>p\<close>; \<open>l\<close> is the last node, or \<open>p\<close> if
  there is none.
\<close>

fun dseg :: "('a \<Rightarrow> 'a) \<Rightarrow> ('a \<Rightarrow> 'a) \<Rightarrow> 'a \<Rightarrow> 'a \<Rightarrow> 'a list \<Rightarrow> 'a \<Rightarrow> 'a \<Rightarrow> bool" where
  "dseg pv nx p s [] l e \<longleftrightarrow> l = p \<and> s = e"
| "dseg pv nx p s (x # xs) l e \<longleftrightarrow> s = x \<and> pv x = p \<and> dseg pv nx x (nx x) xs l e"

text \<open>A whole list: from the sentinel to the sentinel.\<close>

definition dlist :: "'a \<Rightarrow> ('a \<Rightarrow> 'a) \<Rightarrow> ('a \<Rightarrow> 'a) \<Rightarrow> 'a \<Rightarrow> 'a list \<Rightarrow> bool" where
  "dlist nil pv nx s xs \<longleftrightarrow> (\<exists>l. dseg pv nx nil s xs l nil) \<and> nil \<notin> set xs"

lemma dseg_append:
  "dseg pv nx p s (xs @ ys) l e \<longleftrightarrow> (\<exists>m t. dseg pv nx p s xs m t \<and> dseg pv nx m t ys l e)"
  by (induction xs arbitrary: p s) auto

lemma dseg_last: "dseg pv nx p s xs l e \<Longrightarrow> l = (if xs = [] then p else last xs)"
  by (induction xs arbitrary: p s) auto

lemma dseg_transfer:
  "dseg pv nx p s xs l e \<Longrightarrow> (\<And>x. x \<in> set xs \<Longrightarrow> pv' x = pv x) \<Longrightarrow>
   (\<And>x. x \<in> set xs \<Longrightarrow> nx' x = nx x) \<Longrightarrow> dseg pv' nx' p s xs l e"
  by (induction xs arbitrary: p s) auto

lemma dlist_transfer:
  "dlist nil pv nx s xs \<Longrightarrow> (\<And>x. x \<in> set xs \<Longrightarrow> pv' x = pv x) \<Longrightarrow>
   (\<And>x. x \<in> set xs \<Longrightarrow> nx' x = nx x) \<Longrightarrow> dlist nil pv' nx' s xs"
  unfolding dlist_def by (blast intro: dseg_transfer)

lemma dlist_Nil [simp]: "dlist nil pv nx s [] \<longleftrightarrow> s = nil"
  by (auto simp: dlist_def)

lemma dlist_head: "dlist nil pv nx s xs \<Longrightarrow> s = (if xs = [] then nil else hd xs)"
  by (cases xs) (auto simp: dlist_def)

lemma dlist_Cons_head: "dlist nil pv nx s (x # xs) \<Longrightarrow> s = x \<and> pv x = nil \<and> x \<noteq> nil"
  by (auto simp: dlist_def)

lemma dlist_nil_iff: "dlist nil pv nx s xs \<Longrightarrow> s = nil \<longleftrightarrow> xs = []"
  by (cases xs) (auto simp: dlist_def)

text \<open>The links of a node inside a list.\<close>

lemma dlist_mid:
  assumes "dlist nil pv nx s (xs @ x # ys)"
  shows "pv x = (if xs = [] then nil else last xs)" "nx x = (if ys = [] then nil else hd ys)"
proof -
  from assms obtain l m where m: "dseg pv nx nil s xs m x" "pv x = m" "dseg pv nx x (nx x) ys l nil"
    by (auto simp: dlist_def dseg_append)
  show "pv x = (if xs = [] then nil else last xs)" using dseg_last [OF m(1)] m(2) by simp
  show "nx x = (if ys = [] then nil else hd ys)" using m(3) by (cases ys) auto
qed

section \<open>Updating the links\<close>

text \<open>Inserting a node in front.\<close>

lemma dlist_push:
  assumes d: "dlist nil pv nx s xs" and "distinct xs" and "x \<notin> set xs" and "x \<noteq> nil"
    and pv': "pv' x = nil" "s \<noteq> nil \<Longrightarrow> pv' s = x" "\<And>y. y \<in> set xs \<Longrightarrow> y \<noteq> s \<Longrightarrow> pv' y = pv y"
    and nx': "nx' x = s" "\<And>y. y \<in> set xs \<Longrightarrow> nx' y = nx y"
  shows "dlist nil pv' nx' x (x # xs)"
proof -
  from d obtain l where l: "dseg pv nx nil s xs l nil" and n: "nil \<notin> set xs" by (auto simp: dlist_def)
  have "\<exists>l'. dseg pv' nx' x s xs l' nil"
  proof (cases xs)
    case Nil
    with l show ?thesis by simp
  next
    case (Cons y ys)
    with l n have y: "s = y" "y \<noteq> nil" "dseg pv nx y (nx y) ys l nil" by auto
    have ny: "y \<notin> set ys" using assms(2) Cons by simp
    from y(3) have "dseg pv' nx' y (nx y) ys l nil"
      by (rule dseg_transfer) (use pv'(3) nx'(2) Cons y(1) ny in auto)
    then show ?thesis using Cons y pv'(2) nx'(2) by auto
  qed
  then show ?thesis using assms n by (auto simp: dlist_def)
qed

text \<open>Unlinking a node anywhere: the neighbours are made to point at each other.\<close>

lemma dlist_remove:
  assumes d: "dlist nil pv nx s (xs @ x # ys)" and dist: "distinct (xs @ x # ys)"
    and nx': "xs \<noteq> [] \<Longrightarrow> nx' (pv x) = nx x" "\<And>y. y \<in> set xs \<union> set ys \<Longrightarrow> y \<noteq> pv x \<Longrightarrow> nx' y = nx y"
    and pv': "nx x \<noteq> nil \<Longrightarrow> pv' (nx x) = pv x" "\<And>y. y \<in> set xs \<union> set ys \<Longrightarrow> y \<noteq> nx x \<Longrightarrow> pv' y = pv y"
    and s': "s' = (if xs = [] then nx x else s)"
  shows "dlist nil pv' nx' s' (xs @ ys)"
proof -
  from d obtain l where l: "dseg pv nx nil s (xs @ x # ys) l nil" and n: "nil \<notin> set (xs @ x # ys)"
    by (auto simp: dlist_def)
  then obtain m where m: "dseg pv nx nil s xs m x" "pv x = m" "dseg pv nx x (nx x) ys l nil"
    by (auto simp: dseg_append)
  have mlast: "m = (if xs = [] then nil else last xs)" using dseg_last [OF m(1)] by simp
  have nxx: "nx x = (if ys = [] then nil else hd ys)" using m(3) by (cases ys) auto
  have right: "\<exists>l'. dseg pv' nx' m (nx x) ys l' nil"
  proof (cases ys)
    case Nil
    with m(3) show ?thesis by simp
  next
    case (Cons y zs)
    with m(3) have y: "nx x = y" "dseg pv nx y (nx y) zs l nil" by auto
    have "y \<noteq> nil" using n Cons by auto
    then have 1: "pv' y = m" using pv'(1) y m(2) by simp
    have "pv x \<in> insert nil (set xs)" using mlast m(2) by auto
    then have ys_ne: "z \<noteq> pv x" if "z \<in> set ys" for z
      using that dist n by auto
    have 2: "nx' y = nx y" using nx'(2) [of y] ys_ne [of y] Cons by simp
    from y(2) have "dseg pv' nx' y (nx y) zs l nil"
      by (rule dseg_transfer) (use pv'(2) nx'(2) ys_ne dist Cons y(1) in auto)
    then show ?thesis using Cons y 1 2 by auto
  qed
  have left: "dseg pv' nx' nil s' xs m (nx x)"
  proof (cases xs rule: rev_cases)
    case Nil
    with s' mlast show ?thesis by simp
  next
    case (snoc zs z)
    then have z: "m = z" "z = pv x" using mlast m(2) by auto
    have seg: "dseg pv nx nil s zs (pv z) z" using m(1) snoc by (auto simp: dseg_append)
    have ne: "y \<noteq> nx x" if "y \<in> set xs" for y
      using that nxx dist n by (auto split: if_splits)
    from seg have "dseg pv' nx' nil s zs (pv z) z"
      by (rule dseg_transfer) (use pv'(2) nx'(2) ne snoc dist z in auto)
    moreover have "pv' z = pv z" using pv'(2) [of z] ne [of z] snoc by simp
    moreover have "nx' z = nx x" using nx'(1) snoc z by simp
    ultimately show ?thesis using s' snoc z(1) by (auto simp: dseg_append)
  qed
  show ?thesis using left right n by (auto simp: dlist_def dseg_append)
qed

text \<open>Replacing a stretch of a list by another: only the links at its two ends change.\<close>

lemma dlist_replace:
  assumes d: "dlist nil pv nx s (xs @ zs @ ys)" and dist: "distinct (xs @ zs @ ys)" and ne: "zs \<noteq> []" "zs' \<noteq> []"
    and mid: "dseg pv' nx' (if xs = [] then nil else last xs) (hd zs') zs' (last zs') (if ys = [] then nil else hd ys)"
    and nil': "nil \<notin> set zs'"
    and xs: "\<And>y. y \<in> set xs \<Longrightarrow> pv' y = pv y" "\<And>y. y \<in> set xs \<Longrightarrow> nx' y = (if y = last xs then hd zs' else nx y)"
    and ys: "\<And>y. y \<in> set ys \<Longrightarrow> nx' y = nx y" "\<And>y. y \<in> set ys \<Longrightarrow> pv' y = (if y = hd ys then last zs' else pv y)"
  shows "dlist nil pv' nx' (hd (xs @ zs')) (xs @ zs' @ ys)"
proof -
  from d obtain l m n t u where seg: "dseg pv nx nil s xs m t" "dseg pv nx m t zs n u" "dseg pv nx n u ys l nil"
    and nil: "nil \<notin> set (xs @ zs @ ys)" by (auto simp: dlist_def dseg_append)
  have left: "dseg pv' nx' nil (hd (xs @ zs')) xs (if xs = [] then nil else last xs) (hd zs')"
  proof (cases xs rule: rev_cases)
    case (snoc as a)
    from seg(1) snoc have 1: "dseg pv nx nil s as (pv a) a" by (auto simp: dseg_append)
    have "dseg pv' nx' nil s as (pv a) a"
      by (rule dseg_transfer [OF 1]) (use snoc dist xs in auto)
    then have "dseg pv' nx' nil s xs (last xs) (hd zs')" using snoc xs [of a] by (auto simp: dseg_append)
    moreover have "hd (xs @ zs') = s" using seg(1) snoc by (cases as) (auto simp: dseg_append)
    ultimately show ?thesis using snoc by auto
  qed (use ne in auto)
  have right: "\<exists>l'. dseg pv' nx' (last zs') (if ys = [] then nil else hd ys) ys l' nil"
  proof (cases ys)
    case (Cons b bs)
    from seg(3) Cons have 1: "dseg pv nx b (nx b) bs l nil" by auto
    have "dseg pv' nx' b (nx b) bs l nil"
      by (rule dseg_transfer [OF 1]) (use Cons dist ys in auto)
    then show ?thesis using Cons ys [of b] by auto
  qed simp
  then obtain l' where r: "dseg pv' nx' (last zs') (if ys = [] then nil else hd ys) ys l' nil" by blast
  have "dseg pv' nx' nil (hd (xs @ zs')) (xs @ zs' @ ys) l' nil"
    unfolding dseg_append using left mid r by blast
  then show ?thesis using nil nil' by (auto simp: dlist_def)
qed

end
