(* ===== verification/Offset_Bins.thy ===== *)
theory Offset_Bins
  imports Offset_Core Linked_Lists
begin

text \<open>
  The free lists of the offset allocator: what the bins, their bit maps and the stack of
  unused node slots hold, and how the three operations that touch them
  (\<open>insertNodeIntoBin\<close>, \<open>removeNodeFromBin\<close> and the pop inside \<open>allocate\<close>) change that.
\<close>

section \<open>What the bins hold\<close>

abbreviation topOf :: "u32 \<Rightarrow> u32" where "topOf b \<equiv> drop_bit TOP_BINS_INDEX_SHIFT b"
abbreviation leafOf :: "u32 \<Rightarrow> u32" where "leafOf b \<equiv> b AND LEAF_BINS_INDEX_MASK"

definition node_class :: "Allocator \<Rightarrow> u32 \<Rightarrow> u32" where
  "node_class s i = uintToFloatRoundDown (dataSize (m_nodes s i))"

text \<open>\<open>B b\<close> is the list of bin \<open>b\<close>; together the lists hold the free nodes \<open>fr\<close>.\<close>

definition lists_ok :: "Allocator \<Rightarrow> (u32 \<Rightarrow> u32 list) \<Rightarrow> u32 set \<Rightarrow> bool" where
  "lists_ok s B fr \<longleftrightarrow>
     (\<forall>b. dlist Node_unused (\<lambda>i. binListPrev (m_nodes s i)) (\<lambda>i. binListNext (m_nodes s i))
            (m_binIndices s b) (B b)
        \<and> distinct (B b) \<and> set (B b) = {i \<in> fr. node_class s i = b})"

text \<open>The bit maps say which bins, and which groups of eight bins, are not empty.\<close>

definition bits_ok :: "Allocator \<Rightarrow> (u32 \<Rightarrow> u32 list) \<Rightarrow> bool" where
  "bits_ok s B \<longleftrightarrow>
     (\<forall>b. bit (m_usedBins s (topOf b)) (unat (leafOf b)) \<longleftrightarrow> B b \<noteq> [])
     \<and> (\<forall>t. bit (m_usedBinsTop s) (unat t) \<longleftrightarrow> m_usedBins s t \<noteq> 0)"

definition bins_ok :: "Allocator \<Rightarrow> (u32 \<Rightarrow> u32 list) \<Rightarrow> u32 set \<Rightarrow> bool" where
  "bins_ok s B fr \<longleftrightarrow> lists_ok s B fr \<and> bits_ok s B"

text \<open>The unused node slots, in the order in which they will be taken.\<close>

definition free_list :: "Allocator \<Rightarrow> u32 list" where
  "free_list s = map (\<lambda>k. m_freeNodes s (word_of_nat k))
     [unat (m_freeOffset s) ..< unat (m_current_capacity s)]"

section \<open>Bin indices\<close>

lemma bin_consts: "TOP_BINS_INDEX_SHIFT = 3" "LEAF_BINS_INDEX_MASK = mask 3"
  by (simp_all add: TOP_BINS_INDEX_SHIFT_def LEAF_BINS_INDEX_MASK_def mask_eq_exp_minus_1)

lemma unat_topOf: "unat (topOf b) = unat b div 8"
  by (simp add: bin_consts unat_drop_bit_div)

lemma unat_leafOf: "unat (leafOf b) = unat b mod 8"
  by (simp add: bin_consts unat_and_mask3)

lemma unat_leafOf_lt: "unat (leafOf b) < 8"
  by (simp add: unat_leafOf)

lemma bin_split_inj: "topOf a = topOf b \<Longrightarrow> unat (leafOf a) = unat (leafOf b) \<Longrightarrow> a = b"
proof -
  assume "topOf a = topOf b" and l: "unat (leafOf a) = unat (leafOf b)"
  then have "unat a div 8 = unat b div 8" by (simp flip: unat_topOf)
  moreover have "unat a mod 8 = unat b mod 8" using l by (simp only: unat_leafOf)
  ultimately have "unat a = unat b" by (metis div_mult_mod_eq)
  then show ?thesis by (simp add: word_unat_eq_iff)
qed

lemma bin_join:
  assumes "unat t < 32" and "unat l < 8"
  shows "topOf (push_bit TOP_BINS_INDEX_SHIFT t OR l) = t"
    and "leafOf (push_bit TOP_BINS_INDEX_SHIFT t OR l) = l"
    and "unat (push_bit TOP_BINS_INDEX_SHIFT t OR l) = 8 * unat t + unat l"
proof -
  have l: "take_bit 3 l = l" using assms(2) by (intro word_unat_eq_iff [THEN iffD2])
    (simp only: unat_take_bit_mod, simp)
  have disj: "push_bit TOP_BINS_INDEX_SHIFT t AND l = 0"
    by (subst l [symmetric]) (rule bit_eqI, auto simp: bin_consts bit_simps)
  have "push_bit TOP_BINS_INDEX_SHIFT t OR l = push_bit TOP_BINS_INDEX_SHIFT t + l"
    using disj by (simp add: disjunctive_add_eq_or)
  moreover have p: "unat (push_bit TOP_BINS_INDEX_SHIFT t) = 8 * unat t"
    using unat_push_bit_no_wrap [of t 3] assms(1) by (simp add: bin_consts)
  ultimately show u: "unat (push_bit TOP_BINS_INDEX_SHIFT t OR l) = 8 * unat t + unat l"
    using assms by (simp add: unat_plus_no_wrap)
  show "topOf (push_bit TOP_BINS_INDEX_SHIFT t OR l) = t"
    by (rule word_unat_eq_iff [THEN iffD2]) (simp only: unat_topOf u, use assms(2) in simp)
  show "leafOf (push_bit TOP_BINS_INDEX_SHIFT t OR l) = l"
    by (rule word_unat_eq_iff [THEN iffD2]) (simp only: unat_leafOf u, use assms(2) in simp)
qed

lemma bin_join_split: "unat b < 256 \<Longrightarrow> push_bit TOP_BINS_INDEX_SHIFT (topOf b) OR leafOf b = b"
proof (rule bin_split_inj)
  assume b: "unat b < 256"
  then have t: "unat (topOf b) < 32" by (simp add: unat_topOf)
  show "topOf (push_bit TOP_BINS_INDEX_SHIFT (topOf b) OR leafOf b) = topOf b"
    using bin_join(1) [OF t unat_leafOf_lt] .
  show "unat (leafOf (push_bit TOP_BINS_INDEX_SHIFT (topOf b) OR leafOf b)) = unat (leafOf b)"
    using bin_join(2) [OF t unat_leafOf_lt] by (rule arg_cong)
qed

lemma bin_down_lt: "n < 2 ^ 32 \<Longrightarrow> bin_down n < 240"
proof -
  assume "n < 2 ^ 32"
  moreover have "bin_size 240 = 2 ^ 32" using bin_size_block [of 0 29] by simp
  ultimately show ?thesis using le_bin_down_iff [of 240 n] by linarith
qed

lemma class_lt: "unat (uintToFloatRoundDown sz) < 240"
  using bin_down_lt [of "unat sz"] u32_lt_of_unat [of sz] by (simp add: uintToFloatRoundDown_unat)

lemma node_class_lt: "unat (node_class s i) < 240"
  by (simp add: node_class_def class_lt)

section \<open>Setting and clearing the bits of a bin\<close>

lemma bits_ok_set:
  assumes ok: "bits_ok s B" and b: "unat b < 256" and ne: "B' b \<noteq> []" and oth: "\<And>c. c \<noteq> b \<Longrightarrow> B' c = B c"
    and ub: "m_usedBins s' = (m_usedBins s)(topOf b := m_usedBins s (topOf b) OR push_bit (unat (leafOf b)) 1)"
    and ut: "m_usedBinsTop s' = m_usedBinsTop s OR push_bit (unat (topOf b)) 1"
  shows "bits_ok s' B'"
proof -
  have t: "unat (topOf b) < 32" using b by (simp add: unat_topOf)
  have nz: "m_usedBins s' (topOf b) \<noteq> 0"
  proof -
    have "bit (m_usedBins s' (topOf b)) (unat (leafOf b))" using unat_leafOf_lt [of b] by (simp add: ub bit_simps)
    then show ?thesis by auto
  qed
  have "bit (m_usedBins s' (topOf c)) (unat (leafOf c)) \<longleftrightarrow> B' c \<noteq> []" for c
  proof (cases "c = b")
    case True
    then show ?thesis using ne unat_leafOf_lt [of b] by (simp add: ub bit_simps)
  next
    case False
    then have "bit (m_usedBins s' (topOf c)) (unat (leafOf c)) \<longleftrightarrow> bit (m_usedBins s (topOf c)) (unat (leafOf c))"
      using bin_split_inj [of c b] by (auto simp: ub bit_simps)
    then show ?thesis using ok oth [OF False] by (simp add: bits_ok_def)
  qed
  moreover have "bit (m_usedBinsTop s') (unat u) \<longleftrightarrow> m_usedBins s' u \<noteq> 0" for u
  proof (cases "u = topOf b")
    case True
    then show ?thesis using nz t by (simp add: ut bit_simps)
  next
    case False
    then have "unat u \<noteq> unat (topOf b)" by (simp add: word_unat_eq_iff)
    then show ?thesis using ok False by (auto simp: ut ub bit_simps bits_ok_def)
  qed
  ultimately show ?thesis by (simp add: bits_ok_def)
qed

lemma m_usedBins_clear:
  "m_usedBins (clear_bin_bits t l s) = (m_usedBins s)(t := m_usedBins s t AND NOT (push_bit (unat l) 1))"
  by (simp add: clear_bin_bits_def Let_def)

lemma m_usedBinsTop_clear:
  "m_usedBinsTop (clear_bin_bits t l s) =
     (if m_usedBins s t AND NOT (push_bit (unat l) 1) = 0
      then m_usedBinsTop s AND NOT (push_bit (unat t) 1) else m_usedBinsTop s)"
  by (simp add: clear_bin_bits_def Let_def)

lemma clear_bin_bits_frame [simp]:
  "m_nodes (clear_bin_bits t l s) = m_nodes s" "m_binIndices (clear_bin_bits t l s) = m_binIndices s"
  "m_freeNodes (clear_bin_bits t l s) = m_freeNodes s" "m_freeOffset (clear_bin_bits t l s) = m_freeOffset s"
  "m_freeStorage (clear_bin_bits t l s) = m_freeStorage s" "m_size (clear_bin_bits t l s) = m_size s"
  "m_current_capacity (clear_bin_bits t l s) = m_current_capacity s"
  "m_max_capacity (clear_bin_bits t l s) = m_max_capacity s"
  "m_nodes_set (clear_bin_bits t l s) = m_nodes_set s"
  by (simp_all add: clear_bin_bits_def Let_def)

lemma bits_ok_clear:
  assumes ok: "bits_ok s B" and b: "unat b < 256" and e: "B' b = []" and oth: "\<And>c. c \<noteq> b \<Longrightarrow> B' c = B c"
    and ub: "m_usedBins s' = m_usedBins (clear_bin_bits (topOf b) (leafOf b) s)"
    and ut: "m_usedBinsTop s' = m_usedBinsTop (clear_bin_bits (topOf b) (leafOf b) s)"
  shows "bits_ok s' B'"
proof -
  have "bit (m_usedBins s' (topOf c)) (unat (leafOf c)) \<longleftrightarrow> B' c \<noteq> []" for c
  proof (cases "c = b")
    case True
    then show ?thesis using e by (simp add: ub m_usedBins_clear bit_simps)
  next
    case False
    have "unat (leafOf c) < 8" by (rule unat_leafOf_lt)
    with False have "bit (m_usedBins s' (topOf c)) (unat (leafOf c)) \<longleftrightarrow> bit (m_usedBins s (topOf c)) (unat (leafOf c))"
      using bin_split_inj [of c b] by (auto simp: ub m_usedBins_clear bit_simps)
    then show ?thesis using ok oth [OF False] by (simp add: bits_ok_def)
  qed
  moreover have "bit (m_usedBinsTop s') (unat u) \<longleftrightarrow> m_usedBins s' u \<noteq> 0" for u
  proof (cases "u = topOf b")
    case True
    have "bit (m_usedBinsTop s) (unat (topOf b)) \<longleftrightarrow> m_usedBins s (topOf b) \<noteq> 0"
      using ok by (simp add: bits_ok_def)
    with True show ?thesis by (auto simp: ut ub m_usedBins_clear m_usedBinsTop_clear bit_simps)
  next
    case False
    then have "unat u \<noteq> unat (topOf b)" by (simp add: word_unat_eq_iff)
    moreover have "bit (m_usedBinsTop s) k \<Longrightarrow> k < 32" for k using bit_imp_le_length by fastforce
    ultimately show ?thesis using ok False
      by (auto simp: ut ub m_usedBins_clear m_usedBinsTop_clear bit_simps bits_ok_def)
  qed
  ultimately show ?thesis by (simp add: bits_ok_def)
qed

section \<open>Inserting a node\<close>

lemma insertNodeIntoBin_fields:
  "snd (insertNodeIntoBin sz off s) = m_freeNodes s (m_freeOffset s)"
  "m_nodes (fst (insertNodeIntoBin sz off s)) =
     (let i = m_freeNodes s (m_freeOffset s); t = m_binIndices s (uintToFloatRoundDown sz);
          N = (m_nodes s)(i := Node_default\<lparr>dataOffset := off, dataSize := sz, binListNext := t\<rparr>)
      in if t = Node_unused then N else N(t := (N t)\<lparr>binListPrev := i\<rparr>))"
  "m_binIndices (fst (insertNodeIntoBin sz off s)) =
     (m_binIndices s)(uintToFloatRoundDown sz := m_freeNodes s (m_freeOffset s))"
  "m_usedBins (fst (insertNodeIntoBin sz off s)) =
     (let b = uintToFloatRoundDown sz in
      if m_binIndices s b = Node_unused
      then (m_usedBins s)(topOf b := m_usedBins s (topOf b) OR push_bit (unat (leafOf b)) 1)
      else m_usedBins s)"
  "m_usedBinsTop (fst (insertNodeIntoBin sz off s)) =
     (let b = uintToFloatRoundDown sz in
      if m_binIndices s b = Node_unused then m_usedBinsTop s OR push_bit (unat (topOf b)) 1
      else m_usedBinsTop s)"
  "m_freeOffset (fst (insertNodeIntoBin sz off s)) = m_freeOffset s + 1"
  "m_freeStorage (fst (insertNodeIntoBin sz off s)) = m_freeStorage s + sz"
  by (simp_all add: insertNodeIntoBin_def Let_def upd_node_def)

lemma insertNodeIntoBin_frame [simp]:
  "m_freeNodes (fst (insertNodeIntoBin sz off s)) = m_freeNodes s"
  "m_size (fst (insertNodeIntoBin sz off s)) = m_size s"
  "m_current_capacity (fst (insertNodeIntoBin sz off s)) = m_current_capacity s"
  "m_max_capacity (fst (insertNodeIntoBin sz off s)) = m_max_capacity s"
  "m_nodes_set (fst (insertNodeIntoBin sz off s)) = m_nodes_set s"
  by (simp_all add: insertNodeIntoBin_def Let_def upd_node_def)

text \<open>What the bin lists do not own of a node: its place, its neighbours, whether it is used.\<close>

definition node_core :: "Node \<Rightarrow> u32 \<times> u32 \<times> u32 \<times> u32 \<times> bool" where
  "node_core n = (dataOffset n, dataSize n, neighborPrev n, neighborNext n, used n)"

lemma node_core_simps [simp]:
  "node_core (n\<lparr>binListPrev := x\<rparr>) = node_core n" "node_core (n\<lparr>binListNext := x\<rparr>) = node_core n"
  by (simp_all add: node_core_def)

lemma node_coreD:
  "node_core a = node_core b \<Longrightarrow> dataOffset a = dataOffset b \<and> dataSize a = dataSize b
     \<and> neighborPrev a = neighborPrev b \<and> neighborNext a = neighborNext b \<and> used a = used b"
  by (simp add: node_core_def)

lemma insertNodeIntoBin_core:
  assumes "m_binIndices s (uintToFloatRoundDown sz) \<noteq> m_freeNodes s (m_freeOffset s)"
  shows "node_core (m_nodes (fst (insertNodeIntoBin sz off s)) y) =
    (if y = m_freeNodes s (m_freeOffset s) then (off, sz, Node_unused, Node_unused, False)
     else node_core (m_nodes s y))"
  using assms by (auto simp: insertNodeIntoBin_fields(2) Let_def node_core_def Node_default_def)

lemma lists_okD:
  assumes "lists_ok s B fr"
  shows "dlist Node_unused (\<lambda>i. binListPrev (m_nodes s i)) (\<lambda>i. binListNext (m_nodes s i)) (m_binIndices s b) (B b)"
    "distinct (B b)" "set (B b) = {i \<in> fr. node_class s i = b}"
  using assms by (auto simp: lists_ok_def)

lemma lists_ok_bin_member: "lists_ok s B fr \<Longrightarrow> i \<in> set (B b) \<longleftrightarrow> i \<in> fr \<and> node_class s i = b"
  by (auto simp: lists_ok_def)

lemma lists_ok_top:
  assumes "lists_ok s B fr" and "m_binIndices s b \<noteq> Node_unused"
  shows "m_binIndices s b \<in> fr" "node_class s (m_binIndices s b) = b" "B b \<noteq> []" "m_binIndices s b = hd (B b)"
proof -
  note d = lists_okD(1) [OF assms(1), of b]
  show ne: "B b \<noteq> []" using assms(2) dlist_nil_iff [OF d] by simp
  show h: "m_binIndices s b = hd (B b)" using dlist_head [OF d] ne by simp
  have "m_binIndices s b \<in> set (B b)" using ne h by simp
  then show "m_binIndices s b \<in> fr" "node_class s (m_binIndices s b) = b"
    using lists_ok_bin_member [OF assms(1)] by auto
qed

lemma insertNodeIntoBin_bins_ok:
  assumes ok: "bins_ok s B fr" and i: "i = m_freeNodes s (m_freeOffset s)" "i \<notin> fr" "i \<noteq> Node_unused"
    and b: "b = uintToFloatRoundDown sz"
  shows "bins_ok (fst (insertNodeIntoBin sz off s)) (B(b := i # B b)) (insert i fr)"
proof -
  let ?s = "fst (insertNodeIntoBin sz off s)" and ?t = "m_binIndices s b"
  have lok: "lists_ok s B fr" and bok: "bits_ok s B" using ok by (auto simp: bins_ok_def)
  have ti: "?t \<noteq> i" using lists_ok_top(1) [OF lok, of b] i by auto
  have core: "node_core (m_nodes ?s y) = (if y = i then (off, sz, Node_unused, Node_unused, False) else node_core (m_nodes s y))" for y
    using insertNodeIntoBin_core ti by (simp add: i(1) b)
  have cls: "node_class ?s y = (if y = i then b else node_class s y)" for y
    using core [of y] by (auto simp: node_class_def node_core_def b split: if_splits)
  have prv: "binListPrev (m_nodes ?s y) = (if y = i then Node_unused else if y = ?t \<and> ?t \<noteq> Node_unused then i
      else binListPrev (m_nodes s y))" for y
    using ti by (simp add: insertNodeIntoBin_fields(2) Let_def Node_default_def flip: i(1) b)
  have nxt: "binListNext (m_nodes ?s y) = (if y = i then ?t else binListNext (m_nodes s y))" for y
    using ti by (simp add: insertNodeIntoBin_fields(2) Let_def flip: i(1) b)
  have idx: "m_binIndices ?s = (m_binIndices s)(b := i)" by (simp add: insertNodeIntoBin_fields(3) i(1) b)
  note B = lists_okD [OF lok]
  have "lists_ok ?s (B(b := i # B b)) (insert i fr)"
    unfolding lists_ok_def
  proof (intro allI conjI)
    fix c
    have iB: "i \<notin> set (B c)" for c using i(2) B(3) by auto
    show "distinct ((B(b := i # B b)) c)" using B(2) iB by simp
    show "set ((B(b := i # B b)) c) = {y \<in> insert i fr. node_class ?s y = c}"
      using i(2) by (auto simp: cls B(3))
    show "dlist Node_unused (\<lambda>i. binListPrev (m_nodes ?s i)) (\<lambda>i. binListNext (m_nodes ?s i))
        (m_binIndices ?s c) ((B(b := i # B b)) c)"
    proof (cases "c = b")
      case True
      have "dlist Node_unused (\<lambda>i. binListPrev (m_nodes ?s i)) (\<lambda>i. binListNext (m_nodes ?s i)) i (i # B b)"
        using B(1,2) [of b] iB [of b] i(3)
        by (rule dlist_push) (use ti iB in \<open>auto simp: prv nxt\<close>)
      with True show ?thesis by (simp add: idx)
    next
      case False
      have ne: "y \<noteq> i \<and> (?t \<noteq> Node_unused \<longrightarrow> y \<noteq> ?t)" if y: "y \<in> set (B c)" for y
      proof -
        have "node_class s y = c" using y B(3) by simp
        then show ?thesis using iB [of c] y lists_ok_top(2) [OF lok, of b] False by auto
      qed
      from B(1) [of c] have "dlist Node_unused (\<lambda>i. binListPrev (m_nodes ?s i)) (\<lambda>i. binListNext (m_nodes ?s i))
          (m_binIndices s c) (B c)"
        by (rule dlist_transfer) (use ne in \<open>auto simp: prv nxt\<close>)
      then show ?thesis using False by (simp add: idx)
    qed
  qed
  moreover have "bits_ok ?s (B(b := i # B b))"
  proof (cases "?t = Node_unused")
    case True
    show ?thesis
      by (rule bits_ok_set [OF bok, of b])
        (use True class_lt [of sz] in \<open>auto simp: insertNodeIntoBin_fields(4,5) Let_def b\<close>)
  next
    case False
    then have "B b \<noteq> []" using lists_ok_top(3) [OF lok] by simp
    then show ?thesis using bok False
      by (simp add: bits_ok_def insertNodeIntoBin_fields(4,5) Let_def flip: b)
  qed
  ultimately show ?thesis by (simp add: bins_ok_def)
qed

section \<open>Taking a node out of its bin\<close>

lemma bins_unlink:
  assumes ok: "bins_ok s B fr" and b: "b = node_class s x" and Bb: "B b = xs @ x # ys"
    and p: "p = binListPrev (m_nodes s x)" and n: "n = binListNext (m_nodes s x)"
    and nxt: "\<And>y. y \<noteq> x \<Longrightarrow> binListNext (m_nodes s' y) = (if y = p \<and> p \<noteq> Node_unused then n else binListNext (m_nodes s y))"
    and prv: "\<And>y. y \<noteq> x \<Longrightarrow> binListPrev (m_nodes s' y) = (if y = n \<and> n \<noteq> Node_unused then p else binListPrev (m_nodes s y))"
    and sz: "\<And>y. y \<noteq> x \<Longrightarrow> dataSize (m_nodes s' y) = dataSize (m_nodes s y)"
    and idx: "m_binIndices s' = (if p = Node_unused then (m_binIndices s)(b := n) else m_binIndices s)"
    and ub: "m_usedBins s' = (if p = Node_unused \<and> n = Node_unused
               then m_usedBins (clear_bin_bits (topOf b) (leafOf b) s) else m_usedBins s)"
    and ut: "m_usedBinsTop s' = (if p = Node_unused \<and> n = Node_unused
               then m_usedBinsTop (clear_bin_bits (topOf b) (leafOf b) s) else m_usedBinsTop s)"
  shows "bins_ok s' (B(b := xs @ ys)) (fr - {x})"
proof -
  have lok: "lists_ok s B fr" and bok: "bits_ok s B" using ok by (auto simp: bins_ok_def)
  note B = lists_okD [OF lok]
  have d: "dlist Node_unused (\<lambda>i. binListPrev (m_nodes s i)) (\<lambda>i. binListNext (m_nodes s i)) (m_binIndices s b) (xs @ x # ys)"
    using B(1) [of b] by (simp add: Bb)
  have dist: "distinct (xs @ x # ys)" using B(2) [of b] by (simp add: Bb)
  have nil: "Node_unused \<notin> set (xs @ x # ys)" using d by (simp add: dlist_def)
  have pe: "p = (if xs = [] then Node_unused else last xs)" and nn: "n = (if ys = [] then Node_unused else hd ys)"
    using dlist_mid [OF d] by (simp_all add: p n)
  have lh: "xs \<noteq> [] \<Longrightarrow> last xs \<noteq> Node_unused \<and> last xs \<noteq> x" "ys \<noteq> [] \<Longrightarrow> hd ys \<noteq> Node_unused \<and> hd ys \<noteq> x"
    using last_in_set [of xs] hd_in_set [of ys] nil dist by (metis Un_iff distinct.simps(2) distinct_append not_distinct_conv_prefix set_append list.set_intros)+
  have pu: "p = Node_unused \<longleftrightarrow> xs = []" and nu: "n = Node_unused \<longleftrightarrow> ys = []"
    using nil lh by (auto simp: pe nn)
  have pB: "p \<noteq> Node_unused \<Longrightarrow> p \<in> set (B b)" and nB: "n \<noteq> Node_unused \<Longrightarrow> n \<in> set (B b)"
    by (auto simp: pe nn Bb split: if_splits)
  have px: "p \<noteq> x" and nx: "n \<noteq> x" using dist nil lh by (auto simp: pe nn split: if_splits)
  have nx': "binListNext (m_nodes s' y) = binListNext (m_nodes s y)" if "y \<in> set xs \<union> set ys" "y \<noteq> p" for y
    using that dist nxt [of y] by auto
  have pv': "binListPrev (m_nodes s' y) = binListPrev (m_nodes s y)" if "y \<in> set xs \<union> set ys" "y \<noteq> n" for y
    using that dist prv [of y] by auto
  have cls: "y \<noteq> x \<Longrightarrow> node_class s' y = node_class s y" for y by (simp add: node_class_def sz)
  have "lists_ok s' (B(b := xs @ ys)) (fr - {x})"
    unfolding lists_ok_def
  proof (intro allI conjI)
    fix c
    show "distinct ((B(b := xs @ ys)) c)" using B(2) [of c] dist by simp
    have "set (xs @ ys) = {y \<in> fr - {x}. node_class s y = b}"
      using B(3) [of b] dist by (auto simp: Bb)
    moreover have "{y \<in> fr - {x}. node_class s' y = c} = {y \<in> fr - {x}. node_class s y = c}"
      by (auto simp: cls)
    ultimately show "set ((B(b := xs @ ys)) c) = {y \<in> fr - {x}. node_class s' y = c}"
      using B(3) [of c] b by auto
    show "dlist Node_unused (\<lambda>i. binListPrev (m_nodes s' i)) (\<lambda>i. binListNext (m_nodes s' i))
        (m_binIndices s' c) ((B(b := xs @ ys)) c)"
    proof (cases "c = b")
      case True
      have "dlist Node_unused (\<lambda>i. binListPrev (m_nodes s' i)) (\<lambda>i. binListNext (m_nodes s' i))
          (m_binIndices s' b) (xs @ ys)"
        by (rule dlist_remove [OF d dist])
          (use px nx pu nu nx' pv' in \<open>auto simp: nxt prv idx simp flip: p n\<close>)
      with True show ?thesis by simp
    next
      case False
      have ne: "y \<noteq> x \<and> (p \<noteq> Node_unused \<longrightarrow> y \<noteq> p) \<and> (n \<noteq> Node_unused \<longrightarrow> y \<noteq> n)"
        if y: "y \<in> set (B c)" for y
        using that False B(3) [of c] B(3) [of b] pB nB b by auto
      from B(1) [of c] have "dlist Node_unused (\<lambda>i. binListPrev (m_nodes s' i)) (\<lambda>i. binListNext (m_nodes s' i))
          (m_binIndices s c) (B c)"
        by (rule dlist_transfer) (use ne in \<open>auto simp: prv nxt\<close>)
      then show ?thesis using False by (simp add: idx)
    qed
  qed
  moreover have "bits_ok s' (B(b := xs @ ys))"
  proof (cases "xs @ ys = []")
    case True
    have "unat b < 256" using node_class_lt [of s x] b by simp
    then show ?thesis
      by (rule bits_ok_clear [OF bok]) (use True pu nu in \<open>auto simp: ub ut\<close>)
  next
    case False
    then show ?thesis using bok pu nu Bb by (auto simp: bits_ok_def ub ut)
  qed
  ultimately show ?thesis by (simp add: bins_ok_def)
qed

lemma removeNodeFromBin_fields:
  fixes s x
  defines "p \<equiv> binListPrev (m_nodes s x)" and "n \<equiv> binListNext (m_nodes s x)" and "b \<equiv> node_class s x"
  shows "binListNext (m_nodes (removeNodeFromBin x s) y) =
       (if y = p \<and> p \<noteq> Node_unused then n else binListNext (m_nodes s y))"
    and "binListPrev (m_nodes (removeNodeFromBin x s) y) =
       (if y = n \<and> n \<noteq> Node_unused then p else binListPrev (m_nodes s y))"
    and "node_core (m_nodes (removeNodeFromBin x s) y) = node_core (m_nodes s y)"
    and "m_binIndices (removeNodeFromBin x s) =
       (if p = Node_unused then (m_binIndices s)(b := n) else m_binIndices s)"
    and "m_usedBins (removeNodeFromBin x s) =
       (if p = Node_unused \<and> n = Node_unused
        then m_usedBins (clear_bin_bits (topOf b) (leafOf b) s) else m_usedBins s)"
    and "m_usedBinsTop (removeNodeFromBin x s) =
       (if p = Node_unused \<and> n = Node_unused
        then m_usedBinsTop (clear_bin_bits (topOf b) (leafOf b) s) else m_usedBinsTop s)"
    and "m_freeStorage (removeNodeFromBin x s) = m_freeStorage s - dataSize (m_nodes s x)"
    and "m_freeNodes (removeNodeFromBin x s) = (m_freeNodes s)(m_freeOffset s - 1 := x)"
    and "m_freeOffset (removeNodeFromBin x s) = m_freeOffset s - 1"
  unfolding p_def n_def b_def
  by (simp_all add: removeNodeFromBin_def Let_def upd_node_def push_free_node_def node_class_def
      m_usedBins_clear m_usedBinsTop_clear)

lemma removeNodeFromBin_frame [simp]:
  "m_size (removeNodeFromBin x s) = m_size s"
  "m_current_capacity (removeNodeFromBin x s) = m_current_capacity s"
  "m_max_capacity (removeNodeFromBin x s) = m_max_capacity s"
  "m_nodes_set (removeNodeFromBin x s) = m_nodes_set s"
  by (simp_all add: removeNodeFromBin_def Let_def upd_node_def push_free_node_def)

lemma bins_ok_split:
  assumes "bins_ok s B fr" and "x \<in> fr"
  obtains xs ys where "B (node_class s x) = xs @ x # ys"
proof -
  have "x \<in> set (B (node_class s x))" using assms by (auto simp: bins_ok_def lists_ok_def)
  then show thesis using that by (meson split_list)
qed

lemma removeNodeFromBin_bins_ok:
  assumes ok: "bins_ok s B fr" and x: "x \<in> fr"
  shows "\<exists>B'. bins_ok (removeNodeFromBin x s) B' (fr - {x})"
proof -
  obtain xs ys where Bb: "B (node_class s x) = xs @ x # ys" using bins_ok_split [OF ok x] .
  have core: "dataSize (m_nodes (removeNodeFromBin x s) y) = dataSize (m_nodes s y)" for y
    using node_coreD [OF removeNodeFromBin_fields(3)] by blast
  have "bins_ok (removeNodeFromBin x s) (B(node_class s x := xs @ ys)) (fr - {x})"
    by (rule bins_unlink [OF ok refl Bb refl refl]) (simp_all add: removeNodeFromBin_fields core)
  then show ?thesis by blast
qed

text \<open>The pop inside \<open>allocate\<close> takes the first node of a bin that is not empty.\<close>

lemma pop_bin_fields:
  fixes s t l r
  defines "b \<equiv> push_bit TOP_BINS_INDEX_SHIFT t OR l"
  defines "x \<equiv> m_binIndices s b"
  defines "n \<equiv> binListNext (m_nodes s x)"
  assumes "n \<noteq> x"
  shows "binListNext (m_nodes (pop_bin t l r s) y) = binListNext (m_nodes s y)"
    and "binListPrev (m_nodes (pop_bin t l r s) y) =
       (if y = n \<and> n \<noteq> Node_unused then Node_unused else binListPrev (m_nodes s y))"
    and "node_core (m_nodes (pop_bin t l r s) y) =
       (if y = x then node_core ((m_nodes s x)\<lparr>dataSize := r, used := True\<rparr>) else node_core (m_nodes s y))"
    and "m_binIndices (pop_bin t l r s) = (m_binIndices s)(b := n)"
    and "m_usedBins (pop_bin t l r s) =
       (if n = Node_unused then m_usedBins (clear_bin_bits t l s) else m_usedBins s)"
    and "m_usedBinsTop (pop_bin t l r s) =
       (if n = Node_unused then m_usedBinsTop (clear_bin_bits t l s) else m_usedBinsTop s)"
    and "m_freeStorage (pop_bin t l r s) = m_freeStorage s - dataSize (m_nodes s x)"
  using assms(4) unfolding b_def x_def n_def
  by (simp_all add: pop_bin_def Let_def upd_node_def m_usedBins_clear m_usedBinsTop_clear node_core_def)

lemma pop_bin_frame [simp]:
  "m_size (pop_bin t l r s) = m_size s" "m_freeNodes (pop_bin t l r s) = m_freeNodes s"
  "m_freeOffset (pop_bin t l r s) = m_freeOffset s"
  "m_current_capacity (pop_bin t l r s) = m_current_capacity s"
  "m_max_capacity (pop_bin t l r s) = m_max_capacity s"
  "m_nodes_set (pop_bin t l r s) = m_nodes_set s"
  by (simp_all add: pop_bin_def Let_def upd_node_def)

lemma bins_ok_next_neq:
  assumes ok: "bins_ok s B fr" and x: "x \<in> fr"
  shows "binListNext (m_nodes s x) \<noteq> x"
proof -
  obtain xs ys where Bb: "B (node_class s x) = xs @ x # ys" using bins_ok_split [OF ok x] .
  have "dlist Node_unused (\<lambda>i. binListPrev (m_nodes s i)) (\<lambda>i. binListNext (m_nodes s i))
      (m_binIndices s (node_class s x)) (xs @ x # ys)" and "distinct (xs @ x # ys)"
    using lists_okD(1,2) [of s B fr "node_class s x"] ok Bb by (simp_all add: bins_ok_def)
  then have "binListNext (m_nodes s x) = (if ys = [] then Node_unused else hd ys)"
    "x \<noteq> Node_unused" "x \<notin> set ys"
    using dlist_mid(2) by (fastforce, auto simp: dlist_def)
  then show ?thesis using hd_in_set [of ys] by (metis)
qed

lemma pop_bin_bins_ok:
  assumes ok: "bins_ok s B fr" and t: "unat t < 32" and l: "unat l < 8"
    and b: "b = push_bit TOP_BINS_INDEX_SHIFT t OR l" and x: "x = m_binIndices s b" "x \<noteq> Node_unused"
  shows "\<exists>B'. bins_ok (pop_bin t l r s) B' (fr - {x})"
proof -
  have lok: "lists_ok s B fr" using ok by (simp add: bins_ok_def)
  have top: "x \<in> fr" "node_class s x = b" "B b \<noteq> []" "x = hd (B b)"
    using lists_ok_top [OF lok, of b] x by auto
  then obtain ys where Bb: "B b = [] @ x # ys" by (cases "B b") auto
  have "dlist Node_unused (\<lambda>i. binListPrev (m_nodes s i)) (\<lambda>i. binListNext (m_nodes s i)) x (x # ys)"
    using lists_okD(1) [OF lok, of b] Bb x(1) by simp
  then have p: "Node_unused = binListPrev (m_nodes s x)" using dlist_Cons_head by fastforce
  have nx: "binListNext (m_nodes s x) \<noteq> x" using bins_ok_next_neq [OF ok top(1)] .
  note f = pop_bin_fields [of s t l, folded b, folded x(1), OF nx]
  have sz: "y \<noteq> x \<Longrightarrow> dataSize (m_nodes (pop_bin t l r s) y) = dataSize (m_nodes s y)" for y
    using node_coreD [of "m_nodes (pop_bin t l r s) y" "m_nodes s y"] f(3) [of r y] by simp
  have tl: "topOf b = t" "leafOf b = l" using bin_join [OF t l] by (simp_all add: b)
  have "bins_ok (pop_bin t l r s) (B(b := [] @ ys)) (fr - {x})"
    by (rule bins_unlink [OF ok top(2) [symmetric] Bb p refl])
      (simp_all add: f sz tl flip: p)
  then show ?thesis by blast
qed

section \<open>The stack of unused slots\<close>

lemma free_list_Cons:
  assumes "m_freeOffset s < m_current_capacity s"
  shows "free_list s = m_freeNodes s (m_freeOffset s) #
    map (\<lambda>k. m_freeNodes s (word_of_nat k)) [Suc (unat (m_freeOffset s)) ..< unat (m_current_capacity s)]"
proof -
  have "unat (m_freeOffset s) < unat (m_current_capacity s)" using assms by (simp add: word_less_nat_alt)
  then show ?thesis by (simp add: free_list_def upt_conv_Cons)
qed

lemma unat_Suc_le: "(a :: u32) < b \<Longrightarrow> unat (a + 1) = Suc (unat a)"
  using unat_plus_no_wrap [of a 1] u32_lt_of_unat [of b] by (simp add: word_less_nat_alt)

lemma free_list_pop:
  assumes "m_freeOffset s < m_current_capacity s" and "m_freeOffset s' = m_freeOffset s + 1"
    and "m_current_capacity s' = m_current_capacity s" and "m_freeNodes s' = m_freeNodes s"
  shows "free_list s = m_freeNodes s (m_freeOffset s) # free_list s'"
  using free_list_Cons [OF assms(1)] assms unat_Suc_le [OF assms(1)] by (simp add: free_list_def)

lemma free_list_push:
  assumes "0 < m_freeOffset s" and "m_freeOffset s \<le> m_current_capacity s" and "m_freeOffset s' = m_freeOffset s - 1"
    and "m_current_capacity s' = m_current_capacity s" and "m_freeNodes s' = (m_freeNodes s)(m_freeOffset s - 1 := x)"
  shows "free_list s' = x # free_list s"
proof -
  let ?o = "unat (m_freeOffset s)" and ?c = "unat (m_current_capacity s)"
  have o: "0 < ?o" "?o \<le> ?c" using assms(1,2) by (simp_all add: word_less_nat_alt word_le_nat_alt)
  have o1: "unat (m_freeOffset s - 1) = ?o - 1" using o by (simp add: unat_minus_no_wrap word_le_nat_alt)
  have "word_of_nat k \<noteq> m_freeOffset s - 1" if k: "k \<in> {?o ..< ?c}" for k
  proof -
    have "k < 2 ^ 32" using k u32_lt_of_unat [of "m_current_capacity s"] by simp
    then have "unat (word_of_nat k :: u32) = k" by (simp add: unsigned_of_nat take_bit_nat_eq_self)
    then show ?thesis using o1 k o by auto
  qed
  then have "map (\<lambda>k. m_freeNodes s' (word_of_nat k)) [?o ..< ?c] = free_list s"
    by (auto simp: free_list_def assms(5))
  moreover have "[?o - 1 ..< ?c] = (?o - 1) # [?o ..< ?c]" using o by (simp add: upt_conv_Cons)
  moreover have "word_of_nat (?o - 1) = m_freeOffset s - 1" by (simp only: o1 [symmetric] of_nat_unat ucast_id)
  ultimately show ?thesis using o1 by (simp add: free_list_def assms)
qed

lemma free_list_length: "length (free_list s) = unat (m_current_capacity s) - unat (m_freeOffset s)"
  by (simp add: free_list_def)

end
