(* ===== verification/Allocator_Interface.thy ===== *)
theory Allocator_Interface
  imports Store_Prelude
begin

text \<open>
  What the clients of an allocator rely on, whichever allocator it is: a handle stands for a
  region, regions of handles held at the same time do not overlap and lie within the
  allocator's range, and neither an allocation nor a release moves the region of another
  handle. The laws are stated once, over the list of the handles that are held, and the
  consequences for an arbitrary client are proved from them; every allocator of the store
  is an instance.
\<close>

section \<open>Regions\<close>

text \<open>A region is an offset with a length.\<close>

definition disjoint_regions :: "nat \<times> nat \<Rightarrow> nat \<times> nat \<Rightarrow> bool" where
  "disjoint_regions r q \<longleftrightarrow> fst r + snd r \<le> fst q \<or> fst q + snd q \<le> fst r"

definition within_region :: "nat \<times> nat \<Rightarrow> nat \<times> nat \<Rightarrow> bool" where
  "within_region b r \<longleftrightarrow> fst b \<le> fst r \<and> fst r + snd r \<le> fst b + snd b"

lemma disjoint_regions_sym: "disjoint_regions r q \<Longrightarrow> disjoint_regions q r"
  by (auto simp: disjoint_regions_def)

lemma disjoint_regions_no_common:
  "disjoint_regions r q \<Longrightarrow> a \<in> {fst r ..< fst r + snd r} \<Longrightarrow> a \<notin> {fst q ..< fst q + snd q}"
  by (auto simp: disjoint_regions_def)

lemma disjoint_regions_sub:
  assumes "disjoint_regions (a, m) (b, n)" and "m' \<le> m" and "n' \<le> n" shows "disjoint_regions (a, m') (b, n')"
  using assms by (auto simp: disjoint_regions_def)

text \<open>Scaling by the factor of an allocator that works in larger units, and moving by a base.\<close>

lemma disjoint_regions_scale:
  assumes "disjoint_regions (a, m) (b, n)" shows "disjoint_regions (c + a * k, m * k) (c + b * k, n * k)"
proof -
  have "a + m \<le> b \<Longrightarrow> a * k + m * k \<le> b * k" "b + n \<le> a \<Longrightarrow> b * k + n * k \<le> a * k"
    by (metis add_mult_distrib mult_le_mono1)+
  then show ?thesis using assms by (auto simp: disjoint_regions_def)
qed

section \<open>A client of an allocator\<close>

datatype 'n client_op = Acquire 'n | Release nat

fun client_step :: "('n \<Rightarrow> 's \<Rightarrow> 's \<times> 'h option) \<Rightarrow> ('h \<Rightarrow> 's \<Rightarrow> 's) \<Rightarrow> 'n client_op \<Rightarrow> 's \<times> 'h list \<Rightarrow> 's \<times> 'h list" where
  "client_step al rel (Acquire n) (s, hs) =
     (case al n s of (s', None) \<Rightarrow> (s', hs) | (s', Some h) \<Rightarrow> (s', h # hs))"
| "client_step al rel (Release k) (s, hs) =
     (if k < length hs then (rel (hs ! k) s, take k hs @ drop (Suc k) hs) else (s, hs))"

abbreviation client_run :: "('n \<Rightarrow> 's \<Rightarrow> 's \<times> 'h option) \<Rightarrow> ('h \<Rightarrow> 's \<Rightarrow> 's) \<Rightarrow> 'n client_op list \<Rightarrow> 's \<times> 'h list \<Rightarrow> 's \<times> 'h list" where
  "client_run al rel ops \<equiv> fold (client_step al rel) ops"

definition pairwise_disjoint :: "('h \<Rightarrow> nat \<times> nat) \<Rightarrow> 'h list \<Rightarrow> bool" where
  "pairwise_disjoint reg hs \<longleftrightarrow>
     (\<forall>i < length hs. \<forall>j < length hs. i \<noteq> j \<longrightarrow> disjoint_regions (reg (hs ! i)) (reg (hs ! j)))"

locale handle_allocator =
  fixes ok :: "'s \<Rightarrow> 'h list \<Rightarrow> bool"
    and valid :: "'s \<Rightarrow> 'n \<Rightarrow> bool"
    and al :: "'n \<Rightarrow> 's \<Rightarrow> 's \<times> 'h option"
    and rel :: "'h \<Rightarrow> 's \<Rightarrow> 's"
    and region :: "'s \<Rightarrow> 'h \<Rightarrow> nat \<times> nat"
    and range :: "'s \<Rightarrow> nat \<times> nat"
  assumes al_ok: "ok s hs \<Longrightarrow> valid s n \<Longrightarrow> al n s = (s', r) \<Longrightarrow> ok s' (case r of None \<Rightarrow> hs | Some h \<Rightarrow> h # hs)"
    and al_stable: "ok s hs \<Longrightarrow> valid s n \<Longrightarrow> al n s = (s', r) \<Longrightarrow> h \<in> set hs \<Longrightarrow> region s' h = region s h"
    and al_range: "ok s hs \<Longrightarrow> al n s = (s', r) \<Longrightarrow> range s' = range s \<and> valid s' = valid s"
    and rel_ok: "ok s (xs @ h # ys) \<Longrightarrow> ok (rel h s) (xs @ ys)"
    and rel_stable: "ok s (xs @ h # ys) \<Longrightarrow> k \<in> set xs \<union> set ys \<Longrightarrow> region (rel h s) k = region s k"
    and rel_range: "ok s (xs @ h # ys) \<Longrightarrow> range (rel h s) = range s \<and> valid (rel h s) = valid s"
    and ok_disjoint: "ok s (xs @ h # ys) \<Longrightarrow> k \<in> set xs \<union> set ys \<Longrightarrow> disjoint_regions (region s h) (region s k)"
    and ok_within: "ok s hs \<Longrightarrow> h \<in> set hs \<Longrightarrow> within_region (range s) (region s h)"
begin

lemma step_ok:
  assumes "ok s hs" and "\<And>n. c = Acquire n \<Longrightarrow> valid s n" and "client_step al rel c (s, hs) = (s', hs')"
  shows "ok s' hs' \<and> range s' = range s \<and> valid s' = valid s"
proof (cases c)
  case (Acquire n)
  obtain t r where a: "al n s = (t, r)" by (cases "al n s")
  then show ?thesis using assms al_ok [OF assms(1) _ a] al_range [OF assms(1) a] Acquire by (auto split: option.splits)
next
  case (Release k)
  show ?thesis
  proof (cases "k < length hs")
    case True
    have "ok s (take k hs @ hs ! k # drop (Suc k) hs)" using assms(1) id_take_nth_drop [OF True] by metis
    from rel_ok [OF this] rel_range [OF this] show ?thesis using assms(3) Release True by auto
  qed (use assms Release in auto)
qed

lemma run_ok:
  assumes "ok s hs" and "\<And>n. Acquire n \<in> set ops \<Longrightarrow> valid s n" and "client_run al rel ops (s, hs) = (s', hs')"
  shows "ok s' hs' \<and> range s' = range s"
  using assms
proof (induction ops arbitrary: s hs)
  case (Cons c ops)
  obtain t ks where t: "client_step al rel c (s, hs) = (t, ks)" by (cases "client_step al rel c (s, hs)")
  have "ok t ks \<and> range t = range s \<and> valid t = valid s" using step_ok [OF Cons.prems(1) _ t] Cons.prems(2) by auto
  then show ?case using Cons.IH [of t ks] Cons.prems t by auto
qed simp

lemma ok_pairwise:
  assumes "ok s hs" shows "pairwise_disjoint (region s) hs"
  unfolding pairwise_disjoint_def
proof (intro allI impI)
  fix i j assume i: "i < length hs" and j: "j < length hs" and ne: "i \<noteq> j"
  have e: "ok s (take i hs @ hs ! i # drop (Suc i) hs)" using assms by (simp add: Cons_nth_drop_Suc [OF i])
  have "hs ! j \<in> set (take i hs) \<union> set (drop (Suc i) hs)"
  proof (cases "j < i")
    case True
    then have "take i hs ! j = hs ! j" "j < length (take i hs)" using i by auto
    then show ?thesis by (metis UnI1 nth_mem)
  next
    case False
    then have "drop (Suc i) hs ! (j - Suc i) = hs ! j" "j - Suc i < length (drop (Suc i) hs)" using ne j by auto
    then show ?thesis by (metis UnI2 nth_mem)
  qed
  then show "disjoint_regions (region s (hs ! i)) (region s (hs ! j))" by (rule ok_disjoint [OF e])
qed

text \<open>Whatever a client does, the regions it holds never overlap and stay within the range.\<close>

lemma run_safe:
  assumes "ok s hs" and "\<And>n. Acquire n \<in> set ops \<Longrightarrow> valid s n" and "client_run al rel ops (s, hs) = (s', hs')"
  shows "pairwise_disjoint (region s') hs'" and "h \<in> set hs' \<Longrightarrow> within_region (range s) (region s' h)"
proof -
  have r: "ok s' hs'" "range s' = range s" using run_ok [OF assms] by auto
  show "pairwise_disjoint (region s') hs'" using ok_pairwise [OF r(1)] .
  show "h \<in> set hs' \<Longrightarrow> within_region (range s) (region s' h)" using ok_within [OF r(1)] r(2) by simp
qed

end

end
