(* ===== verification/Offset_Invariant.thy ===== *)
theory Offset_Invariant
  imports Offset_Bins Allocator_Interface
begin

text \<open>
  The invariant of the offset allocator. The nodes in use form one list in address order that
  tiles the managed range \<open>[0, m_size)\<close> without gap or overlap; no two neighbours in it are
  both free; the free ones are exactly the nodes in the bins; every slot of the node array
  is either in the list or on the stack of unused slots; and \<open>m_freeStorage\<close> is the sum of
  the sizes of the free nodes.
\<close>

section \<open>The nodes in address order\<close>

fun tiles :: "(u32 \<Rightarrow> Node) \<Rightarrow> nat \<Rightarrow> u32 list \<Rightarrow> nat \<Rightarrow> bool" where
  "tiles N a [] e \<longleftrightarrow> a = e"
| "tiles N a (i # L) e \<longleftrightarrow> unat (dataOffset (N i)) = a \<and> tiles N (a + unat (dataSize (N i))) L e"

fun free_sum :: "(u32 \<Rightarrow> Node) \<Rightarrow> u32 list \<Rightarrow> nat" where
  "free_sum N [] = 0"
| "free_sum N (i # L) = (if used (N i) then 0 else unat (dataSize (N i))) + free_sum N L"

fun tile_sum :: "(u32 \<Rightarrow> Node) \<Rightarrow> u32 list \<Rightarrow> nat" where
  "tile_sum N [] = 0"
| "tile_sum N (i # L) = unat (dataSize (N i)) + tile_sum N L"

abbreviation not_both_free :: "(u32 \<Rightarrow> Node) \<Rightarrow> u32 \<Rightarrow> u32 \<Rightarrow> bool" where
  "not_both_free N i j \<equiv> used (N i) \<or> used (N j)"

definition addr_ok :: "(u32 \<Rightarrow> Node) \<Rightarrow> u32 list \<Rightarrow> nat \<Rightarrow> bool" where
  "addr_ok N L e \<longleftrightarrow> L \<noteq> [] \<and> distinct L
     \<and> dlist Node_unused (\<lambda>i. neighborPrev (N i)) (\<lambda>i. neighborNext (N i)) (hd L) L
     \<and> tiles N 0 L e \<and> successively (not_both_free N) L"

lemma tiles_append: "tiles N a (xs @ ys) e \<longleftrightarrow> (\<exists>m. tiles N a xs m \<and> tiles N m ys e)"
  by (induction xs arbitrary: a) auto

lemma tiles_end: "tiles N a L e \<Longrightarrow> e = a + tile_sum N L"
  by (induction L arbitrary: a) (auto, metis add.assoc)

lemma tiles_cong:
  "tiles N a L e \<Longrightarrow> (\<And>i. i \<in> set L \<Longrightarrow> dataOffset (N' i) = dataOffset (N i) \<and> dataSize (N' i) = dataSize (N i)) \<Longrightarrow>
   tiles N' a L e"
  by (induction L arbitrary: a) auto

lemma free_sum_append [simp]: "free_sum N (xs @ ys) = free_sum N xs + free_sum N ys"
  by (induction xs) auto

lemma tile_sum_append [simp]: "tile_sum N (xs @ ys) = tile_sum N xs + tile_sum N ys"
  by (induction xs) auto

lemma free_sum_le: "free_sum N L \<le> tile_sum N L"
  by (induction L) auto

lemma free_sum_cong:
  "(\<And>i. i \<in> set L \<Longrightarrow> used (N' i) = used (N i) \<and> dataSize (N' i) = dataSize (N i)) \<Longrightarrow> free_sum N' L = free_sum N L"
  by (induction L) auto

lemma successively_not_both_free_cong:
  "successively (not_both_free N) L \<Longrightarrow> (\<And>i. i \<in> set L \<Longrightarrow> used (N' i) = used (N i)) \<Longrightarrow>
   successively (not_both_free N') L"
  by (induction L rule: induct_list012) auto

text \<open>Tiles do not overlap.\<close>

lemma tiles_region:
  assumes "tiles N a L e" and "i \<in> set L"
  shows "a \<le> unat (dataOffset (N i))" "unat (dataOffset (N i)) + unat (dataSize (N i)) \<le> e"
proof -
  obtain xs ys where L: "L = xs @ i # ys" using assms(2) by (meson split_list)
  then obtain m where m: "tiles N a xs m" "tiles N m (i # ys) e" using assms(1) by (auto simp: tiles_append)
  show "a \<le> unat (dataOffset (N i))" "unat (dataOffset (N i)) + unat (dataSize (N i)) \<le> e"
    using m(2) tiles_end [OF m(1)] tiles_end [of N "m + unat (dataSize (N i))" ys e] by auto
qed

definition node_region :: "Node \<Rightarrow> nat \<times> nat" where
  "node_region n = (unat (dataOffset n), unat (dataSize n))"

lemma tiles_disjoint:
  assumes "tiles N a L e" "distinct L" "i \<in> set L" "j \<in> set L" "i \<noteq> j"
  shows "disjoint_regions (node_region (N i)) (node_region (N j))"
  using assms
proof (induction L arbitrary: a)
  case (Cons k L)
  then show ?case
    using tiles_region(1) [of N "a + unat (dataSize (N k))" L e]
    by (auto simp: disjoint_regions_def node_region_def)
qed simp

lemma successively_free_single:
  "successively (not_both_free N) L \<Longrightarrow> (\<And>i. i \<in> set L \<Longrightarrow> \<not> used (N i)) \<Longrightarrow> L \<noteq> [] \<Longrightarrow> \<exists>i. L = [i]"
  by (induction L rule: induct_list012) auto

section \<open>The slots of the node array\<close>

definition slots_ok :: "Allocator \<Rightarrow> u32 set \<Rightarrow> bool" where
  "slots_ok s A \<longleftrightarrow> distinct (free_list s) \<and> set (free_list s) \<inter> A = {}
     \<and> set (free_list s) \<union> A = {i. i < m_current_capacity s}
     \<and> m_freeOffset s \<le> m_current_capacity s \<and> m_current_capacity s \<le> m_max_capacity s"

lemma below_image: "{i :: u32. i < c} = word_of_nat ` {0 ..< unat c}"
proof (intro set_eqI iffI)
  fix i :: u32 assume "i \<in> {i. i < c}"
  then have "unat i \<in> {0 ..< unat c}" by (simp add: word_less_nat_alt)
  then show "i \<in> word_of_nat ` {0 ..< unat c}" by (metis image_eqI of_nat_unat ucast_id)
next
  fix i :: u32 assume "i \<in> word_of_nat ` {0 ..< unat c}"
  then show "i \<in> {i. i < c}"
    using u32_lt_of_unat [of c] by (auto simp: word_less_nat_alt unsigned_of_nat take_bit_nat_eq_self)
qed

lemma card_below: "card {i :: u32. i < c} = unat c"
proof -
  have "inj_on (word_of_nat :: nat \<Rightarrow> u32) {0 ..< unat c}"
    using u32_lt_of_unat [of c]
    by (intro inj_on_inverseI [of _ unat]) (simp add: unsigned_of_nat take_bit_nat_eq_self)
  then show ?thesis by (simp add: below_image card_image)
qed

lemma slots_card: "slots_ok s A \<Longrightarrow> card A = unat (m_freeOffset s)"
proof -
  assume ok: "slots_ok s A"
  then have fin: "finite A" by (meson finite slots_ok_def)
  have "card (set (free_list s)) + card A = unat (m_current_capacity s)"
    using ok fin card_Un_disjoint [of "set (free_list s)" A] by (simp add: slots_ok_def card_below)
  moreover have "card (set (free_list s)) = unat (m_current_capacity s) - unat (m_freeOffset s)"
    using ok by (simp add: slots_ok_def distinct_card free_list_length)
  moreover have "unat (m_freeOffset s) \<le> unat (m_current_capacity s)"
    using ok by (simp add: slots_ok_def word_le_nat_alt)
  ultimately show ?thesis by linarith
qed

lemma slots_not_sentinel: "slots_ok s A \<Longrightarrow> i \<in> A \<Longrightarrow> i \<noteq> Node_unused"
proof
  assume "slots_ok s A" "i \<in> A" "i = Node_unused"
  then have "Node_unused < m_current_capacity s" by (auto simp: slots_ok_def)
  then show False using u32_lt_of_unat [of "m_current_capacity s"] by (simp add: word_less_nat_alt Node_unused_def)
qed

lemma slots_push:
  assumes ok: "slots_ok s A" and x: "x \<in> A" and s': "m_freeOffset s' = m_freeOffset s - 1"
    "m_current_capacity s' = m_current_capacity s" "m_freeNodes s' = (m_freeNodes s)(m_freeOffset s - 1 := x)"
    "m_max_capacity s' = m_max_capacity s"
  shows "slots_ok s' (A - {x})" "free_list s' = x # free_list s"
proof -
  have "finite A" by simp
  then have "0 < card A" using x card_gt_0_iff by blast
  then have pos: "0 < m_freeOffset s" using slots_card [OF ok] by (simp add: word_less_nat_alt)
  have le: "m_freeOffset s \<le> m_current_capacity s" using ok by (simp add: slots_ok_def)
  show fl: "free_list s' = x # free_list s" using free_list_push [OF pos le s'(1-3)] .
  have "m_freeOffset s - 1 \<le> m_freeOffset s" 
    using pos unat_minus_no_wrap [of 1 "m_freeOffset s"] by (simp add: word_le_nat_alt word_less_nat_alt)
  then show "slots_ok s' (A - {x})" using ok x s' le fl by (auto simp: slots_ok_def)
qed

lemma slots_pop:
  assumes ok: "slots_ok s A" and lt: "m_freeOffset s < m_current_capacity s" and s': "m_freeOffset s' = m_freeOffset s + 1"
    "m_current_capacity s' = m_current_capacity s" "m_freeNodes s' = m_freeNodes s" "m_max_capacity s' = m_max_capacity s"
    and x: "x = m_freeNodes s (m_freeOffset s)"
  shows "slots_ok s' (insert x A)" "x \<notin> A" "x \<noteq> Node_unused"
proof -
  have fl: "free_list s = x # free_list s'" using free_list_pop [OF lt s'(1-3)] x by simp
  then show xA: "x \<notin> A" using ok by (auto simp: slots_ok_def)
  have "m_freeOffset s + 1 \<le> m_current_capacity s"
    using unat_Suc_le [OF lt] lt by (simp add: word_le_nat_alt word_less_nat_alt)
  then show s'ok: "slots_ok s' (insert x A)" using ok fl s' xA by (auto simp: slots_ok_def)
  then show "x \<noteq> Node_unused" by (rule slots_not_sentinel) simp
qed

section \<open>The invariant\<close>

definition free_nodes :: "Allocator \<Rightarrow> u32 list \<Rightarrow> u32 set" where
  "free_nodes s L = {i \<in> set L. \<not> used (m_nodes s i)}"

definition oa_wf :: "Allocator \<Rightarrow> u32 list \<Rightarrow> bool" where
  "oa_wf s L \<longleftrightarrow> addr_ok (m_nodes s) L (unat (m_size s)) \<and> slots_ok s (set L)
     \<and> (\<exists>B. bins_ok s B (free_nodes s L)) \<and> (\<forall>i. used (m_nodes s i) \<longrightarrow> i \<in> set L)
     \<and> unat (m_freeStorage s) = free_sum (m_nodes s) L \<and> m_nodes_set s"

definition oa_inv :: "Allocator \<Rightarrow> bool" where
  "oa_inv s \<longleftrightarrow> (\<exists>L. oa_wf s L)"

text \<open>The abstract view: which regions the clients hold, by the handle they were given.\<close>

definition oa_live :: "Allocator \<Rightarrow> u32 \<Rightarrow> (nat \<times> nat) option" where
  "oa_live s i = (if used (m_nodes s i) then Some (node_region (m_nodes s i)) else None)"

lemma oa_live_core:
  assumes "\<And>i. node_core (m_nodes s' i) = node_core (m_nodes s i)" shows "oa_live s' = oa_live s"
proof
  fix i show "oa_live s' i = oa_live s i" using node_coreD [OF assms [of i]] by (simp add: oa_live_def node_region_def)
qed

lemma addr_ok_core:
  assumes "addr_ok N L e" and core: "\<And>i. i \<in> set L \<Longrightarrow> node_core (N' i) = node_core (N i)"
  shows "addr_ok N' L e"
proof -
  have c: "dataOffset (N' i) = dataOffset (N i)" "dataSize (N' i) = dataSize (N i)"
    "neighborPrev (N' i) = neighborPrev (N i)" "neighborNext (N' i) = neighborNext (N i)" "used (N' i) = used (N i)"
    if "i \<in> set L" for i using node_coreD [OF core [OF that]] by auto
  have "dlist Node_unused (\<lambda>i. neighborPrev (N i)) (\<lambda>i. neighborNext (N i)) (hd L) L"
    using assms(1) by (simp add: addr_ok_def)
  then have "dlist Node_unused (\<lambda>i. neighborPrev (N' i)) (\<lambda>i. neighborNext (N' i)) (hd L) L"
    by (rule dlist_transfer) (simp_all add: c)
  then show ?thesis using assms(1) tiles_cong [of N 0 L e N'] c successively_not_both_free_cong [of N L N']
    by (simp add: addr_ok_def)
qed

text \<open>The bins do not look at anything but the bin links and the sizes.\<close>

lemma bins_ok_cong:
  assumes "bins_ok s B fr" and "m_binIndices s' = m_binIndices s" "m_usedBins s' = m_usedBins s"
    "m_usedBinsTop s' = m_usedBinsTop s"
    and "\<And>i. binListPrev (m_nodes s' i) = binListPrev (m_nodes s i) \<and> binListNext (m_nodes s' i) = binListNext (m_nodes s i)
       \<and> dataSize (m_nodes s' i) = dataSize (m_nodes s i)"
  shows "bins_ok s' B fr"
  using assms by (simp add: bins_ok_def lists_ok_def bits_ok_def node_class_def)

lemma slots_ok_cong:
  assumes "slots_ok s A" and "m_freeNodes s' = m_freeNodes s" "m_freeOffset s' = m_freeOffset s"
    "m_current_capacity s' = m_current_capacity s" "m_max_capacity s' = m_max_capacity s"
  shows "slots_ok s' A"
  using assms by (simp add: slots_ok_def free_list_def)

lemma oa_wf_region:
  assumes "oa_wf s L" "oa_live s i = Some r"
  shows "i \<in> set L" "r = node_region (m_nodes s i)" "fst r + snd r \<le> unat (m_size s)"
proof -
  have u: "used (m_nodes s i)" and r: "r = node_region (m_nodes s i)"
    using assms(2) by (auto simp: oa_live_def split: if_splits)
  show i: "i \<in> set L" using u assms(1) by (simp add: oa_wf_def)
  show "r = node_region (m_nodes s i)" using r .
  show "fst r + snd r \<le> unat (m_size s)"
    using assms(1) tiles_region(2) [of "m_nodes s" 0 L _ i] i by (simp add: oa_wf_def addr_ok_def r node_region_def)
qed

lemma oa_inv_disjoint:
  assumes "oa_inv s" "oa_live s i = Some r" "oa_live s j = Some q" "i \<noteq> j"
  shows "disjoint_regions r q"
proof -
  obtain L where L: "oa_wf s L" using assms(1) by (auto simp: oa_inv_def)
  show ?thesis
    using tiles_disjoint [of "m_nodes s" 0 L _ i j] oa_wf_region [OF L assms(2)] oa_wf_region [OF L assms(3)] assms(4) L
    by (auto simp: oa_wf_def addr_ok_def)
qed

lemma oa_inv_bound: "oa_inv s \<Longrightarrow> oa_live s i = Some r \<Longrightarrow> fst r + snd r \<le> unat (m_size s)"
  unfolding oa_inv_def using oa_wf_region(3) by blast

text \<open>What the clients hold and what is free make up the whole range.\<close>

definition live_sum :: "Allocator \<Rightarrow> u32 list \<Rightarrow> nat" where
  "live_sum s L = tile_sum (m_nodes s) (filter (\<lambda>i. used (m_nodes s i)) L)"

lemma tile_sum_split: "tile_sum N L = free_sum N L + tile_sum N (filter (\<lambda>i. used (N i)) L)"
  by (induction L) auto

lemma oa_wf_storage: "oa_wf s L \<Longrightarrow> unat (m_freeStorage s) + live_sum s L = unat (m_size s)"
  using tiles_end [of "m_nodes s" 0 L "unat (m_size s)"] tile_sum_split [of "m_nodes s" L]
  by (simp add: oa_wf_def addr_ok_def live_sum_def)

end
