(* ===== verification/Offset_Search.thy ===== *)
theory Offset_Search
  imports Offset_Bins
begin

text \<open>
  The search of \<open>allocate\<close> for a bin (\<open>find_bin\<close>) and the search of \<open>storageReport\<close> for the
  largest bin: the two bit scans find the first, respectively the last, bin that is not empty.
\<close>

section \<open>Reading the bit maps\<close>

abbreviation joinBin :: "u32 \<Rightarrow> u32 \<Rightarrow> u32" where
  "joinBin t l \<equiv> push_bit TOP_BINS_INDEX_SHIFT t OR l"

lemma bit_usedBins_lt: "bit (w :: u8) k \<Longrightarrow> k < 8"
  using bit_imp_le_length by fastforce

lemma bit_ucast_u8 [simp]: "bit (ucast (w :: u8) :: u32) k \<longleftrightarrow> bit w k"
  using bit_usedBins_lt [of w k] by (auto simp: bit_ucast_iff)

lemma ucast_u8_zero_iff [simp]: "(ucast (w :: u8) :: u32) = 0 \<longleftrightarrow> w = 0"
proof
  assume "(ucast w :: u32) = 0"
  then have "\<not> bit w k" for k using bit_ucast_u8 [of w k] by simp
  then show "w = 0" by (intro bit_eqI) simp
qed simp

lemma bits_ok_leaf:
  assumes "bits_ok s B" and "unat t < 32" and "unat l < 8"
  shows "bit (m_usedBins s t) (unat l) \<longleftrightarrow> B (joinBin t l) \<noteq> []"
proof -
  have "bit (m_usedBins s (topOf (joinBin t l))) (unat (leafOf (joinBin t l))) \<longleftrightarrow> B (joinBin t l) \<noteq> []"
    using assms(1) unfolding bits_ok_def by blast
  then show ?thesis using bin_join(1,2) [OF assms(2,3)] by simp
qed

lemma bits_ok_bin:
  assumes "bits_ok s B" shows "bit (m_usedBins s (topOf c)) (unat c mod 8) \<longleftrightarrow> B c \<noteq> []"
  using assms unfolding bits_ok_def by (metis unat_leafOf)

lemma bits_ok_top: "bits_ok s B \<Longrightarrow> bit (m_usedBinsTop s) (unat t) \<longleftrightarrow> m_usedBins s t \<noteq> 0"
  unfolding bits_ok_def by blast

lemma bits_ok_top_lt: "bits_ok s B \<Longrightarrow> m_usedBins s t \<noteq> 0 \<Longrightarrow> unat t < 32"
  using bits_ok_top [of s B t] bit_imp_le_length [of "m_usedBinsTop s" "unat t"] by simp

lemma bits_ok_bin_top: "bits_ok s B \<Longrightarrow> B c \<noteq> [] \<Longrightarrow> m_usedBins s (topOf c) \<noteq> 0"
  using bits_ok_bin [of s B c] by auto

lemma bits_ok_bin_lt: "bits_ok s B \<Longrightarrow> B c \<noteq> [] \<Longrightarrow> unat c < 256"
  using bits_ok_top_lt [of s B "topOf c"] bits_ok_bin_top [of s B c] by (simp add: unat_topOf)

lemma topOf_eqI: "unat c div 8 = unat t \<Longrightarrow> topOf c = t"
  by (simp only: word_unat_eq_iff unat_topOf)

lemma split8: obtains q e where "(c :: nat) = 8 * q + e" "e < 8" "c div 8 = q" "c mod 8 = e"
  using that [of "c div 8" "c mod 8"] by simp

lemma within_group:
  fixes a c t l :: nat
  assumes "8 * t + a \<le> c" "c < 8 * t + l" "l < 8"
  shows "c div 8 = t \<and> a \<le> c mod 8 \<and> c mod 8 < l"
proof -
  obtain q e where c: "c = 8 * q + e" "e < 8" "c div 8 = q" "c mod 8 = e" by (rule split8)
  then have q: "q = t" using assms by linarith
  moreover have "a \<le> e" "e < l" using assms c q by linarith+
  ultimately show ?thesis using c by simp
qed

lemma groups_between:
  fixes c m r l :: nat
  assumes "m \<le> c" "c < 8 * r + l" "l < 8"
  shows "c div 8 = m div 8 \<or> (m div 8 + 1 \<le> c div 8 \<and> c div 8 < r) \<or> (c div 8 = r \<and> c mod 8 < l)"
proof -
  obtain q e where c: "c = 8 * q + e" "e < 8" "c div 8 = q" "c mod 8 = e" by (rule split8)
  have "m div 8 \<le> q" using div_le_mono [OF assms(1), of 8] c by simp
  moreover have "q \<le> r" using assms c by linarith
  moreover have "q = r \<Longrightarrow> e < l" using assms c by simp
  ultimately show ?thesis using c by linarith
qed

lemma same_group: "c div 8 = m div 8 \<Longrightarrow> m \<le> c \<Longrightarrow> m mod 8 \<le> c mod 8" for c m :: nat
  by (metis add_le_cancel_left mult_div_mod_eq)

section \<open>The search of allocate\<close>

lemma find_bin_leaf:
  assumes ok: "bits_ok s B" and m: "unat m < 248"
    and leaf: "\<And>c. unat c div 8 = unat m div 8 \<Longrightarrow> unat m \<le> unat c \<Longrightarrow> B c = []"
    and r: "r = findLowestSetBitAfter (m_usedBinsTop s) (topOf m + 1)"
  shows "r = NO_SPACE \<Longrightarrow> unat m \<le> unat c \<Longrightarrow> B c = []"
    and "r \<noteq> NO_SPACE \<Longrightarrow> l = tzcnt_nonzero (ucast (m_usedBins s r)) \<Longrightarrow>
      unat r < 32 \<and> unat l < 8 \<and> B (joinBin r l) \<noteq> [] \<and> unat m \<le> unat (joinBin r l)
      \<and> (\<forall>c. unat m \<le> unat c \<and> unat c < unat (joinBin r l) \<longrightarrow> B c = [])"
proof -
  have st: "unat (topOf m + 1) = unat m div 8 + 1"
    using m unat_plus_no_wrap [of "topOf m" 1] by (simp add: unat_topOf)
  then have st32: "unat (topOf m + 1) < 32" using m by simp
  have far: "B c = []" if "unat m \<le> unat c" "\<not> bit (m_usedBinsTop s) (unat c div 8)" for c
    using that bits_ok_bin_top [OF ok, of c] bits_ok_top [OF ok, of "topOf c"] by (auto simp: unat_topOf)
  show "B c = []" if "r = NO_SPACE" "unat m \<le> unat c"
  proof (cases "unat c div 8 = unat m div 8")
    case False
    then have "unat m div 8 + 1 \<le> unat c div 8" using div_le_mono [OF that(2), of 8] by simp
    then show ?thesis using that findLowestSetBitAfter_NO_SPACE_iff [OF st32] r st far by metis
  qed (use leaf that in simp)
  assume nr: "r \<noteq> NO_SPACE" and l: "l = tzcnt_nonzero (ucast (m_usedBins s r))"
  have f: "bit (m_usedBinsTop s) (unat r)" "unat m div 8 + 1 \<le> unat r" "unat r < 32"
      "\<And>k. unat m div 8 + 1 \<le> k \<Longrightarrow> k < unat r \<Longrightarrow> \<not> bit (m_usedBinsTop s) k"
    using findLowestSetBitAfter_found [OF st32, of "m_usedBinsTop s"] nr r st by auto
  have "m_usedBins s r \<noteq> 0" using f(1) bits_ok_top [OF ok] by simp
  then have z: "bit (m_usedBins s r) (unat l)" "\<And>k. k < unat l \<Longrightarrow> \<not> bit (m_usedBins s r) k"
    using tzcnt_nonzero_spec [of "ucast (m_usedBins s r)"] l by auto
  have l8: "unat l < 8" using bit_usedBins_lt [OF z(1)] .
  have j: "unat (joinBin r l) = 8 * unat r + unat l" using bin_join(3) [OF f(3) l8] .
  have "B c = []" if c: "unat m \<le> unat c" "unat c < 8 * unat r + unat l" for c
  proof -
    consider "unat c div 8 = unat m div 8" | "unat m div 8 + 1 \<le> unat c div 8" "unat c div 8 < unat r"
      | "unat c div 8 = unat r" "unat c mod 8 < unat l"
      using groups_between [OF c l8] by blast
    then show ?thesis
    proof cases
      case 3
      then show ?thesis using bits_ok_bin [OF ok, of c] topOf_eqI [OF 3(1)] z(2) by auto
    qed (use leaf c f(4) far in auto)
  qed
  then show "unat r < 32 \<and> unat l < 8 \<and> B (joinBin r l) \<noteq> [] \<and> unat m \<le> unat (joinBin r l)
      \<and> (\<forall>c. unat m \<le> unat c \<and> unat c < unat (joinBin r l) \<longrightarrow> B c = [])"
    using f(2,3) l8 z(1) bits_ok_leaf [OF ok f(3) l8] by (simp add: j)
qed

lemma find_bin_leaf_empty:
  assumes ok: "bits_ok s B" and m: "unat m < 248"
    and none: "m_usedBinsTop s AND push_bit (unat (topOf m)) 1 \<noteq> 0 \<Longrightarrow>
      findLowestSetBitAfter (ucast (m_usedBins s (topOf m))) (leafOf m) = NO_SPACE"
    and c: "unat c div 8 = unat m div 8" "unat m \<le> unat c"
  shows "B c = []"
proof -
  have t: "topOf c = topOf m" using c(1) by (simp add: topOf_eqI unat_topOf)
  have cm: "unat (leafOf m) \<le> unat c mod 8" using same_group [OF c] by (simp only: unat_leafOf)
  have "\<not> bit (m_usedBins s (topOf m)) (unat c mod 8)"
  proof (cases "m_usedBins s (topOf m) = 0")
    case False
    then have "bit (m_usedBinsTop s) (unat (topOf m))" using bits_ok_top [OF ok] by simp
    moreover have "unat (topOf m) < 32" using m by (simp add: unat_topOf)
    ultimately have "bit (m_usedBinsTop s AND push_bit (unat (topOf m)) 1) (unat (topOf m))"
      by (simp add: bit_simps)
    then have "m_usedBinsTop s AND push_bit (unat (topOf m)) 1 \<noteq> 0" by (metis bit_0_eq bot_apply bot_bool_def)
    then show ?thesis
      using none findLowestSetBitAfter_NO_SPACE_iff [of "leafOf m"] cm unat_leafOf_lt [of m] by force
  qed simp
  then show ?thesis using bits_ok_bin [OF ok, of c] t by simp
qed

lemma find_bin_Some:
  assumes ok: "bits_ok s B" and m: "unat m < 248" and f: "find_bin m s = Some (t, l)"
  shows "unat t < 32 \<and> unat l < 8 \<and> B (joinBin t l) \<noteq> [] \<and> unat m \<le> unat (joinBin t l)
    \<and> (\<forall>c. unat m \<le> unat c \<and> unat c < unat (joinBin t l) \<longrightarrow> B c = [])"
proof -
  define lf where "lf = (if m_usedBinsTop s AND push_bit (unat (topOf m)) 1 \<noteq> 0
    then findLowestSetBitAfter (ucast (m_usedBins s (topOf m))) (leafOf m) else NO_SPACE)"
  show ?thesis
  proof (cases "lf = NO_SPACE")
    case True
    then have e: "unat c div 8 = unat m div 8 \<Longrightarrow> unat m \<le> unat c \<Longrightarrow> B c = []" for c
      by (intro find_bin_leaf_empty [OF ok m]) (auto simp: lf_def)
    have "findLowestSetBitAfter (m_usedBinsTop s) (topOf m + 1) \<noteq> NO_SPACE"
      "t = findLowestSetBitAfter (m_usedBinsTop s) (topOf m + 1)" "l = tzcnt_nonzero (ucast (m_usedBins s t))"
      using f True by (auto simp: find_bin_def Let_def lf_def split: if_splits)
    then show ?thesis using find_bin_leaf(2) [OF ok m e] by blast
  next
    case False
    have tl: "t = topOf m" "l = lf" using f False by (auto simp: find_bin_def Let_def lf_def split: if_splits)
    have lf: "lf = findLowestSetBitAfter (ucast (m_usedBins s (topOf m))) (leafOf m)"
      using False by (auto simp: lf_def split: if_splits)
    have lm: "unat (leafOf m) < 32" using unat_leafOf_lt [of m] by simp
    note g = findLowestSetBitAfter_found [OF lm, of "ucast (m_usedBins s (topOf m))", folded lf, OF False, folded tl]
    have b: "bit (m_usedBins s t) (unat l)" using g(1) by simp
    have l8: "unat l < 8" using bit_usedBins_lt [OF b] .
    have t32: "unat t < 32" using m by (simp add: tl unat_topOf)
    have mm: "unat m = 8 * unat t + unat (leafOf m)" by (simp add: tl unat_topOf unat_leafOf)
    have j: "unat (joinBin t l) = 8 * unat t + unat l" using bin_join(3) [OF t32 l8] .
    have "B c = []" if c: "unat m \<le> unat c" "unat c < 8 * unat t + unat l" for c
    proof -
      have "unat c div 8 = unat t" "unat (leafOf m) \<le> unat c mod 8" "unat c mod 8 < unat l"
        using within_group [of "unat t" "unat (leafOf m)" "unat c"] c l8 by (simp_all only: mm)
      then show ?thesis using bits_ok_bin [OF ok, of c] topOf_eqI [of c t] g(4) [of "unat c mod 8"] by simp
    qed
    then show ?thesis using t32 l8 b bits_ok_leaf [OF ok t32 l8] g(2) by (simp add: j mm)
  qed
qed

lemma find_bin_None:
  assumes ok: "bits_ok s B" and m: "unat m < 248" and f: "find_bin m s = None" and c: "unat m \<le> unat c"
  shows "B c = []"
proof -
  have e: "unat c div 8 = unat m div 8 \<Longrightarrow> unat m \<le> unat c \<Longrightarrow> B c = []" for c
    by (rule find_bin_leaf_empty [OF ok m]) (use f in \<open>auto simp: find_bin_def Let_def split: if_splits\<close>)
  have "findLowestSetBitAfter (m_usedBinsTop s) (topOf m + 1) = NO_SPACE"
    using f by (auto simp: find_bin_def Let_def split: if_splits)
  then show ?thesis using find_bin_leaf(1) [OF ok m e refl _ c] by blast
qed

section \<open>The search of storageReport\<close>

lemma largest_bin:
  assumes ok: "bits_ok s B" and nz: "m_usedBinsTop s \<noteq> 0"
    and t: "t = 31 - lzcnt_nonzero (m_usedBinsTop s)" and l: "l = 31 - lzcnt_nonzero (ucast (m_usedBins s t))"
  shows "unat t < 32" "unat l < 8" "B (joinBin t l) \<noteq> []" "B c \<noteq> [] \<Longrightarrow> unat c \<le> unat (joinBin t l)"
proof -
  note T = lzcnt_nonzero_spec [OF nz, folded t]
  show t32: "unat t < 32" using T(2) .
  have "m_usedBins s t \<noteq> 0" using T(1) bits_ok_top [OF ok] by simp
  then have z: "bit (m_usedBins s t) (unat l)" "\<And>k. unat l < k \<Longrightarrow> \<not> bit (m_usedBins s t) k"
    using lzcnt_nonzero_spec [of "ucast (m_usedBins s t)", folded l] by auto
  show l8: "unat l < 8" using bit_usedBins_lt [OF z(1)] .
  have j: "unat (joinBin t l) = 8 * unat t + unat l" using bin_join(3) [OF t32 l8] .
  show "B (joinBin t l) \<noteq> []" using z(1) bits_ok_leaf [OF ok t32 l8] by simp
  assume c: "B c \<noteq> []"
  have le: "unat c div 8 \<le> unat t"
    using bits_ok_bin_top [OF ok c] bits_ok_top [OF ok, of "topOf c"] T(3) [of "unat c div 8"]
    by (auto simp: unat_topOf not_le [symmetric])
  show "unat c \<le> unat (joinBin t l)"
  proof (cases "unat c div 8 = unat t")
    case True
    then have "unat c mod 8 \<le> unat l"
      using bits_ok_bin [OF ok, of c] c topOf_eqI [OF True] z(2) [of "unat c mod 8"] by (auto simp: not_le [symmetric])
    then show ?thesis using True by (simp add: j) (metis add_le_cancel_left mult_div_mod_eq)
  qed (use le in \<open>simp add: j\<close>)
qed

lemma no_bin:
  assumes ok: "bits_ok s B" and z: "m_usedBinsTop s = 0" shows "B c = []"
  using bits_ok_bin_top [OF ok, of c] bits_ok_top [OF ok, of "topOf c"] z by auto

end
