(* ===== verification/Offset_Alloc.thy ===== *)
theory Offset_Alloc
  imports Offset_Invariant Offset_Search
begin

text \<open>
  \<open>__Allocator\<close>: a new allocator satisfies the invariant, and \<open>allocate\<close> keeps it and hands
  out a region nobody holds, or changes nothing that a client can see.
\<close>

section \<open>A new allocator\<close>

lemma insert_first_wf:
  assumes s: "m_freeStorage s = 0" "m_usedBinsTop s = 0" "m_freeOffset s = 0" "m_usedBins s = (\<lambda>_. 0)"
      "m_binIndices s = (\<lambda>_. Node_unused)" "m_nodes_set s" "m_nodes s = (\<lambda>_. Node_default)"
    and fn: "\<And>i. i < m_current_capacity s \<Longrightarrow> m_freeNodes s i = i"
    and c: "0 < m_current_capacity s" "m_current_capacity s \<le> m_max_capacity s"
  shows "oa_wf (fst (insertNodeIntoBin (m_size s) 0 s)) [0]"
    and "oa_live (fst (insertNodeIntoBin (m_size s) 0 s)) = Map.empty"
proof -
  let ?s = "fst (insertNodeIntoBin (m_size s) 0 s)"
  have u0: "Node_unused \<noteq> 0" by (simp add: Node_unused_def)
  have y: "m_freeNodes s (m_freeOffset s) = 0" using fn c s by simp
  have fl: "free_list s = map word_of_nat [0 ..< unat (m_current_capacity s)]"
  proof -
    have "m_freeNodes s (word_of_nat k) = word_of_nat k" if "k < unat (m_current_capacity s)" for k
      using that u32_lt_of_unat [of "m_current_capacity s"]
      by (intro fn) (simp add: word_less_nat_alt unsigned_of_nat take_bit_nat_eq_self)
    then show ?thesis by (simp add: free_list_def s)
  qed
  have slots: "slots_ok s {}"
  proof -
    have "{i. i < m_current_capacity s} = word_of_nat ` {0 ..< unat (m_current_capacity s)}"
      by (rule below_image)
    moreover have "distinct (free_list s)"
      using fl u32_lt_of_unat [of "m_current_capacity s"]
      by (simp add: distinct_map)
        (intro inj_on_inverseI [of _ unat], simp add: unsigned_of_nat take_bit_nat_eq_self)
    ultimately show ?thesis using c(2) by (simp add: slots_ok_def fl s)
  qed
  have lt: "m_freeOffset s < m_current_capacity s" using s c by simp
  have "bins_ok s (\<lambda>_. []) {}"
    by (simp add: bins_ok_def lists_ok_def bits_ok_def s)
  from insertNodeIntoBin_bins_ok [OF this y [symmetric] _ _ refl, of "m_size s" 0] u0
  have bins: "\<exists>B. bins_ok ?s B {0}" by auto
  have core: "node_core (m_nodes ?s i) = (if i = 0 then (0, m_size s, Node_unused, Node_unused, False)
      else node_core Node_default)" for i
    using insertNodeIntoBin_core [of s "m_size s" 0 i] u0 y by (simp add: s)
  have used: "\<not> used (m_nodes ?s i)" for i using core [of i] by (auto simp: node_core_def Node_default_def split: if_splits)
  have fields: "dataOffset (m_nodes ?s 0) = 0" "dataSize (m_nodes ?s 0) = m_size s"
    "neighborPrev (m_nodes ?s 0) = Node_unused" "neighborNext (m_nodes ?s 0) = Node_unused"
    using core [of 0] by (simp_all add: node_core_def)
  have "slots_ok ?s {0}"
    using slots_pop(1) [OF slots lt, of ?s 0] y by (simp add: insertNodeIntoBin_fields)
  then show "oa_wf ?s [0]"
    using bins used fields u0
    by (simp add: oa_wf_def addr_ok_def dlist_def free_nodes_def s insertNodeIntoBin_fields(7) Collect_conv_if)
  show "oa_live ?s = Map.empty" using used by (auto simp: oa_live_def)
qed

lemma Allocator_new_wf:
  assumes "0 < c" shows "oa_wf (Allocator_new sz c mx) [0]" "oa_live (Allocator_new sz c mx) = Map.empty"
    "m_size (Allocator_new sz c mx) = sz"
proof -
  define s0 where "s0 = \<lparr>m_size = sz, m_current_capacity = c, m_max_capacity = max c mx, m_freeStorage = 0,
    m_usedBinsTop = 0, m_usedBins = (\<lambda>_. 0), m_binIndices = (\<lambda>_. Node_unused), m_nodes_set = True,
    m_nodes = (\<lambda>_. Node_default), m_freeNodes = (\<lambda>i. if i < c then i else 0), m_freeOffset = 0\<rparr>"
  have n: "Allocator_new sz c mx = fst (insertNodeIntoBin (m_size s0) 0 s0)"
    by (simp add: Allocator_new_def reset_def Let_def s0_def)
  show "oa_wf (Allocator_new sz c mx) [0]"
    unfolding n by (rule insert_first_wf(1)) (use assms in \<open>simp_all add: s0_def\<close>)
  show "oa_live (Allocator_new sz c mx) = Map.empty"
    unfolding n by (rule insert_first_wf(2)) (use assms in \<open>simp_all add: s0_def\<close>)
  show "m_size (Allocator_new sz c mx) = sz" by (simp add: n) (simp add: s0_def)
qed

section \<open>Taking a slot\<close>

lemma grow_capacity_frame [simp]:
  "m_nodes (grow_capacity s) = m_nodes s" "m_binIndices (grow_capacity s) = m_binIndices s"
  "m_usedBins (grow_capacity s) = m_usedBins s" "m_usedBinsTop (grow_capacity s) = m_usedBinsTop s"
  "m_size (grow_capacity s) = m_size s" "m_freeStorage (grow_capacity s) = m_freeStorage s"
  "m_nodes_set (grow_capacity s) = m_nodes_set s" "m_max_capacity (grow_capacity s) = m_max_capacity s"
  "m_freeOffset (grow_capacity s) = m_freeOffset s"
  by (simp_all add: grow_capacity_def)

lemma grow_capacity_slots:
  assumes ok: "slots_ok s A" and ne: "m_freeOffset s \<noteq> m_max_capacity s"
  shows "slots_ok (grow_capacity s) A" "m_freeOffset (grow_capacity s) < m_current_capacity (grow_capacity s)"
proof -
  have le: "m_freeOffset s \<le> m_current_capacity s" "m_current_capacity s \<le> m_max_capacity s"
    using ok by (auto simp: slots_ok_def)
  have "slots_ok (grow_capacity s) A \<and> m_freeOffset (grow_capacity s) < m_current_capacity (grow_capacity s)"
  proof (cases "m_freeOffset s = m_current_capacity s")
    case True
    let ?c = "m_current_capacity s"
    have lt: "?c < m_max_capacity s" using True ne le by simp
    have c1: "unat (?c + 1) = Suc (unat ?c)" using unat_Suc_le [OF lt] .
    have old: "free_list s = []" using True by (simp add: free_list_def)
    have new: "free_list (grow_capacity s) = [?c]"
      using True c1 by (simp add: grow_capacity_def free_list_def upt_conv_Cons)
    have "{i. i < ?c + 1} = insert ?c {i. i < ?c}"
      using c1 by (auto simp: word_less_nat_alt word_unat_eq_iff)
    moreover have "?c + 1 \<le> m_max_capacity s" using c1 lt by (simp add: word_le_nat_alt word_less_nat_alt)
    moreover have "?c < ?c + 1" using c1 by (simp add: word_less_nat_alt)
    moreover have "A = {i. i < ?c}" using ok old by (simp add: slots_ok_def)
    ultimately show ?thesis using True new by (auto simp: slots_ok_def grow_capacity_def)
  next
    case False
    then show ?thesis using ok le by (simp add: grow_capacity_def)
  qed
  then show "slots_ok (grow_capacity s) A" "m_freeOffset (grow_capacity s) < m_current_capacity (grow_capacity s)" by auto
qed

lemma grow_capacity_wf:
  assumes "oa_wf s L" and "m_freeOffset s \<noteq> m_max_capacity s"
  shows "oa_wf (grow_capacity s) L" "oa_live (grow_capacity s) = oa_live s"
proof -
  obtain B where B: "bins_ok s B (free_nodes s L)" using assms(1) by (auto simp: oa_wf_def)
  have "bins_ok (grow_capacity s) B (free_nodes (grow_capacity s) L)"
    using bins_ok_cong [OF B, of "grow_capacity s"] by (simp add: free_nodes_def)
  then show "oa_wf (grow_capacity s) L"
    using assms grow_capacity_slots(1) [of s "set L"] by (auto simp: oa_wf_def)
  show "oa_live (grow_capacity s) = oa_live s" by (rule oa_live_core) simp
qed

section \<open>Splitting a block\<close>

lemma split_remainder_zero: "split_remainder x 0 s = s"
  by (simp add: split_remainder_def)

lemma split_remainder_fields:
  fixes s x rem
  defines "y \<equiv> m_freeNodes s (m_freeOffset s)" and "nxt \<equiv> neighborNext (m_nodes s x)"
  defines "off \<equiv> dataOffset (m_nodes s x) + dataSize (m_nodes s x)"
  defines "si \<equiv> fst (insertNodeIntoBin rem off s)"
  assumes rem: "0 < rem" and ne: "x \<noteq> y" "nxt \<noteq> y" "nxt \<noteq> x" and t: "m_binIndices s (uintToFloatRoundDown rem) \<noteq> y"
  shows "node_core (m_nodes (split_remainder x rem s) i) =
      (if i = y then (off, rem, x, nxt, False)
       else if i = x then node_core ((m_nodes s x)\<lparr>neighborNext := y\<rparr>)
       else if i = nxt \<and> nxt \<noteq> Node_unused then node_core ((m_nodes s i)\<lparr>neighborPrev := y\<rparr>)
       else node_core (m_nodes s i))"
    and "binListPrev (m_nodes (split_remainder x rem s) i) = binListPrev (m_nodes si i)"
    and "binListNext (m_nodes (split_remainder x rem s) i) = binListNext (m_nodes si i)"
    and "dataSize (m_nodes (split_remainder x rem s) i) = dataSize (m_nodes si i)"
    and "m_binIndices (split_remainder x rem s) = m_binIndices si"
    and "m_usedBins (split_remainder x rem s) = m_usedBins si"
    and "m_usedBinsTop (split_remainder x rem s) = m_usedBinsTop si"
    and "m_freeStorage (split_remainder x rem s) = m_freeStorage s + rem"
    and "m_freeNodes (split_remainder x rem s) = m_freeNodes s"
    and "m_freeOffset (split_remainder x rem s) = m_freeOffset s + 1"
proof -
  have core: "node_core (m_nodes si i) = (if i = y then (off, rem, Node_unused, Node_unused, False) else node_core (m_nodes s i))" for i
    unfolding si_def y_def using insertNodeIntoBin_core t y_def by simp
  have nx: "neighborNext (m_nodes si x) = nxt" using node_coreD [of "m_nodes si x" "m_nodes s x"] core [of x] ne by (simp add: nxt_def)
  have yi: "snd (insertNodeIntoBin rem off s) = y" by (simp add: insertNodeIntoBin_fields(1) y_def)
  define s1 where "s1 = (if nxt \<noteq> Node_unused then upd_node nxt (neighborPrev_update (\<lambda>_. y)) si else si)"
  have eq: "split_remainder x rem s = upd_node x (neighborNext_update (\<lambda>_. y))
      (upd_node y (neighborNext_update (\<lambda>_. nxt)) (upd_node y (neighborPrev_update (\<lambda>_. x)) s1))"
    using rem nx yi by (simp add: split_remainder_def Let_def split_beta s1_def si_def off_def)
  have s1: "m_nodes s1 i = (if i = nxt \<and> nxt \<noteq> Node_unused then (m_nodes si i)\<lparr>neighborPrev := y\<rparr> else m_nodes si i)" for i
    by (simp add: s1_def upd_node_def)
  show "node_core (m_nodes (split_remainder x rem s) i) =
      (if i = y then (off, rem, x, nxt, False)
       else if i = x then node_core ((m_nodes s x)\<lparr>neighborNext := y\<rparr>)
       else if i = nxt \<and> nxt \<noteq> Node_unused then node_core ((m_nodes s i)\<lparr>neighborPrev := y\<rparr>)
       else node_core (m_nodes s i))"
    using core [of i] ne by (auto simp: eq upd_node_def s1 node_core_def)
  show "binListPrev (m_nodes (split_remainder x rem s) i) = binListPrev (m_nodes si i)"
    "binListNext (m_nodes (split_remainder x rem s) i) = binListNext (m_nodes si i)"
    "dataSize (m_nodes (split_remainder x rem s) i) = dataSize (m_nodes si i)"
    by (auto simp: eq upd_node_def s1)
  show "m_binIndices (split_remainder x rem s) = m_binIndices si" "m_usedBins (split_remainder x rem s) = m_usedBins si"
    "m_usedBinsTop (split_remainder x rem s) = m_usedBinsTop si"
    by (auto simp: eq upd_node_def s1_def)
  show "m_freeStorage (split_remainder x rem s) = m_freeStorage s + rem"
    "m_freeNodes (split_remainder x rem s) = m_freeNodes s" "m_freeOffset (split_remainder x rem s) = m_freeOffset s + 1"
    by (auto simp: eq upd_node_def s1_def si_def insertNodeIntoBin_fields)
qed

lemma split_remainder_frame [simp]:
  "m_size (split_remainder x rem s) = m_size s" "m_current_capacity (split_remainder x rem s) = m_current_capacity s"
  "m_max_capacity (split_remainder x rem s) = m_max_capacity s" "m_nodes_set (split_remainder x rem s) = m_nodes_set s"
  by (simp_all add: split_remainder_def Let_def split_beta upd_node_def)

section \<open>The address order after an allocation\<close>

lemma addr_ok_neighbours:
  assumes "addr_ok N (xs @ x # ys) e"
  shows "neighborPrev (N x) = (if xs = [] then Node_unused else last xs)"
    "neighborNext (N x) = (if ys = [] then Node_unused else hd ys)" "x \<noteq> Node_unused"
    "x \<notin> set xs" "x \<notin> set ys" "set xs \<inter> set ys = {}" "Node_unused \<notin> set xs" "Node_unused \<notin> set ys"
  using assms dlist_mid [of Node_unused "\<lambda>i. neighborPrev (N i)" "\<lambda>i. neighborNext (N i)" "hd (xs @ x # ys)" xs x ys]
  by (auto simp: addr_ok_def dlist_def)

lemma addr_ok_mid_used:
  assumes "addr_ok N (xs @ x # ys) e" and "\<not> used (N x)"
  shows "xs \<noteq> [] \<Longrightarrow> used (N (last xs))" "ys \<noteq> [] \<Longrightarrow> used (N (hd ys))"
proof -
  have s: "successively (not_both_free N) (xs @ x # ys)" using assms(1) by (simp add: addr_ok_def)
  show "xs \<noteq> [] \<Longrightarrow> used (N (last xs))" "ys \<noteq> [] \<Longrightarrow> used (N (hd ys))"
    using s assms(2) by (auto simp: successively_append_iff successively_Cons)
qed

lemma addr_ok_take:
  assumes ok: "addr_ok N (xs @ x # ys) e"
    and x: "node_core (N' x) = node_core ((N x)\<lparr>used := True\<rparr>)"
    and oth: "\<And>i. i \<in> set xs \<union> set ys \<Longrightarrow> node_core (N' i) = node_core (N i)"
  shows "addr_ok N' (xs @ x # ys) e"
proof -
  define N1 where "N1 = N(x := (N x)\<lparr>used := True\<rparr>)"
  have "addr_ok N1 (xs @ x # ys) e"
  proof -
    have "dlist Node_unused (\<lambda>i. neighborPrev (N i)) (\<lambda>i. neighborNext (N i)) (hd (xs @ x # ys)) (xs @ x # ys)"
      using ok by (simp add: addr_ok_def)
    then have "dlist Node_unused (\<lambda>i. neighborPrev (N1 i)) (\<lambda>i. neighborNext (N1 i)) (hd (xs @ x # ys)) (xs @ x # ys)"
      by (rule dlist_transfer) (auto simp: N1_def)
    moreover have "tiles N1 0 (xs @ x # ys) e" by (rule tiles_cong [of N]) (use ok in \<open>auto simp: addr_ok_def N1_def\<close>)
    moreover have "successively (not_both_free N1) (xs @ x # ys)"
      using ok by (auto simp: addr_ok_def N1_def elim: successively_mono)
    ultimately show ?thesis using ok by (simp add: addr_ok_def)
  qed
  then show ?thesis by (rule addr_ok_core) (use x oth in \<open>auto simp: N1_def\<close>)
qed

lemma addr_ok_split:
  assumes ok: "addr_ok N (xs @ x # ys) e" and e: "e < 2 ^ 32" and fx: "\<not> used (N x)"
    and y: "y \<notin> set (xs @ x # ys)" "y \<noteq> Node_unused" and r: "r \<le> dataSize (N x)"
    and Ny: "node_core (N' y) = (dataOffset (N x) + r, dataSize (N x) - r, x, neighborNext (N x), False)"
    and Nx: "node_core (N' x) = node_core ((N x)\<lparr>dataSize := r, used := True, neighborNext := y\<rparr>)"
    and oth: "\<And>i. i \<in> set xs \<union> set ys \<Longrightarrow> node_core (N' i) =
      (if i = neighborNext (N x) then node_core ((N i)\<lparr>neighborPrev := y\<rparr>) else node_core (N i))"
  shows "addr_ok N' (xs @ x # y # ys) e"
proof -
  note nb = addr_ok_neighbours [OF ok]
  have d: "dlist Node_unused (\<lambda>i. neighborPrev (N i)) (\<lambda>i. neighborNext (N i)) (hd (xs @ x # ys)) (xs @ [x] @ ys)"
    and dist: "distinct (xs @ [x] @ ys)" and tl: "tiles N 0 (xs @ x # ys) e"
    and su: "successively (not_both_free N) (xs @ x # ys)"
    using ok by (simp_all add: addr_ok_def)
  have Nx': "dataOffset (N' x) = dataOffset (N x)" "dataSize (N' x) = r" "neighborPrev (N' x) = neighborPrev (N x)"
      "neighborNext (N' x) = y" "used (N' x)"
    and Ny': "dataOffset (N' y) = dataOffset (N x) + r" "dataSize (N' y) = dataSize (N x) - r" "neighborPrev (N' y) = x"
      "neighborNext (N' y) = neighborNext (N x)" "\<not> used (N' y)"
    using Nx Ny by (simp_all add: node_core_def)
  have oth': "dataOffset (N' i) = dataOffset (N i)" "dataSize (N' i) = dataSize (N i)" "neighborNext (N' i) = neighborNext (N i)"
      "used (N' i) = used (N i)" "neighborPrev (N' i) = (if i = neighborNext (N x) then y else neighborPrev (N i))"
    if "i \<in> set xs \<union> set ys" for i using oth [OF that] by (simp_all add: node_core_def split: if_splits)
  have hy: "ys \<noteq> [] \<Longrightarrow> hd ys \<in> set ys" "xs \<noteq> [] \<Longrightarrow> last xs \<in> set xs" by simp_all
  have nxs: "neighborNext (N x) \<notin> set xs" using nb hy by (auto split: if_splits)
  have nxl: "neighborNext (N (last xs)) = x" if "xs \<noteq> []"
  proof -
    have "dlist Node_unused (\<lambda>i. neighborPrev (N i)) (\<lambda>i. neighborNext (N i)) (hd (xs @ x # ys)) (butlast xs @ last xs # x # ys)"
      using d append_butlast_last_id [OF that] by (metis append.assoc append_Cons append_Nil)
    from dlist_mid(2) [OF this] show ?thesis by simp
  qed
  then have nxl: "last xs \<in> set xs \<Longrightarrow> neighborNext (N (last xs)) = x" by (cases "xs = []") auto
  have "dlist Node_unused (\<lambda>i. neighborPrev (N' i)) (\<lambda>i. neighborNext (N' i)) (hd (xs @ [x, y])) (xs @ [x, y] @ ys)"
    by (rule dlist_replace [OF d dist])
      (use nb nxs nxl oth' y hy in \<open>auto simp: Nx' Ny'\<close>)
  moreover have "hd (xs @ [x, y]) = hd (xs @ x # y # ys)" by (cases xs) auto
  moreover have "tiles N' 0 (xs @ x # y # ys) e"
  proof -
    obtain m where m: "tiles N 0 xs m" "tiles N m (x # ys) e" using tl by (auto simp: tiles_append)
    have "tiles N' 0 xs m" using m(1) by (rule tiles_cong) (use oth' in auto)
    moreover have a: "m = unat (dataOffset (N x))" "tiles N (m + unat (dataSize (N x))) ys e" using m(2) by auto
    from a(2) have "tiles N' (m + unat (dataSize (N x))) ys e" by (rule tiles_cong) (use oth' in auto)
    moreover have "unat (dataSize (N x) - r) = unat (dataSize (N x)) - unat r" using r by (rule unat_minus_no_wrap)
    moreover have "unat r \<le> unat (dataSize (N x))" using r by (simp add: word_le_nat_alt)
    moreover have "unat (dataOffset (N x)) + unat (dataSize (N x)) \<le> e" using tiles_region(2) [OF tl, of x] by simp
    moreover have "unat (dataOffset (N x) + r) = unat (dataOffset (N x)) + unat r"
      by (rule unat_plus_no_wrap) (use calculation e in simp)
    ultimately show ?thesis by (auto simp: tiles_append Nx' Ny' a(1))
  qed
  moreover have "successively (not_both_free N') (xs @ x # y # ys)"
  proof -
    have "successively (not_both_free N) xs" "successively (not_both_free N) ys"
      using su by (auto simp: successively_append_iff successively_Cons)
    then have "successively (not_both_free N') xs" "successively (not_both_free N') ys"
      using oth' by (auto intro: successively_not_both_free_cong)
    moreover have "ys \<noteq> [] \<Longrightarrow> used (N' (hd ys))" using addr_ok_mid_used(2) [OF ok fx] oth' by simp
    ultimately show ?thesis by (auto simp: successively_append_iff successively_Cons Nx')
  qed
  ultimately show ?thesis using dist y by (auto simp: addr_ok_def)
qed

section \<open>Allocation\<close>

lemma oa_wf_bins_size:
  assumes wf: "oa_wf s L" and B: "bins_ok s B (free_nodes s L)" and c: "B c \<noteq> []" and x: "x = m_binIndices s c"
  shows "x \<in> set L" "\<not> used (m_nodes s x)" "bin_down (unat (dataSize (m_nodes s x))) = unat c" "x \<noteq> Node_unused"
proof -
  have lok: "lists_ok s B (free_nodes s L)" using B by (simp add: bins_ok_def)
  show ne: "x \<noteq> Node_unused" using c dlist_nil_iff [OF lists_okD(1) [OF lok, of c]] x by simp
  then show "x \<in> set L" "\<not> used (m_nodes s x)" using lists_ok_top(1) [OF lok, of c] x by (auto simp: free_nodes_def)
  show "bin_down (unat (dataSize (m_nodes s x))) = unat c"
    using lists_ok_top(2) [OF lok, of c] ne x by (simp add: node_class_def flip: uintToFloatRoundDown_unat)
qed

lemma roundup_fits:
  assumes "unat m \<le> bin_down (unat sz)" and r: "r = floatToUint m"
  shows "unat r = bin_size (unat m)" "r \<le> (sz :: u32)"
proof -
  have le: "bin_size (unat m) \<le> unat sz" using assms by (simp add: le_bin_down_iff)
  then have "bin_size (unat m) < 2 ^ 32" using u32_lt_of_unat [of sz] by simp
  then show "unat r = bin_size (unat m)" using r floatToUint_unat by simp
  then show "r \<le> sz" using le by (simp add: word_le_nat_alt)
qed

text \<open>
  The state after the pop: the node \<open>x\<close> is out of its bin and in use with the size \<open>r\<close>,
  and nothing else has changed that the address order can see.
\<close>

definition taken :: "Allocator \<Rightarrow> u32 list \<Rightarrow> u32 \<Rightarrow> u32 \<Rightarrow> Allocator \<Rightarrow> bool" where
  "taken s L x r s2 \<longleftrightarrow>
     (\<forall>i. node_core (m_nodes s2 i) =
        (if i = x then node_core ((m_nodes s x)\<lparr>dataSize := r, used := True\<rparr>) else node_core (m_nodes s i)))
     \<and> (\<exists>B. bins_ok s2 B (free_nodes s L - {x})) \<and> slots_ok s2 (set L)
     \<and> m_freeStorage s2 = m_freeStorage s - dataSize (m_nodes s x) \<and> m_size s2 = m_size s \<and> m_nodes_set s2"

lemma takenD:
  assumes "taken s L x r s2"
  shows "dataOffset (m_nodes s2 i) = dataOffset (m_nodes s i)" "neighborPrev (m_nodes s2 i) = neighborPrev (m_nodes s i)"
    "neighborNext (m_nodes s2 i) = neighborNext (m_nodes s i)"
    "dataSize (m_nodes s2 i) = (if i = x then r else dataSize (m_nodes s i))"
    "used (m_nodes s2 i) = (i = x \<or> used (m_nodes s i))"
proof -
  have "node_core (m_nodes s2 i) =
    (if i = x then node_core ((m_nodes s x)\<lparr>dataSize := r, used := True\<rparr>) else node_core (m_nodes s i))"
    using assms unfolding taken_def by blast
  then show "dataOffset (m_nodes s2 i) = dataOffset (m_nodes s i)" "neighborPrev (m_nodes s2 i) = neighborPrev (m_nodes s i)"
    "neighborNext (m_nodes s2 i) = neighborNext (m_nodes s i)"
    "dataSize (m_nodes s2 i) = (if i = x then r else dataSize (m_nodes s i))"
    "used (m_nodes s2 i) = (i = x \<or> used (m_nodes s i))"
    by (auto simp: node_core_def split: if_splits)
qed

lemma pop_bin_taken:
  assumes wf: "oa_wf s L" and B: "bins_ok s B (free_nodes s L)" and t: "unat t < 32" and l: "unat l < 8"
    and c: "B (joinBin t l) \<noteq> []" and x: "x = m_binIndices s (joinBin t l)"
  shows "taken s L x r (pop_bin t l r s)"
proof -
  note bx = oa_wf_bins_size [OF wf B c x]
  have xfr: "x \<in> free_nodes s L" using bx by (simp add: free_nodes_def)
  note f = pop_bin_fields [of s t l, folded x, OF bins_ok_next_neq [OF B xfr]]
  have "slots_ok s (set L)" "m_nodes_set s" using wf by (auto simp: oa_wf_def)
  moreover have "slots_ok (pop_bin t l r s) (set L)" using calculation(1) by (rule slots_ok_cong) simp_all
  ultimately show ?thesis
    using pop_bin_bins_ok [OF B t l refl x bx(4)] by (simp add: taken_def f(3,7))
qed

lemma free_sum_taken:
  assumes wf: "oa_wf s L" and L: "L = xs @ x # ys" and x: "\<not> used (m_nodes s x)" and tk: "taken s L x r s2"
  shows "free_sum (m_nodes s2) xs = free_sum (m_nodes s) xs" "free_sum (m_nodes s2) ys = free_sum (m_nodes s) ys"
    "unat (m_freeStorage s2) = free_sum (m_nodes s) xs + free_sum (m_nodes s) ys"
proof -
  have "x \<notin> set xs" "x \<notin> set ys" using wf by (auto simp: oa_wf_def addr_ok_def L)
  then show "free_sum (m_nodes s2) xs = free_sum (m_nodes s) xs" "free_sum (m_nodes s2) ys = free_sum (m_nodes s) ys"
    using takenD [OF tk] by (auto intro!: free_sum_cong)
  have fs: "unat (m_freeStorage s) = free_sum (m_nodes s) xs + unat (dataSize (m_nodes s x)) + free_sum (m_nodes s) ys"
    using wf x by (simp add: oa_wf_def L)
  have "m_freeStorage s2 = m_freeStorage s - dataSize (m_nodes s x)" using tk by (simp add: taken_def)
  moreover have "unat (m_freeStorage s - dataSize (m_nodes s x)) = unat (m_freeStorage s) - unat (dataSize (m_nodes s x))"
    using fs by (intro unat_minus_no_wrap) (simp add: word_le_nat_alt)
  ultimately show "unat (m_freeStorage s2) = free_sum (m_nodes s) xs + free_sum (m_nodes s) ys" using fs by simp
qed

lemma taken_live:
  "taken s L x r s2 \<Longrightarrow> oa_live s2 = (oa_live s)(x \<mapsto> (unat (dataOffset (m_nodes s x)), unat r))"
  using takenD [of s L x r s2] by (auto simp: oa_live_def node_region_def fun_eq_iff)

text \<open>The whole block is used.\<close>

lemma taken_whole_wf:
  assumes wf: "oa_wf s L" and x: "x \<in> free_nodes s L" and tk: "taken s L x (dataSize (m_nodes s x)) s2"
  shows "oa_wf s2 L"
proof -
  obtain xs ys where L: "L = xs @ x # ys" using x by (auto simp: free_nodes_def dest: split_list)
  have fx: "\<not> used (m_nodes s x)" using x by (simp add: free_nodes_def)
  have addr: "addr_ok (m_nodes s) (xs @ x # ys) (unat (m_size s))" using wf by (simp add: oa_wf_def L)
  have "addr_ok (m_nodes s2) (xs @ x # ys) (unat (m_size s))"
    by (rule addr_ok_take [OF addr]) (use takenD [OF tk] addr_ok_neighbours [OF addr] in \<open>auto simp: node_core_def\<close>)
  moreover have "free_nodes s2 L = free_nodes s L - {x}" using takenD [OF tk] by (auto simp: free_nodes_def)
  moreover have "\<forall>i. used (m_nodes s2 i) \<longrightarrow> i \<in> set L" using wf takenD(5) [OF tk] by (auto simp: oa_wf_def L)
  moreover have "unat (m_freeStorage s2) = free_sum (m_nodes s2) L"
    using free_sum_taken [OF wf L fx tk] takenD(5) [OF tk] by (simp add: L)
  ultimately show ?thesis using tk by (auto simp: oa_wf_def taken_def L)
qed

text \<open>The block is split.\<close>

lemma taken_split_wf:
  assumes wf: "oa_wf s L" and x: "x \<in> free_nodes s L" and tk: "taken s L x r s2"
    and lt: "m_freeOffset s2 < m_current_capacity s2" and r: "r < dataSize (m_nodes s x)"
    and s': "s' = split_remainder x (dataSize (m_nodes s x) - r) s2"
  shows "\<exists>L'. oa_wf s' L'" "oa_live s' = oa_live s2" "dataOffset (m_nodes s' x) = dataOffset (m_nodes s x)"
proof -
  define rem where "rem = dataSize (m_nodes s x) - r"
  define y where "y = m_freeNodes s2 (m_freeOffset s2)"
  obtain xs ys where L: "L = xs @ x # ys" using x by (auto simp: free_nodes_def dest: split_list)
  have fx: "\<not> used (m_nodes s x)" using x by (simp add: free_nodes_def)
  have addr: "addr_ok (m_nodes s) (xs @ x # ys) (unat (m_size s))" and us: "\<And>i. used (m_nodes s i) \<Longrightarrow> i \<in> set L"
    using wf by (auto simp: oa_wf_def L)
  note nb = addr_ok_neighbours [OF addr]
  obtain B2 where B2: "bins_ok s2 B2 (free_nodes s L - {x})" and slots2: "slots_ok s2 (set L)"
    using tk by (auto simp: taken_def)
  have y: "y \<notin> set L" "y \<noteq> Node_unused"
    using slots_pop(2,3) [OF slots2 lt, of "s2\<lparr>m_freeOffset := m_freeOffset s2 + 1\<rparr>" y] by (simp_all add: y_def)
  have nxt: "neighborNext (m_nodes s2 x) = neighborNext (m_nodes s x)" using takenD [OF tk] by simp
  have nn: "neighborNext (m_nodes s x) \<noteq> y" "neighborNext (m_nodes s x) \<noteq> x"
    using nb y hd_in_set [of ys] by (auto simp: L split: if_splits)
  have urem: "unat rem = unat (dataSize (m_nodes s x)) - unat r" "unat r < unat (dataSize (m_nodes s x))"
    using r unat_minus_no_wrap [of r "dataSize (m_nodes s x)"] by (auto simp: rem_def word_less_nat_alt word_le_nat_alt)
  have rem: "0 < rem" using urem by (simp add: word_less_nat_alt)
  have tb: "m_binIndices s2 (uintToFloatRoundDown rem) \<noteq> y"
    using lists_ok_top(1) [of s2 B2 _ "uintToFloatRoundDown rem"] B2 y by (auto simp: bins_ok_def free_nodes_def)
  have s'r: "s' = split_remainder x rem s2" using s' by (simp add: rem_def)
  note g = split_remainder_fields [OF rem, of x s2, folded y_def, unfolded nxt, OF _ nn tb, folded s'r]
  have xy: "x \<noteq> y" using y by (auto simp: L)
  have core: "node_core (m_nodes s' i) =
      (if i = y then (dataOffset (m_nodes s x) + r, rem, x, neighborNext (m_nodes s x), False)
       else if i = x then node_core ((m_nodes s x)\<lparr>dataSize := r, used := True, neighborNext := y\<rparr>)
       else if i = neighborNext (m_nodes s x) \<and> neighborNext (m_nodes s x) \<noteq> Node_unused
            then node_core ((m_nodes s i)\<lparr>neighborPrev := y\<rparr>)
       else node_core (m_nodes s i))" for i
    using g(1) [OF xy, of i] takenD [OF tk] by (auto simp: node_core_def)
  have used: "used (m_nodes s' i) = (i \<noteq> y \<and> used (m_nodes s2 i))" for i
    using core [of i] takenD(5) [OF tk] nn by (auto simp: node_core_def split: if_splits)
  have oth: "used (m_nodes s' i) = used (m_nodes s i)" "dataSize (m_nodes s' i) = dataSize (m_nodes s i)"
    if "i \<in> set xs \<union> set ys" for i
  proof -
    have "i \<noteq> x" "i \<noteq> y" using that nb y by (auto simp: L)
    then show "used (m_nodes s' i) = used (m_nodes s i)" "dataSize (m_nodes s' i) = dataSize (m_nodes s i)"
      using core [of i] by (auto simp: node_core_def split: if_splits)
  qed
  have uy: "\<not> used (m_nodes s2 y)" using us y takenD(5) [OF tk] xy by auto
  let ?L = "xs @ x # y # ys"
  have "addr_ok (m_nodes s') ?L (unat (m_size s))"
    by (rule addr_ok_split [OF addr, of y r])
      (use u32_lt_of_unat [of "m_size s"] fx y r core xy nb in \<open>auto simp: L rem_def\<close>)
  moreover have "slots_ok s' (set ?L)"
    using slots_pop(1) [OF slots2 lt, of s' y] g(9,10) [OF xy] by (simp add: y_def s'r L insert_commute)
  moreover have "\<exists>B. bins_ok s' B (free_nodes s' ?L)"
  proof -
    have fr: "free_nodes s' ?L = insert y (free_nodes s L - {x})"
      using used takenD(5) [OF tk] y uy xy by (auto simp: free_nodes_def L)
    have "y \<notin> free_nodes s L - {x}" using y by (simp add: free_nodes_def)
    from insertNodeIntoBin_bins_ok [OF B2 y_def this y(2) refl] show ?thesis
      unfolding fr using bins_ok_cong [of _ _ _ s'] g(2-7) [OF xy] by blast
  qed
  moreover have "unat (m_freeStorage s') = free_sum (m_nodes s') ?L"
  proof -
    note fs = free_sum_taken [OF wf L fx tk]
    have "free_sum (m_nodes s') xs = free_sum (m_nodes s) xs" "free_sum (m_nodes s') ys = free_sum (m_nodes s) ys"
      using oth by (auto intro!: free_sum_cong)
    moreover have "unat (m_freeStorage s2 + rem) = unat (m_freeStorage s2) + unat rem"
      using oa_wf_storage [OF wf] urem wf fx fs(3) u32_lt_of_unat [of "m_freeStorage s"]
      by (intro unat_plus_no_wrap) (simp add: oa_wf_def L)
    moreover have "used (m_nodes s' x)" "\<not> used (m_nodes s' y)" "dataSize (m_nodes s' y) = rem"
      using core [of x] core [of y] xy by (auto simp: node_core_def)
    ultimately show ?thesis using g(8) [OF xy] fs by simp
  qed
  moreover have "i \<in> set ?L" if "used (m_nodes s' i)" for i
    using that us [of i] used [of i] takenD(5) [OF tk, of i] by (auto simp: L)
  moreover have "m_size s' = m_size s" "m_nodes_set s'" using tk by (simp_all add: s'r taken_def)
  ultimately have "oa_wf s' ?L" unfolding oa_wf_def by simp
  then show "\<exists>L'. oa_wf s' L'" by blast
  show "oa_live s' = oa_live s2"
  proof
    fix i show "oa_live s' i = oa_live s2 i"
      using core [of i] used [of i] uy takenD [OF tk, of i] by (auto simp: oa_live_def node_region_def node_core_def split: if_splits)
  qed
  show "dataOffset (m_nodes s' x) = dataOffset (m_nodes s x)" using core [of x] xy by (simp add: node_core_def)
qed

lemma roundUp_lt: "unat (uintToFloatRoundUp sz) < 248"
proof -
  have "bin_up (unat sz) \<le> Suc (bin_down (unat sz))" by (simp add: bin_up_down)
  then show ?thesis using bin_down_lt [of "unat sz"] u32_lt_of_unat [of sz] by (simp add: uintToFloatRoundUp_unat)
qed

text \<open>\<open>allocate\<close> finds a bin: the node taken, its size and the state after it.\<close>

lemma allocate_found:
  assumes wf: "oa_wf s L" and ne: "m_freeOffset s \<noteq> m_max_capacity s"
    and f: "find_bin (uintToFloatRoundUp sz) (grow_capacity s) = Some (t, l)"
    and x: "x = m_binIndices s (joinBin t l)"
  shows "oa_inv (fst (allocate sz s))"
    and "snd (allocate sz s) = \<lparr>a_offset = dataOffset (m_nodes s x), a_metadata = x\<rparr>"
    and "oa_live s x = None"
    and "oa_live (fst (allocate sz s)) = (oa_live s)(x \<mapsto> (unat (dataOffset (m_nodes s x)), bin_size (bin_up (unat sz))))"
proof -
  let ?s = "grow_capacity s"
  define r where "r = floatToUint (uintToFloatRoundUp sz)"
  have wf1: "oa_wf ?s L" and live1: "oa_live ?s = oa_live s" using grow_capacity_wf [OF wf ne] by auto
  have lt: "m_freeOffset ?s < m_current_capacity ?s"
    using wf grow_capacity_slots(2) [of s "set L"] ne by (simp add: oa_wf_def)
  obtain B where B: "bins_ok ?s B (free_nodes ?s L)" using wf1 by (auto simp: oa_wf_def)
  then have "bits_ok ?s B" by (simp add: bins_ok_def)
  note F = find_bin_Some [OF this roundUp_lt f]
  have x': "x = m_binIndices ?s (joinBin t l)" using x by simp
  note bx = oa_wf_bins_size [OF wf1 B _ x']
  have xfr: "x \<in> free_nodes ?s L" using bx F by (simp add: free_nodes_def)
  have r: "unat r = bin_size (bin_up (unat sz))" "r \<le> dataSize (m_nodes s x)"
    using roundup_fits [OF _ r_def, of "dataSize (m_nodes s x)"] bx(3) F by (simp_all add: uintToFloatRoundUp_unat)
  have tk: "taken ?s L x r (pop_bin t l r ?s)" using pop_bin_taken [OF wf1 B _ _ _ x'] F by simp
  define s' where "s' = split_remainder x (dataSize (m_nodes ?s x) - r) (pop_bin t l r ?s)"
  have al: "allocate sz s = (s', \<lparr>a_offset = dataOffset (m_nodes s' x), a_metadata = x\<rparr>)"
    using ne f by (simp add: allocate_def Let_def s'_def r_def x)
  have res: "(\<exists>L'. oa_wf s' L') \<and> oa_live s' = oa_live (pop_bin t l r ?s) \<and> dataOffset (m_nodes s' x) = dataOffset (m_nodes s x)"
  proof (cases "r = dataSize (m_nodes s x)")
    case True
    then have "s' = pop_bin t l r ?s" by (simp add: s'_def split_remainder_zero)
    then show ?thesis using taken_whole_wf [OF wf1 xfr, of "pop_bin t l r ?s"] tk takenD(1) [OF tk] True by auto
  next
    case False
    have "r < dataSize (m_nodes ?s x)" using r(2) False by simp
    then show ?thesis using taken_split_wf [OF wf1 xfr tk _ _ s'_def] lt by auto
  qed
  show "oa_inv (fst (allocate sz s))" using res by (auto simp: oa_inv_def al)
  show "snd (allocate sz s) = \<lparr>a_offset = dataOffset (m_nodes s x), a_metadata = x\<rparr>" using res by (simp add: al)
  show "oa_live s x = None" using bx(2) F by (simp add: oa_live_def)
  show "oa_live (fst (allocate sz s)) = (oa_live s)(x \<mapsto> (unat (dataOffset (m_nodes s x)), bin_size (bin_up (unat sz))))"
    using res taken_live [OF tk] live1 r(1) by (simp add: al)
qed

lemma allocate_not_found:
  assumes wf: "oa_wf s L" and "m_freeOffset s = m_max_capacity s \<or> find_bin (uintToFloatRoundUp sz) (grow_capacity s) = None"
  shows "oa_inv (fst (allocate sz s))" "snd (allocate sz s) = no_space" "oa_live (fst (allocate sz s)) = oa_live s"
proof -
  have "m_freeOffset s \<noteq> m_max_capacity s \<Longrightarrow> allocate sz s = (grow_capacity s, no_space)"
    "m_freeOffset s = m_max_capacity s \<Longrightarrow> allocate sz s = (s, no_space)"
    using assms(2) by (auto simp: allocate_def Let_def)
  then show "oa_inv (fst (allocate sz s))" "snd (allocate sz s) = no_space" "oa_live (fst (allocate sz s)) = oa_live s"
    using wf grow_capacity_wf [OF wf] by (cases "m_freeOffset s = m_max_capacity s"; auto simp: oa_inv_def)+
qed

end
