(* ===== verification/Offset_Free.thy ===== *)
theory Offset_Free
  imports Offset_Alloc
begin

text \<open>
  \<open>__Allocator::free\<close>: a block that is given back is merged with its free neighbours, so that
  the invariant (in particular, that no two neighbours are free) holds again, and exactly
  its region is no longer held.
\<close>

section \<open>The address order after a merge\<close>

lemma addr_ok_merge:
  assumes ok: "addr_ok N (xs @ zs @ ys) e" and x: "x \<in> set zs"
    and off: "dataOffset (N' x) = dataOffset (N (hd zs))" and sz: "unat (dataSize (N' x)) = tile_sum N zs"
    and links: "neighborPrev (N' x) = (if xs = [] then Node_unused else last xs)"
      "neighborNext (N' x) = (if ys = [] then Node_unused else hd ys)"
    and used: "xs \<noteq> [] \<Longrightarrow> used (N (last xs))" "ys \<noteq> [] \<Longrightarrow> used (N (hd ys))"
    and oth: "\<And>i. i \<in> set xs \<union> set ys \<Longrightarrow> dataOffset (N' i) = dataOffset (N i) \<and> dataSize (N' i) = dataSize (N i)
        \<and> used (N' i) = used (N i)"
    and nxt: "\<And>i. i \<in> set xs \<Longrightarrow> neighborNext (N' i) = (if i = last xs then x else neighborNext (N i))"
      "\<And>i. i \<in> set ys \<Longrightarrow> neighborNext (N' i) = neighborNext (N i)"
    and prv: "\<And>i. i \<in> set ys \<Longrightarrow> neighborPrev (N' i) = (if i = hd ys then x else neighborPrev (N i))"
      "\<And>i. i \<in> set xs \<Longrightarrow> neighborPrev (N' i) = neighborPrev (N i)"
  shows "addr_ok N' (xs @ x # ys) e"
proof -
  have d: "dlist Node_unused (\<lambda>i. neighborPrev (N i)) (\<lambda>i. neighborNext (N i)) (hd (xs @ zs @ ys)) (xs @ zs @ ys)"
    and dist: "distinct (xs @ zs @ ys)" and tl: "tiles N 0 (xs @ zs @ ys) e"
    and su: "successively (not_both_free N) (xs @ zs @ ys)"
    using ok by (simp_all add: addr_ok_def)
  have "dlist Node_unused (\<lambda>i. neighborPrev (N' i)) (\<lambda>i. neighborNext (N' i)) (hd (xs @ [x])) (xs @ [x] @ ys)"
    by (rule dlist_replace [OF d dist]) (use x links nxt prv d in \<open>auto simp: dlist_def\<close>)
  moreover have "hd (xs @ [x]) = hd (xs @ x # ys)" by (cases xs) auto
  moreover have "tiles N' 0 (xs @ x # ys) e"
  proof -
    obtain m n where m: "tiles N 0 xs m" "tiles N m zs n" "tiles N n ys e" using tl by (auto simp: tiles_append)
    have "unat (dataOffset (N' x)) = m" using m(2) x by (cases zs) (auto simp: off)
    moreover have "n = m + unat (dataSize (N' x))" using tiles_end [OF m(2)] sz by simp
    moreover have "tiles N' 0 xs m" using m(1) by (rule tiles_cong) (use oth in auto)
    moreover have "tiles N' n ys e" using m(3) by (rule tiles_cong) (use oth in auto)
    ultimately show ?thesis by (auto simp: tiles_append)
  qed
  moreover have "successively (not_both_free N') (xs @ x # ys)"
  proof -
    have "successively (not_both_free N) xs" "successively (not_both_free N) ys"
      using su by (auto simp: successively_append_iff)
    then have "successively (not_both_free N') xs" "successively (not_both_free N') ys"
      using oth by (auto intro: successively_not_both_free_cong)
    then show ?thesis using used oth by (auto simp: successively_append_iff successively_Cons)
  qed
  ultimately show ?thesis using dist x by (auto simp: addr_ok_def)
qed

text \<open>The block with the free neighbours that \<open>free\<close> merges it with.\<close>

definition free_at :: "Allocator \<Rightarrow> u32 \<Rightarrow> u32 list" where
  "free_at s p = (if p \<noteq> Node_unused \<and> \<not> used (m_nodes s p) then [p] else [])"

lemma addr_ok_around:
  assumes ok: "addr_ok (m_nodes s) L e" and x: "x \<in> set L" and P: "P = free_at s (neighborPrev (m_nodes s x))"
    and Q: "Q = free_at s (neighborNext (m_nodes s x))"
  obtains xs ys where "L = xs @ P @ x # Q @ ys"
    "xs \<noteq> [] \<Longrightarrow> used (m_nodes s x) \<Longrightarrow> used (m_nodes s (last xs))" "ys \<noteq> [] \<Longrightarrow> used (m_nodes s x) \<Longrightarrow> used (m_nodes s (hd ys))"
proof -
  obtain us vs where L: "L = us @ x # vs" using x by (meson split_list)
  have d: "dlist Node_unused (\<lambda>i. neighborPrev (m_nodes s i)) (\<lambda>i. neighborNext (m_nodes s i)) (hd L) (us @ x # vs)"
    and su: "successively (not_both_free (m_nodes s)) (us @ x # vs)" using ok by (simp_all add: addr_ok_def L)
  have nil: "Node_unused \<notin> set us" "Node_unused \<notin> set vs" using d by (auto simp: dlist_def)
  define xs where "xs = (if P = [] then us else butlast us)"
  define ys where "ys = (if Q = [] then vs else tl vs)"
  have usP: "us = xs @ P"
    using dlist_mid(1) [OF d] nil by (auto simp: P free_at_def xs_def split: if_splits)
  have vsQ: "vs = Q @ ys"
    using dlist_mid(2) [OF d] nil by (auto simp: Q free_at_def ys_def split: if_splits)
  have "used (m_nodes s (last xs))" if "xs \<noteq> []"
  proof (cases "P = []")
    case True
    then have "neighborPrev (m_nodes s x) = last xs" using that usP dlist_mid(1) [OF d] by simp
    moreover have "last xs \<noteq> Node_unused" using nil(1) last_in_set [OF that] by (metis True append_Nil2 usP)
    ultimately show ?thesis using True P by (auto simp: free_at_def split: if_splits)
  next
    case False
    then obtain p where p: "P = [p]" "\<not> used (m_nodes s p)" using P by (auto simp: free_at_def split: if_splits)
    then show ?thesis using su that by (auto simp: usP successively_append_iff)
  qed
  moreover have "used (m_nodes s (hd ys))" if "ys \<noteq> []"
  proof (cases "Q = []")
    case True
    then have "neighborNext (m_nodes s x) = hd ys" using that vsQ dlist_mid(2) [OF d] by simp
    moreover have "hd ys \<noteq> Node_unused" using nil(2) hd_in_set [OF that] by (metis True append_Nil vsQ)
    ultimately show ?thesis using True Q by (auto simp: free_at_def split: if_splits)
  next
    case False
    then obtain q where q: "Q = [q]" "\<not> used (m_nodes s q)" using Q by (auto simp: free_at_def split: if_splits)
    then show ?thesis using su that by (auto simp: vsQ successively_append_iff successively_Cons)
  qed
  ultimately show thesis using that [of xs ys] by (simp add: L usP vsQ)
qed

section \<open>Absorbing a neighbour\<close>

text \<open>
  Both merges take the free neighbour \<open>p\<close> out of its bin and then rewrite one neighbour link
  of the block.
\<close>

definition keeps_bins :: "(Node \<Rightarrow> Node) \<Rightarrow> bool" where
  "keeps_bins f \<longleftrightarrow> (\<forall>n. binListPrev (f n) = binListPrev n \<and> binListNext (f n) = binListNext n \<and> dataSize (f n) = dataSize n)"

lemma keeps_bins_neighbors [simp]: "keeps_bins (neighborPrev_update g)" "keeps_bins (neighborNext_update g)"
  by (simp_all add: keeps_bins_def)

lemma upd_node_frame [simp]:
  "m_binIndices (upd_node i f s) = m_binIndices s" "m_usedBins (upd_node i f s) = m_usedBins s"
  "m_usedBinsTop (upd_node i f s) = m_usedBinsTop s" "m_freeNodes (upd_node i f s) = m_freeNodes s"
  "m_freeOffset (upd_node i f s) = m_freeOffset s" "m_freeStorage (upd_node i f s) = m_freeStorage s"
  "m_size (upd_node i f s) = m_size s" "m_current_capacity (upd_node i f s) = m_current_capacity s"
  "m_max_capacity (upd_node i f s) = m_max_capacity s" "m_nodes_set (upd_node i f s) = m_nodes_set s"
  "m_nodes (upd_node i f s) = (m_nodes s)(i := f (m_nodes s i))"
  by (simp_all add: upd_node_def)

lemma bins_ok_upd_node: "bins_ok s B fr \<Longrightarrow> keeps_bins f \<Longrightarrow> bins_ok (upd_node i f s) B fr"
  by (erule bins_ok_cong) (auto simp: keeps_bins_def)

lemma slots_ok_upd_node: "slots_ok s A \<Longrightarrow> slots_ok (upd_node i f s) A"
  by (erule slots_ok_cong) simp_all

lemma absorb_ok:
  assumes "bins_ok s B fr" "p \<in> fr" "slots_ok s A" "fr \<subseteq> A" "keeps_bins f"
  shows "\<exists>B. bins_ok (upd_node x f (removeNodeFromBin p s)) B (fr - {p})"
    "slots_ok (upd_node x f (removeNodeFromBin p s)) (A - {p})"
proof -
  show "\<exists>B. bins_ok (upd_node x f (removeNodeFromBin p s)) B (fr - {p})"
    using removeNodeFromBin_bins_ok [OF assms(1,2)] bins_ok_upd_node assms(5) by blast
  have "slots_ok (removeNodeFromBin p s) (A - {p})"
    using slots_push(1) [OF assms(3), of p "removeNodeFromBin p s"] assms(2,4) by (auto simp: removeNodeFromBin_fields)
  then show "slots_ok (upd_node x f (removeNodeFromBin p s)) (A - {p})" by (rule slots_ok_upd_node)
qed

lemma removeNodeFromBin_node:
  "dataOffset (m_nodes (removeNodeFromBin p s) i) = dataOffset (m_nodes s i)"
  "dataSize (m_nodes (removeNodeFromBin p s) i) = dataSize (m_nodes s i)"
  "neighborPrev (m_nodes (removeNodeFromBin p s) i) = neighborPrev (m_nodes s i)"
  "neighborNext (m_nodes (removeNodeFromBin p s) i) = neighborNext (m_nodes s i)"
  "used (m_nodes (removeNodeFromBin p s) i) = used (m_nodes s i)"
  using node_coreD [OF removeNodeFromBin_fields(3) [of p s i]] by auto

definition bs_ok :: "Allocator \<Rightarrow> u32 set \<Rightarrow> u32 set \<Rightarrow> bool" where
  "bs_ok s fr A \<longleftrightarrow> (\<exists>B. bins_ok s B fr) \<and> slots_ok s A \<and> fr \<subseteq> A"

lemma merge_prev_spec:
  assumes ok: "bs_ok s fr A" and p: "p = neighborPrev (m_nodes s x)" and P: "P = free_at s p" "set P \<subseteq> fr"
    and m: "merge_prev x s = (s1, off, sz)" and px: "p \<noteq> x"
  shows "bs_ok s1 (fr - set P) (A - set P)"
    "off = dataOffset (m_nodes s (hd (P @ [x])))"
    "sz = dataSize (m_nodes s x) + (if P = [] then 0 else dataSize (m_nodes s p))"
    "m_freeStorage s1 = m_freeStorage s - (if P = [] then 0 else dataSize (m_nodes s p))"
    "node_core (m_nodes s1 i) = (if i = x \<and> P \<noteq> [] then node_core ((m_nodes s x)\<lparr>neighborPrev := neighborPrev (m_nodes s p)\<rparr>)
       else node_core (m_nodes s i))"
    "m_size s1 = m_size s" "m_nodes_set s1 = m_nodes_set s"
proof -
  have e: "P = [] \<Longrightarrow> merge_prev x s = (s, dataOffset (m_nodes s x), dataSize (m_nodes s x))"
    by (auto simp: merge_prev_def Let_def P free_at_def p split: if_splits)
  have ne: "P \<noteq> [] \<Longrightarrow> P = [p] \<and> merge_prev x s =
      (upd_node x (neighborPrev_update (\<lambda>_. neighborPrev (m_nodes s p))) (removeNodeFromBin p s),
       dataOffset (m_nodes s p), dataSize (m_nodes s x) + dataSize (m_nodes s p))"
    by (auto simp: merge_prev_def Let_def P free_at_def p removeNodeFromBin_node split: if_splits)
  show "bs_ok s1 (fr - set P) (A - set P)"
  proof (cases "P = []")
    case False
    then show ?thesis using ok ne [OF False] absorb_ok [of s _ fr p A] P(2) m by (auto simp: bs_ok_def)
  qed (use e ok m in simp)
  show "off = dataOffset (m_nodes s (hd (P @ [x])))"
    "sz = dataSize (m_nodes s x) + (if P = [] then 0 else dataSize (m_nodes s p))"
    "m_freeStorage s1 = m_freeStorage s - (if P = [] then 0 else dataSize (m_nodes s p))"
    "node_core (m_nodes s1 i) = (if i = x \<and> P \<noteq> [] then node_core ((m_nodes s x)\<lparr>neighborPrev := neighborPrev (m_nodes s p)\<rparr>)
       else node_core (m_nodes s i))"
    "m_size s1 = m_size s" "m_nodes_set s1 = m_nodes_set s"
    using e ne m by (cases "P = []"; auto simp: removeNodeFromBin_fields removeNodeFromBin_node node_core_def)+
qed

lemma merge_next_spec:
  assumes ok: "bs_ok s fr A" and q: "q = neighborNext (m_nodes s x)" and Q: "Q = free_at s q" "set Q \<subseteq> fr"
    and m: "merge_next x sz s = (s1, sz1)" and qx: "q \<noteq> x"
  shows "bs_ok s1 (fr - set Q) (A - set Q)"
    "sz1 = sz + (if Q = [] then 0 else dataSize (m_nodes s q))"
    "m_freeStorage s1 = m_freeStorage s - (if Q = [] then 0 else dataSize (m_nodes s q))"
    "node_core (m_nodes s1 i) = (if i = x \<and> Q \<noteq> [] then node_core ((m_nodes s x)\<lparr>neighborNext := neighborNext (m_nodes s q)\<rparr>)
       else node_core (m_nodes s i))"
    "m_size s1 = m_size s" "m_nodes_set s1 = m_nodes_set s"
proof -
  have e: "Q = [] \<Longrightarrow> merge_next x sz s = (s, sz)"
    by (auto simp: merge_next_def Let_def Q free_at_def q split: if_splits)
  have ne: "Q \<noteq> [] \<Longrightarrow> Q = [q] \<and> merge_next x sz s =
      (upd_node x (neighborNext_update (\<lambda>_. neighborNext (m_nodes s q))) (removeNodeFromBin q s), sz + dataSize (m_nodes s q))"
    by (auto simp: merge_next_def Let_def Q free_at_def q removeNodeFromBin_node split: if_splits)
  show "bs_ok s1 (fr - set Q) (A - set Q)"
  proof (cases "Q = []")
    case False
    then show ?thesis using ok ne [OF False] absorb_ok [of s _ fr q A] Q(2) m by (auto simp: bs_ok_def)
  qed (use e ok m in simp)
  show "sz1 = sz + (if Q = [] then 0 else dataSize (m_nodes s q))"
    "m_freeStorage s1 = m_freeStorage s - (if Q = [] then 0 else dataSize (m_nodes s q))"
    "node_core (m_nodes s1 i) = (if i = x \<and> Q \<noteq> [] then node_core ((m_nodes s x)\<lparr>neighborNext := neighborNext (m_nodes s q)\<rparr>)
       else node_core (m_nodes s i))"
    "m_size s1 = m_size s" "m_nodes_set s1 = m_nodes_set s"
    using e ne m by (cases "Q = []"; auto simp: removeNodeFromBin_fields removeNodeFromBin_node node_core_def)+
qed

section \<open>Putting the merged block back\<close>

lemma push_free_node_frame [simp]:
  "m_nodes (push_free_node x s) = m_nodes s" "m_binIndices (push_free_node x s) = m_binIndices s"
  "m_usedBins (push_free_node x s) = m_usedBins s" "m_usedBinsTop (push_free_node x s) = m_usedBinsTop s"
  "m_freeStorage (push_free_node x s) = m_freeStorage s" "m_size (push_free_node x s) = m_size s"
  "m_current_capacity (push_free_node x s) = m_current_capacity s"
  "m_max_capacity (push_free_node x s) = m_max_capacity s" "m_nodes_set (push_free_node x s) = m_nodes_set s"
  "m_freeNodes (push_free_node x s) (m_freeOffset (push_free_node x s)) = x"
  by (simp_all add: push_free_node_def)

text \<open>The slot just pushed is the one the insertion takes: the block keeps its handle.\<close>

lemma reinsert_spec:
  assumes ok: "bs_ok s fr A" and x: "x \<in> A" "x \<notin> fr" and s': "s' = fst (insertNodeIntoBin sz off (push_free_node x s))"
  shows "bs_ok s' (insert x fr) A" "snd (insertNodeIntoBin sz off (push_free_node x s)) = x"
    "m_freeStorage s' = m_freeStorage s + sz" "m_size s' = m_size s" "m_nodes_set s' = m_nodes_set s"
    "node_core (m_nodes s' i) = (if i = x then (off, sz, Node_unused, Node_unused, False) else node_core (m_nodes s i))"
proof -
  let ?s = "push_free_node x s"
  obtain B where B: "bins_ok s B fr" and sl: "slots_ok s A" and sub: "fr \<subseteq> A" using ok by (auto simp: bs_ok_def)
  have B': "bins_ok ?s B fr" by (rule bins_ok_cong [OF B]) simp_all
  have p: "slots_ok ?s (A - {x})" "free_list ?s = x # free_list s"
    by (rule slots_push [OF sl x(1)]; simp add: push_free_node_def)+
  have "length (free_list ?s) \<noteq> 0" using p(2) by simp
  then have lt: "m_freeOffset ?s < m_current_capacity ?s" unfolding free_list_length by (simp add: word_less_nat_alt)
  have q: "slots_ok s' (insert x (A - {x}))" "x \<noteq> Node_unused"
    using slots_pop(1) [OF p(1) lt, of s' x] slots_not_sentinel [OF sl x(1)]
    by (simp_all add: s' insertNodeIntoBin_fields)
  have "bins_ok s' (B(uintToFloatRoundDown sz := x # B (uintToFloatRoundDown sz))) (insert x fr)"
    unfolding s' by (rule insertNodeIntoBin_bins_ok [OF B' _ x(2) q(2)]) simp_all
  then show "bs_ok s' (insert x fr) A" using q(1) x(1) sub by (auto simp: bs_ok_def insert_absorb)
  show "snd (insertNodeIntoBin sz off ?s) = x" "m_freeStorage s' = m_freeStorage s + sz" "m_size s' = m_size s"
    "m_nodes_set s' = m_nodes_set s"
    by (simp_all add: s' insertNodeIntoBin_fields)
  have "m_binIndices ?s (uintToFloatRoundDown sz) \<noteq> x"
    using lists_ok_top(1) [of s B fr "uintToFloatRoundDown sz"] B x(2) q(2) by (auto simp: bins_ok_def)
  then show "node_core (m_nodes s' i) = (if i = x then (off, sz, Node_unused, Node_unused, False) else node_core (m_nodes s i))"
    using insertNodeIntoBin_core [of ?s sz off i] by (simp add: s')
qed

lemma connect_neighbors_spec:
  assumes ok: "bs_ok s fr A" and ne: "prv \<noteq> x" "nxt \<noteq> x" "prv = nxt \<Longrightarrow> prv = Node_unused"
    and s': "s' = connect_neighbors x prv nxt s"
    and x: "neighborPrev (m_nodes s x) = Node_unused" "neighborNext (m_nodes s x) = Node_unused"
  shows "bs_ok s' fr A" "m_freeStorage s' = m_freeStorage s" "m_size s' = m_size s" "m_nodes_set s' = m_nodes_set s"
    "node_core (m_nodes s' i) =
      (if i = x then node_core ((m_nodes s x)\<lparr>neighborPrev := prv, neighborNext := nxt\<rparr>)
       else if i = nxt \<and> nxt \<noteq> Node_unused then node_core ((m_nodes s i)\<lparr>neighborPrev := x\<rparr>)
       else if i = prv \<and> prv \<noteq> Node_unused then node_core ((m_nodes s i)\<lparr>neighborNext := x\<rparr>)
       else node_core (m_nodes s i))"
proof -
  show "bs_ok s' fr A"
    using ok by (auto simp: s' bs_ok_def connect_neighbors_def Let_def intro!: bins_ok_upd_node slots_ok_upd_node)
  show "m_freeStorage s' = m_freeStorage s" "m_size s' = m_size s" "m_nodes_set s' = m_nodes_set s"
    by (simp_all add: s' connect_neighbors_def Let_def)
  show "node_core (m_nodes s' i) =
      (if i = x then node_core ((m_nodes s x)\<lparr>neighborPrev := prv, neighborNext := nxt\<rparr>)
       else if i = nxt \<and> nxt \<noteq> Node_unused then node_core ((m_nodes s i)\<lparr>neighborPrev := x\<rparr>)
       else if i = prv \<and> prv \<noteq> Node_unused then node_core ((m_nodes s i)\<lparr>neighborNext := x\<rparr>)
       else node_core (m_nodes s i))"
    using ne x by (auto simp: s' connect_neighbors_def Let_def node_core_def)
qed

section \<open>free\<close>

text \<open>
  The effect of \<open>free\<close> on the address order: the block \<open>x\<close> and its free neighbours \<open>P\<close> and
  \<open>Q\<close> have become one free block with the handle \<open>x\<close>, linked between \<open>xs\<close> and \<open>ys\<close>.
\<close>

definition freed :: "Allocator \<Rightarrow> u32 list \<Rightarrow> u32 list \<Rightarrow> u32 \<Rightarrow> u32 list \<Rightarrow> u32 list \<Rightarrow> Allocator \<Rightarrow> bool" where
  "freed s xs P x Q ys s' \<longleftrightarrow>
     bs_ok s' (insert x (free_nodes s (xs @ P @ x # Q @ ys) - set P - set Q)) (set (xs @ P @ x # Q @ ys) - set P - set Q)
     \<and> m_freeStorage s' = m_freeStorage s - (if P = [] then 0 else dataSize (m_nodes s (hd P)))
          - (if Q = [] then 0 else dataSize (m_nodes s (hd Q))) + dataSize (m_nodes s' x)
     \<and> m_size s' = m_size s \<and> m_nodes_set s'
     \<and> dataOffset (m_nodes s' x) = dataOffset (m_nodes s (hd (P @ x # Q)))
     \<and> dataSize (m_nodes s' x) = dataSize (m_nodes s x) + (if P = [] then 0 else dataSize (m_nodes s (hd P)))
          + (if Q = [] then 0 else dataSize (m_nodes s (hd Q)))
     \<and> neighborPrev (m_nodes s' x) = (if xs = [] then Node_unused else last xs)
     \<and> neighborNext (m_nodes s' x) = (if ys = [] then Node_unused else hd ys)
     \<and> \<not> used (m_nodes s' x)
     \<and> (\<forall>i. i \<noteq> x \<longrightarrow> node_core (m_nodes s' i) =
          (if ys \<noteq> [] \<and> i = hd ys then node_core ((m_nodes s i)\<lparr>neighborPrev := x\<rparr>)
           else if xs \<noteq> [] \<and> i = last xs then node_core ((m_nodes s i)\<lparr>neighborNext := x\<rparr>)
           else node_core (m_nodes s i)))"

lemma addr_ok_links:
  assumes ok: "addr_ok N (xs @ P @ x # Q @ ys) e"
  shows "neighborPrev (N (hd (P @ [x]))) = (if xs = [] then Node_unused else last xs)"
    "neighborNext (N (last (x # Q))) = (if ys = [] then Node_unused else hd ys)"
proof -
  obtain us where "P @ x # Q @ ys = hd (P @ [x]) # us" by (cases P) auto
  then show "neighborPrev (N (hd (P @ [x]))) = (if xs = [] then Node_unused else last xs)"
    using addr_ok_neighbours(1) [of N xs "hd (P @ [x])" us e] ok by simp
  obtain vs where v: "x # Q = vs @ [last (x # Q)]" by (metis append_butlast_last_id list.distinct(1))
  then have "xs @ P @ x # Q @ ys = (xs @ P @ vs) @ last (x # Q) # ys" by (metis append.assoc append_Cons append_Nil)
  then show "neighborNext (N (last (x # Q))) = (if ys = [] then Node_unused else hd ys)"
    using addr_ok_neighbours(2) [of N "xs @ P @ vs" "last (x # Q)" ys e] ok by metis
qed

lemma neighbours_apart:
  assumes "distinct (xs @ P @ x # Q @ ys)" and "z \<notin> set (xs @ P @ x # Q @ ys)"
  shows "(if xs = [] then z else last xs) \<noteq> x" "(if ys = [] then z else hd ys) \<noteq> x"
    "(if xs = [] then z else last xs) = (if ys = [] then z else hd ys) \<Longrightarrow> (if xs = [] then z else last xs) = z"
    "xs \<noteq> [] \<Longrightarrow> last xs \<noteq> z" "ys \<noteq> [] \<Longrightarrow> hd ys \<noteq> z"
proof -
  have m: "xs \<noteq> [] \<Longrightarrow> last xs \<in> set xs" "ys \<noteq> [] \<Longrightarrow> hd ys \<in> set ys" by simp_all
  have d: "x \<notin> set xs" "x \<notin> set ys" "set xs \<inter> set ys = {}" "z \<noteq> x" "z \<notin> set xs" "z \<notin> set ys" using assms by auto
  show "(if xs = [] then z else last xs) \<noteq> x" "(if ys = [] then z else hd ys) \<noteq> x" using m d by metis+
  show "(if xs = [] then z else last xs) = (if ys = [] then z else hd ys) \<Longrightarrow> (if xs = [] then z else last xs) = z"
    using m d(3) by (metis disjoint_iff)
  show "xs \<noteq> [] \<Longrightarrow> last xs \<noteq> z" "ys \<noteq> [] \<Longrightarrow> hd ys \<noteq> z" using m d by metis+
qed

lemma free_freed:
  assumes wf: "oa_wf s L" and u: "used (m_nodes s x)" and L: "L = xs @ P @ x # Q @ ys"
    and P: "P = free_at s (neighborPrev (m_nodes s x))" and Q: "Q = free_at s (neighborNext (m_nodes s x))"
  shows "freed s xs P x Q ys (free \<lparr>a_offset = off, a_metadata = x\<rparr> s)"
proof -
  have addr: "addr_ok (m_nodes s) (xs @ P @ x # Q @ ys) (unat (m_size s))" and ns: "m_nodes_set s"
    and bs: "bs_ok s (free_nodes s L) (set L)"
    using wf by (auto simp: oa_wf_def L bs_ok_def free_nodes_def)
  have dist: "distinct (xs @ P @ x # Q @ ys)" and nil: "Node_unused \<notin> set (xs @ P @ x # Q @ ys)"
    using addr by (simp_all add: addr_ok_def dlist_def)
  have xL: "x \<in> set L" by (simp add: L)
  have fa: "i \<in> set (free_at s p) \<Longrightarrow> \<not> used (m_nodes s i)" "free_at s p \<noteq> [] \<Longrightarrow> free_at s p = [p]" for p i
    by (auto simp: free_at_def split: if_splits)
  have PL: "set P \<subseteq> set L" "set Q \<subseteq> set L" by (auto simp: L)
  have Pf: "set P \<subseteq> free_nodes s L" "P \<noteq> [] \<Longrightarrow> P = [neighborPrev (m_nodes s x)]"
    using PL fa P by (auto simp: free_nodes_def)
  have Qf: "set Q \<subseteq> free_nodes s L" "Q \<noteq> [] \<Longrightarrow> Q = [neighborNext (m_nodes s x)]"
    using PL fa Q by (auto simp: free_nodes_def)
  note links = addr_ok_links [OF addr]
  let ?p = "neighborPrev (m_nodes s x)" and ?q = "neighborNext (m_nodes s x)"
  have addr': "addr_ok (m_nodes s) ((xs @ P) @ x # (Q @ ys)) (unat (m_size s))" using addr by simp
  note nb = addr_ok_neighbours [OF addr']
  have px: "?p \<noteq> x" using nb(1,3,4) last_in_set [of "xs @ P"] by metis
  have qx: "?q \<noteq> x" using nb(2,3,5) hd_in_set [of "Q @ ys"] by metis
  obtain s1 o1 z1 where m1: "merge_prev x s = (s1, o1, z1)" by (cases "merge_prev x s") auto
  obtain s2 z2 where m2: "merge_next x z1 s1 = (s2, z2)" by (cases "merge_next x z1 s1") auto
  note g1 = merge_prev_spec [OF bs refl P Pf(1) m1 px]
  have n1: "neighborNext (m_nodes s1 i) = neighborNext (m_nodes s i)" "dataSize (m_nodes s1 i) = dataSize (m_nodes s i)"
    "used (m_nodes s1 i) = used (m_nodes s i)" for i using g1(5) [of i] by (auto simp: node_core_def split: if_splits)
  have Q1: "Q = free_at s1 (neighborNext (m_nodes s1 x))" by (simp add: n1 Q free_at_def)
  have Qf1: "set Q \<subseteq> free_nodes s L - set P" using Qf dist by (auto simp: L)
  note g2 = merge_next_spec [OF g1(1) refl Q1 Qf1 m2, unfolded n1, OF qx]
  have c2: "node_core (m_nodes s2 i) = (if i = x then node_core ((m_nodes s x)\<lparr>neighborPrev := (if xs = [] then Node_unused else last xs),
      neighborNext := (if ys = [] then Node_unused else hd ys)\<rparr>) else node_core (m_nodes s i))" for i
    using g1(5) [of i] g2(4) [of i] links Pf(2) Qf(2) by (auto simp: node_core_def split: if_splits)
  have lk: "neighborPrev (m_nodes s2 x) = (if xs = [] then Node_unused else last xs)"
    "neighborNext (m_nodes s2 x) = (if ys = [] then Node_unused else hd ys)"
    using c2 [of x] by (auto simp: node_core_def)
  define prv where "prv = (if xs = [] then Node_unused else last xs)"
  define nxt where "nxt = (if ys = [] then Node_unused else hd ys)"
  have ne: "prv \<noteq> x" "nxt \<noteq> x" "prv = nxt \<Longrightarrow> prv = Node_unused" "xs \<noteq> [] \<Longrightarrow> last xs \<noteq> Node_unused" "ys \<noteq> [] \<Longrightarrow> hd ys \<noteq> Node_unused"
    using neighbours_apart [OF dist nil] by (auto simp: prv_def nxt_def)
  have x2: "x \<in> set L - set P - set Q" "x \<notin> free_nodes s L - set P - set Q" using dist u by (auto simp: L free_nodes_def)
  define s4 where "s4 = fst (insertNodeIntoBin z2 o1 (push_free_node x s2))"
  note g3 = reinsert_spec [OF g2(1) x2 s4_def]
  have x4: "neighborPrev (m_nodes s4 x) = Node_unused" "neighborNext (m_nodes s4 x) = Node_unused"
    "dataOffset (m_nodes s4 x) = o1" "dataSize (m_nodes s4 x) = z2" "\<not> used (m_nodes s4 x)"
    using g3(6) [of x] by (simp_all add: node_core_def)
  define s' where "s' = connect_neighbors x prv nxt s4"
  have eq: "free \<lparr>a_offset = off, a_metadata = x\<rparr> s = s'"
    using ns m1 m2 lk g3(2) by (simp add: free_def Let_def split_beta s'_def s4_def prv_def nxt_def)
  note g4 = connect_neighbors_spec [OF g3(1) ne(1-3) s'_def x4(1,2)]
  have cx: "dataOffset (m_nodes s' x) = o1" "dataSize (m_nodes s' x) = z2" "\<not> used (m_nodes s' x)"
    "neighborPrev (m_nodes s' x) = prv" "neighborNext (m_nodes s' x) = nxt"
    using g4(5) [of x] x4 by (simp_all add: node_core_def)
  have co: "node_core (m_nodes s' i) = (if ys \<noteq> [] \<and> i = hd ys then node_core ((m_nodes s i)\<lparr>neighborPrev := x\<rparr>)
           else if xs \<noteq> [] \<and> i = last xs then node_core ((m_nodes s i)\<lparr>neighborNext := x\<rparr>)
           else node_core (m_nodes s i))" if "i \<noteq> x" for i
    using g4(5) [of i] g3(6) [of i] c2 [of i] that ne(4,5)
    by (auto simp: node_core_def prv_def nxt_def split: if_splits)
  have Pe: "P \<noteq> [] \<Longrightarrow> ?p = hd P" and Qe: "Q \<noteq> [] \<Longrightarrow> ?q = hd Q" using Pf(2) Qf(2) by (metis list.sel(1))+
  have "o1 = dataOffset (m_nodes s (hd (P @ x # Q)))" using g1(2) by (cases P) auto
  moreover have "z2 = dataSize (m_nodes s x) + (if P = [] then 0 else dataSize (m_nodes s (hd P)))
      + (if Q = [] then 0 else dataSize (m_nodes s (hd Q)))" using g1(3) g2(2) Pe Qe by auto
  moreover have "m_freeStorage s' = m_freeStorage s - (if P = [] then 0 else dataSize (m_nodes s (hd P)))
          - (if Q = [] then 0 else dataSize (m_nodes s (hd Q))) + z2"
    using g4(2) g3(3) g2(3) g1(4) Pe Qe by auto
  ultimately show ?thesis
    unfolding freed_def eq using g4(1,3,4) g3(4,5) g2(5,6) g1(6,7) ns cx co by (simp add: L prv_def nxt_def)
qed

lemma freedD:
  assumes "freed s xs P x Q ys s'"
  shows "\<exists>B. bins_ok s' B (insert x (free_nodes s (xs @ P @ x # Q @ ys) - set P - set Q))"
    "slots_ok s' (set (xs @ P @ x # Q @ ys) - set P - set Q)"
    "m_size s' = m_size s" "m_nodes_set s'" "\<not> used (m_nodes s' x)"
    "i \<noteq> x \<Longrightarrow> dataOffset (m_nodes s' i) = dataOffset (m_nodes s i) \<and> dataSize (m_nodes s' i) = dataSize (m_nodes s i)
       \<and> used (m_nodes s' i) = used (m_nodes s i)"
    "i \<noteq> x \<Longrightarrow> neighborPrev (m_nodes s' i) = (if ys \<noteq> [] \<and> i = hd ys then x else neighborPrev (m_nodes s i))"
    "i \<noteq> x \<Longrightarrow> ys = [] \<or> i \<noteq> hd ys \<Longrightarrow> neighborNext (m_nodes s' i) = (if xs \<noteq> [] \<and> i = last xs then x else neighborNext (m_nodes s i))"
    "i \<noteq> x \<Longrightarrow> xs = [] \<or> i \<noteq> last xs \<Longrightarrow> neighborNext (m_nodes s' i) = neighborNext (m_nodes s i)"
proof -
  note f = assms [unfolded freed_def bs_ok_def]
  show "\<exists>B. bins_ok s' B (insert x (free_nodes s (xs @ P @ x # Q @ ys) - set P - set Q))"
    "slots_ok s' (set (xs @ P @ x # Q @ ys) - set P - set Q)"
    "m_size s' = m_size s" "m_nodes_set s'" "\<not> used (m_nodes s' x)" using f by blast+
  assume "i \<noteq> x"
  then have c: "node_core (m_nodes s' i) =
          (if ys \<noteq> [] \<and> i = hd ys then node_core ((m_nodes s i)\<lparr>neighborPrev := x\<rparr>)
           else if xs \<noteq> [] \<and> i = last xs then node_core ((m_nodes s i)\<lparr>neighborNext := x\<rparr>)
           else node_core (m_nodes s i))" using f by blast
  then show "dataOffset (m_nodes s' i) = dataOffset (m_nodes s i) \<and> dataSize (m_nodes s' i) = dataSize (m_nodes s i)
       \<and> used (m_nodes s' i) = used (m_nodes s i)"
    "neighborPrev (m_nodes s' i) = (if ys \<noteq> [] \<and> i = hd ys then x else neighborPrev (m_nodes s i))"
    by (auto simp: node_core_def split: if_splits)
  show "ys = [] \<or> i \<noteq> hd ys \<Longrightarrow> neighborNext (m_nodes s' i) = (if xs \<noteq> [] \<and> i = last xs then x else neighborNext (m_nodes s i))"
    "xs = [] \<or> i \<noteq> last xs \<Longrightarrow> neighborNext (m_nodes s' i) = neighborNext (m_nodes s i)"
    using c by (auto simp: node_core_def split: if_splits)
qed

lemma free_at_tile_sum:
  assumes "P = free_at s p" shows "tile_sum N P = unat (if P = [] then 0 else dataSize (N (hd P)))"
    "free_sum (m_nodes s) P = tile_sum (m_nodes s) P"
  using assms by (auto simp: free_at_def)

lemma freed_size:
  assumes wf: "oa_wf s (xs @ P @ x # Q @ ys)" and fr: "freed s xs P x Q ys s'" and u: "used (m_nodes s x)"
    and P: "P = free_at s p" and Q: "Q = free_at s q"
  shows "unat (dataSize (m_nodes s' x)) = tile_sum (m_nodes s) (P @ x # Q)"
    "unat (m_freeStorage s') = free_sum (m_nodes s) xs + unat (dataSize (m_nodes s' x)) + free_sum (m_nodes s) ys"
proof -
  let ?N = "m_nodes s"
  define a where "a = (if P = [] then 0 else dataSize (?N (hd P)))"
  define b where "b = (if Q = [] then 0 else dataSize (?N (hd Q)))"
  have ab: "tile_sum ?N P = unat a" "tile_sum ?N Q = unat b" "free_sum ?N P = unat a" "free_sum ?N Q = unat b"
    using free_at_tile_sum [OF P] free_at_tile_sum [OF Q] by (auto simp: a_def b_def)
  have z: "dataSize (m_nodes s' x) = dataSize (?N x) + a + b" and st: "m_freeStorage s' = m_freeStorage s - a - b + dataSize (m_nodes s' x)"
    using fr by (simp_all add: freed_def a_def b_def)
  have tl: "tiles ?N 0 (xs @ P @ x # Q @ ys) (unat (m_size s))" and
    fs: "unat (m_freeStorage s) = free_sum ?N xs + unat a + unat b + free_sum ?N ys"
    using wf u by (auto simp: oa_wf_def addr_ok_def ab)
  have tot: "unat (m_size s) = tile_sum ?N xs + unat a + unat (dataSize (?N x)) + unat b + tile_sum ?N ys"
    using tiles_end [OF tl] by (simp add: ab)
  note lim = u32_lt_of_unat [of "m_size s"]
  have 1: "unat (dataSize (?N x) + a) = unat (dataSize (?N x)) + unat a" by (rule unat_plus_no_wrap) (use tot lim in simp)
  have 2: "unat (dataSize (?N x) + a + b) = unat (dataSize (?N x)) + unat a + unat b"
    using 1 by (subst unat_plus_no_wrap) (use tot lim in simp_all)
  show sz: "unat (dataSize (m_nodes s' x)) = tile_sum ?N (P @ x # Q)" using z 2 ab by simp
  have 3: "unat (m_freeStorage s - a) = unat (m_freeStorage s) - unat a" using fs by (intro unat_minus_no_wrap) (simp add: word_le_nat_alt)
  have 4: "unat (m_freeStorage s - a - b) = unat (m_freeStorage s) - unat a - unat b"
    using fs 3 by (subst unat_minus_no_wrap) (simp_all add: word_le_nat_alt)
  have "unat (m_freeStorage s - a - b) + unat (dataSize (m_nodes s' x)) < 2 ^ 32"
    using 4 fs sz ab tot lim free_sum_le [of ?N xs] free_sum_le [of ?N ys] by simp
  then show "unat (m_freeStorage s') = free_sum ?N xs + unat (dataSize (m_nodes s' x)) + free_sum ?N ys"
    unfolding st using 4 fs by (subst unat_plus_no_wrap) simp_all
qed

lemma freed_wf:
  assumes wf: "oa_wf s (xs @ P @ x # Q @ ys)" and fr: "freed s xs P x Q ys s'" and u: "used (m_nodes s x)"
    and P: "P = free_at s p" and Q: "Q = free_at s q"
    and nb: "xs \<noteq> [] \<Longrightarrow> used (m_nodes s (last xs))" "ys \<noteq> [] \<Longrightarrow> used (m_nodes s (hd ys))"
  shows "oa_wf s' (xs @ x # ys)" "oa_live s' = (oa_live s)(x := None)"
proof -
  note f = freedD [OF fr] and sz = freed_size [OF wf fr u P Q]
  have addr: "addr_ok (m_nodes s) (xs @ (P @ x # Q) @ ys) (unat (m_size s))" and us: "\<And>i. used (m_nodes s i) \<Longrightarrow> i \<in> set (xs @ P @ x # Q @ ys)"
    using wf by (auto simp: oa_wf_def)
  have dist: "distinct (xs @ P @ x # Q @ ys)" using addr by (simp add: addr_ok_def)
  have PQ: "i \<in> set P \<union> set Q \<Longrightarrow> \<not> used (m_nodes s i)" for i by (auto simp: P Q free_at_def split: if_splits)
  have inx: "i \<noteq> x" if "i \<in> set xs \<union> set ys" for i using that dist by auto
  have hl: "i \<in> set xs \<Longrightarrow> ys = [] \<or> i \<noteq> hd ys" "i \<in> set ys \<Longrightarrow> xs = [] \<or> i \<noteq> last xs" "i \<in> set xs \<Longrightarrow> xs \<noteq> []" "i \<in> set ys \<Longrightarrow> ys \<noteq> []" for i
    using dist hd_in_set [of ys] last_in_set [of xs] by (auto simp: disjoint_iff)
  have "addr_ok (m_nodes s') (xs @ x # ys) (unat (m_size s))"
  proof (rule addr_ok_merge [OF addr])
    show "x \<in> set (P @ x # Q)" by simp
    show "dataOffset (m_nodes s' x) = dataOffset (m_nodes s (hd (P @ x # Q)))"
      "neighborPrev (m_nodes s' x) = (if xs = [] then Node_unused else last xs)"
      "neighborNext (m_nodes s' x) = (if ys = [] then Node_unused else hd ys)"
      using fr unfolding freed_def by blast+
    fix i show "i \<in> set xs \<Longrightarrow> neighborPrev (m_nodes s' i) = neighborPrev (m_nodes s i)"
      using f(7) [of i] inx [of i] hl(1) [of i] by auto
  qed (use sz(1) nb f(6-9) inx hl in auto)
  moreover have "set (xs @ P @ x # Q @ ys) - set P - set Q = set (xs @ x # ys)" using dist by auto
  moreover have "insert x (free_nodes s (xs @ P @ x # Q @ ys) - set P - set Q) = free_nodes s' (xs @ x # ys)"
    using dist f(5,6) inx by (auto simp: free_nodes_def)
  moreover have "unat (m_freeStorage s') = free_sum (m_nodes s') (xs @ x # ys)"
  proof -
    have "free_sum (m_nodes s') xs = free_sum (m_nodes s) xs" "free_sum (m_nodes s') ys = free_sum (m_nodes s) ys"
      using f(6) inx by (auto intro!: free_sum_cong)
    then show ?thesis using sz(2) f(5) by simp
  qed
  moreover have "i \<in> set (xs @ x # ys)" if "used (m_nodes s' i)" for i
    using that us [of i] f(5) f(6) [of i] PQ [of i] by (cases "i = x") auto
  ultimately show "oa_wf s' (xs @ x # ys)" using f(1-4) unfolding oa_wf_def by simp
  show "oa_live s' = (oa_live s)(x := None)"
  proof
    fix i show "oa_live s' i = ((oa_live s)(x := None)) i"
      using f(5) f(6) [of i] by (cases "i = x") (auto simp: oa_live_def node_region_def)
  qed
qed

lemma free_spec:
  assumes "oa_inv s" and "oa_live s (a_metadata a) \<noteq> None"
  shows "oa_inv (free a s)" "oa_live (free a s) = (oa_live s)(a_metadata a := None)" "m_size (free a s) = m_size s"
proof -
  obtain L where L: "oa_wf s L" using assms(1) by (auto simp: oa_inv_def)
  let ?x = "a_metadata a"
  have u: "used (m_nodes s ?x)" using assms(2) by (auto simp: oa_live_def split: if_splits)
  have x: "?x \<in> set L" and addr: "addr_ok (m_nodes s) L (unat (m_size s))" using L u by (auto simp: oa_wf_def)
  obtain xs ys where e: "L = xs @ free_at s (neighborPrev (m_nodes s ?x)) @ ?x # free_at s (neighborNext (m_nodes s ?x)) @ ys"
      (is "_ = _ @ ?P @ _ # ?Q @ _")
    and nb: "xs \<noteq> [] \<Longrightarrow> used (m_nodes s ?x) \<Longrightarrow> used (m_nodes s (last xs))"
      "ys \<noteq> [] \<Longrightarrow> used (m_nodes s ?x) \<Longrightarrow> used (m_nodes s (hd ys))"
    using addr_ok_around [OF addr x refl refl] by blast
  have fr: "freed s xs ?P ?x ?Q ys (free a s)"
    using free_freed [OF L u e refl refl, of "a_offset a"] by (cases a) simp
  from freed_wf [OF L [unfolded e] fr u refl refl] nb u
  show "oa_inv (free a s)" "oa_live (free a s) = (oa_live s)(a_metadata a := None)" by (auto simp: oa_inv_def)
  show "m_size (free a s) = m_size s" using freedD(3) [OF fr] .
qed

end
