(* ===== verification/Offset_Contract.thy ===== *)
theory Offset_Contract
  imports Offset_Free
begin

text \<open>
  What \<open>__Allocator\<close> promises its clients: it is a handle allocator in the sense of
  \<open>Allocator_Interface\<close>, it succeeds exactly when its own report says that there is room,
  the space it hands out exceeds the request by at most an eighth, its reports are true, and
  giving everything back restores one block.
\<close>

section \<open>allocate in one statement\<close>

lemma allocate_size [simp]: "m_size (fst (allocate sz s)) = m_size s"
  by (simp add: allocate_def Let_def split: option.splits prod.splits)

definition fits :: "Allocator \<Rightarrow> u32 \<Rightarrow> bool" where
  "fits s sz \<longleftrightarrow> m_freeOffset s \<noteq> m_max_capacity s \<and> find_bin (uintToFloatRoundUp sz) (grow_capacity s) \<noteq> None"

lemma not_fits_allocate:
  assumes "oa_inv s" and "\<not> fits s sz"
  shows "oa_inv (fst (allocate sz s))" "snd (allocate sz s) = no_space" "oa_live (fst (allocate sz s)) = oa_live s"
proof -
  obtain L where L: "oa_wf s L" using assms(1) by (auto simp: oa_inv_def)
  have "m_freeOffset s = m_max_capacity s \<or> find_bin (uintToFloatRoundUp sz) (grow_capacity s) = None"
    using assms(2) unfolding fits_def by blast
  from allocate_not_found [OF L this] show "oa_inv (fst (allocate sz s))" "snd (allocate sz s) = no_space"
    "oa_live (fst (allocate sz s)) = oa_live s" .
qed

lemma fits_allocate:
  assumes inv: "oa_inv s" and f: "fits s sz"
  shows "oa_inv (fst (allocate sz s))" "oa_live s (a_metadata (snd (allocate sz s))) = None"
    "oa_live (fst (allocate sz s)) =
       (oa_live s)(a_metadata (snd (allocate sz s)) \<mapsto> (unat (a_offset (snd (allocate sz s))), bin_size (bin_up (unat sz))))"
proof -
  obtain L where L: "oa_wf s L" using inv by (auto simp: oa_inv_def)
  obtain t l where tl: "find_bin (uintToFloatRoundUp sz) (grow_capacity s) = Some (t, l)" "m_freeOffset s \<noteq> m_max_capacity s"
    using f by (auto simp: fits_def)
  note a = allocate_found [OF L tl(2,1) refl]
  show "oa_inv (fst (allocate sz s))" "oa_live s (a_metadata (snd (allocate sz s))) = None"
    "oa_live (fst (allocate sz s)) =
       (oa_live s)(a_metadata (snd (allocate sz s)) \<mapsto> (unat (a_offset (snd (allocate sz s))), bin_size (bin_up (unat sz))))"
    using a by simp_all
qed

lemma live_offset_not_NO_SPACE:
  assumes "oa_inv s" "oa_live s i = Some (unat off, z)" "0 < z" shows "off \<noteq> NO_SPACE"
proof
  assume "off = NO_SPACE"
  then have "unat off = 4294967295" by (simp add: NO_SPACE_def)
  then show False using oa_inv_bound [OF assms(1,2)] assms(3) u32_lt_of_unat [of "m_size s"] by simp
qed

lemma bin_size_up_pos: "0 < sz \<Longrightarrow> 0 < bin_size (bin_up (unat (sz :: u32)))"
  using bin_size_bin_up [of "unat sz"] by (simp add: word_less_nat_alt)

lemma fits_iff_space:
  assumes inv: "oa_inv s" and sz: "0 < sz" shows "fits s sz \<longleftrightarrow> \<not> isNoSpace (snd (allocate sz s))"
proof (cases "fits s sz")
  case True
  note a = fits_allocate [OF inv True]
  have "a_offset (snd (allocate sz s)) \<noteq> NO_SPACE"
    by (rule live_offset_not_NO_SPACE [OF a(1) _ bin_size_up_pos [OF sz], of "a_metadata (snd (allocate sz s))"])
      (simp add: a(3))
  then show ?thesis using True by (simp add: isNoSpace_def)
next
  case False
  then show ?thesis using not_fits_allocate(2) [OF inv False] by (simp add: isNoSpace_def no_space_def)
qed

section \<open>A handle allocator\<close>

definition oa_alloc :: "u32 \<Rightarrow> Allocator \<Rightarrow> Allocator \<times> OffsetAllocation option" where
  "oa_alloc sz s = (case allocate sz s of (s', a) \<Rightarrow> (s', if isNoSpace a then None else Some a))"

definition oa_ok :: "Allocator \<Rightarrow> OffsetAllocation list \<Rightarrow> bool" where
  "oa_ok s hs \<longleftrightarrow> oa_inv s \<and> distinct (map a_metadata hs) \<and> set (map a_metadata hs) = dom (oa_live s)
     \<and> (\<forall>h \<in> set hs. \<exists>z. oa_live s (a_metadata h) = Some (unat (a_offset h), z))"

definition oa_region :: "Allocator \<Rightarrow> OffsetAllocation \<Rightarrow> nat \<times> nat" where
  "oa_region s h = (unat (a_offset h), unat (allocationSize h s))"

lemma oa_wf_slot: "oa_wf s L \<Longrightarrow> i \<in> set L \<Longrightarrow> i \<noteq> NO_SPACE"
  using slots_not_sentinel [of s "set L" i] by (simp add: oa_wf_def NO_SPACE_def Node_unused_def)

lemma oa_ok_region:
  assumes "oa_ok s hs" "h \<in> set hs" shows "oa_live s (a_metadata h) = Some (oa_region s h)"
proof -
  obtain L where L: "oa_wf s L" using assms(1) by (auto simp: oa_ok_def oa_inv_def)
  obtain z where z: "oa_live s (a_metadata h) = Some (unat (a_offset h), z)" using assms by (auto simp: oa_ok_def)
  then have "a_metadata h \<noteq> NO_SPACE" "m_nodes_set s"
    using oa_wf_region(1) [OF L] oa_wf_slot [OF L] L by (auto simp: oa_wf_def)
  moreover have "z = unat (dataSize (m_nodes s (a_metadata h)))" using oa_wf_region(2) [OF L z] by (simp add: node_region_def)
  ultimately show ?thesis using z by (simp add: oa_region_def allocationSize_def)
qed

lemma oa_region_eqI:
  assumes "oa_ok s hs" "h \<in> set hs" "oa_ok s' hs'" "h \<in> set hs'" "oa_live s' (a_metadata h) = oa_live s (a_metadata h)"
  shows "oa_region s' h = oa_region s h"
  using oa_ok_region [OF assms(1,2)] oa_ok_region [OF assms(3,4)] assms(5) by simp

lemma oa_alloc_ok:
  assumes ok: "oa_ok s hs" and sz: "0 < sz" and a: "oa_alloc sz s = (s', r)"
  shows "oa_ok s' (case r of None \<Rightarrow> hs | Some h \<Rightarrow> h # hs)" "oa_live s \<subseteq>\<^sub>m oa_live s'"
proof -
  have inv: "oa_inv s" using ok by (simp add: oa_ok_def)
  have s': "s' = fst (allocate sz s)" and r: "r = (if fits s sz then Some (snd (allocate sz s)) else None)"
    using a fits_iff_space [OF inv sz] by (auto simp: oa_alloc_def split: prod.splits if_splits)
  show "oa_ok s' (case r of None \<Rightarrow> hs | Some h \<Rightarrow> h # hs)" "oa_live s \<subseteq>\<^sub>m oa_live s'"
    using ok r fits_allocate [OF inv, of sz] not_fits_allocate [OF inv, of sz]
    by (auto simp: oa_ok_def s' map_le_def dom_def image_iff split: if_splits)
qed

lemma oa_rel_ok:
  assumes ok: "oa_ok s (xs @ h # ys)" shows "oa_ok (free h s) (xs @ ys)" "m_size (free h s) = m_size s"
    "oa_live (free h s) = (oa_live s)(a_metadata h := None)"
proof -
  have inv: "oa_inv s" and l: "oa_live s (a_metadata h) \<noteq> None" using ok by (auto simp: oa_ok_def)
  note f = free_spec [OF inv l]
  show "m_size (free h s) = m_size s" "oa_live (free h s) = (oa_live s)(a_metadata h := None)" using f by auto
  have "a_metadata k \<noteq> a_metadata h" if "k \<in> set xs \<union> set ys" for k using that ok by (auto simp: oa_ok_def image_iff)
  then show "oa_ok (free h s) (xs @ ys)" using ok f by (auto simp: oa_ok_def)
qed

lemma oa_ok_disjoint:
  assumes "oa_ok s (xs @ h # ys)" "k \<in> set xs \<union> set ys" shows "disjoint_regions (oa_region s h) (oa_region s k)"
proof -
  have "a_metadata h \<noteq> a_metadata k" using assms by (auto simp: oa_ok_def image_iff)
  moreover have "oa_live s (a_metadata h) = Some (oa_region s h)" "oa_live s (a_metadata k) = Some (oa_region s k)"
    using oa_ok_region [OF assms(1)] assms(2) by auto
  moreover have "oa_inv s" using assms(1) by (simp add: oa_ok_def)
  ultimately show ?thesis using oa_inv_disjoint by blast
qed

interpretation oa: handle_allocator oa_ok "\<lambda>s sz. 0 < sz" oa_alloc free oa_region "\<lambda>s. (0, unat (m_size s))"
proof
  fix s hs and n :: u32 and s' r h
  assume ok: "oa_ok s hs" and n: "0 < n" and a: "oa_alloc n s = (s', r)"
  show ok': "oa_ok s' (case r of None \<Rightarrow> hs | Some h \<Rightarrow> h # hs)" using oa_alloc_ok(1) [OF ok n a] .
  assume h: "h \<in> set hs"
  have "oa_live s' (a_metadata h) = oa_live s (a_metadata h)"
    using oa_alloc_ok(2) [OF ok n a] oa_ok_region [OF ok h] by (metis domI map_le_def)
  then show "oa_region s' h = oa_region s h"
    by (rule oa_region_eqI [OF ok h ok', rotated]) (use h in \<open>auto split: option.splits\<close>)
next
  fix s hs and n :: u32 and s' r assume "oa_alloc n s = (s', r)"
  then show "(0, unat (m_size s')) = (0, unat (m_size s)) \<and> (\<lambda>sz :: u32. 0 < sz) = (\<lambda>sz. 0 < sz)"
    using allocate_size [of n s] by (auto simp: oa_alloc_def split_beta)
next
  fix s xs h ys k assume ok: "oa_ok s (xs @ h # ys)"
  show ok': "oa_ok (free h s) (xs @ ys)" using oa_rel_ok(1) [OF ok] .
  show "(0, unat (m_size (free h s))) = (0, unat (m_size s)) \<and> (\<lambda>sz :: u32. 0 < sz) = (\<lambda>sz. 0 < sz)" using oa_rel_ok(2) [OF ok] by simp
  assume k: "k \<in> set xs \<union> set ys"
  have "a_metadata k \<noteq> a_metadata h" using ok k by (auto simp: oa_ok_def image_iff)
  then show "oa_region (free h s) k = oa_region s k"
    using oa_region_eqI [OF ok _ ok', of k] k oa_rel_ok(3) [OF ok] by auto
  show "disjoint_regions (oa_region s h) (oa_region s k)" using oa_ok_disjoint [OF ok k] .
next
  fix s hs h assume "oa_ok s hs" "h \<in> set hs"
  then show "within_region (0, unat (m_size s)) (oa_region s h)"
    using oa_inv_bound [of s "a_metadata h" "oa_region s h"] oa_ok_region by (auto simp: within_region_def oa_ok_def)
qed

section \<open>The reports\<close>

lemma bin_of_free_node:
  assumes wf: "oa_wf s L" and B: "bins_ok s B (free_nodes s L)" and c: "B c \<noteq> []"
  shows "unat (floatToUint c) = bin_size (unat c)"
proof -
  note x = oa_wf_bins_size [OF wf B c refl]
  have "bin_size (unat c) \<le> unat (dataSize (m_nodes s (m_binIndices s c)))" using x(3) le_bin_down_iff by (metis order_refl)
  then show ?thesis using u32_lt_of_unat [of "dataSize (m_nodes s (m_binIndices s c))"] by (intro floatToUint_unat) simp
qed

lemma fits_iff_bin:
  assumes B: "bits_ok (grow_capacity s) B"
  shows "fits s sz \<longleftrightarrow> m_freeOffset s \<noteq> m_max_capacity s \<and> (\<exists>c. B c \<noteq> [] \<and> bin_up (unat sz) \<le> unat c)"
proof (cases "find_bin (uintToFloatRoundUp sz) (grow_capacity s)")
  case None
  then show ?thesis using find_bin_None [OF B roundUp_lt None] by (auto simp: fits_def uintToFloatRoundUp_unat)
next
  case (Some tl)
  then obtain t l where "find_bin (uintToFloatRoundUp sz) (grow_capacity s) = Some (t, l)" by (cases tl) auto
  from find_bin_Some [OF B roundUp_lt this] show ?thesis using Some by (auto simp: fits_def uintToFloatRoundUp_unat)
qed

lemma bits_ok_grow: "bits_ok (grow_capacity s) B = bits_ok s B"
  by (simp add: bits_ok_def)

lemma fits_iff_report:
  assumes inv: "oa_inv s" and sz: "0 < sz"
  shows "fits s sz \<longleftrightarrow> unat sz \<le> unat (largestFreeRegion (storageReport s))"
proof -
  obtain L where L: "oa_wf s L" using inv by (auto simp: oa_inv_def)
  then obtain B where B: "bins_ok s B (free_nodes s L)" by (auto simp: oa_wf_def)
  then have b: "bits_ok s B" by (simp add: bins_ok_def)
  have le: "m_freeOffset s \<le> m_max_capacity s" using L by (auto simp: oa_wf_def slots_ok_def)
  note f = fits_iff_bin [of s B sz, unfolded bits_ok_grow, OF b]
  have pos: "0 < unat sz" using sz by (simp add: word_less_nat_alt)
  consider "m_freeOffset s = m_max_capacity s" | "m_freeOffset s < m_max_capacity s" "m_usedBinsTop s = 0"
    | "m_freeOffset s < m_max_capacity s" "m_usedBinsTop s \<noteq> 0" using le by force
  then show ?thesis
  proof cases
    case 1
    then show ?thesis using f pos by (simp add: storageReport_def)
  next
    case 2
    then show ?thesis using f no_bin [OF b] pos by (simp add: storageReport_def)
  next
    case 3
    define t where "t = 31 - lzcnt_nonzero (m_usedBinsTop s)"
    define l where "l = 31 - lzcnt_nonzero (ucast (m_usedBins s t))"
    note M = largest_bin [OF b 3(2) t_def l_def]
    have "unat (largestFreeRegion (storageReport s)) = bin_size (unat (joinBin t l))"
      using 3 bin_of_free_node [OF L B M(3)] by (simp add: storageReport_def Let_def flip: t_def l_def)
    moreover have "(\<exists>c. B c \<noteq> [] \<and> bin_up (unat sz) \<le> unat c) \<longleftrightarrow> bin_up (unat sz) \<le> unat (joinBin t l)"
      using M(3,4) le_trans by blast
    ultimately show ?thesis using f 3(1) by (auto simp: bin_up_le_iff)
  qed
qed

text \<open>When nothing is held there is one free block, of the size of the whole range.\<close>

lemma oa_empty_block:
  assumes wf: "oa_wf s L" and e: "oa_live s = Map.empty"
  shows "\<exists>i. L = [i] \<and> dataSize (m_nodes s i) = m_size s \<and> \<not> used (m_nodes s i)"
proof -
  have u: "\<not> used (m_nodes s i)" for i using fun_cong [OF e, of i] by (simp add: oa_live_def split: if_splits)
  obtain i where i: "L = [i]"
    using successively_free_single [of "m_nodes s" L] u wf by (auto simp: oa_wf_def addr_ok_def)
  then have "dataSize (m_nodes s i) = m_size s" using wf by (simp add: oa_wf_def addr_ok_def word_unat_eq_iff)
  then show ?thesis using i u by blast
qed

lemma oa_empty_fits:
  assumes inv: "oa_inv s" and e: "oa_live s = Map.empty" and cap: "1 < m_max_capacity s"
  shows "fits s sz \<longleftrightarrow> unat sz \<le> bin_size (bin_down (unat (m_size s)))"
proof -
  obtain L where L: "oa_wf s L" using inv by (auto simp: oa_inv_def)
  then obtain B where B: "bins_ok s B (free_nodes s L)" by (auto simp: oa_wf_def)
  then have b: "bits_ok s B" and lok: "lists_ok s B (free_nodes s L)" by (auto simp: bins_ok_def)
  obtain i where i: "L = [i]" "dataSize (m_nodes s i) = m_size s" "\<not> used (m_nodes s i)" using oa_empty_block [OF L e] by blast
  have "card (set L) = unat (m_freeOffset s)" using slots_card [of s "set L"] L by (simp add: oa_wf_def)
  then have fo: "m_freeOffset s = 1" using i by (simp add: word_unat_eq_iff)
  have "B c \<noteq> [] \<longleftrightarrow> unat c = bin_down (unat (m_size s))" for c
  proof -
    have "B c \<noteq> [] \<longleftrightarrow> set (B c) \<noteq> {}" by simp
    also have "\<dots> \<longleftrightarrow> node_class s i = c" using lists_okD(3) [OF lok, of c] i by (auto simp: free_nodes_def)
    also have "\<dots> \<longleftrightarrow> unat c = bin_down (unat (m_size s))"
      using i(2) by (auto simp: node_class_def word_unat_eq_iff uintToFloatRoundDown_unat)
    finally show ?thesis .
  qed
  moreover have "\<exists>c :: u32. unat c = bin_down (unat (m_size s))" by (metis uintToFloatRoundDown_unat)
  ultimately show ?thesis using fits_iff_bin [of s B sz, unfolded bits_ok_grow, OF b] fo cap by (auto simp: bin_up_le_iff)
qed

lemma count_bin_dseg:
  "dseg pv (\<lambda>i. binListNext (m_nodes s i)) p i xs l Node_unused \<Longrightarrow> Node_unused \<notin> set xs \<Longrightarrow>
   count_bin s i c = Some (c + word_of_nat (length xs))"
proof (induction xs arbitrary: p i c)
  case Nil
  then show ?case by (simp add: count_bin.simps)
next
  case (Cons x xs)
  have "count_bin s i c = count_bin s (binListNext (m_nodes s x)) (c + 1)"
    using Cons.prems by (subst count_bin.simps) auto
  also have "\<dots> = Some (c + 1 + word_of_nat (length xs))" using Cons by auto
  finally show ?case by (simp add: algebra_simps)
qed

lemma storageReportFull_returns:
  assumes "oa_wf s L" and B: "bins_ok s B (free_nodes s L)"
  shows "storageReportFull s i = Some (ucast (floatToUint i), ucast (word_of_nat (length (B i)) :: u32))"
proof -
  have "dlist Node_unused (\<lambda>i. binListPrev (m_nodes s i)) (\<lambda>i. binListNext (m_nodes s i)) (m_binIndices s i) (B i)"
    using B by (simp add: bins_ok_def lists_ok_def)
  then have "count_bin s (m_binIndices s i) 0 = Some (word_of_nat (length (B i)))"
    using count_bin_dseg by (fastforce simp: dlist_def)
  then show ?thesis by (simp add: storageReportFull_def)
qed

section \<open>Properties\<close>

lemma oa_inv_new: "0 < c \<Longrightarrow> oa_inv (Allocator_new sz c mx)"
  using Allocator_new_wf(1) by (auto simp: oa_inv_def)

lemma oa_ok_new: "0 < c \<Longrightarrow> oa_ok (Allocator_new sz c mx) []"
  using Allocator_new_wf by (auto simp: oa_ok_def oa_inv_def)

lemma new_fits:
  assumes "0 < c" "1 < max c mx" "unat n \<le> bin_size (bin_down (unat sz))" shows "fits (Allocator_new sz c mx) n"
  using oa_empty_fits [OF oa_inv_new [OF assms(1)] Allocator_new_wf(2) [OF assms(1)]] Allocator_new_wf(3) [OF assms(1)] assms(2,3)
  by (simp add: Allocator_new_def reset_def Let_def)

lemma fits_new_example: "fits (Allocator_new 1024 4 8) 100"
proof (rule new_fits)
  have "bin_size (bin_down 1024) = 1024" by code_simp
  then show "unat (100 :: u32) \<le> bin_size (bin_down (unat (1024 :: u32)))" by simp
qed simp_all

text \<open>
  C3: \<open>allocate\<close> on an allocator that satisfies the invariant keeps the invariant. If it
  reports no space, no region changes. Otherwise it returns a handle nobody held before,
  only that handle is added to what is held, and its block is at least as large as the
  request and exceeds it by at most an eighth. Together with the invariant (regions of
  different handles do not overlap) this is the safety of \<open>__Allocator::allocate\<close>.
\<close>

theorem allocate_correct:
  assumes "oa_inv s" and "0 < sz"
  shows "oa_inv (fst (allocate sz s))
    \<and> (if isNoSpace (snd (allocate sz s)) then oa_live (fst (allocate sz s)) = oa_live s
       else oa_live s (a_metadata (snd (allocate sz s))) = None
         \<and> (\<exists>z. oa_live (fst (allocate sz s)) =
                 (oa_live s)(a_metadata (snd (allocate sz s)) \<mapsto> (unat (a_offset (snd (allocate sz s))), z))
               \<and> unat sz \<le> z \<and> z \<le> unat sz + unat sz div 8))"
proof (cases "fits s sz")
  case True
  then show ?thesis using fits_iff_space [OF assms] fits_allocate [OF assms(1) True]
    bin_size_bin_up [of "unat sz"] bin_size_overhead [of "unat sz"] by auto
next
  case False
  then show ?thesis using fits_iff_space [OF assms] not_fits_allocate [OF assms(1) False] by auto
qed

theorem allocate_correct_witness:
  "oa_inv (Allocator_new 1024 4 8) \<and> (0 :: u32) < 100
   \<and> (\<exists>z. oa_live (fst (allocate 100 (Allocator_new 1024 4 8))) (a_metadata (snd (allocate 100 (Allocator_new 1024 4 8))))
        = Some (unat (a_offset (snd (allocate 100 (Allocator_new 1024 4 8)))), z) \<and> 100 \<le> z \<and> z \<le> 112)"
proof -
  have i: "oa_inv (Allocator_new 1024 4 8)" by (rule oa_inv_new) simp
  have "\<not> isNoSpace (snd (allocate 100 (Allocator_new 1024 4 8)))"
    using fits_iff_space [OF i, of 100] fits_new_example by simp
  then show ?thesis using i allocate_correct [OF i, of 100] by auto
qed

text \<open>
  C4: \<open>free\<close> of a handle that is held keeps the invariant and gives back exactly the region
  of that handle: every other region, and the size of the managed range, stay as they are.
\<close>

theorem free_correct:
  assumes "oa_inv s" and "oa_live s (a_metadata a) \<noteq> None"
  shows "oa_inv (free a s) \<and> oa_live (free a s) = (oa_live s)(a_metadata a := None) \<and> m_size (free a s) = m_size s"
  using free_spec [OF assms] by blast

theorem free_correct_witness:
  "oa_inv (free (snd (allocate 100 (Allocator_new 1024 4 8))) (fst (allocate 100 (Allocator_new 1024 4 8))))
   \<and> oa_live (free (snd (allocate 100 (Allocator_new 1024 4 8))) (fst (allocate 100 (Allocator_new 1024 4 8)))) = Map.empty"
proof -
  have i: "oa_inv (Allocator_new 1024 4 8)" by (rule oa_inv_new) simp
  note a = fits_allocate [OF i fits_new_example]
  have "oa_live (Allocator_new 1024 4 8) = Map.empty" by (rule Allocator_new_wf(2)) simp
  then show ?thesis using free_correct [OF a(1), of "snd (allocate 100 (Allocator_new 1024 4 8))"] a(3) by (auto simp: fun_eq_iff)
qed

text \<open>
  C12: Whatever sequence of allocations (of sizes greater than 0) and releases a client makes
  on a new \<open>__Allocator\<close>, the regions of the handles it holds afterwards, with the sizes
  \<open>allocationSize\<close> reports, are pairwise disjoint and lie within the managed range.
\<close>

theorem Allocator_client_safe:
  assumes "0 < c" and "\<And>n. Acquire n \<in> set ops \<Longrightarrow> 0 < n"
    and "client_run oa_alloc free ops (Allocator_new sz c mx, []) = (s, hs)"
  shows "pairwise_disjoint (oa_region s) hs \<and> (\<forall>h \<in> set hs. within_region (0, unat sz) (oa_region s h))"
  using oa.run_safe [OF oa_ok_new [OF assms(1)] assms(2,3)] Allocator_new_wf(3) [OF assms(1)] by auto

theorem Allocator_client_safe_witness:
  "\<exists>s hs. client_run oa_alloc free [Acquire 100, Acquire 200, Release 1] (Allocator_new 1024 4 8, []) = (s, hs)
     \<and> pairwise_disjoint (oa_region s) hs \<and> (\<forall>h \<in> set hs. within_region (0, 1024) (oa_region s h))"
proof -
  obtain s hs where r: "client_run oa_alloc free [Acquire 100, Acquire 200, Release 1] (Allocator_new 1024 4 8, []) = (s, hs)"
    by (cases "client_run oa_alloc free [Acquire 100, Acquire 200, Release 1] (Allocator_new 1024 4 8, [])")
  have "pairwise_disjoint (oa_region s) hs \<and> (\<forall>h \<in> set hs. within_region (0, unat (1024 :: u32)) (oa_region s h))"
    by (rule Allocator_client_safe [OF _ _ r]) auto
  then show ?thesis using r by auto
qed

text \<open>
  C22: \<open>allocate\<close> succeeds exactly when the request is not larger than the
  \<open>largestFreeRegion\<close> of \<open>storageReport\<close>: the report, which the allocation strategy uses to
  filter segments, neither promises too much nor hides space that could be used.
\<close>

theorem allocate_succeeds_iff_report:
  assumes "oa_inv s" and "0 < sz"
  shows "\<not> isNoSpace (snd (allocate sz s)) \<longleftrightarrow> unat sz \<le> unat (largestFreeRegion (storageReport s))"
  using fits_iff_space [OF assms] fits_iff_report [OF assms] by simp

theorem allocate_succeeds_iff_report_witness:
  "\<not> isNoSpace (snd (allocate 100 (Allocator_new 1024 4 8)))
   \<longleftrightarrow> 100 \<le> unat (largestFreeRegion (storageReport (Allocator_new 1024 4 8)))"
proof -
  have i: "oa_inv (Allocator_new 1024 4 8)" by (rule oa_inv_new) simp
  show ?thesis using allocate_succeeds_iff_report [OF i, of 100] by simp
qed

text \<open>
  C23: Once everything has been given back the allocator is as good as new: every size up to
  the class of the whole range can be allocated again (there is no fragmentation left).
\<close>

theorem free_all_restores:
  assumes "oa_inv s" and "oa_live s = Map.empty" and "1 < m_max_capacity s" and "0 < sz"
  shows "\<not> isNoSpace (snd (allocate sz s)) \<longleftrightarrow> unat sz \<le> bin_size (bin_down (unat (m_size s)))"
  using fits_iff_space [OF assms(1,4)] oa_empty_fits [OF assms(1-3)] by simp

theorem free_all_restores_witness:
  "\<not> isNoSpace (snd (allocate 1000 (Allocator_new 1024 4 8))) \<longleftrightarrow> 1000 \<le> bin_size (bin_down 1024)"
proof -
  have i: "oa_inv (Allocator_new 1024 4 8)" by (rule oa_inv_new) simp
  have "oa_live (Allocator_new 1024 4 8) = Map.empty" "m_size (Allocator_new 1024 4 8) = 1024"
    by (rule Allocator_new_wf; simp)+
  moreover have "1 < m_max_capacity (Allocator_new 1024 4 8)" by (simp add: Allocator_new_def reset_def Let_def)
  ultimately show ?thesis using free_all_restores [OF i, of 1000] by simp
qed



text \<open>
  C35: The walk of \<open>storageReportFull\<close> along the list of a bin ends, for every bin, and the
  count it returns is the number of the free nodes of that size class.
\<close>

theorem storageReportFull_terminates:
  assumes "oa_wf s L"
  shows "\<exists>ns. storageReportFull s i = Some (ucast (floatToUint i), ucast (word_of_nat (length ns) :: u32))
    \<and> distinct ns \<and> set ns = {j \<in> set L. \<not> used (m_nodes s j) \<and> uintToFloatRoundDown (dataSize (m_nodes s j)) = i}"
proof -
  obtain B where B: "bins_ok s B (free_nodes s L)" using assms by (auto simp: oa_wf_def)
  then have "lists_ok s B (free_nodes s L)" by (simp add: bins_ok_def)
  from lists_okD(2,3) [OF this, of i] show ?thesis
    using storageReportFull_returns [OF assms B, of i]
    by (intro exI [of _ "B i"]) (auto simp: free_nodes_def node_class_def)
qed

theorem storageReportFull_terminates_witness:
  "\<exists>n. storageReportFull (Allocator_new 1024 4 8) 64 = Some (ucast (floatToUint 64), ucast (word_of_nat n :: u32))"
proof -
  have "oa_wf (Allocator_new 1024 4 8) [0]" by (rule Allocator_new_wf) simp
  from storageReportFull_terminates [OF this, of 64] show ?thesis by blast
qed

end
