(* ===== verification/Offset_Allocator.thy ===== *)
theory Offset_Allocator
  imports Offset_Contract
begin

text \<open>
  The class \<open>OffsetAllocator\<close> of \<open>offset_allocator.cpp\<close>, which manages a range of 64-bit
  addresses by an \<open>__Allocator\<close> that counts in units of \<open>2 ^ m_multiplier_bits\<close> bytes, and
  the handle \<open>OffsetAllocationHandle\<close>, whose destructor gives the memory back. Every method
  runs under the allocator's mutex, so a method is one step of the model.
\<close>

section \<open>State\<close>

record OffsetAllocator =
  m_allocator :: "Allocator option"
  m_base :: u64
  m_multiplier_bits :: u64
  m_capacity :: u64
  m_allocated_size :: u64
  m_allocated_num :: u64

text \<open>\<open>m_owner\<close> says whether the weak pointer \<open>m_allocator\<close> of the handle has not been moved away.\<close>

record OffsetAllocationHandle =
  m_owner :: bool
  m_allocation :: OffsetAllocation
  real_base :: u64
  requested_size :: u64

record OffsetAllocatorMetrics =
  allocated_size :: u64
  allocated_num :: u64
  largest_free_region :: u64
  total_free_space :: u64
  metrics_capacity :: u64

abbreviation unit_bits :: "OffsetAllocator \<Rightarrow> nat" where
  "unit_bits w \<equiv> unat (m_multiplier_bits w)"

section \<open>Operations\<close>

lemma drop_bit_u64_zero: "64 \<le> k \<Longrightarrow> drop_bit k (w :: u64) = 0"
  by (rule bit_eqI) (auto simp: bit_simps dest: bit_imp_le_length)

function calculateMultiplier_from :: "u64 \<Rightarrow> nat \<Rightarrow> nat" where
  "calculateMultiplier_from sz multiplier_bits =
     (if MAX_BIN_SIZE < drop_bit multiplier_bits sz
      then calculateMultiplier_from sz (multiplier_bits + 1) else multiplier_bits)"
  by pat_completeness auto

termination
proof (relation "measure (\<lambda>(sz, k). 64 - k)")
  fix sz :: u64 and k assume "MAX_BIN_SIZE < drop_bit k sz"
  then have "k < 64" using drop_bit_u64_zero [of k sz] by (cases "64 \<le> k") auto
  then show "((sz, k + 1), sz, k) \<in> measure (\<lambda>(sz, k). 64 - k)" by simp
qed simp

definition calculateMultiplier :: "u64 \<Rightarrow> u64" where
  "calculateMultiplier sz = word_of_nat (calculateMultiplier_from sz 0)"

definition OffsetAllocator_new :: "u64 \<Rightarrow> u64 \<Rightarrow> u32 \<Rightarrow> u32 \<Rightarrow> OffsetAllocator" where
  "OffsetAllocator_new base sz init_capacity max_capacity =
     (let bits = calculateMultiplier sz
      in \<lparr>m_allocator = Some (Allocator_new (ucast (drop_bit (unat bits) sz)) init_capacity max_capacity),
          m_base = base, m_multiplier_bits = bits, m_capacity = sz,
          m_allocated_size = 0, m_allocated_num = 0\<rparr>)"

definition fake_size :: "OffsetAllocator \<Rightarrow> u64 \<Rightarrow> u64" where
  "fake_size w sz =
     (if m_multiplier_bits w > 0
      then drop_bit (unit_bits w) (sz + push_bit (unit_bits w) 1 - 1) else sz)"

definition OffsetAllocator_allocate :: "u64 \<Rightarrow> OffsetAllocator \<Rightarrow> OffsetAllocator \<times> OffsetAllocationHandle option" where
  "OffsetAllocator_allocate sz w =
     (if sz = 0 then (w, None)
      else case m_allocator w of
        None \<Rightarrow> (w, None)
      | Some s \<Rightarrow>
          if fake_size w sz > MAX_BIN_SIZE then (w, None)
          else
            let (s', allocation) = allocate (ucast (fake_size w sz)) s;
                w = w\<lparr>m_allocator := Some s'\<rparr>
            in if isNoSpace allocation then (w, None)
               else (w\<lparr>m_allocated_size := m_allocated_size w + sz,
                       m_allocated_num := m_allocated_num w + 1\<rparr>,
                     Some \<lparr>m_owner = True, m_allocation = allocation,
                           real_base = m_base w + push_bit (unit_bits w) (getOffset allocation),
                           requested_size = sz\<rparr>))"

definition freeAllocation :: "OffsetAllocation \<Rightarrow> u64 \<Rightarrow> OffsetAllocator \<Rightarrow> OffsetAllocator" where
  "freeAllocation allocation sz w =
     (case m_allocator w of
        None \<Rightarrow> w
      | Some s \<Rightarrow> w\<lparr>m_allocator := Some (free allocation s),
                   m_allocated_size := m_allocated_size w - sz,
                   m_allocated_num := m_allocated_num w - 1\<rparr>)"

definition OffsetAllocator_storageReport :: "OffsetAllocator \<Rightarrow> OffsetAllocStorageReport" where
  "OffsetAllocator_storageReport w =
     (case m_allocator w of
        None \<Rightarrow> \<lparr>totalFreeSpace = 0, largestFreeRegion = 0\<rparr>
      | Some s \<Rightarrow> let report = storageReport s
                 in \<lparr>totalFreeSpace = push_bit (unit_bits w) (totalFreeSpace report),
                     largestFreeRegion = push_bit (unit_bits w) (largestFreeRegion report)\<rparr>)"

definition OffsetAllocator_storageReportFull :: "OffsetAllocator \<Rightarrow> u32 \<Rightarrow> (u64 \<times> u64) option" where
  "OffsetAllocator_storageReportFull w i =
     (case m_allocator w of
        None \<Rightarrow> Some (0, 0)
      | Some s \<Rightarrow> map_option (\<lambda>(sz, count). (push_bit (unit_bits w) sz, count)) (storageReportFull s i))"

definition get_metrics :: "OffsetAllocator \<Rightarrow> OffsetAllocatorMetrics" where
  "get_metrics w =
     (case m_allocator w of
        None \<Rightarrow> \<lparr>allocated_size = 0, allocated_num = 0, largest_free_region = 0, total_free_space = 0,
                metrics_capacity = m_capacity w\<rparr>
      | Some s \<Rightarrow> let basic_report = storageReport s
                 in \<lparr>allocated_size = m_allocated_size w, allocated_num = m_allocated_num w,
                     largest_free_region = push_bit (unit_bits w) (largestFreeRegion basic_report),
                     total_free_space = push_bit (unit_bits w) (totalFreeSpace basic_report),
                     metrics_capacity = m_capacity w\<rparr>)"

text \<open>
  The handle: its destructor, its move constructor (the new handle and what is left of the
  old one) and its move assignment. The allocator is absent when it has been destroyed.
\<close>

definition handle_destroy :: "OffsetAllocationHandle \<Rightarrow> OffsetAllocator option \<Rightarrow> OffsetAllocator option" where
  "handle_destroy h ow =
     (if m_owner h then map_option (freeAllocation (m_allocation h) (requested_size h)) ow else ow)"

definition handle_moved_from :: OffsetAllocationHandle where
  "handle_moved_from = \<lparr>m_owner = False, m_allocation = no_space, real_base = 0, requested_size = 0\<rparr>"

definition handle_move :: "OffsetAllocationHandle \<Rightarrow> OffsetAllocationHandle \<times> OffsetAllocationHandle" where
  "handle_move other = (other, handle_moved_from)"

definition handle_assign ::
  "OffsetAllocationHandle \<Rightarrow> OffsetAllocationHandle \<Rightarrow> OffsetAllocator option \<Rightarrow>
   OffsetAllocator option \<times> OffsetAllocationHandle \<times> OffsetAllocationHandle" where
  "handle_assign this other ow = (handle_destroy this ow, handle_move other)"

section \<open>The unit of the allocator\<close>

declare calculateMultiplier_from.simps [simp del]

lemma calculateMultiplier_from_spec:
  "j \<le> calculateMultiplier_from sz j \<and> drop_bit (calculateMultiplier_from sz j) sz \<le> MAX_BIN_SIZE
   \<and> (j < calculateMultiplier_from sz j \<longrightarrow> MAX_BIN_SIZE < drop_bit (calculateMultiplier_from sz j - 1) sz)"
proof (induction sz j rule: calculateMultiplier_from.induct)
  case (1 sz j)
  show ?case
  proof (cases "MAX_BIN_SIZE < drop_bit j sz")
    case True
    note IH = "1.IH" [OF True]
    have e: "calculateMultiplier_from sz j = calculateMultiplier_from sz (j + 1)"
      using True by (subst calculateMultiplier_from.simps) simp
    show ?thesis using IH True unfolding e
      by (cases "calculateMultiplier_from sz (j + 1) = j + 1") auto
  next
    case False
    then show ?thesis by (subst (1 2 3 4) calculateMultiplier_from.simps) auto
  qed
qed

lemma calculateMultiplier_from_le: "calculateMultiplier_from sz 0 \<le> 33"
proof (rule ccontr)
  let ?k = "calculateMultiplier_from sz 0"
  assume "\<not> ?k \<le> 33"
  then have k: "33 \<le> ?k - 1" "0 < ?k" by auto
  have "MAX_BIN_SIZE < drop_bit (?k - 1) sz" using calculateMultiplier_from_spec [of 0 sz] k by simp
  then have "unat MAX_BIN_SIZE < unat sz div 2 ^ (?k - 1)" by (simp add: word_less_nat_alt unat_drop_bit_div)
  also have "\<dots> \<le> unat sz div 2 ^ 33"
    using power_increasing [OF k(1), of "2 :: nat"] by (intro div_le_mono2) auto
  also have "\<dots> < 2 ^ 31" using u64_lt_of_unat [of sz] by (simp add: less_mult_imp_div_less)
  finally show False by (simp add: MAX_BIN_SIZE_def)
qed

lemma unat_calculateMultiplier: "unat (calculateMultiplier sz) = calculateMultiplier_from sz 0"
  using calculateMultiplier_from_le [of sz] by (simp add: calculateMultiplier_def unsigned_of_nat take_bit_nat_eq_self)

lemma new_size: "unat (ucast (drop_bit (unat (calculateMultiplier sz)) sz) :: u32) = unat sz div 2 ^ unat (calculateMultiplier sz)"
proof -
  have "drop_bit (unat (calculateMultiplier sz)) sz \<le> MAX_BIN_SIZE"
    using calculateMultiplier_from_spec [of 0 sz] by (simp add: unat_calculateMultiplier)
  then have "unat (drop_bit (unat (calculateMultiplier sz)) sz) < 2 ^ 32"
    by (simp add: word_le_nat_alt MAX_BIN_SIZE_def)
  then show ?thesis by (simp add: unsigned_ucast_eq take_bit_nat_eq_self unat_drop_bit_div)
qed

lemma unat_fake_size:
  assumes "unat sz + 2 ^ unit_bits w \<le> 2 ^ 64" and "unit_bits w \<le> 33"
  shows "unat (fake_size w sz) = (unat sz + 2 ^ unit_bits w - 1) div 2 ^ unit_bits w"
proof (cases "m_multiplier_bits w = 0")
  case False
  have p: "unat (push_bit (unit_bits w) 1 :: u64) = 2 ^ unit_bits w"
    using unat_push_bit_no_wrap [of "1 :: u64" "unit_bits w"] assms(2)
      power_strict_increasing [of "unit_bits w" 64 "2 :: nat"] by simp
  have "unat (push_bit (unit_bits w) 1 - 1 :: u64) = 2 ^ unit_bits w - 1"
    using unat_minus_no_wrap [of 1 "push_bit (unit_bits w) 1 :: u64"] p by (simp add: word_le_nat_alt)
  then have "unat (sz + (push_bit (unit_bits w) 1 - 1)) = unat sz + (2 ^ unit_bits w - 1)"
    by (subst unat_plus_no_wrap) (use assms(1) in \<open>auto simp: Suc_le_eq\<close>)
  then show ?thesis using False
    by (simp add: fake_size_def word_greater_zero_iff unat_drop_bit_div add_diff_eq Suc_leI)
qed (simp add: fake_size_def)

lemma ceiling_div_le: "0 < (u :: nat) \<Longrightarrow> n \<le> (n + u - 1) div u * u"
proof -
  assume u: "0 < u"
  have "n + u - 1 = (n + u - 1) div u * u + (n + u - 1) mod u" by simp
  moreover have "(n + u - 1) mod u < u" using u by simp
  ultimately show ?thesis by linarith
qed

section \<open>The contract\<close>

text \<open>
  \<open>wa_ok w hs\<close>: the allocator \<open>w\<close> and the handles \<open>hs\<close> that are held agree. The range of
  addresses does not wrap, each handle carries the address and at most the size of its
  block, and the two counters are what is held.
\<close>

definition handle_ok :: "OffsetAllocator \<Rightarrow> Allocator \<Rightarrow> OffsetAllocationHandle \<Rightarrow> bool" where
  "handle_ok w s h \<longleftrightarrow> m_owner h \<and> 0 < requested_size h
     \<and> real_base h = m_base w + push_bit (unit_bits w) (getOffset (m_allocation h))
     \<and> unat (requested_size h) \<le> unat (allocationSize (m_allocation h) s) * 2 ^ unit_bits w"

definition wa_ok :: "OffsetAllocator \<Rightarrow> OffsetAllocationHandle list \<Rightarrow> bool" where
  "wa_ok w hs \<longleftrightarrow>
     (\<exists>s. m_allocator w = Some s \<and> oa_ok s (map m_allocation hs) \<and> (\<forall>h \<in> set hs. handle_ok w s h)
        \<and> unat (m_size s) = unat (m_capacity w) div 2 ^ unit_bits w)
     \<and> unit_bits w \<le> 33 \<and> unat (m_base w) + unat (m_capacity w) \<le> 2 ^ 64
     \<and> m_allocated_size w = sum_list (map requested_size hs) \<and> m_allocated_num w = word_of_nat (length hs)"

definition handle_region :: "OffsetAllocationHandle \<Rightarrow> nat \<times> nat" where
  "handle_region h = (unat (real_base h), unat (requested_size h))"

definition wa_range :: "OffsetAllocator \<Rightarrow> nat \<times> nat" where
  "wa_range w = (unat (m_base w), unat (m_capacity w))"

definition wa_valid :: "OffsetAllocator \<Rightarrow> u64 \<Rightarrow> bool" where
  "wa_valid w sz \<longleftrightarrow> unat sz + 2 ^ unit_bits w \<le> 2 ^ 64"

lemma oa_ok_map_split: "oa_ok s (map f (xs @ h # ys)) \<longleftrightarrow> oa_ok s (map f xs @ f h # map f ys)"
  by simp

lemma handle_ok_address:
  assumes h: "handle_ok w s h" and b: "within_region (0, unat (m_size s)) (oa_region s (m_allocation h))"
    and c: "unat (m_size s) = unat (m_capacity w) div 2 ^ unit_bits w" "unit_bits w \<le> 33" "unat (m_base w) + unat (m_capacity w) \<le> 2 ^ 64"
  shows "unat (real_base h) = unat (m_base w) + unat (a_offset (m_allocation h)) * 2 ^ unit_bits w"
    "unat (real_base h) + unat (allocationSize (m_allocation h) s) * 2 ^ unit_bits w \<le> unat (m_base w) + unat (m_capacity w)"
proof -
  let ?o = "unat (a_offset (m_allocation h))" and ?z = "unat (allocationSize (m_allocation h) s)" and ?u = "(2 :: nat) ^ unit_bits w"
  have "?o + ?z \<le> unat (m_capacity w) div ?u" using b c(1) by (simp add: within_region_def oa_region_def)
  then have "(?o + ?z) * ?u \<le> unat (m_capacity w)" by (meson div_times_less_eq_dividend le_trans mult_le_mono1)
  then have le: "?o * ?u + ?z * ?u \<le> unat (m_capacity w)" by (simp add: add_mult_distrib)
  have "0 < unat (requested_size h)" using h by (simp add: handle_ok_def word_less_nat_alt)
  moreover have "unat (requested_size h) \<le> ?z * ?u" using h by (simp add: handle_ok_def)
  ultimately have pos: "0 < ?z * ?u" by linarith
  have lt: "unat (m_base w) + ?o * ?u < 2 ^ 64" using le pos c(3) by linarith
  have p: "unat (push_bit (unit_bits w) (getOffset (m_allocation h))) = ?o * ?u"
    using lt by (subst unat_push_bit_no_wrap) (simp_all add: getOffset_def)
  then show a: "unat (real_base h) = unat (m_base w) + ?o * ?u"
    using h lt by (simp add: handle_ok_def unat_plus_no_wrap)
  show "unat (real_base h) + ?z * ?u \<le> unat (m_base w) + unat (m_capacity w)" using a le by simp
qed

lemma wa_ok_handle:
  assumes "wa_ok w hs" "h \<in> set hs"
  obtains s where "m_allocator w = Some s" "oa_ok s (map m_allocation hs)" "handle_ok w s h"
    "unat (real_base h) = unat (m_base w) + unat (a_offset (m_allocation h)) * 2 ^ unit_bits w"
    "unat (real_base h) + unat (allocationSize (m_allocation h) s) * 2 ^ unit_bits w \<le> unat (m_base w) + unat (m_capacity w)"
proof -
  obtain s where s: "m_allocator w = Some s" "oa_ok s (map m_allocation hs)" "handle_ok w s h"
    "unat (m_size s) = unat (m_capacity w) div 2 ^ unit_bits w" using assms by (auto simp: wa_ok_def)
  have "within_region (0, unat (m_size s)) (oa_region s (m_allocation h))" using oa.ok_within [OF s(2)] assms(2) by simp
  from handle_ok_address [OF s(3) this s(4)] show thesis using that s assms(1) by (simp add: wa_ok_def)
qed

lemma wa_within:
  assumes "wa_ok w hs" "h \<in> set hs" shows "within_region (wa_range w) (handle_region h)"
proof -
  obtain s where "handle_ok w s h"
    "unat (real_base h) = unat (m_base w) + unat (a_offset (m_allocation h)) * 2 ^ unit_bits w"
    "unat (real_base h) + unat (allocationSize (m_allocation h) s) * 2 ^ unit_bits w \<le> unat (m_base w) + unat (m_capacity w)"
    using wa_ok_handle [OF assms] by blast
  then show ?thesis by (simp add: within_region_def wa_range_def handle_region_def handle_ok_def)
qed

lemma wa_disjoint:
  assumes ok: "wa_ok w (xs @ h # ys)" and k: "k \<in> set xs \<union> set ys"
  shows "disjoint_regions (handle_region h) (handle_region k)"
proof -
  let ?u = "(2 :: nat) ^ unit_bits w"
  obtain s where s: "m_allocator w = Some s" "oa_ok s (map m_allocation (xs @ h # ys))" "handle_ok w s h"
    "unat (real_base h) = unat (m_base w) + unat (a_offset (m_allocation h)) * ?u" using wa_ok_handle [OF ok, of h] by auto
  obtain t where t: "m_allocator w = Some t" "handle_ok w t k"
    "unat (real_base k) = unat (m_base w) + unat (a_offset (m_allocation k)) * ?u"
    using wa_ok_handle [OF ok, of k] k by auto
  have "t = s" using s t by simp
  have "disjoint_regions (oa_region s (m_allocation h)) (oa_region s (m_allocation k))"
    by (rule oa.ok_disjoint [OF s(2) [unfolded oa_ok_map_split]]) (use k in auto)
  from disjoint_regions_scale [OF this [unfolded oa_region_def], of "unat (m_base w)" ?u]
  show ?thesis using s(3,4) t(2,3) \<open>t = s\<close> unfolding handle_region_def
    by (auto simp: handle_ok_def elim: disjoint_regions_sub)
qed

lemma handle_ok_stable:
  assumes "handle_ok w s h" "oa_region s' (m_allocation h) = oa_region s (m_allocation h)"
    "m_base w' = m_base w" "m_multiplier_bits w' = m_multiplier_bits w"
  shows "handle_ok w' s' h"
  using assms by (simp add: handle_ok_def oa_region_def)

text \<open>The three ways \<open>allocate\<close> can go.\<close>

lemma OffsetAllocator_allocate_cases:
  assumes w: "m_allocator w = Some s" and a: "OffsetAllocator_allocate sz w = (w', r)"
  obtains (refused) "w' = w" "r = None" "sz = 0 \<or> fake_size w sz > MAX_BIN_SIZE"
  | (full) s' where "oa_alloc (ucast (fake_size w sz)) s = (s', None)" "w' = w\<lparr>m_allocator := Some s'\<rparr>" "r = None"
      "sz \<noteq> 0" "fake_size w sz \<le> MAX_BIN_SIZE"
  | (granted) s' a where "oa_alloc (ucast (fake_size w sz)) s = (s', Some a)" "sz \<noteq> 0" "fake_size w sz \<le> MAX_BIN_SIZE"
      "w' = w\<lparr>m_allocator := Some s', m_allocated_size := m_allocated_size w + sz, m_allocated_num := m_allocated_num w + 1\<rparr>"
      "r = Some \<lparr>m_owner = True, m_allocation = a, real_base = m_base w + push_bit (unit_bits w) (getOffset a), requested_size = sz\<rparr>"
proof -
  obtain s' b where b: "allocate (ucast (fake_size w sz)) s = (s', b)" by (cases "allocate (ucast (fake_size w sz)) s")
  consider "sz = 0 \<or> fake_size w sz > MAX_BIN_SIZE" | "sz \<noteq> 0" "fake_size w sz \<le> MAX_BIN_SIZE" "isNoSpace b"
    | "sz \<noteq> 0" "fake_size w sz \<le> MAX_BIN_SIZE" "\<not> isNoSpace b" by force
  then show thesis
  proof cases
    case 1
    then show ?thesis using refused a w by (auto simp: OffsetAllocator_allocate_def split: if_splits)
  next
    case 2
    then show ?thesis using full [of s'] a w b by (auto simp: OffsetAllocator_allocate_def oa_alloc_def Let_def split: if_splits)
  next
    case 3
    then show ?thesis using granted [of s' b] a w b by (auto simp: OffsetAllocator_allocate_def oa_alloc_def Let_def split: if_splits)
  qed
qed

lemma oa_alloc_granted:
  assumes ok: "oa_ok s hs" and n: "0 < n" and a: "oa_alloc n s = (s', Some b)"
  shows "allocationSize b s' = word_of_nat (bin_size (bin_up (unat n)))" "unat (allocationSize b s') = bin_size (bin_up (unat n))"
proof -
  have inv: "oa_inv s" using ok by (simp add: oa_ok_def)
  have e: "s' = fst (allocate n s)" "b = snd (allocate n s)" "\<not> isNoSpace b"
    using a by (auto simp: oa_alloc_def split: prod.splits if_splits)
  then have f: "fits s n" using fits_iff_space [OF inv n] by simp
  have "oa_ok s' (b # hs)" using oa.al_ok [OF ok n a] by simp
  from oa_ok_region [OF this, of b] fits_allocate(3) [OF inv f]
  show u: "unat (allocationSize b s') = bin_size (bin_up (unat n))" by (simp add: e oa_region_def)
  show "allocationSize b s' = word_of_nat (bin_size (bin_up (unat n)))" by (simp flip: u)
qed

lemma fake_size_bounds:
  assumes "wa_valid w sz" "unit_bits w \<le> 33" "sz \<noteq> 0" "fake_size w sz \<le> MAX_BIN_SIZE"
  shows "0 < (ucast (fake_size w sz) :: u32)" "unat sz \<le> unat (ucast (fake_size w sz) :: u32) * 2 ^ unit_bits w"
    "unat (ucast (fake_size w sz) :: u32) = unat (fake_size w sz)"
proof -
  have f: "unat (fake_size w sz) = (unat sz + 2 ^ unit_bits w - 1) div 2 ^ unit_bits w"
    using unat_fake_size assms(1,2) by (simp add: wa_valid_def)
  have "unat (fake_size w sz) < 2 ^ 32" using assms(4) by (simp add: word_le_nat_alt MAX_BIN_SIZE_def)
  then show u: "unat (ucast (fake_size w sz) :: u32) = unat (fake_size w sz)"
    by (simp add: unsigned_ucast_eq take_bit_nat_eq_self)
  show c: "unat sz \<le> unat (ucast (fake_size w sz) :: u32) * 2 ^ unit_bits w"
    unfolding u f by (rule ceiling_div_le) simp
  have "0 < unat sz" using assms(3) by (simp add: unat_gt_0)
  then show "0 < (ucast (fake_size w sz) :: u32)" using c by (auto simp: word_less_nat_alt intro: gr0I)
qed

lemma wa_alloc_ok:
  assumes ok: "wa_ok w hs" and v: "wa_valid w sz" and a: "OffsetAllocator_allocate sz w = (w', r)"
  shows "wa_ok w' (case r of None \<Rightarrow> hs | Some h \<Rightarrow> h # hs)"
proof -
  obtain s where s: "m_allocator w = Some s" "oa_ok s (map m_allocation hs)" "\<forall>h \<in> set hs. handle_ok w s h"
    "unat (m_size s) = unat (m_capacity w) div 2 ^ unit_bits w" and k: "unit_bits w \<le> 33"
    using ok by (auto simp: wa_ok_def)
  let ?n = "ucast (fake_size w sz) :: u32"
  from s(1) a show ?thesis
  proof (cases rule: OffsetAllocator_allocate_cases)
    case refused
    then show ?thesis using ok by simp
  next
    case (full s')
    note n = fake_size_bounds [OF v k full(4,5)]
    have "\<forall>h \<in> set hs. handle_ok w' s' h"
      using s(3) oa.al_stable [OF s(2) n(1) full(1)] full(2) by (auto intro: handle_ok_stable)
    then show ?thesis using ok full oa.al_ok [OF s(2) n(1) full(1)] oa.al_range [OF s(2) full(1)] s(4) by (simp add: wa_ok_def)
  next
    case (granted s' b)
    note n = fake_size_bounds [OF v k granted(2,3)]
    have "\<forall>h \<in> set hs. handle_ok w' s' h"
      using s(3) oa.al_stable [OF s(2) n(1) granted(1)] granted(4) by (auto intro: handle_ok_stable)
    moreover have "unat sz \<le> unat (allocationSize b s') * 2 ^ unit_bits w"
      using oa_alloc_granted(2) [OF s(2) n(1) granted(1)] n(2) bin_size_bin_up [of "unat ?n"]
      by (simp add: le_trans mult_le_mono1)
    then have "handle_ok w' s' (the r)"
      using granted by (simp add: handle_ok_def word_greater_zero_iff)
    ultimately show ?thesis
      using ok granted oa.al_ok [OF s(2) n(1) granted(1)] oa.al_range [OF s(2) granted(1)] s(4) by (auto simp: wa_ok_def algebra_simps)
  qed
qed

lemma wa_alloc_range:
  assumes "OffsetAllocator_allocate sz w = (w', r)" shows "wa_range w' = wa_range w \<and> wa_valid w' = wa_valid w"
  using assms by (auto simp: OffsetAllocator_allocate_def Let_def wa_range_def wa_valid_def fun_eq_iff split: if_splits option.splits prod.splits)

lemma wa_rel_ok:
  assumes ok: "wa_ok w (xs @ h # ys)" shows "wa_ok (freeAllocation (m_allocation h) (requested_size h) w) (xs @ ys)"
proof -
  obtain s where s: "m_allocator w = Some s" "oa_ok s (map m_allocation (xs @ h # ys))" "\<forall>h \<in> set (xs @ h # ys). handle_ok w s h"
    "unat (m_size s) = unat (m_capacity w) div 2 ^ unit_bits w" using ok by (auto simp: wa_ok_def)
  note s2 = s(2) [unfolded oa_ok_map_split]
  define w' where "w' = freeAllocation (m_allocation h) (requested_size h) w"
  have w': "w' = w\<lparr>m_allocator := Some (free (m_allocation h) s), m_allocated_size := m_allocated_size w - requested_size h,
      m_allocated_num := m_allocated_num w - 1\<rparr>" by (simp add: w'_def freeAllocation_def s(1))
  have "handle_ok w' (free (m_allocation h) s) k" if k: "k \<in> set (xs @ ys)" for k
  proof (rule handle_ok_stable [of w s])
    show "handle_ok w s k" using s(3) k by auto
    show "oa_region (free (m_allocation h) s) (m_allocation k) = oa_region s (m_allocation k)"
      by (rule oa.rel_stable [OF s2]) (use k in auto)
  qed (simp_all add: w')
  then show ?thesis using ok oa.rel_ok [OF s2] oa.rel_range [OF s2] s(4) unfolding w'_def [symmetric]
    by (auto simp: wa_ok_def w')
qed

definition wa_release :: "OffsetAllocationHandle \<Rightarrow> OffsetAllocator \<Rightarrow> OffsetAllocator" where
  "wa_release h w = the (handle_destroy h (Some w))"

lemma wa_release_owner: "m_owner h \<Longrightarrow> wa_release h w = freeAllocation (m_allocation h) (requested_size h) w"
  by (simp add: wa_release_def handle_destroy_def)

interpretation wa: handle_allocator wa_ok wa_valid OffsetAllocator_allocate wa_release "\<lambda>_. handle_region" wa_range
proof
  fix w xs h ys assume ok: "wa_ok w (xs @ h # ys)"
  then have o: "m_owner h" by (auto simp: wa_ok_def handle_ok_def)
  show "wa_ok (wa_release h w) (xs @ ys)" using wa_rel_ok [OF ok] by (simp add: wa_release_owner [OF o])
  show "wa_range (wa_release h w) = wa_range w \<and> wa_valid (wa_release h w) = wa_valid w"
    by (simp add: wa_release_owner [OF o] freeAllocation_def wa_range_def wa_valid_def fun_eq_iff split: option.splits)
qed (use wa_alloc_ok wa_alloc_range wa_disjoint wa_within in auto)

lemma wa_new_ok:
  assumes "0 < init" and "unat base + unat sz \<le> 2 ^ 64" shows "wa_ok (OffsetAllocator_new base sz init mx) []"
proof -
  let ?s = "Allocator_new (ucast (drop_bit (unat (calculateMultiplier sz)) sz)) init mx"
  have "oa_ok ?s []" using Allocator_new_wf [OF assms(1)] by (auto simp: oa_ok_def oa_inv_def)
  moreover have "unat (m_size ?s) = unat sz div 2 ^ unat (calculateMultiplier sz)"
    using new_size Allocator_new_wf(3) [OF assms(1)] by simp
  ultimately show ?thesis using assms(2) calculateMultiplier_from_le [of sz]
    by (simp add: wa_ok_def OffsetAllocator_new_def Let_def unat_calculateMultiplier)
qed

lemma wa_ok_small_valid:
  assumes "wa_ok w hs" and "unat n \<le> 2 ^ 63" shows "wa_valid w n"
proof -
  have "unit_bits w \<le> 33" using assms(1) by (simp add: wa_ok_def)
  from power_increasing [OF this, of "2 :: nat"] show ?thesis using assms(2) by (simp add: wa_valid_def)
qed

section \<open>Properties\<close>

text \<open>
  C13: A client of a new \<open>OffsetAllocator\<close> over the addresses \<open>[base, base + size)\<close> may
  allocate and destroy handles in any order: the address ranges
  \<open>[address(), address() + size())\<close> of the handles it holds never overlap and stay within
  the allocator's range, although the allocator below counts in larger units.
  (A request must not be so close to \<open>2 ^ 64\<close> that rounding it up to a unit wraps.)
\<close>

theorem OffsetAllocator_client_safe:
  assumes "0 < init" and "unat base + unat sz \<le> 2 ^ 64"
    and "\<And>n. Acquire n \<in> set ops \<Longrightarrow> unat n \<le> 2 ^ 63"
    and "client_run OffsetAllocator_allocate wa_release ops (OffsetAllocator_new base sz init mx, []) = (w, hs)"
  shows "pairwise_disjoint handle_region hs \<and> (\<forall>h \<in> set hs. within_region (unat base, unat sz) (handle_region h))"
proof -
  let ?w = "OffsetAllocator_new base sz init mx"
  have v: "\<And>n. Acquire n \<in> set ops \<Longrightarrow> wa_valid ?w n"
    using wa_ok_small_valid [OF wa_new_ok [OF assms(1,2)]] assms(3) by blast
  have "wa_range ?w = (unat base, unat sz)" by (simp add: wa_range_def OffsetAllocator_new_def Let_def)
  with wa.run_safe [OF wa_new_ok [OF assms(1,2)] v assms(4)] show ?thesis by simp
qed

theorem OffsetAllocator_client_safe_witness:
  "\<exists>w hs. client_run OffsetAllocator_allocate wa_release [Acquire 5000, Acquire 70, Release 0]
       (OffsetAllocator_new 0x100000000 0x400000000 1024 4096, []) = (w, hs)
     \<and> pairwise_disjoint handle_region hs
     \<and> (\<forall>h \<in> set hs. within_region (unat (0x100000000 :: u64), unat (0x400000000 :: u64)) (handle_region h))"
proof -
  let ?ops = "[Acquire 5000, Acquire 70, Release 0] :: u64 client_op list"
  obtain w hs where r: "client_run OffsetAllocator_allocate wa_release ?ops
      (OffsetAllocator_new 0x100000000 0x400000000 1024 4096, []) = (w, hs)"
    by (cases "client_run OffsetAllocator_allocate wa_release ?ops (OffsetAllocator_new 0x100000000 0x400000000 1024 4096, [])")
  have "pairwise_disjoint handle_region hs
     \<and> (\<forall>h \<in> set hs. within_region (unat (0x100000000 :: u64), unat (0x400000000 :: u64)) (handle_region h))"
    by (rule OffsetAllocator_client_safe [OF _ _ _ r]) auto
  then show ?thesis using r by blast
qed



text \<open>
  C34: An allocation that is refused leaves what is held unchanged, and a request of 0 bytes is
  always refused; a request that is granted returns a handle for exactly the size requested.
\<close>

theorem OffsetAllocator_allocate_result:
  assumes "wa_ok w hs" and "wa_valid w sz" and "OffsetAllocator_allocate sz w = (w', r)"
  shows "(sz = 0 \<longrightarrow> r = None) \<and> (case r of None \<Rightarrow> wa_ok w' hs | Some h \<Rightarrow> wa_ok w' (h # hs) \<and> requested_size h = sz)"
proof -
  obtain s where s: "m_allocator w = Some s" using assms(1) by (auto simp: wa_ok_def)
  from s assms(3) have "sz = 0 \<longrightarrow> r = None" "\<And>h. r = Some h \<Longrightarrow> requested_size h = sz"
    by (cases rule: OffsetAllocator_allocate_cases; auto)+
  then show ?thesis using wa.al_ok [OF assms] by (auto split: option.splits)
qed

theorem OffsetAllocator_allocate_result_witness:
  "snd (OffsetAllocator_allocate 0 (OffsetAllocator_new 4096 1024 4 8)) = None"
proof -
  let ?w = "OffsetAllocator_new 4096 1024 4 8"
  have ok: "wa_ok ?w []" by (rule wa_new_ok) simp_all
  have v: "wa_valid ?w 0" by (rule wa_ok_small_valid [OF ok]) simp
  obtain w' r where a: "OffsetAllocator_allocate 0 ?w = (w', r)" by (cases "OffsetAllocator_allocate 0 ?w")
  from OffsetAllocator_allocate_result [OF ok v a] show ?thesis by (simp add: a)
qed

lemma calculateMultiplier_example: "calculateMultiplier 0x400000000 = 3"
  by code_simp

text \<open>
  C38: Rounding the request up to a unit is done in 64 bits and wraps for a size just below
  \<open>2 ^ 64\<close>: on an allocator over 16 GB (whose unit is 8 bytes) a request of \<open>2 ^ 64 - 1\<close>
  bytes is granted, with a handle that claims \<open>2 ^ 64 - 1\<close> bytes from an empty block.
\<close>

theorem fake_size_wraps:
  "\<exists>w h s. OffsetAllocator_allocate 0xffffffffffffffff (OffsetAllocator_new 0 0x400000000 2 4) = (w, Some h)
     \<and> requested_size h = 0xffffffffffffffff \<and> m_allocator w = Some s \<and> allocationSize (m_allocation h) s = 0"
proof -
  let ?w = "OffsetAllocator_new 0 0x400000000 2 4"
  define s where "s = Allocator_new (ucast (drop_bit (unat (calculateMultiplier 0x400000000)) (0x400000000 :: u64))) 2 4"
  have k: "m_multiplier_bits ?w = 3" "m_allocator ?w = Some s"
    by (simp_all add: OffsetAllocator_new_def Let_def s_def calculateMultiplier_example)
  have f: "fake_size ?w 0xffffffffffffffff = 0" by (simp add: fake_size_def k)
  have i: "oa_inv s" unfolding s_def by (rule oa_inv_new) simp
  have fits: "fits s 0" unfolding s_def by (rule new_fits) simp_all
  note a = fits_allocate [OF i fits]
  obtain s' b where sb: "allocate 0 s = (s', b)" by (cases "allocate 0 s")
  have live: "oa_live s' (a_metadata b) = Some (unat (a_offset b), 0)"
    using a(3) sb by (simp add: bin_up_def bin_size_def)
  have "m_size s = 2147483648"
    unfolding s_def by (subst Allocator_new_wf(3)) (simp_all add: calculateMultiplier_example)
  moreover have "m_size s' = m_size s" using allocate_size [of 0 s] by (simp only: sb fst_conv)
  ultimately have ms: "unat (m_size s') = 2147483648" by simp
  have inv': "oa_inv s'" using a(1) sb by simp
  then obtain L where L: "oa_wf s' L" by (auto simp: oa_inv_def)
  have "a_offset b \<noteq> NO_SPACE"
    using oa_inv_bound [OF inv' live] ms by (auto simp: NO_SPACE_def)
  then have ns: "\<not> isNoSpace b" by (simp add: isNoSpace_def)
  have "allocationSize b s' = 0"
    using oa_wf_region [OF L live] by (simp add: allocationSize_def node_region_def word_unat_eq_iff)
  then show ?thesis using sb ns k f by (simp add: OffsetAllocator_allocate_def Let_def)
qed

end
