(* ===== verification/Slab_Core.thy ===== *)
theory Slab_Core
  imports Allocator_Interface
begin

text \<open>
  The slab allocator of \<open>cachelib_memory_allocator/\<close>: \<open>SlabAllocator\<close> cuts a range of memory
  into slabs of 16 MB, \<open>AllocationClass\<close> carves a slab into chunks of one size, \<open>MemoryPool\<close>
  chooses the class for a request and gives it slabs, \<open>MemoryPoolManager\<close> and
  \<open>MemoryAllocator\<close> find the pool of a request or of a piece of memory. A pointer is its
  64-bit address, \<open>nullptr\<close> the value \<open>None\<close>; a slab is the address it starts at. An exception
  that is thrown is the left summand of a result. Every operation holds its lock over all it
  reads and writes, so it is one step.
\<close>

section \<open>Slabs\<close>

datatype exn = invalid_argument | runtime_error | logic_error

definition kNumSlabBits :: nat where "kNumSlabBits = 24"

definition Slab_kSize :: u64 where "Slab_kSize = push_bit kNumSlabBits 1"

definition kMinAllocSize :: u32 where "kMinAllocSize = 64"

definition kInvalidClassId :: int where "kInvalidClassId = - 1"

definition kInvalidPoolId :: int where "kInvalidPoolId = - 1"

definition memoryAtOffset :: "u64 \<Rightarrow> u64 \<Rightarrow> u64" where
  "memoryAtOffset slab offset = slab + offset"

record SlabHeader =
  h_poolId :: int
  h_classId :: int
  h_flags :: u8
  h_allocSize :: u32

definition SlabHeader_new :: "int \<Rightarrow> SlabHeader" where
  "SlabHeader_new pid = \<lparr>h_poolId = pid, h_classId = kInvalidClassId, h_flags = 0, h_allocSize = 0\<rparr>"

definition resetAllocInfo :: "SlabHeader \<Rightarrow> SlabHeader" where
  "resetAllocInfo h = h\<lparr>h_poolId := kInvalidPoolId, h_classId := kInvalidClassId, h_allocSize := 0\<rparr>"

definition isMarkedForRelease :: "SlabHeader \<Rightarrow> bool" where
  "isMarkedForRelease h \<longleftrightarrow> bit (h_flags h) 0"

definition setMarkedForRelease :: "bool \<Rightarrow> SlabHeader \<Rightarrow> SlabHeader" where
  "setMarkedForRelease v h = h\<lparr>h_flags := (if v then set_bit 0 (h_flags h) else unset_bit 0 (h_flags h))\<rparr>"

section \<open>SlabAllocator\<close>

record SlabAllocator =
  memoryPoolSize :: "int \<Rightarrow> u64"
  sa_freeSlabs :: "u64 list"
  headerMemory :: "u32 \<Rightarrow> SlabHeader"
  slabMemoryStart :: u64
  slabMemorySize :: u64
  nextSlabAllocation :: u64
  sa_canAllocate :: bool

definition kAddressMask :: u64 where "kAddressMask = - 1 - push_bit kNumSlabBits 1 + 1"

definition getSlabForMemory :: "u64 \<Rightarrow> u64" where
  "getSlabForMemory memory = memory AND kAddressMask"

definition isValidSlab :: "SlabAllocator \<Rightarrow> u64 \<Rightarrow> bool" where
  "isValidSlab sa slab \<longleftrightarrow> slabMemoryStart sa \<le> slab \<and> slab < nextSlabAllocation sa \<and> getSlabForMemory slab = slab"

definition slabIdx :: "SlabAllocator \<Rightarrow> u64 \<Rightarrow> u32" where
  "slabIdx sa slab = ucast (drop_bit kNumSlabBits (slab - slabMemoryStart sa))"

definition slabHeader :: "SlabAllocator \<Rightarrow> u64 \<Rightarrow> SlabHeader option" where
  "slabHeader sa slab = (if isValidSlab sa slab then Some (headerMemory sa (slabIdx sa slab)) else None)"

definition getSlabHeader :: "SlabAllocator \<Rightarrow> u64 \<Rightarrow> SlabHeader option" where
  "getSlabHeader sa memory = slabHeader sa (getSlabForMemory memory)"

definition isMemoryInSlab :: "SlabAllocator \<Rightarrow> u64 \<Rightarrow> u64 \<Rightarrow> bool" where
  "isMemoryInSlab sa ptr slab \<longleftrightarrow> isValidSlab sa slab \<and> getSlabForMemory ptr = slab"

text \<open>A store through the pointer \<open>getSlabHeader(slab)\<close> of a valid slab.\<close>

definition update_header :: "u64 \<Rightarrow> (SlabHeader \<Rightarrow> SlabHeader) \<Rightarrow> SlabAllocator \<Rightarrow> SlabAllocator" where
  "update_header slab f sa =
     sa\<lparr>headerMemory := (headerMemory sa)(slabIdx sa slab := f (headerMemory sa (slabIdx sa slab)))\<rparr>"

definition getSlabMemoryEnd :: "SlabAllocator \<Rightarrow> u64" where
  "getSlabMemoryEnd sa = slabMemoryStart sa + slabMemorySize sa"

definition getNumUsableSlabs :: "SlabAllocator \<Rightarrow> u32" where
  "getNumUsableSlabs sa = ucast (drop_bit kNumSlabBits (getSlabMemoryEnd sa - slabMemoryStart sa))"

definition allMemorySlabbed :: "SlabAllocator \<Rightarrow> bool" where
  "allMemorySlabbed sa \<longleftrightarrow> nextSlabAllocation sa = getSlabMemoryEnd sa"

definition allSlabsAllocated_sa :: "SlabAllocator \<Rightarrow> bool" where
  "allSlabsAllocated_sa sa \<longleftrightarrow> allMemorySlabbed sa \<and> sa_freeSlabs sa = []"

definition numSlabs :: "u64 \<Rightarrow> u32" where
  "numSlabs memorySize = ucast (drop_bit kNumSlabBits memorySize)"

text \<open>The packed struct \<open>SlabHeader\<close> has three one-byte members and a four-byte one.\<close>

definition sizeof_SlabHeader :: u64 where "sizeof_SlabHeader = 7"

definition SlabAllocator_new ::
  "u64 option \<Rightarrow> (u32 \<Rightarrow> SlabHeader) \<Rightarrow> u64 \<Rightarrow> u64 \<Rightarrow> u64 \<Rightarrow> exn + SlabAllocator" where
  "SlabAllocator_new headerMemoryStart header headerMemorySize start sz =
     (if headerMemoryStart = None \<or> headerMemorySize \<le> sizeof_SlabHeader * ucast (numSlabs sz) then Inl invalid_argument
      else if start = 0 \<or> start mod Slab_kSize \<noteq> 0 then Inl invalid_argument
      else if sz mod Slab_kSize \<noteq> 0 then Inl invalid_argument
      else Inr \<lparr>memoryPoolSize = (\<lambda>_. 0), sa_freeSlabs = [], headerMemory = header, slabMemoryStart = start,
                slabMemorySize = sz, nextSlabAllocation = start, sa_canAllocate = True\<rparr>)"

definition makeNewSlabImpl :: "SlabAllocator \<Rightarrow> SlabAllocator \<times> u64 option" where
  "makeNewSlabImpl sa =
     (if \<not> sa_canAllocate sa then (sa, None)
      else if sa_freeSlabs sa \<noteq> [] then
        (sa\<lparr>sa_freeSlabs := butlast (sa_freeSlabs sa)\<rparr>, Some (last (sa_freeSlabs sa)))
      else if allMemorySlabbed sa then (sa\<lparr>sa_canAllocate := False\<rparr>, None)
      else (sa\<lparr>nextSlabAllocation := nextSlabAllocation sa + Slab_kSize\<rparr>, Some (nextSlabAllocation sa)))"

definition initializeHeader :: "u64 \<Rightarrow> int \<Rightarrow> SlabAllocator \<Rightarrow> SlabAllocator" where
  "initializeHeader slab pid = update_header slab (\<lambda>_. SlabHeader_new pid)"

definition makeNewSlab :: "int \<Rightarrow> SlabAllocator \<Rightarrow> SlabAllocator \<times> u64 option" where
  "makeNewSlab pid sa =
     (case makeNewSlabImpl sa of
        (sa, None) \<Rightarrow> (sa, None)
      | (sa, Some slab) \<Rightarrow>
          (initializeHeader slab pid (sa\<lparr>memoryPoolSize := (memoryPoolSize sa)(pid := memoryPoolSize sa pid + Slab_kSize)\<rparr>),
           Some slab))"

definition freeSlab :: "u64 \<Rightarrow> SlabAllocator \<Rightarrow> exn + SlabAllocator" where
  "freeSlab slab sa =
     (case slabHeader sa slab of
        None \<Rightarrow> Inl runtime_error
      | Some header \<Rightarrow>
          Inr (update_header slab resetAllocInfo
            (sa\<lparr>memoryPoolSize := (memoryPoolSize sa)(h_poolId header := memoryPoolSize sa (h_poolId header) - Slab_kSize),
                sa_freeSlabs := sa_freeSlabs sa @ [slab], sa_canAllocate := True\<rparr>)))"

section \<open>AllocationClass\<close>

record AllocationClass =
  ac_classId :: int
  ac_poolId :: int
  allocationSize :: u32
  currOffset :: u32
  currSlab :: "u64 option"
  allocatedSlabs :: "u64 list"
  ac_freeSlabs :: "u64 list"
  freedAllocations :: "u64 list"
  ac_canAllocate :: bool
  activeReleases :: int
  slabReleaseAllocMap :: "u64 \<rightharpoonup> bool list"

definition AllocationClass_new :: "int \<Rightarrow> int \<Rightarrow> u32 \<Rightarrow> exn + AllocationClass" where
  "AllocationClass_new cid pid asize =
     (if cid < 0 then Inl invalid_argument
      else if Slab_kSize < ucast asize then Inl invalid_argument
      else Inr \<lparr>ac_classId = cid, ac_poolId = pid, allocationSize = asize, currOffset = 0, currSlab = None,
                allocatedSlabs = [], ac_freeSlabs = [], freedAllocations = [], ac_canAllocate = True,
                activeReleases = 0, slabReleaseAllocMap = Map.empty\<rparr>)"

definition addSlabLocked :: "u64 \<Rightarrow> SlabAllocator \<Rightarrow> AllocationClass \<Rightarrow> SlabAllocator \<times> AllocationClass" where
  "addSlabLocked slab sa ac =
     (update_header slab (\<lambda>h. h\<lparr>h_classId := ac_classId ac, h_allocSize := allocationSize ac\<rparr>) sa,
      ac\<lparr>ac_canAllocate := True, ac_freeSlabs := ac_freeSlabs ac @ [slab]\<rparr>)"

definition canAllocateFromCurrentSlabLocked :: "AllocationClass \<Rightarrow> bool" where
  "canAllocateFromCurrentSlabLocked ac \<longleftrightarrow>
     currSlab ac \<noteq> None \<and> ucast (currOffset ac + allocationSize ac) \<le> Slab_kSize"

definition allocateFromCurrentSlabLocked :: "AllocationClass \<Rightarrow> AllocationClass \<times> u64" where
  "allocateFromCurrentSlabLocked ac =
     (ac\<lparr>currOffset := currOffset ac + allocationSize ac\<rparr>, memoryAtOffset (the (currSlab ac)) (ucast (currOffset ac)))"

definition setupCurrentSlabLocked :: "AllocationClass \<Rightarrow> AllocationClass" where
  "setupCurrentSlabLocked ac =
     (let slab = last (ac_freeSlabs ac)
      in ac\<lparr>ac_freeSlabs := butlast (ac_freeSlabs ac), currSlab := Some slab, currOffset := 0,
            allocatedSlabs := allocatedSlabs ac @ [slab]\<rparr>)"

definition allocateLocked :: "AllocationClass \<Rightarrow> AllocationClass \<times> u64 option" where
  "allocateLocked ac =
     (if freedAllocations ac = [] \<and> ac_freeSlabs ac = [] \<and> \<not> canAllocateFromCurrentSlabLocked ac
      then (ac\<lparr>ac_canAllocate := False\<rparr>, None)
      else case freedAllocations ac of
        ret # rest \<Rightarrow> (ac\<lparr>freedAllocations := rest\<rparr>, Some ret)
      | [] \<Rightarrow>
          if canAllocateFromCurrentSlabLocked ac
          then apsnd Some (allocateFromCurrentSlabLocked ac)
          else apsnd Some (allocateFromCurrentSlabLocked (setupCurrentSlabLocked ac)))"

definition AllocationClass_allocate :: "AllocationClass \<Rightarrow> AllocationClass \<times> u64 option" where
  "AllocationClass_allocate ac = (if \<not> ac_canAllocate ac then (ac, None) else allocateLocked ac)"

definition addSlabAndAllocate ::
  "u64 \<Rightarrow> SlabAllocator \<Rightarrow> AllocationClass \<Rightarrow> SlabAllocator \<times> AllocationClass \<times> u64 option" where
  "addSlabAndAllocate slab sa ac = (case addSlabLocked slab sa ac of (sa, ac) \<Rightarrow> (sa, allocateLocked ac))"

definition getAllocIdx :: "AllocationClass \<Rightarrow> u64 \<Rightarrow> u64 \<Rightarrow> nat" where
  "getAllocIdx ac slab alloc = unat ((alloc - memoryAtOffset slab 0) div ucast (allocationSize ac))"

definition AllocationClass_free :: "u64 \<Rightarrow> SlabAllocator \<Rightarrow> AllocationClass \<Rightarrow> exn + AllocationClass" where
  "AllocationClass_free memory sa ac =
     (let slab = getSlabForMemory memory
      in case getSlabHeader sa memory of
        None \<Rightarrow> Inl invalid_argument
      | Some header \<Rightarrow>
          if h_classId header \<noteq> ac_classId ac then Inl invalid_argument
          else if isMarkedForRelease header then
            (case slabReleaseAllocMap ac slab of
               None \<Rightarrow> Inl runtime_error
             | Some allocState \<Rightarrow>
                 if allocState ! getAllocIdx ac slab memory then Inl invalid_argument
                 else Inr (ac\<lparr>slabReleaseAllocMap :=
                   (slabReleaseAllocMap ac)(slab \<mapsto> allocState[getAllocIdx ac slab memory := True])\<rparr>))
          else Inr (ac\<lparr>freedAllocations := memory # freedAllocations ac, ac_canAllocate := True\<rparr>))"

end
