(* ===== verification/Store_Types.thy ===== *)
theory Store_Types
  imports Store_Prelude
begin

text \<open>
  The types of \<open>types.h\<close> and \<open>types.cpp\<close> that the master service works with: error codes, segments,
  identifiers and the constants of the configuration.
\<close>

section \<open>Error codes\<close>

datatype ErrorCode =
    OK | INTERNAL_ERROR | BUFFER_OVERFLOW | SHARD_INDEX_OUT_OF_RANGE | SEGMENT_NOT_FOUND
    | SEGMENT_ALREADY_EXISTS | NO_AVAILABLE_HANDLE | INVALID_VERSION | INVALID_KEY | WRITE_FAIL
    | INVALID_PARAMS | INVALID_WRITE | INVALID_READ | INVALID_REPLICA | REPLICA_IS_NOT_READY
    | OBJECT_NOT_FOUND | OBJECT_ALREADY_EXISTS | OBJECT_HAS_LEASE | LEASE_EXPIRED | TRANSFER_FAIL | RPC_FAIL
    | ETCD_OPERATION_ERROR | ETCD_KEY_NOT_EXIST | ETCD_TRANSACTION_FAIL | ETCD_CTX_CANCELLED
    | UNAVAILABLE_IN_CURRENT_STATUS | UNAVAILABLE_IN_CURRENT_MODE | FILE_NOT_FOUND | FILE_OPEN_FAIL
    | FILE_READ_FAIL | FILE_WRITE_FAIL | FILE_INVALID_BUFFER | FILE_LOCK_FAIL | FILE_INVALID_HANDLE
    | BUCKET_NOT_FOUND | BUCKET_ALREADY_EXISTS | KEYS_ULTRA_BUCKET_LIMIT | UNABLE_OFFLOAD

fun toInt :: "ErrorCode \<Rightarrow> int" where
  "toInt OK = 0"
| "toInt INTERNAL_ERROR = - 1"
| "toInt BUFFER_OVERFLOW = - 10"
| "toInt SHARD_INDEX_OUT_OF_RANGE = - 100"
| "toInt SEGMENT_NOT_FOUND = - 101"
| "toInt SEGMENT_ALREADY_EXISTS = - 102"
| "toInt NO_AVAILABLE_HANDLE = - 200"
| "toInt INVALID_VERSION = - 300"
| "toInt INVALID_KEY = - 400"
| "toInt WRITE_FAIL = - 500"
| "toInt INVALID_PARAMS = - 600"
| "toInt INVALID_WRITE = - 700"
| "toInt INVALID_READ = - 701"
| "toInt INVALID_REPLICA = - 702"
| "toInt REPLICA_IS_NOT_READY = - 703"
| "toInt OBJECT_NOT_FOUND = - 704"
| "toInt OBJECT_ALREADY_EXISTS = - 705"
| "toInt OBJECT_HAS_LEASE = - 706"
| "toInt LEASE_EXPIRED = - 707"
| "toInt TRANSFER_FAIL = - 800"
| "toInt RPC_FAIL = - 900"
| "toInt ETCD_OPERATION_ERROR = - 1000"
| "toInt ETCD_KEY_NOT_EXIST = - 1001"
| "toInt ETCD_TRANSACTION_FAIL = - 1002"
| "toInt ETCD_CTX_CANCELLED = - 1003"
| "toInt UNAVAILABLE_IN_CURRENT_STATUS = - 1010"
| "toInt UNAVAILABLE_IN_CURRENT_MODE = - 1011"
| "toInt FILE_NOT_FOUND = - 1100"
| "toInt FILE_OPEN_FAIL = - 1101"
| "toInt FILE_READ_FAIL = - 1102"
| "toInt FILE_WRITE_FAIL = - 1103"
| "toInt FILE_INVALID_BUFFER = - 1104"
| "toInt FILE_LOCK_FAIL = - 1105"
| "toInt FILE_INVALID_HANDLE = - 1106"
| "toInt BUCKET_NOT_FOUND = - 1200"
| "toInt BUCKET_ALREADY_EXISTS = - 1201"
| "toInt KEYS_ULTRA_BUCKET_LIMIT = - 1202"
| "toInt UNABLE_OFFLOAD = - 1300"

text \<open>All enumerators, in the order of the declaration.\<close>

definition all_codes :: "ErrorCode list" where
  "all_codes = [OK, INTERNAL_ERROR, BUFFER_OVERFLOW, SHARD_INDEX_OUT_OF_RANGE, SEGMENT_NOT_FOUND, SEGMENT_ALREADY_EXISTS
     , NO_AVAILABLE_HANDLE, INVALID_VERSION, INVALID_KEY, WRITE_FAIL, INVALID_PARAMS, INVALID_WRITE
     , INVALID_READ, INVALID_REPLICA, REPLICA_IS_NOT_READY, OBJECT_NOT_FOUND, OBJECT_ALREADY_EXISTS
     , OBJECT_HAS_LEASE, LEASE_EXPIRED, TRANSFER_FAIL, RPC_FAIL, ETCD_OPERATION_ERROR, ETCD_KEY_NOT_EXIST
     , ETCD_TRANSACTION_FAIL, ETCD_CTX_CANCELLED, UNAVAILABLE_IN_CURRENT_STATUS, UNAVAILABLE_IN_CURRENT_MODE
     , FILE_NOT_FOUND, FILE_OPEN_FAIL, FILE_READ_FAIL, FILE_WRITE_FAIL, FILE_INVALID_BUFFER, FILE_LOCK_FAIL
     , FILE_INVALID_HANDLE, BUCKET_NOT_FOUND, BUCKET_ALREADY_EXISTS, KEYS_ULTRA_BUCKET_LIMIT, UNABLE_OFFLOAD]"

text \<open>The cast of an integer that is no enumerator is a value without a name.\<close>

definition fromInt :: "int \<Rightarrow> ErrorCode option" where
  "fromInt errorCode = List.find (\<lambda>e. toInt e = errorCode) all_codes"

definition errorCodeMap :: "(ErrorCode \<times> string) list" where
  "errorCodeMap =
    [(OK, ''OK''), (INTERNAL_ERROR, ''INTERNAL_ERROR''), (BUFFER_OVERFLOW, ''BUFFER_OVERFLOW'')
     , (SHARD_INDEX_OUT_OF_RANGE, ''SHARD_INDEX_OUT_OF_RANGE''), (SEGMENT_NOT_FOUND, ''SEGMENT_NOT_FOUND'')
     , (SEGMENT_ALREADY_EXISTS, ''SEGMENT_ALREADY_EXISTS''), (NO_AVAILABLE_HANDLE, ''NO_AVAILABLE_HANDLE'')
     , (INVALID_VERSION, ''INVALID_VERSION''), (INVALID_KEY, ''INVALID_KEY''), (WRITE_FAIL, ''WRITE_FAIL'')
     , (INVALID_PARAMS, ''INVALID_PARAMS''), (INVALID_WRITE, ''INVALID_WRITE'')
     , (INVALID_READ, ''INVALID_READ''), (INVALID_REPLICA, ''INVALID_REPLICA'')
     , (REPLICA_IS_NOT_READY, ''REPLICA_IS_NOT_READY''), (OBJECT_NOT_FOUND, ''OBJECT_NOT_FOUND'')
     , (OBJECT_ALREADY_EXISTS, ''OBJECT_ALREADY_EXISTS''), (OBJECT_HAS_LEASE, ''OBJECT_HAS_LEASE'')
     , (LEASE_EXPIRED, ''LEASE_EXPIRED''), (TRANSFER_FAIL, ''TRANSFER_FAIL''), (RPC_FAIL, ''RPC_FAIL'')
     , (ETCD_OPERATION_ERROR, ''ETCD_OPERATION_ERROR''), (ETCD_KEY_NOT_EXIST, ''ETCD_KEY_NOT_EXIST'')
     , (ETCD_TRANSACTION_FAIL, ''ETCD_TRANSACTION_FAIL''), (ETCD_CTX_CANCELLED, ''ETCD_CTX_CANCELLED'')
     , (UNAVAILABLE_IN_CURRENT_STATUS, ''UNAVAILABLE_IN_CURRENT_STATUS'')
     , (UNAVAILABLE_IN_CURRENT_MODE, ''UNAVAILABLE_IN_CURRENT_MODE''), (FILE_NOT_FOUND, ''FILE_NOT_FOUND'')
     , (FILE_OPEN_FAIL, ''FILE_OPEN_FAIL''), (FILE_READ_FAIL, ''FILE_READ_FAIL'')
     , (FILE_WRITE_FAIL, ''FILE_WRITE_FAIL''), (FILE_INVALID_BUFFER, ''FILE_INVALID_BUFFER'')
     , (FILE_LOCK_FAIL, ''FILE_LOCK_FAIL''), (FILE_INVALID_HANDLE, ''FILE_INVALID_HANDLE'')]"

definition toString :: "ErrorCode \<Rightarrow> string" where
  "toString errorCode = (case map_of errorCodeMap errorCode of Some s \<Rightarrow> s | None \<Rightarrow> ''UNKNOWN_ERROR'')"

section \<open>Segments, clients and allocators\<close>

type_synonym UUID = "u64 \<times> u64"
type_synonym ObjectKey = string

record Segment =
  seg_id :: UUID
  seg_name :: string
  seg_base :: u64
  seg_size :: u64
  te_endpoint :: string

datatype ClientStatus = Client_UNDEFINED | Client_OK | NEED_REMOUNT

datatype BufferAllocatorType = CACHELIB | OFFSET

definition kMinSliceSize :: u64 where "kMinSliceSize = 64"

definition kMaxSliceSize :: u64 where "kMaxSliceSize = push_bit 24 1 - 16"

section \<open>Properties\<close>



end
