(* ===== verification/Serializer.thy ===== *)
theory Serializer
  imports Slab_Core Store_Types
begin

text \<open>
  The serialisation framework of \<open>serializer.h\<close>: a class is written field by field, first into
  \<open>SerializeSizeCounter\<close>, which adds up the sizes, then into \<open>SerializeWriter\<close>, which fills a
  buffer of that size, and it is read back by \<open>SerializerReader\<close>. A field is written as the image of
  its memory, a list of bytes (the machine is little-endian). A method template \<open>serialize_to\<close> is
  the list of the calls it makes on the serializer, so that it can run on either of them. The
  sizes are far below \<open>2 ^ 64\<close> and are natural numbers; the messages of the errors are left out.
\<close>

section \<open>Images of numbers in memory\<close>

definition le_bytes :: "nat \<Rightarrow> 'a::len word \<Rightarrow> u8 list" where
  "le_bytes n w = map (\<lambda>k. ucast (drop_bit (8 * k) w)) [0..<n]"

fun le_word :: "u8 list \<Rightarrow> 'a::len word" where
  "le_word [] = 0"
| "le_word (b # bs) = ucast b OR push_bit 8 (le_word bs)"

lemma length_le_bytes [simp]: "length (le_bytes n w) = n"
  by (simp add: le_bytes_def)

lemma bit_le_word:
  "bit (le_word bs :: 'a::len word) k \<longleftrightarrow> k < LENGTH('a) \<and> k < 8 * length bs \<and> bit (bs ! (k div 8)) (k mod 8)"
proof (induction bs arbitrary: k)
  case (Cons b bs)
  show ?case
  proof (cases "k < 8")
    case True
    then show ?thesis by (auto simp: bit_simps)
  next
    case False
    then have "k = (k - 8) + 8" by simp
    then obtain j where j: "k = j + 8" by blast
    moreover have "(j + 8) div 8 - Suc 0 = j div 8" by simp
    ultimately show ?thesis by (auto simp: bit_simps Cons.IH dest: bit_imp_le_length)
  qed
qed simp

lemma le_word_le_bytes: "LENGTH('a) \<le> 8 * n \<Longrightarrow> le_word (le_bytes n (w :: 'a::len word)) = w"
  by (rule bit_eqI) (auto simp: bit_le_word le_bytes_def bit_simps div_mult_mod_eq)

lemma le_word_le_bytes_u32 [simp]: "le_word (le_bytes 4 (w :: u32)) = w"
  by (rule le_word_le_bytes) simp

lemma le_word_le_bytes_u64 [simp]: "le_word (le_bytes 8 (w :: u64)) = w"
  by (rule le_word_le_bytes) simp

text \<open>An array is the images of its elements one after the other.\<close>

definition array_bytes :: "nat \<Rightarrow> (nat \<Rightarrow> u8 list) \<Rightarrow> u8 list" where
  "array_bytes n f = concat (map f [0..<n])"

definition array_elem :: "nat \<Rightarrow> nat \<Rightarrow> u8 list \<Rightarrow> u8 list" where
  "array_elem width k bs = take width (drop (width * k) bs)"

lemma length_array_bytes: "(\<And>k. k < n \<Longrightarrow> length (f k) = width) \<Longrightarrow> length (array_bytes n f) = width * n"
  by (induction n) (simp_all add: array_bytes_def)

lemma array_elem_array_bytes:
  assumes "\<And>k. k < n \<Longrightarrow> length (f k) = width" "k < n"
  shows "array_elem width k (array_bytes n f) = f k"
proof -
  have "[0..<n] = [0..<k] @ k # [Suc k..<n]" using upt_add_eq_append [of 0 k "n - k"] upt_conv_Cons [OF assms(2)] assms(2) by simp
  then have "array_bytes n f = array_bytes k f @ f k @ concat (map f [Suc k..<n])" by (simp add: array_bytes_def)
  moreover have "length (array_bytes k f) = width * k" using assms by (intro length_array_bytes) simp
  ultimately show ?thesis using assms by (simp add: array_elem_def)
qed

section \<open>Writing\<close>

text \<open>A call on the serializer: the data is \<open>None\<close> when the pointer is null.\<close>

datatype ser_call = Write "u8 list option" | Set_error

record SerializeSizeCounter =
  counter_size :: nat
  counter_error :: bool

fun counter_call :: "ser_call \<Rightarrow> SerializeSizeCounter \<Rightarrow> SerializeSizeCounter" where
  "counter_call (Write data) c =
     (if counter_error c then c
      else case data of
        None \<Rightarrow> c\<lparr>counter_error := True\<rparr>
      | Some bs \<Rightarrow> c\<lparr>counter_size := counter_size c + length bs\<rparr>)"
| "counter_call Set_error c = c\<lparr>counter_error := True\<rparr>"

record SerializeWriter =
  writer_buffer :: "u8 list"
  writer_offset :: nat
  writer_error :: bool

fun writer_call :: "ser_call \<Rightarrow> SerializeWriter \<Rightarrow> SerializeWriter" where
  "writer_call (Write data) w =
     (if writer_error w then w
      else case data of
        None \<Rightarrow> w\<lparr>writer_error := True\<rparr>
      | Some bs \<Rightarrow>
          if length bs + writer_offset w > length (writer_buffer w) then w\<lparr>writer_error := True\<rparr>
          else w\<lparr>writer_buffer := take (writer_offset w) (writer_buffer w) @ bs @ drop (writer_offset w + length bs) (writer_buffer w),
                 writer_offset := writer_offset w + length bs\<rparr>)"
| "writer_call Set_error w = w\<lparr>writer_error := True\<rparr>"

definition finish_write :: "SerializeWriter \<Rightarrow> bool" where
  "finish_write w \<longleftrightarrow> writer_offset w \<ge> length (writer_buffer w)"

text \<open>The target is \<open>None\<close> when the pointer is null; the result is the code and the buffer.\<close>

definition serialize_to :: "ser_call list option \<Rightarrow> u8 list \<Rightarrow> ErrorCode \<times> u8 list" where
  "serialize_to target buffer =
     (case target of
        None \<Rightarrow> (INVALID_PARAMS, buffer)
      | Some calls \<Rightarrow>
          let counter = fold counter_call calls \<lparr>counter_size = 0, counter_error = False\<rparr>
          in if counter_error counter then (INTERNAL_ERROR, buffer)
             else
               let writer = fold writer_call calls
                     \<lparr>writer_buffer = replicate (counter_size counter) 0, writer_offset = 0, writer_error = False\<rparr>
               in if writer_error writer then (INTERNAL_ERROR, writer_buffer writer)
                  else if \<not> finish_write writer then (INTERNAL_ERROR, writer_buffer writer)
                  else (OK, writer_buffer writer))"

text \<open>The two passes together write the images of the fields one after the other.\<close>

lemma counter_calls: "fold counter_call (map (\<lambda>bs. Write (Some bs)) bss) \<lparr>counter_size = n, counter_error = False\<rparr>
  = \<lparr>counter_size = n + length (concat bss), counter_error = False\<rparr>"
  by (induction bss arbitrary: n) (simp_all add: add.assoc)

lemma writer_calls:
  "fold writer_call (map (\<lambda>bs. Write (Some bs)) bss)
     \<lparr>writer_buffer = done_bytes @ replicate (length (concat bss)) 0, writer_offset = length done_bytes, writer_error = False\<rparr>
   = \<lparr>writer_buffer = done_bytes @ concat bss, writer_offset = length (done_bytes @ concat bss), writer_error = False\<rparr>"
proof (induction bss arbitrary: done_bytes)
  case (Cons bs bss)
  then show ?case using Cons.IH [of "done_bytes @ bs"] by (simp add: add.assoc)
qed simp

lemma serialize_to_writes: "serialize_to (Some (map (\<lambda>bs. Write (Some bs)) bss)) buffer = (OK, concat bss)"
  using writer_calls [of bss "[]"] by (simp add: serialize_to_def counter_calls finish_write_def Let_def)

lemma counter_error_stays: "counter_error c \<Longrightarrow> counter_error (fold counter_call calls c)"
proof (induction calls arbitrary: c)
  case (Cons x calls)
  then have "counter_error (counter_call x c)" by (cases x) auto
  then show ?case using Cons.IH by simp
qed simp

lemma serialize_to_error: "Set_error \<in> set calls \<Longrightarrow> serialize_to (Some calls) buffer = (INTERNAL_ERROR, buffer)"
proof -
  assume "Set_error \<in> set calls"
  then obtain xs ys where "calls = xs @ Set_error # ys" by (meson split_list)
  then have "counter_error (fold counter_call calls c)" for c by (simp add: counter_error_stays)
  then show ?thesis by (simp add: serialize_to_def Let_def)
qed

section \<open>Reading\<close>

record SerializerReader =
  reader_buffer :: "u8 list"
  reader_offset :: nat

text \<open>A reading operation throws, or returns a value and the reader.\<close>

type_synonym 'a reading = "SerializerReader \<Rightarrow> exn + 'a \<times> SerializerReader"

definition read :: "nat \<Rightarrow> u8 list reading" where
  "read data_size r =
     (if reader_offset r + data_size > length (reader_buffer r) then Inl runtime_error
      else Inr (take data_size (drop (reader_offset r) (reader_buffer r)), r\<lparr>reader_offset := reader_offset r + data_size\<rparr>))"

definition and_then :: "'a reading \<Rightarrow> ('a \<Rightarrow> 'b reading) \<Rightarrow> 'b reading" where
  "and_then m f r = (case m r of Inl e \<Rightarrow> Inl e | Inr (x, r) \<Rightarrow> f x r)"

definition return :: "'a \<Rightarrow> 'a reading" where
  "return x r = Inr (x, r)"

definition finish_read :: "SerializerReader \<Rightarrow> bool" where
  "finish_read r \<longleftrightarrow> reader_offset r = length (reader_buffer r)"

text \<open>
  What comes back: the object, a null pointer, or no defined behaviour at all (the value \<open>None\<close> that a
  reading operation returns when it writes behind an array).
\<close>

datatype 'a restored = Restored 'a | Null | Undefined

definition deserialize_from :: "'a option reading \<Rightarrow> u8 list \<Rightarrow> 'a restored" where
  "deserialize_from m buffer =
     (case m \<lparr>reader_buffer = buffer, reader_offset = 0\<rparr> of
        Inl e \<Rightarrow> Null
      | Inr (None, _) \<Rightarrow> Undefined
      | Inr (Some ret, r) \<Rightarrow> if \<not> finish_read r then Null else Restored ret)"

lemma read_front:
  "reader_buffer r = pre @ bs @ post \<Longrightarrow> reader_offset r = length pre \<Longrightarrow> length bs = n
    \<Longrightarrow> read n r = Inr (bs, r\<lparr>reader_offset := length pre + n\<rparr>)"
  by (simp add: read_def)

text \<open>
  A reading operation that looks at the buffer through \<open>read\<close> only: it never passes the end of the
  buffer, and more bytes behind the end do not change what it does when it has enough.
\<close>

definition prefix_reading :: "'a reading \<Rightarrow> bool" where
  "prefix_reading m \<longleftrightarrow> (\<forall>r x r' post. m r = Inr (x, r') \<longrightarrow> reader_offset r \<le> length (reader_buffer r)
     \<longrightarrow> reader_buffer r' = reader_buffer r \<and> reader_offset r' \<le> length (reader_buffer r)
       \<and> m (r\<lparr>reader_buffer := reader_buffer r @ post\<rparr>) = Inr (x, r'\<lparr>reader_buffer := reader_buffer r @ post\<rparr>))"

lemma prefix_readingD:
  assumes "prefix_reading m" "m r = Inr (x, r')" "reader_offset r \<le> length (reader_buffer r)"
  shows "reader_buffer r' = reader_buffer r" "reader_offset r' \<le> length (reader_buffer r)"
    "m (r\<lparr>reader_buffer := reader_buffer r @ post\<rparr>) = Inr (x, r'\<lparr>reader_buffer := reader_buffer r @ post\<rparr>)"
  using assms unfolding prefix_reading_def by blast+

lemma prefix_reading_read [intro]: "prefix_reading (read n)"
  unfolding prefix_reading_def read_def by (auto split: if_splits)

lemma prefix_reading_return [intro]: "prefix_reading (return x)"
  unfolding prefix_reading_def return_def by auto

lemma prefix_reading_and_then [intro]:
  assumes "prefix_reading m" "\<And>x. prefix_reading (f x)"
  shows "prefix_reading (and_then m f)"
  unfolding prefix_reading_def
proof (intro allI impI)
  fix r x r' post assume a: "and_then m f r = Inr (x, r')" and le: "reader_offset r \<le> length (reader_buffer r)"
  obtain y r1 where m: "m r = Inr (y, r1)" "f y r1 = Inr (x, r')" using a by (auto simp: and_then_def split: sum.splits)
  note d = prefix_readingD [OF assms(1) m(1) le]
  have "reader_offset r1 \<le> length (reader_buffer r1)" using d by simp
  note e = prefix_readingD [OF assms(2) m(2) this]
  show "reader_buffer r' = reader_buffer r \<and> reader_offset r' \<le> length (reader_buffer r)
    \<and> and_then m f (r\<lparr>reader_buffer := reader_buffer r @ post\<rparr>) = Inr (x, r'\<lparr>reader_buffer := reader_buffer r @ post\<rparr>)"
    using d(1) e(1,2) d(3) [of post] e(3) [of post] by (simp add: and_then_def)
qed

text \<open>A buffer that is cut off is never accepted.\<close>

lemma truncated_rejected:
  assumes m: "prefix_reading m" and full: "deserialize_from m (bs @ post) = Restored x" and "post \<noteq> []"
  shows "deserialize_from m bs = Null"
proof -
  let ?r = "\<lparr>reader_buffer = bs, reader_offset = 0\<rparr>"
  obtain r where r: "m (?r\<lparr>reader_buffer := bs @ post\<rparr>) = Inr (Some x, r)" "reader_offset r = length (reader_buffer r)"
    using full by (auto simp: deserialize_from_def finish_read_def split: sum.splits prod.splits option.splits if_splits)
  show ?thesis
  proof (cases "m ?r")
    case (Inr q)
    obtain y r' where q: "q = (y, r')" by (cases q)
    note d = prefix_readingD [OF m Inr [unfolded q]]
    have "reader_offset r' \<le> length bs" using d(2) by simp
    moreover have "reader_offset r' = length (bs @ post)" using d(3) [of post] r by (auto simp del: length_append)
    ultimately show ?thesis using \<open>post \<noteq> []\<close> by simp
  qed (simp add: deserialize_from_def)
qed

end
