(* ===== verification/Offset_Serial.thy ===== *)
theory Offset_Serial
  imports Serializer Offset_Allocator
begin

text \<open>
  Saving and restoring the offset allocator (\<open>offset_allocator.hpp\<close>: \<open>serialize_to\<close>,
  \<open>deserialize_from\<close> and the constructors from a serializer). A \<open>Node\<close> takes 28 bytes, of which the
  last three are padding: what they hold is an argument. The entries of the arrays above
  \<open>m_current_capacity\<close> are not saved; a restored allocator has default nodes there, and
  indeterminate entries (0 here) on the stack of unused slots. That the two arrays cannot be
  allocated is not modelled.
\<close>

section \<open>Writing\<close>

definition Node_bytes :: "u8 list \<Rightarrow> Node \<Rightarrow> u8 list" where
  "Node_bytes padding n =
     le_bytes 4 (dataOffset n) @ le_bytes 4 (dataSize n) @ le_bytes 4 (binListPrev n) @ le_bytes 4 (binListNext n)
     @ le_bytes 4 (neighborPrev n) @ le_bytes 4 (neighborNext n) @ [of_bool (used n)] @ take 3 padding @ replicate (3 - length padding) 0"

definition Allocator_fields :: "(nat \<Rightarrow> u8 list) \<Rightarrow> Allocator \<Rightarrow> u8 list list" where
  "Allocator_fields padding s =
     [le_bytes 4 (m_size s), le_bytes 4 (m_current_capacity s), le_bytes 4 (m_max_capacity s), le_bytes 4 (m_freeStorage s),
      le_bytes 4 (m_usedBinsTop s),
      array_bytes (unat NUM_TOP_BINS) (\<lambda>k. [m_usedBins s (word_of_nat k)]),
      array_bytes (unat NUM_LEAF_BINS) (\<lambda>k. le_bytes 4 (m_binIndices s (word_of_nat k))),
      le_bytes 4 (m_freeOffset s),
      array_bytes (unat (m_current_capacity s)) (\<lambda>k. Node_bytes (padding k) (m_nodes s (word_of_nat k))),
      array_bytes (unat (m_current_capacity s)) (\<lambda>k. le_bytes 4 (m_freeNodes s (word_of_nat k)))]"

definition Allocator_serialize_to :: "(nat \<Rightarrow> u8 list) \<Rightarrow> Allocator \<Rightarrow> ser_call list" where
  "Allocator_serialize_to padding s =
     (if \<not> m_nodes_set s then [Set_error] else map (\<lambda>bs. Write (Some bs)) (Allocator_fields padding s))"

definition OffsetAllocator_serialize_to :: "(nat \<Rightarrow> u8 list) \<Rightarrow> OffsetAllocator \<Rightarrow> ser_call list" where
  "OffsetAllocator_serialize_to padding w =
     (case m_allocator w of
        None \<Rightarrow> [Set_error]
      | Some s \<Rightarrow>
          map (\<lambda>bs. Write (Some bs))
            [le_bytes 8 (m_base w), le_bytes 8 (m_multiplier_bits w), le_bytes 8 (m_capacity w), le_bytes 8 (m_allocated_size w),
             le_bytes 8 (m_allocated_num w)]
          @ Allocator_serialize_to padding s)"

section \<open>Reading\<close>

definition Node_of_bytes :: "u8 list \<Rightarrow> Node" where
  "Node_of_bytes bs =
     \<lparr>dataOffset = le_word (array_elem 4 0 bs), dataSize = le_word (array_elem 4 1 bs), binListPrev = le_word (array_elem 4 2 bs),
      binListNext = le_word (array_elem 4 3 bs), neighborPrev = le_word (array_elem 4 4 bs), neighborNext = le_word (array_elem 4 5 bs),
      used = (bs ! 24 \<noteq> 0)\<rparr>"

text \<open>
  The arrays have \<open>m_max_capacity\<close> elements: copying more of them in leaves the arrays, and C++
  does not say what happens then.
\<close>

definition Allocator_deserialize :: "Allocator option reading" where
  "Allocator_deserialize =
     and_then (read 4) (\<lambda>sz. and_then (read 4) (\<lambda>cur. and_then (read 4) (\<lambda>mx. and_then (read 4) (\<lambda>storage.
     and_then (read 4) (\<lambda>top. and_then (read (unat NUM_TOP_BINS)) (\<lambda>bins. and_then (read (4 * unat NUM_LEAF_BINS)) (\<lambda>indices.
     and_then (read 4) (\<lambda>off.
       let current_capacity = le_word cur :: u32; max_capacity = le_word mx :: u32
       in and_then (read (28 * unat current_capacity)) (\<lambda>nodes.
          if max_capacity < current_capacity then return None
          else and_then (read (4 * unat current_capacity)) (\<lambda>freeNodes.
            return (Some
              \<lparr>m_size = le_word sz, m_current_capacity = current_capacity, m_max_capacity = max_capacity,
               m_freeStorage = le_word storage, m_usedBinsTop = le_word top,
               m_usedBins = (\<lambda>i. if i < NUM_TOP_BINS then bins ! unat i else 0),
               m_binIndices = (\<lambda>i. if i < NUM_LEAF_BINS then le_word (array_elem 4 (unat i) indices) else Node_unused),
               m_nodes_set = True,
               m_nodes = (\<lambda>i. if i < current_capacity then Node_of_bytes (array_elem 28 (unat i) nodes) else Node_default),
               m_freeNodes = (\<lambda>i. if i < current_capacity then le_word (array_elem 4 (unat i) freeNodes) else 0),
               m_freeOffset = le_word off\<rparr>)))))))))))"

definition OffsetAllocator_deserialize :: "OffsetAllocator option reading" where
  "OffsetAllocator_deserialize =
     and_then (read 8) (\<lambda>base. and_then (read 8) (\<lambda>bits. and_then (read 8) (\<lambda>cap. and_then (read 8) (\<lambda>alloc_size.
     and_then (read 8) (\<lambda>alloc_num. and_then Allocator_deserialize (\<lambda>a.
       return (case a of
           None \<Rightarrow> None
         | Some s \<Rightarrow> Some \<lparr>m_allocator = Some s, m_base = le_word base, m_multiplier_bits = le_word bits, m_capacity = le_word cap,
                        m_allocated_size = le_word alloc_size, m_allocated_num = le_word alloc_num\<rparr>)))))))"

section \<open>What is restored\<close>

lemma length_Node_bytes [simp]: "length (Node_bytes padding n) = 28"
  by (simp add: Node_bytes_def)

lemma Node_of_bytes_Node_bytes [simp]: "Node_of_bytes (Node_bytes padding n) = n"
  by (simp add: Node_of_bytes_def Node_bytes_def array_elem_def nth_append)

definition Allocator_restored :: "Allocator \<Rightarrow> Allocator" where
  "Allocator_restored s = s\<lparr>
     m_usedBins := (\<lambda>i. if i < NUM_TOP_BINS then m_usedBins s i else 0),
     m_binIndices := (\<lambda>i. if i < NUM_LEAF_BINS then m_binIndices s i else Node_unused),
     m_nodes := (\<lambda>i. if i < m_current_capacity s then m_nodes s i else Node_default),
     m_freeNodes := (\<lambda>i. if i < m_current_capacity s then m_freeNodes s i else 0)\<rparr>"

text \<open>A reader in the middle of a buffer.\<close>

definition reader_at :: "u8 list \<Rightarrow> u8 list \<Rightarrow> SerializerReader" where
  "reader_at done_bytes rest = \<lparr>reader_buffer = done_bytes @ rest, reader_offset = length done_bytes\<rparr>"

lemma and_then_read:
  "length bs = n \<Longrightarrow> and_then (read n) f (reader_at done_bytes (bs @ rest)) = f bs (reader_at (done_bytes @ bs) rest)"
  by (simp add: and_then_def reader_at_def read_def)

lemma and_then_Inr: "m r = Inr (x, r') \<Longrightarrow> and_then m f r = f x r'"
  by (simp add: and_then_def)

lemma and_then_assoc: "and_then (and_then m f) g = and_then m (\<lambda>x. and_then (f x) g)"
  by (simp add: and_then_def fun_eq_iff split: sum.splits)

lemma and_then_return: "and_then (return x) f = f x"
  by (simp add: and_then_def return_def fun_eq_iff)

lemma array_lengths [simp]:
  "length (array_bytes n (\<lambda>k. [f k])) = n" "length (array_bytes n (\<lambda>k. le_bytes w (g k))) = w * n"
  "length (array_bytes n (\<lambda>k. Node_bytes (padding k) (h k))) = 28 * n"
  using length_array_bytes [of n "\<lambda>k. [f k]" 1] length_array_bytes [of n "\<lambda>k. le_bytes w (g k)" w]
    length_array_bytes [of n "\<lambda>k. Node_bytes (padding k) (h k)" 28] by simp_all

lemma array_elems [simp]:
  "k < n \<Longrightarrow> array_elem w k (array_bytes n (\<lambda>k. le_bytes w (g k))) = le_bytes w (g k)"
  "k < n \<Longrightarrow> array_elem 28 k (array_bytes n (\<lambda>k. Node_bytes (padding k) (h k))) = Node_bytes (padding k) (h k)"
  by (rule array_elem_array_bytes; simp)+

lemma array_bytes_nth [simp]: "k < n \<Longrightarrow> array_bytes n (\<lambda>k. [f k]) ! k = f k"
proof -
  have "array_bytes n (\<lambda>k. [f k]) = map f [0..<n]" for n by (induction n) (simp_all add: array_bytes_def)
  then show "k < n \<Longrightarrow> array_bytes n (\<lambda>k. [f k]) ! k = f k" by simp
qed

lemma word_lt_unat: "(i :: u32) < c \<longleftrightarrow> unat i < unat c"
  by (rule word_less_nat_alt)

lemma Allocator_deserialize_fields:
  assumes "m_current_capacity s \<le> m_max_capacity s" "m_nodes_set s"
  shows "Allocator_deserialize (reader_at done_bytes (concat (Allocator_fields padding s) @ rest))
    = Inr (Some (Allocator_restored s), reader_at (done_bytes @ concat (Allocator_fields padding s)) rest)"
  using assms
  by (simp add: Allocator_deserialize_def Allocator_fields_def and_then_read Let_def return_def Allocator_restored_def
      word_lt_unat not_less [symmetric] fun_eq_iff)

lemma OffsetAllocator_roundtrip:
  assumes "m_allocator w = Some s" "m_nodes_set s" "m_current_capacity s \<le> m_max_capacity s"
  shows "\<exists>bytes. serialize_to (Some (OffsetAllocator_serialize_to padding w)) buffer = (OK, bytes)
    \<and> deserialize_from OffsetAllocator_deserialize bytes = Restored (w\<lparr>m_allocator := Some (Allocator_restored s)\<rparr>)"
proof -
  let ?h = "[le_bytes 8 (m_base w), le_bytes 8 (m_multiplier_bits w), le_bytes 8 (m_capacity w), le_bytes 8 (m_allocated_size w),
             le_bytes 8 (m_allocated_num w)]"
  let ?bytes = "concat (?h @ Allocator_fields padding s)"
  have "OffsetAllocator_serialize_to padding w = map (\<lambda>bs. Write (Some bs)) (?h @ Allocator_fields padding s)"
    using assms by (simp add: OffsetAllocator_serialize_to_def Allocator_serialize_to_def)
  then have "serialize_to (Some (OffsetAllocator_serialize_to padding w)) buffer = (OK, ?bytes)" by (simp only: serialize_to_writes)
  moreover have "\<lparr>reader_buffer = ?bytes, reader_offset = 0\<rparr> = reader_at [] (concat ?h @ concat (Allocator_fields padding s) @ [])"
    by (simp add: reader_at_def)
  then have "OffsetAllocator_deserialize \<lparr>reader_buffer = ?bytes, reader_offset = 0\<rparr>
    = Inr (Some (w\<lparr>m_allocator := Some (Allocator_restored s)\<rparr>), reader_at ?bytes [])"
    by (cases w) (simp add: OffsetAllocator_deserialize_def and_then_read return_def
        and_then_Inr [where m = Allocator_deserialize, OF Allocator_deserialize_fields [OF assms(3,2), where rest = "[]", simplified]])
  then have "deserialize_from OffsetAllocator_deserialize ?bytes = Restored (w\<lparr>m_allocator := Some (Allocator_restored s)\<rparr>)"
    by (simp add: deserialize_from_def finish_read_def reader_at_def)
  ultimately show ?thesis by blast
qed

section \<open>The restored allocator is as good as the old one\<close>

lemma bins_in_range:
  assumes "bins_ok s B fr"
  shows "(\<lambda>i. if i < NUM_TOP_BINS then m_usedBins s i else 0) = m_usedBins s"
    "(\<lambda>i. if i < NUM_LEAF_BINS then m_binIndices s i else Node_unused) = m_binIndices s"
proof -
  have top: "m_usedBins s t = 0" if "\<not> t < NUM_TOP_BINS" for t
  proof -
    have "\<not> bit (m_usedBinsTop s) (unat t)" using that bit_imp_le_length [of "m_usedBinsTop s" "unat t"]
      by (auto simp: word_less_nat_alt NUM_TOP_BINS_def)
    then show ?thesis using assms by (simp add: bins_ok_def bits_ok_def)
  qed
  then show "(\<lambda>i. if i < NUM_TOP_BINS then m_usedBins s i else 0) = m_usedBins s" by auto
  have "m_binIndices s b = Node_unused" if "\<not> b < NUM_LEAF_BINS" for b
  proof -
    have "\<not> topOf b < NUM_TOP_BINS" using that
      by (simp add: word_less_nat_alt unat_topOf NUM_TOP_BINS_def NUM_LEAF_BINS_def BINS_PER_LEAF_def)
    then have "\<not> bit (m_usedBins s (topOf b)) (unat (leafOf b))" by (simp add: top)
    then have "B b = []" using assms by (simp add: bins_ok_def bits_ok_def)
    moreover have "dlist Node_unused (\<lambda>i. binListPrev (m_nodes s i)) (\<lambda>i. binListNext (m_nodes s i)) (m_binIndices s b) (B b)"
      using assms by (simp add: bins_ok_def lists_ok_def)
    ultimately show ?thesis by simp
  qed
  then show "(\<lambda>i. if i < NUM_LEAF_BINS then m_binIndices s i else Node_unused) = m_binIndices s" by auto
qed

lemma restored_fields:
  assumes "oa_wf s L"
  shows "m_usedBins (Allocator_restored s) = m_usedBins s" "m_binIndices (Allocator_restored s) = m_binIndices s"
    "\<And>i. i \<in> set L \<Longrightarrow> m_nodes (Allocator_restored s) i = m_nodes s i"
    "\<And>i. used (m_nodes (Allocator_restored s) i) \<longleftrightarrow> used (m_nodes s i)"
    "free_list (Allocator_restored s) = free_list s"
proof -
  from assms obtain B where B: "bins_ok s B (free_nodes s L)" and sl: "slots_ok s (set L)"
    and u: "\<And>i. used (m_nodes s i) \<Longrightarrow> i \<in> set L" by (auto simp: oa_wf_def)
  show "m_usedBins (Allocator_restored s) = m_usedBins s" "m_binIndices (Allocator_restored s) = m_binIndices s"
    using bins_in_range [OF B] by (simp_all add: Allocator_restored_def)
  have lt: "i \<in> set L \<Longrightarrow> i < m_current_capacity s" for i using sl by (auto simp: slots_ok_def)
  then show "i \<in> set L \<Longrightarrow> m_nodes (Allocator_restored s) i = m_nodes s i" for i by (simp add: Allocator_restored_def)
  show "used (m_nodes (Allocator_restored s) i) \<longleftrightarrow> used (m_nodes s i)" for i
    using lt u by (auto simp: Allocator_restored_def Node_default_def)
  have "m_freeNodes (Allocator_restored s) (word_of_nat k) = m_freeNodes s (word_of_nat k)" if "k < unat (m_current_capacity s)" for k
    using that u32_lt_of_unat [of "m_current_capacity s"]
    by (simp add: Allocator_restored_def word_less_nat_alt unsigned_of_nat take_bit_nat_eq_self)
  then show "free_list (Allocator_restored s) = free_list s" by (simp add: free_list_def Allocator_restored_def)
qed

lemma restored_wf:
  assumes wf: "oa_wf s L"
  shows "oa_wf (Allocator_restored s) L"
proof -
  let ?t = "Allocator_restored s"
  note f = restored_fields [OF wf]
  from wf obtain B where B: "bins_ok s B (free_nodes s L)" by (auto simp: oa_wf_def)
  have fr: "free_nodes ?t L = free_nodes s L" using f(4) by (simp add: free_nodes_def)
  have cls: "node_class ?t i = node_class s i" if "i \<in> free_nodes s L" for i
    using that f(3) by (simp add: node_class_def free_nodes_def)
  have "dlist Node_unused (\<lambda>i. binListPrev (m_nodes ?t i)) (\<lambda>i. binListNext (m_nodes ?t i)) (m_binIndices ?t b) (B b)
    \<and> distinct (B b) \<and> set (B b) = {i \<in> free_nodes s L. node_class ?t i = b}" for b
  proof -
    have b: "dlist Node_unused (\<lambda>i. binListPrev (m_nodes s i)) (\<lambda>i. binListNext (m_nodes s i)) (m_binIndices s b) (B b)"
      "distinct (B b)" "set (B b) = {i \<in> free_nodes s L. node_class s i = b}"
      using B by (simp_all add: bins_ok_def lists_ok_def)
    have "i \<in> set L" if "i \<in> set (B b)" for i using that b(3) by (auto simp: free_nodes_def)
    then have "dlist Node_unused (\<lambda>i. binListPrev (m_nodes ?t i)) (\<lambda>i. binListNext (m_nodes ?t i)) (m_binIndices s b) (B b)"
      by (intro dlist_transfer [OF b(1)]) (simp_all add: f(3))
    then show ?thesis using b(2,3) cls by (auto simp: f(2))
  qed
  then have "lists_ok ?t B (free_nodes ?t L)" by (simp add: lists_ok_def fr)
  moreover have "m_usedBinsTop ?t = m_usedBinsTop s" by (simp add: Allocator_restored_def)
  then have "bits_ok ?t B" using B by (simp add: bins_ok_def bits_ok_def f(1))
  ultimately have "bins_ok ?t B (free_nodes ?t L)" by (simp add: bins_ok_def)
  moreover have "addr_ok (m_nodes ?t) L (unat (m_size s))"
  proof (rule addr_ok_core [of "m_nodes s"])
    show "addr_ok (m_nodes s) L (unat (m_size s))" using wf by (simp add: oa_wf_def)
  qed (simp add: f(3))
  moreover have "m_current_capacity ?t = m_current_capacity s" "m_max_capacity ?t = m_max_capacity s" "m_freeOffset ?t = m_freeOffset s"
    by (simp_all add: Allocator_restored_def)
  then have "slots_ok ?t (set L)" using wf by (simp add: oa_wf_def slots_ok_def f(5))
  moreover have "free_sum (m_nodes ?t) L = free_sum (m_nodes s) L" by (rule free_sum_cong) (simp add: f(3))
  moreover have "m_size ?t = m_size s" "m_freeStorage ?t = m_freeStorage s" "m_nodes_set ?t = m_nodes_set s"
    by (simp_all add: Allocator_restored_def)
  ultimately show ?thesis using wf f(4) unfolding oa_wf_def by metis
qed

lemma restored_live:
  assumes "oa_wf s L"
  shows "oa_live (Allocator_restored s) = oa_live s"
proof
  fix i
  show "oa_live (Allocator_restored s) i = oa_live s i"
    using restored_fields(3,4) [OF assms, of i] assms by (auto simp: oa_live_def oa_wf_def)
qed

lemma restored_ok:
  assumes ok: "oa_ok s hs"
  shows "oa_ok (Allocator_restored s) hs" "\<And>h. h \<in> set hs \<Longrightarrow> allocationSize h (Allocator_restored s) = allocationSize h s"
    "storageReport (Allocator_restored s) = storageReport s"
proof -
  obtain L where L: "oa_wf s L" using ok by (auto simp: oa_ok_def oa_inv_def)
  have "oa_inv (Allocator_restored s)" using restored_wf [OF L] by (auto simp: oa_inv_def)
  then show r: "oa_ok (Allocator_restored s) hs" using ok by (simp add: oa_ok_def restored_live [OF L])
  show "storageReport (Allocator_restored s) = storageReport s"
    using restored_fields(1,2) [OF L] by (simp add: storageReport_def Let_def) (simp add: Allocator_restored_def)
  fix h assume h: "h \<in> set hs"
  have "oa_region (Allocator_restored s) h = oa_region s h"
    by (rule oa_region_eqI [OF ok h r h]) (simp add: restored_live [OF L])
  then show "allocationSize h (Allocator_restored s) = allocationSize h s" by (simp add: oa_region_def word_unat_eq_iff)
qed

lemma OffsetAllocator_prefix_reading: "prefix_reading OffsetAllocator_deserialize"
  unfolding OffsetAllocator_deserialize_def Allocator_deserialize_def Let_def
  by (intro prefix_reading_and_then prefix_reading_read prefix_reading_return allI) (auto split: if_splits)

section \<open>Properties\<close>

text \<open>
  C15: Serialising an allocator succeeds, and reading the bytes back gives an allocator that is
  consistent with the same handles, manages the same range of addresses and reports the same
  metrics: every handle can still be used and freed. A buffer that has lost bytes at its end is
  always refused.
\<close>

theorem serialize_roundtrip:
  assumes ok: "wa_ok w hs"
  shows "\<exists>bytes w'. serialize_to (Some (OffsetAllocator_serialize_to padding w)) buffer = (OK, bytes)
    \<and> deserialize_from OffsetAllocator_deserialize bytes = Restored w'
    \<and> wa_ok w' hs \<and> wa_range w' = wa_range w \<and> get_metrics w' = get_metrics w
    \<and> (\<forall>bs post. bytes = bs @ post \<longrightarrow> post \<noteq> [] \<longrightarrow> deserialize_from OffsetAllocator_deserialize bs = Null)"
proof -
  obtain s where s: "m_allocator w = Some s" "oa_ok s (map m_allocation hs)" "\<forall>h \<in> set hs. handle_ok w s h"
    "unat (m_size s) = unat (m_capacity w) div 2 ^ unit_bits w"
    using ok by (auto simp: wa_ok_def)
  obtain L where L: "oa_wf s L" using s(2) by (auto simp: oa_ok_def oa_inv_def)
  then have "m_nodes_set s" "m_current_capacity s \<le> m_max_capacity s" by (auto simp: oa_wf_def slots_ok_def)
  from OffsetAllocator_roundtrip [OF s(1) this] obtain bytes where
    b: "serialize_to (Some (OffsetAllocator_serialize_to padding w)) buffer = (OK, bytes)"
      "deserialize_from OffsetAllocator_deserialize bytes = Restored (w\<lparr>m_allocator := Some (Allocator_restored s)\<rparr>)" by blast
  let ?w = "w\<lparr>m_allocator := Some (Allocator_restored s)\<rparr>"
  note r = restored_ok [OF s(2)]
  have "m_size (Allocator_restored s) = m_size s" by (simp add: Allocator_restored_def)
  then have "wa_ok ?w hs" using ok s r(1,2) by (auto simp: wa_ok_def handle_ok_def)
  moreover have "wa_range ?w = wa_range w" "get_metrics ?w = get_metrics w"
    using s(1) r(3) by (simp_all add: wa_range_def get_metrics_def Let_def)
  moreover have "deserialize_from OffsetAllocator_deserialize bs = Null" if "bytes = bs @ post" "post \<noteq> []" for bs post
    using truncated_rejected [OF OffsetAllocator_prefix_reading _ that(2)] b(2) that(1) by blast
  ultimately show ?thesis using b by blast
qed

theorem serialize_roundtrip_witness:
  "\<exists>bytes w'. serialize_to (Some (OffsetAllocator_serialize_to (\<lambda>_. []) (OffsetAllocator_new 4096 1024 4 8))) [] = (OK, bytes)
    \<and> deserialize_from OffsetAllocator_deserialize bytes = Restored w' \<and> wa_ok w' [] \<and> wa_range w' = (4096, 1024)"
proof -
  have "wa_ok (OffsetAllocator_new 4096 1024 4 8) []" by (rule wa_new_ok) simp_all
  moreover have "wa_range (OffsetAllocator_new 4096 1024 4 8) = (4096, 1024)" by (simp add: wa_range_def OffsetAllocator_new_def Let_def)
  ultimately show ?thesis using serialize_roundtrip [of "OffsetAllocator_new 4096 1024 4 8" "[]" "\<lambda>_. []" "[]"] by metis
qed

text \<open>A buffer with a current capacity above the maximum.\<close>

definition bad_fields :: "u8 list list" where
  "bad_fields = [le_bytes 8 (0 :: u64), le_bytes 8 (0 :: u64), le_bytes 8 (0 :: u64), le_bytes 8 (0 :: u64), le_bytes 8 (0 :: u64),
     le_bytes 4 (0 :: u32), le_bytes 4 (1 :: u32), le_bytes 4 (0 :: u32), le_bytes 4 (0 :: u32), le_bytes 4 (0 :: u32),
     replicate 32 0, replicate 1024 0, le_bytes 4 (0 :: u32), replicate 28 0]"


end
