(* ===== verification/Eviction_Strategy.thy ===== *)
theory Eviction_Strategy
  imports Store_Types
begin

text \<open>
  The eviction strategies of \<open>eviction_strategy.h\<close>. The list of keys is a list of nodes, each with an
  identity; an iterator is the identity of a node, so that erasing through an iterator takes out
  this node whatever key it holds. Keys are added at the front and evicted at the back.
\<close>

section \<open>State and operations\<close>

record EvictionStrategy =
  all_key_list :: "(nat \<times> string) list"
  all_key_idx_map :: "string \<rightharpoonup> nat"
  next_node :: nat

definition EvictionStrategy_new :: EvictionStrategy where
  "EvictionStrategy_new = \<lparr>all_key_list = [], all_key_idx_map = Map.empty, next_node = 0\<rparr>"

definition list_erase :: "nat \<Rightarrow> EvictionStrategy \<Rightarrow> EvictionStrategy" where
  "list_erase it s = s\<lparr>all_key_list := filter (\<lambda>(i, _). i \<noteq> it) (all_key_list s)\<rparr>"

definition list_push_front :: "string \<Rightarrow> EvictionStrategy \<Rightarrow> EvictionStrategy" where
  "list_push_front key s = s\<lparr>all_key_list := (next_node s, key) # all_key_list s, next_node := next_node s + 1\<rparr>"

definition map_erase :: "string \<Rightarrow> EvictionStrategy \<Rightarrow> EvictionStrategy" where
  "map_erase key s = s\<lparr>all_key_idx_map := (all_key_idx_map s)(key := None)\<rparr>"

definition map_set :: "string \<Rightarrow> nat \<Rightarrow> EvictionStrategy \<Rightarrow> EvictionStrategy" where
  "map_set key it s = s\<lparr>all_key_idx_map := (all_key_idx_map s)(key \<mapsto> it)\<rparr>"

definition RemoveKey :: "string \<Rightarrow> EvictionStrategy \<Rightarrow> EvictionStrategy \<times> ErrorCode" where
  "RemoveKey key s =
     (case all_key_idx_map s key of
        Some it \<Rightarrow> (map_erase key (list_erase it s), OK)
      | None \<Rightarrow> (s, OK))"

definition GetSize :: "EvictionStrategy \<Rightarrow> nat" where
  "GetSize s = length (all_key_list s)"

definition CleanUp :: "EvictionStrategy \<Rightarrow> EvictionStrategy" where
  "CleanUp s = s\<lparr>all_key_list := [], all_key_idx_map := Map.empty\<rparr>"

definition LRU_AddKey :: "string \<Rightarrow> EvictionStrategy \<Rightarrow> EvictionStrategy \<times> ErrorCode" where
  "LRU_AddKey key s =
     (let s = (case all_key_idx_map s key of Some it \<Rightarrow> map_erase key (list_erase it s) | None \<Rightarrow> s);
          s = list_push_front key s
      in (map_set key (fst (hd (all_key_list s))) s, OK))"

definition LRU_UpdateKey :: "string \<Rightarrow> EvictionStrategy \<Rightarrow> EvictionStrategy \<times> ErrorCode" where
  "LRU_UpdateKey key s =
     (case all_key_idx_map s key of
        Some it \<Rightarrow>
          let s = list_push_front key (list_erase it s)
          in (map_set key (fst (hd (all_key_list s))) s, OK)
      | None \<Rightarrow> (s, OK))"

definition LRU_EvictKey :: "EvictionStrategy \<Rightarrow> EvictionStrategy \<times> string" where
  "LRU_EvictKey s =
     (if all_key_list s = [] then (s, [])
      else
        let evicted_key = snd (last (all_key_list s))
        in (map_erase evicted_key (s\<lparr>all_key_list := butlast (all_key_list s)\<rparr>), evicted_key))"

definition FIFO_AddKey :: "string \<Rightarrow> EvictionStrategy \<Rightarrow> EvictionStrategy \<times> ErrorCode" where
  "FIFO_AddKey key s = (list_push_front key s, OK)"

definition FIFO_UpdateKey :: "string \<Rightarrow> EvictionStrategy \<Rightarrow> EvictionStrategy \<times> ErrorCode" where
  "FIFO_UpdateKey key s = (s, OK)"

definition FIFO_EvictKey :: "EvictionStrategy \<Rightarrow> EvictionStrategy \<times> string" where
  "FIFO_EvictKey s =
     (if all_key_list s = [] then (s, [])
      else (s\<lparr>all_key_list := butlast (all_key_list s)\<rparr>, snd (last (all_key_list s))))"

section \<open>The interface\<close>

definition keys_of :: "EvictionStrategy \<Rightarrow> string list" where
  "keys_of s = map snd (all_key_list s)"

text \<open>
  What the two strategies share: the key evicted is the last one of the list, and a key that is
  added comes to the front, in front of all other keys.
\<close>

locale eviction_strategy =
  fixes inv :: "'s \<Rightarrow> bool" and keys :: "'s \<Rightarrow> string list"
    and add :: "string \<Rightarrow> 's \<Rightarrow> 's \<times> ErrorCode" and evict :: "'s \<Rightarrow> 's \<times> string"
  assumes add_inv: "inv s \<Longrightarrow> inv (fst (add k s))"
    and add_front: "inv s \<Longrightarrow> \<exists>ks. keys (fst (add k s)) = k # ks \<and> filter ((\<noteq>) k) ks = filter ((\<noteq>) k) (keys s)"
    and evict_inv: "inv s \<Longrightarrow> inv (fst (evict s))"
    and evict_empty: "keys s = [] \<Longrightarrow> evict s = (s, [])"
    and evict_last: "inv s \<Longrightarrow> keys s \<noteq> [] \<Longrightarrow> snd (evict s) = last (keys s) \<and> keys (fst (evict s)) = butlast (keys s)"
begin

text \<open>Evicting until nothing is left gives the keys back from the last to the first.\<close>

fun drain :: "nat \<Rightarrow> 's \<Rightarrow> 's \<times> string list" where
  "drain 0 s = (s, [])"
| "drain (Suc n) s = (case evict s of (s, k) \<Rightarrow> case drain n s of (s, ks) \<Rightarrow> (s, k # ks))"

lemma drain_all: "inv s \<Longrightarrow> length (keys s) = n \<Longrightarrow> inv (fst (drain n s)) \<and> keys (fst (drain n s)) = [] \<and> snd (drain n s) = rev (keys s)"
proof (induction n arbitrary: s)
  case (Suc n)
  then have "keys s \<noteq> []" by auto
  then obtain ks x where ks: "keys s = ks @ [x]" by (metis rev_exhaust)
  obtain s1 k where e: "evict s = (s1, k)" by (cases "evict s")
  have "inv s1" "k = x" "keys s1 = ks" using evict_inv [OF Suc.prems(1)] evict_last [OF Suc.prems(1)] e ks by simp_all
  then show ?case using Suc.IH [of s1] Suc.prems(2) ks by (auto simp: e split: prod.splits)
qed simp

lemma added_is_kept: "inv s \<Longrightarrow> k \<in> set (keys (fst (add k s))) \<and> set (keys s) \<subseteq> set (keys (fst (add k s)))"
proof -
  assume "inv s"
  then obtain ks where ks: "keys (fst (add k s)) = k # ks" "filter ((\<noteq>) k) ks = filter ((\<noteq>) k) (keys s)" using add_front by blast
  have "x \<in> set ks" if "x \<in> set (keys s)" "x \<noteq> k" for x
  proof -
    have "x \<in> set (filter ((\<noteq>) k) (keys s))" using that by auto
    then show ?thesis by (simp flip: ks(2))
  qed
  then show ?thesis using ks(1) by auto
qed

end

section \<open>First in, first out\<close>

interpretation fifo: eviction_strategy "\<lambda>_. True" keys_of FIFO_AddKey FIFO_EvictKey
  by unfold_locales (auto simp: keys_of_def FIFO_AddKey_def FIFO_EvictKey_def list_push_front_def last_map map_butlast)

text \<open>The strategy never fills the map, so that \<open>RemoveKey\<close> finds nothing to remove.\<close>

lemma FIFO_map_empty:
  "all_key_idx_map (fst (FIFO_AddKey k s)) = all_key_idx_map s" "all_key_idx_map (fst (FIFO_UpdateKey k s)) = all_key_idx_map s"
  "all_key_idx_map (fst (FIFO_EvictKey s)) = all_key_idx_map s"
  by (simp_all add: FIFO_AddKey_def FIFO_UpdateKey_def FIFO_EvictKey_def list_push_front_def)

lemma FIFO_RemoveKey_keeps: "all_key_idx_map s = Map.empty \<Longrightarrow> RemoveKey k s = (s, OK)"
  by (simp add: RemoveKey_def)

section \<open>Least recently used\<close>

text \<open>The map holds for every key of the list the node it is in.\<close>

definition lru_inv :: "EvictionStrategy \<Rightarrow> bool" where
  "lru_inv s \<longleftrightarrow> distinct (map fst (all_key_list s)) \<and> distinct (keys_of s) \<and> (\<forall>(i, k) \<in> set (all_key_list s). i < next_node s)
     \<and> (\<forall>k i. all_key_idx_map s k = Some i \<longleftrightarrow> (i, k) \<in> set (all_key_list s))"

lemma in_keys_of: "k \<in> set (keys_of s) \<longleftrightarrow> (\<exists>i. (i, k) \<in> set (all_key_list s))"
  by (force simp: keys_of_def)

lemma lru_present: "lru_inv s \<Longrightarrow> all_key_idx_map s k = None \<longleftrightarrow> k \<notin> set (keys_of s)"
  unfolding lru_inv_def in_keys_of by (metis not_None_eq)

lemma lru_inv_new: "lru_inv EvictionStrategy_new"
  by (simp add: lru_inv_def EvictionStrategy_new_def keys_of_def)

lemma erase_node:
  assumes "distinct (map fst xs)" "(i, k) \<in> set xs" "distinct (map snd xs)"
  shows "filter (\<lambda>(j, _). j \<noteq> i) xs = filter (\<lambda>(_, l). l \<noteq> k) xs"
proof (rule filter_cong)
  fix x assume x: "x \<in> set xs"
  obtain j l where jl: "x = (j, l)" by (cases x)
  have "inj_on fst (set xs)" "inj_on snd (set xs)" using assms by (simp_all add: distinct_map)
  from inj_onD [OF this(1), of x "(i, k)"] inj_onD [OF this(2), of x "(i, k)"] x assms(2)
  show "(case x of (j, _) \<Rightarrow> j \<noteq> i) = (case x of (_, l) \<Rightarrow> l \<noteq> k)" by (auto simp: jl)
qed simp

lemma map_snd_filter: "map snd (filter (\<lambda>(_, l). l \<noteq> k) xs) = filter (\<lambda>l. l \<noteq> k) (map snd xs)"
  by (induction xs) auto

text \<open>Erasing a key with its node.\<close>

lemma lru_forget:
  assumes inv: "lru_inv s" and it: "all_key_idx_map s k = Some it"
  shows "lru_inv (map_erase k (list_erase it s))" "keys_of (map_erase k (list_erase it s)) = filter (\<lambda>l. l \<noteq> k) (keys_of s)"
    "all_key_idx_map (map_erase k (list_erase it s)) k = None"
proof -
  have d: "distinct (map fst (all_key_list s))" "distinct (map snd (all_key_list s))" "(it, k) \<in> set (all_key_list s)"
    using inv it by (auto simp: lru_inv_def keys_of_def)
  note e = erase_node [OF d(1,3,2)]
  show k: "keys_of (map_erase k (list_erase it s)) = filter (\<lambda>l. l \<noteq> k) (keys_of s)"
    by (simp add: keys_of_def map_erase_def list_erase_def e map_snd_filter)
  show "all_key_idx_map (map_erase k (list_erase it s)) k = None" by (simp add: map_erase_def)
  have "distinct (map fst (filter (\<lambda>(_, l). l \<noteq> k) (all_key_list s)))" using d(1) by (simp add: distinct_map_filter)
  then show "lru_inv (map_erase k (list_erase it s))"
    using inv k by (auto simp: lru_inv_def map_erase_def list_erase_def e keys_of_def)
qed

text \<open>Putting a key that is not there in front.\<close>

lemma lru_front:
  assumes inv: "lru_inv s" and none: "all_key_idx_map s k = None"
  shows "lru_inv (map_set k (next_node s) (list_push_front k s))" "keys_of (map_set k (next_node s) (list_push_front k s)) = k # keys_of s"
proof -
  have "k \<notin> set (keys_of s)" using lru_present [OF inv] none by simp
  then have "k \<notin> snd ` set (all_key_list s)" "\<And>i. (i, k) \<notin> set (all_key_list s)" by (simp_all add: keys_of_def, force)
  moreover have "next_node s \<notin> fst ` set (all_key_list s)" using inv by (auto simp: lru_inv_def)
  ultimately show "lru_inv (map_set k (next_node s) (list_push_front k s))"
    using inv by (auto simp: lru_inv_def map_set_def list_push_front_def keys_of_def)
  show "keys_of (map_set k (next_node s) (list_push_front k s)) = k # keys_of s"
    by (simp add: keys_of_def map_set_def list_push_front_def)
qed

lemma map_set_erase: "map_set k i (list_push_front l (map_erase k s)) = map_set k i (list_push_front l s)"
  by (simp add: map_set_def list_push_front_def map_erase_def)

lemma LRU_AddKey_ok:
  assumes "lru_inv s"
  shows "lru_inv (fst (LRU_AddKey k s))" "keys_of (fst (LRU_AddKey k s)) = k # filter (\<lambda>l. l \<noteq> k) (keys_of s)"
proof -
  define t where "t = (case all_key_idx_map s k of Some it \<Rightarrow> map_erase k (list_erase it s) | None \<Rightarrow> s)"
  have t: "lru_inv t" "all_key_idx_map t k = None" "keys_of t = filter (\<lambda>l. l \<noteq> k) (keys_of s)"
    using lru_forget [OF assms, of k] lru_present [OF assms, of k] assms
    by (auto simp: t_def split: option.split intro!: filter_True [symmetric])
  have "fst (LRU_AddKey k s) = map_set k (next_node t) (list_push_front k t)"
    by (simp add: LRU_AddKey_def Let_def t_def list_push_front_def)
  then show "lru_inv (fst (LRU_AddKey k s))" "keys_of (fst (LRU_AddKey k s)) = k # filter (\<lambda>l. l \<noteq> k) (keys_of s)"
    using lru_front [OF t(1,2)] t(3) by simp_all
qed

lemma LRU_UpdateKey_ok:
  assumes "lru_inv s"
  shows "lru_inv (fst (LRU_UpdateKey k s))"
    "keys_of (fst (LRU_UpdateKey k s)) = (if k \<in> set (keys_of s) then k # filter (\<lambda>l. l \<noteq> k) (keys_of s) else keys_of s)"
proof -
  have "fst (LRU_UpdateKey k s) = (if k \<in> set (keys_of s) then fst (LRU_AddKey k s) else s)"
  proof (cases "all_key_idx_map s k")
    case (Some it)
    let ?t = "list_erase it s"
    have "map_set k (next_node ?t) (list_push_front k ?t) = map_set k (next_node ?t) (list_push_front k (map_erase k ?t))"
      by (simp add: map_set_erase)
    then show ?thesis using Some lru_present [OF assms, of k]
      by (simp add: LRU_UpdateKey_def LRU_AddKey_def Let_def) (simp add: map_set_def list_push_front_def map_erase_def)
  qed (use lru_present [OF assms, of k] in \<open>simp add: LRU_UpdateKey_def\<close>)
  then show "lru_inv (fst (LRU_UpdateKey k s))"
    "keys_of (fst (LRU_UpdateKey k s)) = (if k \<in> set (keys_of s) then k # filter (\<lambda>l. l \<noteq> k) (keys_of s) else keys_of s)"
    using LRU_AddKey_ok [OF assms] assms by simp_all
qed

lemma RemoveKey_ok:
  assumes "lru_inv s"
  shows "lru_inv (fst (RemoveKey k s))" "keys_of (fst (RemoveKey k s)) = filter (\<lambda>l. l \<noteq> k) (keys_of s)"
  using lru_forget [OF assms, of k] lru_present [OF assms, of k] assms
  by (auto simp: RemoveKey_def split: option.split intro!: filter_True [symmetric])

lemma LRU_EvictKey_ok:
  assumes inv: "lru_inv s" and ne: "keys_of s \<noteq> []"
  shows "lru_inv (fst (LRU_EvictKey s))" "snd (LRU_EvictKey s) = last (keys_of s)" "keys_of (fst (LRU_EvictKey s)) = butlast (keys_of s)"
proof -
  have ne': "all_key_list s \<noteq> []" using ne by (simp add: keys_of_def)
  then obtain xs i k where x: "all_key_list s = xs @ [(i, k)]" by (metis append_butlast_last_id surj_pair)
  show "snd (LRU_EvictKey s) = last (keys_of s)" "keys_of (fst (LRU_EvictKey s)) = butlast (keys_of s)"
    by (simp_all add: LRU_EvictKey_def keys_of_def x Let_def map_erase_def)
  have "k \<notin> snd ` set xs" using inv by (simp add: lru_inv_def keys_of_def x)
  then have "\<And>j. (j, k) \<notin> set xs" by (metis image_eqI snd_conv)
  then show "lru_inv (fst (LRU_EvictKey s))"
    using inv by (auto simp: lru_inv_def LRU_EvictKey_def keys_of_def x Let_def map_erase_def)
qed

interpretation lru: eviction_strategy lru_inv keys_of LRU_AddKey LRU_EvictKey
proof unfold_locales
  fix s k assume "lru_inv s"
  then show "\<exists>ks. keys_of (fst (LRU_AddKey k s)) = k # ks \<and> filter ((\<noteq>) k) ks = filter ((\<noteq>) k) (keys_of s)"
    using LRU_AddKey_ok(2) [of s k] by (auto intro: filter_cong)
  show "lru_inv (fst (LRU_AddKey k s))" by (rule LRU_AddKey_ok(1) [OF \<open>lru_inv s\<close>])
  show "lru_inv (fst (LRU_EvictKey s))"
    using LRU_EvictKey_ok(1) [OF \<open>lru_inv s\<close>] \<open>lru_inv s\<close> by (cases "keys_of s = []") (auto simp: keys_of_def LRU_EvictKey_def)
  show "keys_of s \<noteq> [] \<Longrightarrow> snd (LRU_EvictKey s) = last (keys_of s) \<and> keys_of (fst (LRU_EvictKey s)) = butlast (keys_of s)"
    using LRU_EvictKey_ok(2,3) [OF \<open>lru_inv s\<close>] by simp
qed (simp add: keys_of_def LRU_EvictKey_def)

section \<open>The order of use\<close>

text \<open>A history of calls, the newest first, and when it used a key last.\<close>

datatype strategy_call = Add_key string | Update_key string | Remove_key string | Evict_key

fun lru_call :: "strategy_call \<Rightarrow> EvictionStrategy \<Rightarrow> EvictionStrategy" where
  "lru_call (Add_key k) s = fst (LRU_AddKey k s)"
| "lru_call (Update_key k) s = fst (LRU_UpdateKey k s)"
| "lru_call (Remove_key k) s = fst (RemoveKey k s)"
| "lru_call Evict_key s = fst (LRU_EvictKey s)"

fun lru_run :: "strategy_call list \<Rightarrow> EvictionStrategy" where
  "lru_run [] = EvictionStrategy_new"
| "lru_run (c # h) = lru_call c (lru_run h)"

fun last_use :: "strategy_call list \<Rightarrow> string \<Rightarrow> nat" where
  "last_use [] k = 0"
| "last_use (c # h) k = (if c = Add_key k \<or> c = Update_key k then Suc (length h) else last_use h k)"

lemma last_use_le: "last_use h k \<le> length h"
  by (induction h) auto

lemma lru_evict_keys: "lru_inv s \<Longrightarrow> lru_inv (fst (LRU_EvictKey s)) \<and> keys_of (fst (LRU_EvictKey s)) = butlast (keys_of s)"
  using LRU_EvictKey_ok(1,3) [of s] by (cases "keys_of s = []") (auto simp: keys_of_def LRU_EvictKey_def)

lemma sorted_wrt_cong: "sorted_wrt R xs \<Longrightarrow> (\<And>x y. x \<in> set xs \<Longrightarrow> y \<in> set xs \<Longrightarrow> R x y \<Longrightarrow> Q x y) \<Longrightarrow> sorted_wrt Q xs"
  by (rule sorted_wrt_mono_rel) auto

lemma lru_run_order: "lru_inv (lru_run h) \<and> sorted_wrt (\<lambda>x y. last_use h y < last_use h x) (keys_of (lru_run h))"
proof (induction h)
  case Nil
  show ?case by (simp add: lru_inv_new) (simp add: keys_of_def EvictionStrategy_new_def)
next
  case (Cons c h)
  let ?s = "lru_run h" and ?R = "\<lambda>h x y. last_use h y < last_use h x"
  have inv: "lru_inv ?s" and so: "sorted_wrt (?R h) (keys_of ?s)" using Cons.IH by simp_all
  have front: "sorted_wrt (?R (c # h)) (k # filter (\<lambda>l. l \<noteq> k) (keys_of ?s))" if "c = Add_key k \<or> c = Update_key k" for k
  proof -
    have "sorted_wrt (?R h) (filter (\<lambda>l. l \<noteq> k) (keys_of ?s))" by (rule sorted_wrt_filter [OF so])
    then have "sorted_wrt (?R (c # h)) (filter (\<lambda>l. l \<noteq> k) (keys_of ?s))" by (rule sorted_wrt_cong) (use that in auto)
    moreover have "last_use (c # h) y < last_use (c # h) k" if "y \<noteq> k" for y
      using that \<open>c = Add_key k \<or> c = Update_key k\<close> last_use_le [of h y] by auto
    ultimately show ?thesis by simp
  qed
  have kept: "sorted_wrt (?R (c # h)) xs" if "sorted_wrt (?R h) xs" "\<And>k. k \<in> set xs \<Longrightarrow> c \<noteq> Add_key k \<and> c \<noteq> Update_key k" for xs
    by (rule sorted_wrt_cong [OF that(1)]) (use that(2) in simp)
  show ?case
  proof (cases c)
    case (Add_key k)
    then show ?thesis using LRU_AddKey_ok [OF inv, of k] front [of k] by simp
  next
    case (Update_key k)
    have "sorted_wrt (?R (c # h)) (keys_of ?s)" if "k \<notin> set (keys_of ?s)" by (rule kept [OF so]) (use that Update_key in auto)
    then show ?thesis using LRU_UpdateKey_ok [OF inv, of k] front [of k] by (simp add: Update_key del: last_use.simps)
  next
    case (Remove_key k)
    then show ?thesis using RemoveKey_ok [OF inv, of k] kept [OF sorted_wrt_filter [OF so]] by simp
  next
    case Evict_key
    have "sorted_wrt (?R h) (butlast (keys_of ?s))"
      using so sorted_wrt_append [of "?R h" "butlast (keys_of ?s)" "[last (keys_of ?s)]"] by (cases "keys_of ?s = []") simp_all
    then show ?thesis using Evict_key lru_evict_keys [OF inv] kept by simp
  qed
qed

text \<open>
  C25: After any sequence of calls, \<open>EvictKey\<close> of the LRU strategy takes out a key that the strategy
  holds, and every other key it holds was added or updated more recently; on an empty strategy
  it returns the empty string and changes nothing.
\<close>

theorem LRU_evicts_oldest:
  shows "if keys_of (lru_run h) = [] then LRU_EvictKey (lru_run h) = (lru_run h, [])
    else snd (LRU_EvictKey (lru_run h)) \<in> set (keys_of (lru_run h))
      \<and> set (keys_of (fst (LRU_EvictKey (lru_run h)))) = {x \<in> set (keys_of (lru_run h)). last_use h (snd (LRU_EvictKey (lru_run h))) < last_use h x}"
proof (cases "keys_of (lru_run h) = []")
  case True
  then show ?thesis by (simp add: keys_of_def LRU_EvictKey_def)
next
  case False
  let ?s = "lru_run h"
  have inv: "lru_inv ?s" and so: "sorted_wrt (\<lambda>x y. last_use h y < last_use h x) (keys_of ?s)" using lru_run_order by auto
  obtain ks k where k: "keys_of ?s = ks @ [k]" using False by (metis rev_exhaust)
  have e: "snd (LRU_EvictKey ?s) = k" "keys_of (fst (LRU_EvictKey ?s)) = ks" using LRU_EvictKey_ok(2,3) [OF inv False] by (simp_all add: k)
  have "last_use h k < last_use h x" if "x \<in> set ks" for x using so that by (simp add: k sorted_wrt_append)
  then show ?thesis using False by (auto simp: e k)
qed

end
