(* ===== verification/Slab_Pool.thy ===== *)
theory Slab_Pool
  imports Slab_Core
begin

text \<open>
  The pools of the slab allocator: \<open>MemoryPool\<close>, \<open>MemoryPoolManager\<close> and \<open>MemoryAllocator\<close>. A
  \<open>std::set\<close> of allocation sizes is the sorted list of its elements, the array \<open>pools_\<close> with
  \<open>nextPoolId_\<close> the list of the pools created so far. The fields that the references between
  the classes reach are passed and returned.
\<close>

section \<open>MemoryPool\<close>

record MemoryPool =
  mp_id :: int
  maxSize :: u64
  currSlabAllocSize :: u64
  currAllocSize :: u64
  mp_freeSlabs :: "u64 list"
  acSizes :: "u32 list"
  mp_ac :: "AllocationClass list"
  curSlabsAdvised :: u64

fun createAllocationClasses :: "int \<Rightarrow> int \<Rightarrow> u32 list \<Rightarrow> exn + AllocationClass list" where
  "createAllocationClasses pid cid [] = Inr []"
| "createAllocationClasses pid cid (sz # sizes) =
     (if sz < kMinAllocSize \<or> Slab_kSize < ucast sz then Inl invalid_argument
      else case AllocationClass_new cid pid sz of
        Inl e \<Rightarrow> Inl e
      | Inr ac \<Rightarrow> (case createAllocationClasses pid (cid + 1) sizes of
            Inl e \<Rightarrow> Inl e
          | Inr acs \<Rightarrow> Inr (ac # acs)))"

fun is_sorted :: "u32 list \<Rightarrow> bool" where
  "is_sorted (a # b # xs) \<longleftrightarrow> a \<le> b \<and> is_sorted (b # xs)"
| "is_sorted _ \<longleftrightarrow> True"

fun adjacent_find :: "u32 list \<Rightarrow> u32 option" where
  "adjacent_find (a # b # xs) = (if a = b then Some a else adjacent_find (b # xs))"
| "adjacent_find _ = None"

definition MemoryPool_checkState :: "SlabAllocator \<Rightarrow> MemoryPool \<Rightarrow> exn option" where
  "MemoryPool_checkState sa mp =
     (if mp_id mp < 0 then Some invalid_argument
      else if currAllocSize mp > currSlabAllocSize mp then Some invalid_argument
      else if acSizes mp = [] \<or> mp_ac mp = [] then Some invalid_argument
      else if length (acSizes mp) \<noteq> length (mp_ac mp) then Some invalid_argument
      else if \<not> is_sorted (acSizes mp) then Some invalid_argument
      else if adjacent_find (acSizes mp) \<noteq> None then Some invalid_argument
      else if list_ex (\<lambda>(sz, ac). sz \<noteq> allocationSize ac \<or> sz < kMinAllocSize \<or> Slab_kSize < ucast sz)
                (zip (acSizes mp) (mp_ac mp)) then Some invalid_argument
      else if list_ex (\<lambda>slab. \<not> isValidSlab sa slab) (mp_freeSlabs mp) then Some invalid_argument
      else None)"

definition MemoryPool_new :: "int \<Rightarrow> u64 \<Rightarrow> SlabAllocator \<Rightarrow> u32 list \<Rightarrow> exn + MemoryPool" where
  "MemoryPool_new pid poolSize sa allocSizes =
     (case createAllocationClasses pid 0 allocSizes of
        Inl e \<Rightarrow> Inl e
      | Inr acs \<Rightarrow>
          let mp = \<lparr>mp_id = pid, maxSize = poolSize, currSlabAllocSize = 0, currAllocSize = 0, mp_freeSlabs = [],
                    acSizes = allocSizes, mp_ac = acs, curSlabsAdvised = 0\<rparr>
          in case MemoryPool_checkState sa mp of Some e \<Rightarrow> Inl e | None \<Rightarrow> Inr mp)"

definition getPoolAdvisedSize :: "MemoryPool \<Rightarrow> u64" where
  "getPoolAdvisedSize mp = curSlabsAdvised mp * Slab_kSize"

definition allSlabsAllocated :: "MemoryPool \<Rightarrow> bool" where
  "allSlabsAllocated mp \<longleftrightarrow> currSlabAllocSize mp + getPoolAdvisedSize mp + Slab_kSize > maxSize mp"

definition getCurrentUsedSize :: "MemoryPool \<Rightarrow> u64" where
  "getCurrentUsedSize mp = currSlabAllocSize mp + word_of_nat (length (mp_freeSlabs mp)) * Slab_kSize"

text \<open>\<open>lower_bound\<close> over the sorted sizes; the class id is the distance from the beginning.\<close>

definition getAllocationClassId :: "MemoryPool \<Rightarrow> u32 \<Rightarrow> exn + nat" where
  "getAllocationClassId mp sz =
     (if sz > last (acSizes mp) \<or> sz = 0 then Inl invalid_argument
      else Inr (length (takeWhile (\<lambda>x. x < sz) (acSizes mp))))"

definition getAllocationClassId_memory :: "SlabAllocator \<Rightarrow> MemoryPool \<Rightarrow> u64 \<Rightarrow> exn + nat" where
  "getAllocationClassId_memory sa mp memory =
     (case getSlabHeader sa memory of
        None \<Rightarrow> Inl invalid_argument
      | Some header \<Rightarrow>
          if h_poolId header \<noteq> mp_id mp then Inl invalid_argument
          else if h_classId header = kInvalidClassId then Inl invalid_argument
          else if h_classId header \<ge> int (length (mp_ac mp)) \<or> h_classId header < 0 then Inl runtime_error
          else Inr (nat (h_classId header)))"

definition getSlabLocked :: "SlabAllocator \<Rightarrow> MemoryPool \<Rightarrow> SlabAllocator \<times> MemoryPool \<times> u64 option" where
  "getSlabLocked sa mp =
     (if allSlabsAllocated mp then (sa, mp, None)
      else
        let mp = mp\<lparr>currSlabAllocSize := currSlabAllocSize mp + Slab_kSize\<rparr>
        in if mp_freeSlabs mp \<noteq> []
           then (sa, mp\<lparr>mp_freeSlabs := butlast (mp_freeSlabs mp)\<rparr>, Some (last (mp_freeSlabs mp)))
           else case makeNewSlab (mp_id mp) sa of
             (sa, None) \<Rightarrow> (sa, mp\<lparr>currSlabAllocSize := currSlabAllocSize mp - Slab_kSize\<rparr>, None)
           | (sa, Some slab) \<Rightarrow> (sa, mp, Some slab))"

abbreviation update_ac :: "nat \<Rightarrow> AllocationClass \<Rightarrow> MemoryPool \<Rightarrow> MemoryPool" where
  "update_ac cid ac mp \<equiv> mp\<lparr>mp_ac := (mp_ac mp)[cid := ac]\<rparr>"

abbreviation add_alloc_size :: "u32 \<Rightarrow> MemoryPool \<Rightarrow> MemoryPool" where
  "add_alloc_size asize mp \<equiv> mp\<lparr>currAllocSize := currAllocSize mp + ucast asize\<rparr>"

definition MemoryPool_allocate ::
  "u32 \<Rightarrow> SlabAllocator \<Rightarrow> MemoryPool \<Rightarrow> exn + SlabAllocator \<times> MemoryPool \<times> u64 option" where
  "MemoryPool_allocate sz sa mp =
     (case getAllocationClassId mp sz of
        Inl e \<Rightarrow> Inl e
      | Inr cid \<Rightarrow> Inr (
          let (ac, alloc) = AllocationClass_allocate (mp_ac mp ! cid);
              mp = update_ac cid ac mp;
              asize = allocationSize ac
          in case alloc of
            Some a \<Rightarrow> (sa, add_alloc_size asize mp, Some a)
          | None \<Rightarrow>
              if allSlabsAllocated mp then (sa, mp, None)
              else
                let (ac, alloc) = AllocationClass_allocate ac;
                    mp = update_ac cid ac mp
                in case alloc of
                  Some a \<Rightarrow> (sa, add_alloc_size asize mp, Some a)
                | None \<Rightarrow>
                    (case getSlabLocked sa mp of
                       (sa, mp, None) \<Rightarrow> (sa, mp, None)
                     | (sa, mp, Some slab) \<Rightarrow>
                         let (sa, ac, alloc) = addSlabAndAllocate slab sa ac
                         in (sa, add_alloc_size asize (update_ac cid ac mp), alloc))))"

definition MemoryPool_free :: "u64 \<Rightarrow> SlabAllocator \<Rightarrow> MemoryPool \<Rightarrow> exn + MemoryPool" where
  "MemoryPool_free alloc sa mp =
     (case getAllocationClassId_memory sa mp alloc of
        Inl e \<Rightarrow> Inl e
      | Inr cid \<Rightarrow>
          (case AllocationClass_free alloc sa (mp_ac mp ! cid) of
             Inl e \<Rightarrow> Inl e
           | Inr ac \<Rightarrow> Inr ((update_ac cid ac mp)\<lparr>currAllocSize := currAllocSize mp - ucast (allocationSize ac)\<rparr>)))"

definition MemoryPool_resize :: "u64 \<Rightarrow> MemoryPool \<Rightarrow> MemoryPool" where
  "MemoryPool_resize sz mp = mp\<lparr>maxSize := sz\<rparr>"

section \<open>MemoryPoolManager\<close>

record MemoryPoolManager =
  pools :: "MemoryPool list"
  poolsByName :: "string \<rightharpoonup> int"

definition kMaxPools :: nat where "kMaxPools = 64"

abbreviation nextPoolId :: "MemoryPoolManager \<Rightarrow> int" where
  "nextPoolId m \<equiv> int (length (pools m))"

definition getRemainingSizeLocked :: "SlabAllocator \<Rightarrow> MemoryPoolManager \<Rightarrow> u64" where
  "getRemainingSizeLocked sa m =
     ucast (getNumUsableSlabs sa) * Slab_kSize - sum_list (map maxSize (pools m))"

definition createNewPool ::
  "string \<Rightarrow> u64 \<Rightarrow> u32 list \<Rightarrow> SlabAllocator \<Rightarrow> MemoryPoolManager \<Rightarrow> exn + MemoryPoolManager \<times> int" where
  "createNewPool name poolSize allocSizes sa m =
     (if poolsByName m name \<noteq> None then Inl invalid_argument
      else if length (pools m) = kMaxPools then Inl logic_error
      else if getRemainingSizeLocked sa m < poolSize then Inl invalid_argument
      else case MemoryPool_new (nextPoolId m) poolSize sa allocSizes of
        Inl e \<Rightarrow> Inl e
      | Inr mp \<Rightarrow> Inr (\<lparr>pools = pools m @ [mp], poolsByName = (poolsByName m)(name \<mapsto> nextPoolId m)\<rparr>, nextPoolId m))"

definition getPoolById :: "MemoryPoolManager \<Rightarrow> int \<Rightarrow> exn + MemoryPool" where
  "getPoolById m i = (if i < nextPoolId m \<and> i \<ge> 0 then Inr (pools m ! nat i) else Inl invalid_argument)"

definition getPoolByName :: "MemoryPoolManager \<Rightarrow> string \<Rightarrow> exn + MemoryPool" where
  "getPoolByName m name =
     (case poolsByName m name of None \<Rightarrow> Inl invalid_argument | Some i \<Rightarrow> Inr (pools m ! nat i))"

abbreviation update_pool :: "int \<Rightarrow> MemoryPool \<Rightarrow> MemoryPoolManager \<Rightarrow> MemoryPoolManager" where
  "update_pool i mp m \<equiv> m\<lparr>pools := (pools m)[nat i := mp]\<rparr>"

definition shrinkPool :: "int \<Rightarrow> u64 \<Rightarrow> MemoryPoolManager \<Rightarrow> exn + MemoryPoolManager \<times> bool" where
  "shrinkPool pid bytes m =
     (case getPoolById m pid of
        Inl e \<Rightarrow> Inl e
      | Inr pool \<Rightarrow>
          if maxSize pool < bytes then Inr (m, False)
          else Inr (update_pool pid (MemoryPool_resize (maxSize pool - bytes) pool) m, True))"

definition growPool :: "int \<Rightarrow> u64 \<Rightarrow> SlabAllocator \<Rightarrow> MemoryPoolManager \<Rightarrow> exn + MemoryPoolManager \<times> bool" where
  "growPool pid bytes sa m =
     (case getPoolById m pid of
        Inl e \<Rightarrow> Inl e
      | Inr pool \<Rightarrow>
          if getRemainingSizeLocked sa m < bytes then Inr (m, False)
          else Inr (update_pool pid (MemoryPool_resize (maxSize pool + bytes) pool) m, True))"

definition resizePools :: "int \<Rightarrow> int \<Rightarrow> u64 \<Rightarrow> MemoryPoolManager \<Rightarrow> exn + MemoryPoolManager \<times> bool" where
  "resizePools src dest bytes m =
     (case (getPoolById m src, getPoolById m dest) of
        (Inr srcPool, Inr destPool) \<Rightarrow>
          if maxSize srcPool < bytes then Inr (m, False)
          else
            let m = update_pool src (MemoryPool_resize (maxSize srcPool - bytes) srcPool) m;
                destPool = pools m ! nat dest
            in Inr (update_pool dest (MemoryPool_resize (maxSize destPool + bytes) destPool) m, True)
      | _ \<Rightarrow> Inl invalid_argument)"

section \<open>MemoryAllocator\<close>

record MemoryAllocator =
  config_allocSizes :: "u32 list"
  slabAllocator :: SlabAllocator
  memoryPoolManager :: MemoryPoolManager

definition kMaxClasses :: nat where "kMaxClasses = 128"

definition kAlignment :: nat where "kAlignment = 8"

definition getAlignedSize :: "nat \<Rightarrow> nat \<Rightarrow> nat" where
  "getAlignedSize sz alignment = (let r = sz mod alignment in if r = 0 then sz else sz + alignment - r)"

text \<open>
  The loop of \<open>generateAllocSizes\<close> for the default factor 1.25 and no \<open>reduceFragmentation\<close>.
  The sizes stay below \<open>maxSize \<le> Slab::kSize\<close>, so 32-bit and double arithmetic are exact and
  \<open>static_cast<uint32_t>(size * 1.25)\<close> is \<open>size * 5 div 4\<close>; the sizes grow, so inserting into
  the set appends. Sizes come out in increasing order.
\<close>

lemma getAlignedSize_ge: "sz \<le> getAlignedSize sz kAlignment"
  unfolding getAlignedSize_def Let_def kAlignment_def by presburger

function allocSizes_from :: "nat \<Rightarrow> nat \<Rightarrow> u32 list \<Rightarrow> exn + u32 list" where
  "allocSizes_from maxSz sz acc =
     (if sz < maxSz \<and> 1 < unat Slab_kSize div sz then
        let acc = acc @ [word_of_nat sz];
            sz' = getAlignedSize (sz * 5 div 4) kAlignment
        in if sz' = sz then Inl invalid_argument
           else if length acc + 1 \<ge> kMaxClasses then Inr acc
           else allocSizes_from maxSz sz' acc
      else Inr acc)"
  by pat_completeness auto

termination
proof (relation "measure (\<lambda>(m, s, _). m - s)")
  fix m s s' :: nat and acc acc' :: "u32 list"
  assume "s < m \<and> 1 < unat Slab_kSize div s" and "s' = getAlignedSize (s * 5 div 4) kAlignment" and "s' \<noteq> s"
  then have "s < s'" "s < m" using getAlignedSize_ge [of "s * 5 div 4"] by auto
  then show "((m, s', acc'), (m, s, acc)) \<in> measure (\<lambda>(m, s, _). m - s)" by auto
qed simp

definition generateAllocSizes :: "nat \<Rightarrow> nat \<Rightarrow> exn + u32 list" where
  "generateAllocSizes maxSz minSize =
     (if unat Slab_kSize < maxSz then Inl invalid_argument
      else case allocSizes_from maxSz minSize [] of
        Inl e \<Rightarrow> Inl e
      | Inr sizes \<Rightarrow> Inr (sizes @ [word_of_nat (getAlignedSize maxSz kAlignment)]))"

definition MemoryAllocator_new ::
  "u32 list \<Rightarrow> u64 option \<Rightarrow> (u32 \<Rightarrow> SlabHeader) \<Rightarrow> u64 \<Rightarrow> u64 \<Rightarrow> u64 \<Rightarrow> exn + MemoryAllocator" where
  "MemoryAllocator_new sizes headerMemoryStart header headerMemorySize start sz =
     (case SlabAllocator_new headerMemoryStart header headerMemorySize start sz of
        Inl e \<Rightarrow> Inl e
      | Inr sa \<Rightarrow>
          if length sizes > kMaxClasses then Inl invalid_argument
          else Inr \<lparr>config_allocSizes = sizes, slabAllocator = sa,
                    memoryPoolManager = \<lparr>pools = [], poolsByName = Map.empty\<rparr>\<rparr>)"

definition addPool :: "string \<Rightarrow> u64 \<Rightarrow> u32 list \<Rightarrow> bool \<Rightarrow> MemoryAllocator \<Rightarrow> exn + MemoryAllocator \<times> int" where
  "addPool name sz allocSizes ensureProvisionable a =
     (let poolAllocSizes = (if allocSizes = [] then config_allocSizes a else allocSizes)
      in if length poolAllocSizes > kMaxClasses then Inl invalid_argument
         else if ensureProvisionable \<and> Slab_kSize * word_of_nat (length poolAllocSizes) > sz then Inl invalid_argument
         else case createNewPool name sz poolAllocSizes (slabAllocator a) (memoryPoolManager a) of
           Inl e \<Rightarrow> Inl e
         | Inr (m, pid) \<Rightarrow> Inr (a\<lparr>memoryPoolManager := m\<rparr>, pid))"

definition MemoryAllocator_allocate :: "int \<Rightarrow> u32 \<Rightarrow> MemoryAllocator \<Rightarrow> exn + MemoryAllocator \<times> u64 option" where
  "MemoryAllocator_allocate pid sz a =
     (case getPoolById (memoryPoolManager a) pid of
        Inl e \<Rightarrow> Inl e
      | Inr mp \<Rightarrow>
          (case MemoryPool_allocate sz (slabAllocator a) mp of
             Inl e \<Rightarrow> Inl e
           | Inr (sa, mp, alloc) \<Rightarrow>
               Inr (a\<lparr>slabAllocator := sa, memoryPoolManager := update_pool pid mp (memoryPoolManager a)\<rparr>, alloc)))"

definition MemoryAllocator_free :: "u64 \<Rightarrow> MemoryAllocator \<Rightarrow> exn + MemoryAllocator" where
  "MemoryAllocator_free memory a =
     (case getSlabHeader (slabAllocator a) memory of
        None \<Rightarrow> Inl invalid_argument
      | Some header \<Rightarrow>
          (case getPoolById (memoryPoolManager a) (h_poolId header) of
             Inl e \<Rightarrow> Inl e
           | Inr mp \<Rightarrow>
               (case MemoryPool_free memory (slabAllocator a) mp of
                  Inl e \<Rightarrow> Inl e
                | Inr mp \<Rightarrow> Inr (a\<lparr>memoryPoolManager := update_pool (h_poolId header) mp (memoryPoolManager a)\<rparr>))))"

definition getAllocInfo :: "MemoryAllocator \<Rightarrow> u64 \<Rightarrow> exn + int \<times> int \<times> u32" where
  "getAllocInfo a memory =
     (case getSlabHeader (slabAllocator a) memory of
        None \<Rightarrow> Inl invalid_argument
      | Some header \<Rightarrow> Inr (h_poolId header, h_classId header, h_allocSize header))"

end
