(* ===== verification/Slab_Contract.thy ===== *)
theory Slab_Contract
  imports Slab_Pool
begin

text \<open>
  The slab allocator keeps the memory it has handed out apart. An allocation class owns the
  slabs whose headers carry its id; a chunk of the class is a multiple of its size inside one
  of its slabs, below the offset it has carved so far; a chunk is either live or in the free
  list of the class. The invariant is stated for one pool over the whole memory, which is how
  the store uses the allocator.
\<close>

section \<open>Addresses and slabs\<close>

lemma unat_Slab_kSize [simp]: "unat Slab_kSize = 16777216"
  by (simp add: Slab_kSize_def kNumSlabBits_def)

lemma getSlabForMemory_push: "getSlabForMemory m = push_bit 24 (drop_bit 24 m)"
proof -
  have "kAddressMask = NOT (mask 24)" by (simp add: kAddressMask_def kNumSlabBits_def mask_eq_decr_exp)
  then have "getSlabForMemory m = m AND NOT (mask 24)" by (simp only: getSlabForMemory_def)
  then show ?thesis by (auto intro!: bit_eqI simp: bit_simps)
qed

lemma unat_getSlabForMemory: "unat (getSlabForMemory m) = unat m div 16777216 * 16777216"
proof -
  have "unat m div 16777216 * 16777216 \<le> unat m" by simp
  then show ?thesis unfolding getSlabForMemory_push using u64_lt_of_unat [of m]
    by (subst unat_push_bit_no_wrap) (simp_all add: unat_drop_bit_div)
qed

lemma slab_aligned_iff: "getSlabForMemory s = s \<longleftrightarrow> 16777216 dvd unat s"
proof
  assume "getSlabForMemory s = s"
  then show "16777216 dvd unat s" using unat_getSlabForMemory [of s] by (metis dvd_triv_right)
next
  assume "16777216 dvd unat s"
  then show "getSlabForMemory s = s" by (simp add: word_unat_eq_iff unat_getSlabForMemory)
qed

definition sa_ok :: "SlabAllocator \<Rightarrow> bool" where
  "sa_ok sa \<longleftrightarrow> 16777216 dvd unat (slabMemoryStart sa) \<and> 16777216 dvd unat (slabMemorySize sa)
     \<and> unat (slabMemoryStart sa) + unat (slabMemorySize sa) < 2 ^ 64 \<and> unat (slabMemorySize sa) < 2 ^ 56
     \<and> 16777216 dvd unat (nextSlabAllocation sa) \<and> slabMemoryStart sa \<le> nextSlabAllocation sa
     \<and> unat (nextSlabAllocation sa) \<le> unat (slabMemoryStart sa) + unat (slabMemorySize sa)
     \<and> sa_freeSlabs sa = [] \<and> (sa_canAllocate sa \<or> allMemorySlabbed sa)"

lemma sa_ok_valid_slab:
  assumes "sa_ok sa" "isValidSlab sa s"
  shows "16777216 dvd unat s" "unat (slabMemoryStart sa) \<le> unat s"
    "unat s + 16777216 \<le> unat (slabMemoryStart sa) + unat (slabMemorySize sa)" "unat s + 16777216 \<le> unat (nextSlabAllocation sa)"
proof -
  show d: "16777216 dvd unat s" and "unat (slabMemoryStart sa) \<le> unat s"
    using assms by (auto simp: isValidSlab_def slab_aligned_iff word_le_nat_alt)
  have "unat s < unat (nextSlabAllocation sa)" "16777216 dvd unat (nextSlabAllocation sa)"
    using assms by (auto simp: isValidSlab_def sa_ok_def word_less_nat_alt)
  with d show n: "unat s + 16777216 \<le> unat (nextSlabAllocation sa)" by (auto elim!: dvdE)
  then show "unat s + 16777216 \<le> unat (slabMemoryStart sa) + unat (slabMemorySize sa)" using assms(1) by (simp add: sa_ok_def)
qed

lemma slabIdx_unat:
  assumes "sa_ok sa" "unat (slabMemoryStart sa) \<le> unat s" "unat s \<le> unat (slabMemoryStart sa) + unat (slabMemorySize sa)"
  shows "unat (slabIdx sa s) = (unat s - unat (slabMemoryStart sa)) div 16777216"
proof -
  have "unat s - unat (slabMemoryStart sa) < 2 ^ 32 * 16777216" using assms by (auto simp: sa_ok_def)
  then have "(unat s - unat (slabMemoryStart sa)) div 16777216 < 2 ^ 32" by (rule less_mult_imp_div_less)
  then show ?thesis using assms(2)
    by (simp add: slabIdx_def unsigned_ucast_eq kNumSlabBits_def unat_drop_bit_div unat_minus_no_wrap word_le_nat_alt take_bit_nat_eq_self)
qed

lemma slabIdx_inj:
  assumes sa: "sa_ok sa" and s: "16777216 dvd unat s" "unat (slabMemoryStart sa) \<le> unat s" "unat s \<le> unat (slabMemoryStart sa) + unat (slabMemorySize sa)"
    and t: "16777216 dvd unat t" "unat (slabMemoryStart sa) \<le> unat t" "unat t \<le> unat (slabMemoryStart sa) + unat (slabMemorySize sa)"
    and "slabIdx sa s = slabIdx sa t"
  shows "s = t"
proof -
  have "(unat s - unat (slabMemoryStart sa)) div 16777216 = (unat t - unat (slabMemoryStart sa)) div 16777216"
    using assms slabIdx_unat by metis
  moreover have "16777216 dvd unat s - unat (slabMemoryStart sa)" "16777216 dvd unat t - unat (slabMemoryStart sa)"
    using s t sa by (auto simp: sa_ok_def)
  ultimately have "unat s - unat (slabMemoryStart sa) = unat t - unat (slabMemoryStart sa)"
    by (metis dvd_div_mult_self)
  then show ?thesis using s t by (simp add: word_unat_eq_iff)
qed

lemma slabHeader_update:
  assumes "sa_ok sa" "isValidSlab sa s"
  shows "slabHeader (update_header s f sa) s = map_option f (slabHeader sa s)"
    "t \<noteq> s \<Longrightarrow> slabHeader (update_header s f sa) t = slabHeader sa t"
    "isValidSlab (update_header s f sa) t = isValidSlab sa t" "sa_ok (update_header s f sa)"
proof -
  have idx: "slabIdx (update_header s f sa) = slabIdx sa" by (simp add: fun_eq_iff slabIdx_def update_header_def)
  show v: "isValidSlab (update_header s f sa) t = isValidSlab sa t" for t by (simp add: isValidSlab_def update_header_def)
  show "sa_ok (update_header s f sa)"
    using assms(1) by (simp add: sa_ok_def update_header_def allMemorySlabbed_def getSlabMemoryEnd_def)
  show "slabHeader (update_header s f sa) s = map_option f (slabHeader sa s)"
    using v [of s] by (simp add: slabHeader_def idx) (simp add: update_header_def)
  assume ne: "t \<noteq> s"
  have "slabIdx sa t \<noteq> slabIdx sa s" if "isValidSlab sa t"
    using slabIdx_inj [OF assms(1), of t s] sa_ok_valid_slab [OF assms(1)] that assms(2) ne by (metis add_leD1)
  then show "slabHeader (update_header s f sa) t = slabHeader sa t"
    using v [of t] by (simp add: slabHeader_def idx) (simp add: update_header_def)
qed

text \<open>What a step of the allocator may do to the slabs and headers: add, never change.\<close>

definition sa_extends :: "SlabAllocator \<Rightarrow> SlabAllocator \<Rightarrow> bool" where
  "sa_extends sa sa' \<longleftrightarrow> (\<forall>t. isValidSlab sa t \<longrightarrow> isValidSlab sa' t \<and> slabHeader sa' t = slabHeader sa t)
     \<and> slabMemoryStart sa' = slabMemoryStart sa \<and> slabMemorySize sa' = slabMemorySize sa"

lemma sa_extends_refl [simp]: "sa_extends sa sa"
  by (simp add: sa_extends_def)

lemma makeNewSlab_cases:
  assumes ok: "sa_ok sa" and m: "makeNewSlab pid sa = (sa', r)"
  obtains (full) "r = None" "sa_ok sa'" "sa_extends sa sa'" "nextSlabAllocation sa' = nextSlabAllocation sa" "allMemorySlabbed sa'"
  | (slab) s where "r = Some s" "sa_ok sa'" "sa_extends sa sa'" "isValidSlab sa' s" "\<not> isValidSlab sa s"
      "slabHeader sa' s = Some (SlabHeader_new pid)" "nextSlabAllocation sa' = nextSlabAllocation sa + Slab_kSize"
proof (cases "sa_canAllocate sa \<and> \<not> allMemorySlabbed sa")
  case False
  then have "r = None" "sa' = sa \<or> sa' = sa\<lparr>sa_canAllocate := False\<rparr>"
    using ok m by (auto simp: makeNewSlab_def makeNewSlabImpl_def sa_ok_def split: if_splits)
  then show ?thesis using ok False
    by (intro full) (auto simp: sa_ok_def sa_extends_def isValidSlab_def slabHeader_def slabIdx_def allMemorySlabbed_def getSlabMemoryEnd_def)
next
  case True
  define n where "n = nextSlabAllocation sa"
  define sb where "sb = sa\<lparr>nextSlabAllocation := n + Slab_kSize, memoryPoolSize := (memoryPoolSize sa)(pid := memoryPoolSize sa pid + Slab_kSize)\<rparr>"
  have r: "r = Some n" "sa' = update_header n (\<lambda>_. SlabHeader_new pid) sb"
    using True ok m by (auto simp: makeNewSlab_def makeNewSlabImpl_def sa_ok_def initializeHeader_def sb_def n_def)
  have e: "unat (getSlabMemoryEnd sa) = unat (slabMemoryStart sa) + unat (slabMemorySize sa)"
    using ok by (simp add: getSlabMemoryEnd_def sa_ok_def unat_plus_no_wrap)
  have ne: "unat n \<noteq> unat (getSlabMemoryEnd sa)" using True by (simp add: allMemorySlabbed_def n_def word_unat_eq_iff)
  have "16777216 dvd unat n" "16777216 dvd unat (slabMemoryStart sa) + unat (slabMemorySize sa)"
    using ok by (simp_all add: sa_ok_def n_def)
  moreover have "unat n < unat (slabMemoryStart sa) + unat (slabMemorySize sa)" using ok ne e by (simp add: sa_ok_def n_def)
  ultimately have le: "unat n + 16777216 \<le> unat (slabMemoryStart sa) + unat (slabMemorySize sa)" by (auto elim!: dvdE)
  then have u: "unat (n + Slab_kSize) = unat n + 16777216" using ok by (subst unat_plus_no_wrap) (auto simp: sa_ok_def)
  have okb: "sa_ok sb" using ok le u True by (auto simp: sa_ok_def sb_def n_def word_le_nat_alt)
  have vb: "isValidSlab sb n" using ok u by (auto simp: isValidSlab_def sb_def n_def sa_ok_def slab_aligned_iff word_less_nat_alt)
  have nv: "\<not> isValidSlab sa n" by (simp add: isValidSlab_def n_def)
  have "isValidSlab sb t \<and> slabHeader sb t = slabHeader sa t" if "isValidSlab sa t" for t
    using that u by (auto simp: isValidSlab_def sb_def slabHeader_def slabIdx_def word_less_nat_alt n_def)
  then have "sa_extends sa sa'" using slabHeader_update [OF okb vb] nv unfolding r(2) sa_extends_def
    by (auto simp: sb_def update_header_def) metis+
  then show ?thesis
    using slabHeader_update [OF okb vb] r vb nv by (intro slab [of n]) (auto simp: slabHeader_def, auto simp: update_header_def sb_def n_def)
qed

end
