(* ===== verification/Slab_Class.thy ===== *)
theory Slab_Class
  imports Slab_Contract
begin

text \<open>
  The invariant of an allocation class and what its operations do to its chunks: an
  allocation returns a chunk that was free or has just been carved, a freed chunk becomes
  free, and no chunk that is neither is touched.
\<close>

section \<open>Chunks\<close>

abbreviation chunk_size :: "AllocationClass \<Rightarrow> nat" where
  "chunk_size ac \<equiv> unat (allocationSize ac)"

definition carved :: "AllocationClass \<Rightarrow> u64 \<Rightarrow> nat" where
  "carved ac s = (if currSlab ac = Some s then unat (currOffset ac) else 16777216)"

definition chunk_in :: "AllocationClass \<Rightarrow> u64 \<Rightarrow> u64 \<Rightarrow> bool" where
  "chunk_in ac s a \<longleftrightarrow> s \<in> set (allocatedSlabs ac)
     \<and> (\<exists>k. unat a = unat s + k * chunk_size ac \<and> k * chunk_size ac + chunk_size ac \<le> carved ac s)"

definition is_chunk :: "AllocationClass \<Rightarrow> u64 \<Rightarrow> bool" where
  "is_chunk ac a \<longleftrightarrow> (\<exists>s. chunk_in ac s a)"

abbreviation class_slabs :: "AllocationClass \<Rightarrow> u64 list" where
  "class_slabs ac \<equiv> allocatedSlabs ac @ ac_freeSlabs ac"

definition owns_slab :: "SlabAllocator \<Rightarrow> nat \<Rightarrow> AllocationClass \<Rightarrow> u64 \<Rightarrow> bool" where
  "owns_slab sa i ac s \<longleftrightarrow> isValidSlab sa s \<and> (\<exists>h. slabHeader sa s = Some h \<and> h_poolId h = 0 \<and> h_classId h = int i
     \<and> h_allocSize h = allocationSize ac \<and> \<not> isMarkedForRelease h)"

definition class_full :: "AllocationClass \<Rightarrow> bool" where
  "class_full ac \<longleftrightarrow> freedAllocations ac = [] \<and> ac_freeSlabs ac = [] \<and> \<not> canAllocateFromCurrentSlabLocked ac"

definition class_ok :: "SlabAllocator \<Rightarrow> nat \<Rightarrow> AllocationClass \<Rightarrow> bool" where
  "class_ok sa i ac \<longleftrightarrow> ac_classId ac = int i \<and> 64 \<le> chunk_size ac \<and> chunk_size ac \<le> 16777216
     \<and> distinct (class_slabs ac) \<and> (\<forall>s \<in> set (class_slabs ac). owns_slab sa i ac s)
     \<and> (\<forall>s. currSlab ac = Some s \<longrightarrow> s \<in> set (allocatedSlabs ac))
     \<and> unat (currOffset ac) \<le> 16777216 \<and> chunk_size ac dvd unat (currOffset ac)
     \<and> distinct (freedAllocations ac) \<and> (\<forall>a \<in> set (freedAllocations ac). is_chunk ac a)
     \<and> (\<not> ac_canAllocate ac \<longrightarrow> class_full ac)"

lemma class_ok_carved: "class_ok sa i ac \<Longrightarrow> carved ac s \<le> 16777216"
  by (simp add: class_ok_def carved_def)

lemma chunk_in_slab:
  assumes "sa_ok sa" "class_ok sa i ac" "chunk_in ac s a"
  shows "unat s \<le> unat a" "unat a + chunk_size ac \<le> unat s + 16777216" "owns_slab sa i ac s" "getSlabForMemory a = s"
proof -
  obtain k where k: "unat a = unat s + k * chunk_size ac" "k * chunk_size ac + chunk_size ac \<le> 16777216"
    using assms(3) class_ok_carved [OF assms(2), of s] unfolding chunk_in_def by (meson le_trans)
  then show "unat s \<le> unat a" and le: "unat a + chunk_size ac \<le> unat s + 16777216" by auto
  show o: "owns_slab sa i ac s" using assms(2,3) by (auto simp: class_ok_def chunk_in_def)
  have "16777216 dvd unat s" using sa_ok_valid_slab(1) [OF assms(1)] o by (simp add: owns_slab_def)
  then obtain j where j: "unat s = j * 16777216" by (metis dvd_def mult.commute)
  have "0 < chunk_size ac" using assms(2) by (simp add: class_ok_def)
  then have "unat a - j * 16777216 < 16777216" "j * 16777216 \<le> unat a" using k j le by auto
  then have "unat a div 16777216 = j" by (metis div_nat_eqI add.commute le_add_diff_inverse mult_Suc nat_add_left_cancel_less mult.commute)
  then show "getSlabForMemory a = s" by (simp add: word_unat_eq_iff unat_getSlabForMemory j)
qed

lemma is_chunk_header:
  assumes "sa_ok sa" "class_ok sa i ac" "is_chunk ac a"
  obtains h where "getSlabHeader sa a = Some h" "h_poolId h = 0" "h_classId h = int i"
    "h_allocSize h = allocationSize ac" "\<not> isMarkedForRelease h"
proof -
  obtain s where s: "chunk_in ac s a" using assms(3) by (auto simp: is_chunk_def)
  show thesis using chunk_in_slab(3,4) [OF assms(1,2) s] that by (auto simp: owns_slab_def getSlabHeader_def)
qed

lemma is_chunk_class:
  assumes "sa_ok sa" "class_ok sa i ac" "is_chunk ac a" "class_ok sa j ac'" "is_chunk ac' a"
  shows "i = j"
proof -
  obtain h where "getSlabHeader sa a = Some h" "h_classId h = int i" using is_chunk_header [OF assms(1-3)] by blast
  moreover obtain h' where "getSlabHeader sa a = Some h'" "h_classId h' = int j" using is_chunk_header [OF assms(1,4,5)] by blast
  ultimately show ?thesis by simp
qed

lemma multiples_disjoint:
  assumes "(k :: nat) \<noteq> l" shows "k * z + z \<le> l * z \<or> l * z + z \<le> k * z"
proof -
  have "Suc k \<le> l \<or> Suc l \<le> k" using assms by linarith
  then have "Suc k * z \<le> l * z \<or> Suc l * z \<le> k * z" by (blast intro: mult_le_mono1)
  then show ?thesis by (simp add: add.commute)
qed

lemma slabs_apart:
  assumes "16777216 dvd unat s" "16777216 dvd unat t" "s \<noteq> (t :: u64)"
  shows "unat s + 16777216 \<le> unat t \<or> unat t + 16777216 \<le> unat s"
proof -
  obtain k l where kl: "unat s = k * 16777216" "unat t = l * 16777216" using assms(1,2) by (metis dvd_def mult.commute)
  then have "k \<noteq> l" using assms(3) by (auto simp: word_unat_eq_iff)
  from multiples_disjoint [OF this, of 16777216] show ?thesis by (simp only: kl)
qed

lemma chunks_disjoint:
  assumes sa: "sa_ok sa" and c: "class_ok sa i ac" "is_chunk ac a" and d: "class_ok sa j ac'" "is_chunk ac' b" and "a \<noteq> b"
    and eq: "i = j \<Longrightarrow> ac = ac'"
  shows "disjoint_regions (unat a, chunk_size ac) (unat b, chunk_size ac')"
proof -
  obtain s where s: "chunk_in ac s a" using c(2) by (auto simp: is_chunk_def)
  obtain t where t: "chunk_in ac' t b" using d(2) by (auto simp: is_chunk_def)
  note sl = chunk_in_slab [OF sa c(1) s] and tl = chunk_in_slab [OF sa d(1) t]
  show ?thesis
  proof (cases "s = t")
    case True
    then have "ac = ac'" using sl(3) tl(3) eq by (auto simp: owns_slab_def)
    then obtain k l where "unat a = unat s + k * chunk_size ac" "unat b = unat s + l * chunk_size ac"
      using s t True by (auto simp: chunk_in_def)
    then show ?thesis using multiples_disjoint [of k l "chunk_size ac"] \<open>a \<noteq> b\<close> \<open>ac = ac'\<close>
      by (auto simp: disjoint_regions_def word_unat_eq_iff)
  next
    case False
    have "16777216 dvd unat s" "16777216 dvd unat t"
      using sa_ok_valid_slab(1) [OF sa] sl(3) tl(3) by (simp_all add: owns_slab_def)
    then show ?thesis using slabs_apart [OF _ _ False] sl(1,2) tl(1,2) by (auto simp: disjoint_regions_def)
  qed
qed

section \<open>Steps of a class\<close>

text \<open>What an allocation from a class promises.\<close>

definition class_alloc :: "SlabAllocator \<Rightarrow> nat \<Rightarrow> AllocationClass \<Rightarrow> AllocationClass \<Rightarrow> u64 option \<Rightarrow> bool" where
  "class_alloc sa i ac ac' r \<longleftrightarrow> class_ok sa i ac' \<and> allocationSize ac' = allocationSize ac
     \<and> (\<forall>a. is_chunk ac a \<longrightarrow> is_chunk ac' a) \<and> set (class_slabs ac') = set (class_slabs ac)
     \<and> set (freedAllocations ac') \<subseteq> set (freedAllocations ac)
     \<and> (case r of None \<Rightarrow> class_full ac
        | Some a \<Rightarrow> is_chunk ac' a \<and> a \<notin> set (freedAllocations ac') \<and> (a \<in> set (freedAllocations ac) \<or> \<not> is_chunk ac a))"

lemma is_chunk_cong:
  "allocatedSlabs ac' = allocatedSlabs ac \<Longrightarrow> allocationSize ac' = allocationSize ac \<Longrightarrow> currSlab ac' = currSlab ac
   \<Longrightarrow> currOffset ac' = currOffset ac \<Longrightarrow> is_chunk ac' = is_chunk ac"
  by (simp add: fun_eq_iff is_chunk_def chunk_in_def carved_def)

lemma class_full_alloc:
  assumes "class_ok sa i ac" "class_full ac"
  shows "class_alloc sa i ac (ac\<lparr>ac_canAllocate := False\<rparr>) None"
proof -
  have "is_chunk (ac\<lparr>ac_canAllocate := False\<rparr>) = is_chunk ac" by (rule is_chunk_cong) simp_all
  then show ?thesis using assms
    by (simp add: class_alloc_def class_ok_def owns_slab_def class_full_def canAllocateFromCurrentSlabLocked_def)
qed

lemma class_reuse_alloc:
  assumes "class_ok sa i ac" "freedAllocations ac = a # rest" "ac_canAllocate ac"
  shows "class_alloc sa i ac (ac\<lparr>freedAllocations := rest\<rparr>) (Some a)"
proof -
  have "is_chunk (ac\<lparr>freedAllocations := rest\<rparr>) = is_chunk ac" by (rule is_chunk_cong) simp_all
  then show ?thesis using assms by (auto simp: class_alloc_def class_ok_def owns_slab_def)
qed

lemma class_carve_alloc:
  assumes ok: "class_ok sa i ac" and sa: "sa_ok sa" and c: "canAllocateFromCurrentSlabLocked ac" and can: "ac_canAllocate ac"
    and e: "allocateFromCurrentSlabLocked ac = (ac', a)"
  shows "class_alloc sa i ac ac' (Some a)"
proof -
  let ?z = "chunk_size ac" and ?o = "unat (currOffset ac)"
  obtain s where s: "currSlab ac = Some s" "s \<in> set (allocatedSlabs ac)" using ok c by (auto simp: canAllocateFromCurrentSlabLocked_def class_ok_def)
  have zo: "?z \<le> 16777216" "?o \<le> 16777216" "?z dvd ?o" "0 < ?z" using ok by (auto simp: class_ok_def)
  have u: "unat (currOffset ac + allocationSize ac) = ?o + ?z" using zo by (subst unat_plus_no_wrap) auto
  then have le: "?o + ?z \<le> 16777216" using c by (simp add: canAllocateFromCurrentSlabLocked_def word_le_nat_alt)
  have ac': "ac' = ac\<lparr>currOffset := currOffset ac + allocationSize ac\<rparr>" and a: "a = s + ucast (currOffset ac)"
    using e s by (auto simp: allocateFromCurrentSlabLocked_def memoryAtOffset_def)
  have "unat s + 16777216 < 2 ^ 64"
    using sa_ok_valid_slab(3) [OF sa, of s] ok s sa by (auto simp: class_ok_def owns_slab_def sa_ok_def)
  then have ua: "unat a = unat s + ?o" unfolding a using le zo by (subst unat_plus_no_wrap) auto
  obtain k where k: "?o = k * ?z" using zo(3) by (metis dvd_def mult.commute)
  have sub: "is_chunk ac b \<Longrightarrow> is_chunk ac' b" for b
    unfolding is_chunk_def chunk_in_def carved_def ac' using u s le_add1 le_trans by (fastforce split: if_splits)
  have new: "is_chunk ac' a"
    using s ua k u unfolding is_chunk_def chunk_in_def carved_def ac' by (auto intro!: exI [of _ s] exI [of _ k])
  have fresh: "\<not> is_chunk ac a"
  proof
    assume "is_chunk ac a"
    then obtain t where t: "chunk_in ac t a" by (auto simp: is_chunk_def)
    note tl = chunk_in_slab [OF sa ok t]
    have os: "owns_slab sa i ac s" using ok s by (auto simp: class_ok_def)
    have "t = s"
    proof (rule ccontr)
      assume "t \<noteq> s"
      moreover have "16777216 dvd unat s" "16777216 dvd unat t"
        using sa_ok_valid_slab(1) [OF sa] os tl(3) by (simp_all add: owns_slab_def)
      ultimately show False using slabs_apart [of t s] tl(1,2) ua le zo(4) by auto
    qed
    then obtain l where "unat a = unat s + l * ?z" "l * ?z + ?z \<le> ?o" using t s by (auto simp: chunk_in_def carved_def)
    then show False using ua zo(4) by simp
  qed
  have "class_ok sa i ac'"
    using ok s zo le u can sub unfolding class_ok_def by (auto simp: ac' owns_slab_def)
  then show ?thesis using sub new fresh ok by (auto simp: class_alloc_def ac' class_ok_def)
qed

lemma multiple_below:
  assumes "z dvd (n :: nat)" "k * z + z < n + z" shows "k * z + z \<le> n"
proof -
  obtain m where m: "n = m * z" using assms(1) by (metis dvd_def mult.commute)
  then have "k < m" using assms(2) by simp
  from mult_le_mono1 [OF Suc_leI [OF this], of z] show ?thesis by (simp add: m add.commute)
qed

lemma class_setup:
  assumes ok: "class_ok sa i ac" and free: "ac_freeSlabs ac \<noteq> []" and c: "\<not> canAllocateFromCurrentSlabLocked ac" and can: "ac_canAllocate ac"
  shows "is_chunk (setupCurrentSlabLocked ac) = is_chunk ac" "class_ok sa i (setupCurrentSlabLocked ac)"
    "canAllocateFromCurrentSlabLocked (setupCurrentSlabLocked ac)" "set (class_slabs (setupCurrentSlabLocked ac)) = set (class_slabs ac)"
proof -
  let ?s = "last (ac_freeSlabs ac)" and ?ac = "setupCurrentSlabLocked ac"
  have f: "ac_freeSlabs ac = butlast (ac_freeSlabs ac) @ [?s]" using free by simp
  have slabs: "set (class_slabs ?ac) = set (class_slabs ac)"
    using arg_cong [OF f, of set] by (auto simp: setupCurrentSlabLocked_def Let_def)
  then show "set (class_slabs ?ac) = set (class_slabs ac)" .
  have d: "distinct (allocatedSlabs ac @ butlast (ac_freeSlabs ac) @ [?s])" using ok f by (simp add: class_ok_def)
  have z: "64 \<le> chunk_size ac" "chunk_size ac \<le> 16777216" "chunk_size ac dvd unat (currOffset ac)" "unat (currOffset ac) \<le> 16777216"
    using ok by (auto simp: class_ok_def)
  have old: "k * chunk_size ac + chunk_size ac \<le> carved ?ac t \<longleftrightarrow> k * chunk_size ac + chunk_size ac \<le> carved ac t"
    if t: "t \<in> set (allocatedSlabs ac)" for t k
  proof -
    have ct: "carved ?ac t = 16777216" using d t by (auto simp: carved_def setupCurrentSlabLocked_def Let_def)
    show ?thesis
    proof (cases "currSlab ac = Some t")
      case True
      have "unat (currOffset ac + allocationSize ac) = unat (currOffset ac) + chunk_size ac"
        using z by (subst unat_plus_no_wrap) auto
      then have "16777216 < unat (currOffset ac) + chunk_size ac"
        using c True by (simp add: canAllocateFromCurrentSlabLocked_def word_le_nat_alt)
      then show ?thesis using ct True z multiple_below [OF z(3), of k] by (auto simp: carved_def)
    qed (simp add: ct carved_def [of ac])
  qed
  have new: "\<not> chunk_in ?ac ?s a" for a
    using z(1) by (simp add: chunk_in_def carved_def setupCurrentSlabLocked_def Let_def)
  have "chunk_in ?ac t a \<longleftrightarrow> chunk_in ac t a" for t a
  proof (cases "t = ?s")
    case True
    then show ?thesis using new [of a] d by (auto simp: chunk_in_def)
  next
    case False
    then show ?thesis using old [of t] by (auto simp: chunk_in_def setupCurrentSlabLocked_def Let_def)
  qed
  then show e: "is_chunk ?ac = is_chunk ac" by (simp add: fun_eq_iff is_chunk_def)
  have "\<forall>s \<in> set (class_slabs ?ac). owns_slab sa i ?ac s"
    unfolding slabs using ok by (simp add: class_ok_def owns_slab_def setupCurrentSlabLocked_def Let_def)
  moreover have "distinct (class_slabs ?ac)" using d by (auto simp: setupCurrentSlabLocked_def Let_def)
  ultimately show "class_ok sa i ?ac"
    using ok can e by (simp add: class_ok_def) (simp add: setupCurrentSlabLocked_def Let_def)
  show "canAllocateFromCurrentSlabLocked ?ac"
    using z by (simp add: canAllocateFromCurrentSlabLocked_def setupCurrentSlabLocked_def Let_def word_le_nat_alt)
qed

lemma allocateLocked_spec:
  assumes ok: "class_ok sa i ac" and sa: "sa_ok sa" and can: "ac_canAllocate ac" and e: "allocateLocked ac = (ac', r)"
  shows "class_alloc sa i ac ac' r"
proof (cases "class_full ac")
  case True
  then show ?thesis using e class_full_alloc [OF ok] by (auto simp: allocateLocked_def class_full_def)
next
  case False
  show ?thesis
  proof (cases "freedAllocations ac")
    case (Cons a rest)
    then show ?thesis using e class_reuse_alloc [OF ok Cons can] by (auto simp: allocateLocked_def)
  next
    case Nil
    show ?thesis
    proof (cases "canAllocateFromCurrentSlabLocked ac")
      case True
      then show ?thesis using e Nil class_carve_alloc [OF ok sa True can]
        by (cases "allocateFromCurrentSlabLocked ac") (auto simp: allocateLocked_def)
    next
      case c: False
      then have f: "ac_freeSlabs ac \<noteq> []" using False Nil by (simp add: class_full_def)
      note st = class_setup [OF ok f c can]
      obtain ac2 a where ac2: "allocateFromCurrentSlabLocked (setupCurrentSlabLocked ac) = (ac2, a)"
        by (cases "allocateFromCurrentSlabLocked (setupCurrentSlabLocked ac)")
      have same: "allocationSize (setupCurrentSlabLocked ac) = allocationSize ac" "freedAllocations (setupCurrentSlabLocked ac) = freedAllocations ac"
        "ac_canAllocate (setupCurrentSlabLocked ac)" using can by (simp_all add: setupCurrentSlabLocked_def Let_def)
      have "ac' = ac2" "r = Some a" using e Nil c f ac2 by (auto simp: allocateLocked_def)
      with class_carve_alloc [OF st(2) sa st(3) same(3) ac2] show ?thesis
        unfolding class_alloc_def same st(1,4) by simp
    qed
  qed
qed

lemma AllocationClass_allocate_spec:
  assumes ok: "class_ok sa i ac" and sa: "sa_ok sa" and e: "AllocationClass_allocate ac = (ac', r)"
  shows "class_alloc sa i ac ac' r"
proof (cases "ac_canAllocate ac")
  case True
  then show ?thesis using allocateLocked_spec [OF ok sa True] e by (simp add: AllocationClass_allocate_def)
next
  case False
  then have "class_full ac" and same: "ac\<lparr>ac_canAllocate := False\<rparr> = ac" using ok by (simp_all add: class_ok_def)
  then show ?thesis using class_full_alloc [OF ok, unfolded same] e False by (simp add: AllocationClass_allocate_def)
qed

end
