(* ===== verification/Slab_Safe.thy ===== *)
theory Slab_Safe
  imports Slab_Class
begin

text \<open>
  The pool and the whole slab allocator: a request is served by the smallest class it fits
  in, from memory that is not live, and freeing gives the chunk back to its class.
\<close>

section \<open>The pool\<close>

definition pool_ok :: "SlabAllocator \<Rightarrow> MemoryPool \<Rightarrow> bool" where
  "pool_ok sa mp \<longleftrightarrow> mp_id mp = 0 \<and> mp_ac mp \<noteq> [] \<and> (\<forall>i < length (mp_ac mp). class_ok sa i (mp_ac mp ! i))
     \<and> map allocationSize (mp_ac mp) = acSizes mp \<and> sorted_wrt (<) (acSizes mp) \<and> mp_freeSlabs mp = []
     \<and> curSlabsAdvised mp = 0 \<and> maxSize mp = slabMemorySize sa \<and> currSlabAllocSize mp = nextSlabAllocation sa - slabMemoryStart sa"

text \<open>A live chunk is given by its address and the number of bytes its owner uses.\<close>

definition chunk_live :: "MemoryPool \<Rightarrow> u64 \<times> u64 \<Rightarrow> bool" where
  "chunk_live mp h \<longleftrightarrow> (\<exists>i < length (mp_ac mp). is_chunk (mp_ac mp ! i) (fst h)
     \<and> fst h \<notin> set (freedAllocations (mp_ac mp ! i)) \<and> unat (snd h) \<le> chunk_size (mp_ac mp ! i))"

lemma pool_ok_currAllocSize [simp]: "pool_ok sa (mp\<lparr>currAllocSize := x\<rparr>) = pool_ok sa mp"
  by (simp add: pool_ok_def)

lemma chunk_live_currAllocSize [simp]: "chunk_live (mp\<lparr>currAllocSize := x\<rparr>) h = chunk_live mp h"
  by (simp add: chunk_live_def)

definition pool_alloc :: "SlabAllocator \<Rightarrow> MemoryPool \<Rightarrow> SlabAllocator \<Rightarrow> MemoryPool \<Rightarrow> u32 \<Rightarrow> u64 option \<Rightarrow> bool" where
  "pool_alloc sa mp sa' mp' sz r \<longleftrightarrow> sa_ok sa' \<and> pool_ok sa' mp'
     \<and> slabMemoryStart sa' = slabMemoryStart sa \<and> slabMemorySize sa' = slabMemorySize sa
     \<and> (\<forall>h. chunk_live mp h \<longrightarrow> chunk_live mp' h \<and> r \<noteq> Some (fst h))
     \<and> (\<forall>a n. r = Some a \<longrightarrow> unat n \<le> unat sz \<longrightarrow> chunk_live mp' (a, n))"

lemma pool_ok_class: "pool_ok sa mp \<Longrightarrow> i < length (mp_ac mp) \<Longrightarrow> class_ok sa i (mp_ac mp ! i)"
  by (simp add: pool_ok_def)

lemma pool_ok_length: "pool_ok sa mp \<Longrightarrow> length (acSizes mp) = length (mp_ac mp)"
  by (metis length_map pool_ok_def)

lemma getAllocationClassId_spec:
  assumes ok: "pool_ok sa mp" and g: "getAllocationClassId mp sz = Inr cid"
  shows "cid < length (mp_ac mp)" "sz \<le> allocationSize (mp_ac mp ! cid)" "j < cid \<Longrightarrow> allocationSize (mp_ac mp ! j) < sz"
proof -
  let ?P = "\<lambda>x. x < sz" and ?xs = "acSizes mp"
  have m: "?xs = map allocationSize (mp_ac mp)" using ok by (simp add: pool_ok_def)
  have len: "length ?xs = length (mp_ac mp)" and nth: "i < length (mp_ac mp) \<Longrightarrow> ?xs ! i = allocationSize (mp_ac mp ! i)" for i
    unfolding m by simp_all
  have cid: "cid = length (takeWhile ?P ?xs)" and l: "sz \<le> last ?xs" using g by (auto simp: getAllocationClassId_def split: if_splits)
  have ne: "?xs \<noteq> []" using ok len by (auto simp: pool_ok_def)
  have "last ?xs \<in> set ?xs" using ne by simp
  then have "\<not> (\<forall>x \<in> set ?xs. ?P x)" using l by (meson leD)
  then have "takeWhile ?P ?xs \<noteq> ?xs" by (metis takeWhile_eq_all_conv)
  then have c: "cid < length ?xs" unfolding cid by (metis length_takeWhile_le le_neq_implies_less takeWhile_eq_take take_all_iff order_refl)
  then show "cid < length (mp_ac mp)" by (simp add: len)
  have "\<not> ?P (?xs ! cid)" using nth_length_takeWhile [of ?P ?xs] c cid by simp
  then show "sz \<le> allocationSize (mp_ac mp ! cid)" using nth c len by simp
  assume j: "j < cid"
  then have "?P (?xs ! j)" unfolding cid by (metis nth_mem set_takeWhileD takeWhile_nth)
  then show "allocationSize (mp_ac mp ! j) < sz" using nth j c len by simp
qed

text \<open>A step of one class is a step of the pool.\<close>

lemma class_alloc_pool:
  assumes sa: "sa_ok sa" and ok: "pool_ok sa mp" and c: "cid < length (mp_ac mp)"
    and st: "class_alloc sa cid (mp_ac mp ! cid) ac' r" and sz: "unat sz \<le> chunk_size (mp_ac mp ! cid)"
  shows "pool_alloc sa mp sa (update_ac cid ac' mp) sz r"
proof -
  let ?mp = "update_ac cid ac' mp"
  have nth: "mp_ac ?mp ! i = (if i = cid then ac' else mp_ac mp ! i)" if "i < length (mp_ac mp)" for i using that by simp
  have "map allocationSize ((mp_ac mp)[cid := ac']) = map allocationSize (mp_ac mp)"
    using st c by (intro nth_equalityI) (auto simp: nth_list_update class_alloc_def)
  moreover have "class_ok sa i (mp_ac ?mp ! i)" if "i < length (mp_ac mp)" for i
    using that ok st by (simp only: nth [OF that]) (auto simp: pool_ok_def class_alloc_def)
  ultimately have ok': "pool_ok sa ?mp" using ok by (simp add: pool_ok_def)
  have "chunk_live ?mp h \<and> r \<noteq> Some (fst h)" if h: "chunk_live mp h" for h
  proof -
    obtain i where i: "i < length (mp_ac mp)" "is_chunk (mp_ac mp ! i) (fst h)" "fst h \<notin> set (freedAllocations (mp_ac mp ! i))"
      "unat (snd h) \<le> chunk_size (mp_ac mp ! i)" using h by (auto simp: chunk_live_def)
    have live: "chunk_live ?mp h"
      unfolding chunk_live_def using i st by (cases "i = cid") (auto simp: class_alloc_def intro!: exI [of _ i])
    have "r \<noteq> Some (fst h)"
    proof
      assume r: "r = Some (fst h)"
      then have ch: "is_chunk ac' (fst h)" "fst h \<in> set (freedAllocations (mp_ac mp ! cid)) \<or> \<not> is_chunk (mp_ac mp ! cid) (fst h)"
        "class_ok sa cid ac'" using st by (auto simp: class_alloc_def)
      have "cid = i" using is_chunk_class [OF sa ch(3,1) pool_ok_class [OF ok i(1)] i(2)] .
      then show False using ch(2) i by auto
    qed
    then show ?thesis using live by simp
  qed
  moreover have "chunk_live ?mp (a, n)" if "r = Some a" "unat n \<le> unat sz" for a n
    unfolding chunk_live_def using that st sz c by (intro exI [of _ cid]) (auto simp: class_alloc_def)
  ultimately show ?thesis using sa ok' by (simp add: pool_alloc_def)
qed

lemma class_ok_owns:
  "class_ok sa i ac \<Longrightarrow> (\<And>s. s \<in> set (class_slabs ac) \<Longrightarrow> owns_slab sa' i ac s) \<Longrightarrow> class_ok sa' i ac"
  by (simp add: class_ok_def)

lemma class_ok_extends: "sa_extends sa sa' \<Longrightarrow> class_ok sa i ac \<Longrightarrow> class_ok sa' i ac"
  by (auto simp: class_ok_def owns_slab_def sa_extends_def)

lemma pool_ok_extends:
  assumes "sa_extends sa sa'" "pool_ok sa mp" "nextSlabAllocation sa' = nextSlabAllocation sa + d"
  shows "pool_ok sa' (mp\<lparr>currSlabAllocSize := currSlabAllocSize mp + d\<rparr>)"
proof -
  have "slabMemoryStart sa' = slabMemoryStart sa" "slabMemorySize sa' = slabMemorySize sa" using assms(1) by (auto simp: sa_extends_def)
  then show ?thesis using assms(2,3) class_ok_extends [OF assms(1)] by (simp add: pool_ok_def)
qed

lemma getSlabLocked_cases:
  assumes sa: "sa_ok sa" and ok: "pool_ok sa mp" and g: "getSlabLocked sa mp = (sa', mp', r)"
  obtains (full) "r = None" "sa_ok sa'" "pool_ok sa' mp'" "sa_extends sa sa'" "mp_ac mp' = mp_ac mp" "allMemorySlabbed sa'"
  | (slab) s where "r = Some s" "sa_ok sa'" "pool_ok sa' mp'" "sa_extends sa sa'" "mp_ac mp' = mp_ac mp"
      "isValidSlab sa' s" "\<not> isValidSlab sa s" "slabHeader sa' s = Some (SlabHeader_new 0)"
proof (cases "allSlabsAllocated mp")
  case True
  let ?n = "unat (nextSlabAllocation sa)" and ?b = "unat (slabMemoryStart sa)" and ?z = "unat (slabMemorySize sa)"
  have s: "?b \<le> ?n" "?n \<le> ?b + ?z" "?z < 2 ^ 56" "?b + ?z < 2 ^ 64" "16777216 dvd ?n" "16777216 dvd ?b + ?z"
    using sa by (auto simp: sa_ok_def word_le_nat_alt)
  have n: "unat (nextSlabAllocation sa - slabMemoryStart sa) = ?n - ?b" using s by (simp add: unat_minus_no_wrap word_le_nat_alt)
  have "unat (nextSlabAllocation sa - slabMemoryStart sa + Slab_kSize) = ?n - ?b + 16777216"
    using n s by (subst unat_plus_no_wrap) auto
  then have "?z < ?n - ?b + 16777216" using True ok by (simp add: allSlabsAllocated_def getPoolAdvisedSize_def pool_ok_def word_less_nat_alt)
  then have "?n = ?b + ?z" using s by (auto elim!: dvdE)
  then have "allMemorySlabbed sa" using s(4) by (simp add: allMemorySlabbed_def getSlabMemoryEnd_def word_unat_eq_iff unat_plus_no_wrap)
  then show ?thesis using full True sa ok g by (auto simp: getSlabLocked_def)
next
  case False
  obtain sb q where m: "makeNewSlab 0 sa = (sb, q)" by (cases "makeNewSlab 0 sa")
  from sa m show ?thesis
  proof (cases rule: makeNewSlab_cases)
    case full
    then have "sa' = sb" "mp' = mp" "r = None" using g m False ok by (auto simp: getSlabLocked_def pool_ok_def)
    moreover have "pool_ok sb (mp\<lparr>currSlabAllocSize := currSlabAllocSize mp + 0\<rparr>)"
      by (rule pool_ok_extends [OF full(3) ok]) (simp add: full)
    ultimately show ?thesis using that(1) full by simp
  next
    case (slab s)
    then have e: "sa' = sb" "mp' = mp\<lparr>currSlabAllocSize := currSlabAllocSize mp + Slab_kSize\<rparr>" "r = Some s"
      using g m False ok by (auto simp: getSlabLocked_def pool_ok_def)
    have "pool_ok sa' mp'" unfolding e by (rule pool_ok_extends [OF slab(3) ok slab(7)])
    then show ?thesis using that(2) [of s] slab e by auto
  qed
qed

text \<open>A new slab for a class: its header is claimed, and it joins the free slabs of the class.\<close>

lemma addSlab_pool:
  assumes sa: "sa_ok sa" and ok: "pool_ok sa mp" and c: "cid < length (mp_ac mp)" and v: "isValidSlab sa s"
    and new: "\<And>i. i < length (mp_ac mp) \<Longrightarrow> s \<notin> set (class_slabs (mp_ac mp ! i))" and h: "slabHeader sa s = Some (SlabHeader_new 0)"
    and a: "addSlabLocked s sa (mp_ac mp ! cid) = (sa', ac')"
  shows "sa_ok sa'" "pool_ok sa' (update_ac cid ac' mp)" "chunk_live (update_ac cid ac' mp) k = chunk_live mp k" "ac_canAllocate ac'"
    "allocationSize ac' = allocationSize (mp_ac mp ! cid)" "slabMemoryStart sa' = slabMemoryStart sa" "slabMemorySize sa' = slabMemorySize sa"
proof -
  let ?ac = "mp_ac mp ! cid" and ?f = "\<lambda>h. h\<lparr>h_classId := ac_classId (mp_ac mp ! cid), h_allocSize := allocationSize (mp_ac mp ! cid)\<rparr>"
  have e: "sa' = update_header s ?f sa" "ac' = ?ac\<lparr>ac_canAllocate := True, ac_freeSlabs := ac_freeSlabs ?ac @ [s]\<rparr>"
    using a by (auto simp: addSlabLocked_def)
  note u = slabHeader_update [OF sa v, where f = ?f]
  show sa': "sa_ok sa'" and "ac_canAllocate ac'" "allocationSize ac' = allocationSize ?ac" by (simp_all add: e u)
  show r: "slabMemoryStart sa' = slabMemoryStart sa" "slabMemorySize sa' = slabMemorySize sa" by (simp_all add: e update_header_def)
  have n: "nextSlabAllocation sa' = nextSlabAllocation sa" by (simp add: e update_header_def)
  have chunk: "is_chunk ac' = is_chunk ?ac" unfolding e by (rule is_chunk_cong) simp_all
  have own: "owns_slab sa' i ac t" if "owns_slab sa i ac t" "t \<noteq> s" for i ac t
    using that u unfolding e by (simp add: owns_slab_def)
  have okc: "class_ok sa cid ?ac" using pool_ok_class [OF ok c] .
  have "owns_slab sa' cid ac' s" using u(1,3) v h okc
    by (simp add: e owns_slab_def SlabHeader_new_def isMarkedForRelease_def class_ok_def)
  moreover have "owns_slab sa' cid ac' t" if "t \<in> set (class_slabs ?ac)" for t
  proof -
    have "owns_slab sa cid ?ac t" "t \<noteq> s" using that okc new [OF c] by (auto simp: class_ok_def)
    from own [OF this] show ?thesis by (simp add: owns_slab_def e)
  qed
  moreover have "set (class_slabs ac') = insert s (set (class_slabs ?ac))" "distinct (class_slabs ac')"
    using okc new [OF c] by (auto simp: e class_ok_def)
  ultimately have "class_ok sa' cid ac'"
    using okc chunk unfolding class_ok_def by (simp add: e del: set_append distinct_append)
  moreover have "class_ok sa' i (mp_ac mp ! i)" if "i < length (mp_ac mp)" for i
  proof (rule class_ok_owns [OF pool_ok_class [OF ok that]])
    fix t assume t: "t \<in> set (class_slabs (mp_ac mp ! i))"
    have "owns_slab sa i (mp_ac mp ! i) t" using pool_ok_class [OF ok that] t by (auto simp: class_ok_def)
    moreover have "t \<noteq> s" using new [OF that] t by blast
    ultimately show "owns_slab sa' i (mp_ac mp ! i) t" by (rule own)
  qed
  ultimately have cl: "class_ok sa' i (mp_ac (update_ac cid ac' mp) ! i)" if "i < length (mp_ac mp)" for i
    using that by (cases "i = cid") auto
  have "map allocationSize ((mp_ac mp)[cid := ac']) = map allocationSize (mp_ac mp)"
    using c by (intro nth_equalityI) (auto simp: nth_list_update e)
  then show "pool_ok sa' (update_ac cid ac' mp)" using ok cl r n by (simp add: pool_ok_def)
  have "is_chunk ((mp_ac mp)[cid := ac'] ! i) = is_chunk (mp_ac mp ! i)
    \<and> freedAllocations ((mp_ac mp)[cid := ac'] ! i) = freedAllocations (mp_ac mp ! i)
    \<and> allocationSize ((mp_ac mp)[cid := ac'] ! i) = allocationSize (mp_ac mp ! i)" if "i < length (mp_ac mp)" for i
    using that chunk by (cases "i = cid") (auto simp: e)
  then show "chunk_live (update_ac cid ac' mp) k = chunk_live mp k" by (auto simp: chunk_live_def)
qed

text \<open>\<open>MemoryPool::allocate\<close>: served from the class, from a new slab, or refused when the memory is used up.\<close>

lemma pool_alloc_trans:
  assumes "\<And>h. chunk_live mp h \<Longrightarrow> chunk_live mp1 h" "slabMemoryStart sa1 = slabMemoryStart sa" "slabMemorySize sa1 = slabMemorySize sa"
    and "pool_alloc sa1 mp1 sa' mp' sz r"
  shows "pool_alloc sa mp sa' mp' sz r"
  using assms unfolding pool_alloc_def by auto

lemma pool_alloc_currAllocSize [simp]: "pool_alloc sa mp sa' (mp'\<lparr>currAllocSize := x\<rparr>) sz r = pool_alloc sa mp sa' mp' sz r"
  by (simp add: pool_alloc_def)

lemma pool_alloc_live: "pool_alloc sa mp sa' mp' sz r \<Longrightarrow> chunk_live mp h \<Longrightarrow> chunk_live mp' h"
  unfolding pool_alloc_def by blast

text \<open>The slow path: a slab for the class, once the class itself has nothing left.\<close>

lemma slab_path_spec:
  assumes sa: "sa_ok sa" and ok: "pool_ok sa mp" and c: "cid < length (mp_ac mp)" and sz: "unat sz \<le> chunk_size (mp_ac mp ! cid)"
    and g: "getSlabLocked sa mp = (sb, mp', Some slab)" and a: "addSlabAndAllocate slab sb (mp_ac mp ! cid) = (sa', ac', r)"
  shows "pool_alloc sa mp sa' (update_ac cid ac' mp') sz r \<and> r \<noteq> None"
  using sa ok g
proof (cases rule: getSlabLocked_cases)
  case (slab s)
  obtain ac3 where add: "addSlabLocked s sb (mp_ac mp ! cid) = (sa', ac3)" and al: "allocateLocked ac3 = (ac', r)"
    using a slab(1) by (auto simp: addSlabAndAllocate_def split: prod.splits)
  have new: "s \<notin> set (class_slabs (mp_ac mp ! i))" if "i < length (mp_ac mp)" for i
    using pool_ok_class [OF ok that] slab(7) by (auto simp: class_ok_def owns_slab_def)
  note p = addSlab_pool [OF slab(2,3), unfolded slab(5), OF c slab(6) new slab(8) add]
  let ?mp = "update_ac cid ac3 mp'"
  have c': "cid < length (mp_ac ?mp)" "mp_ac ?mp ! cid = ac3" using c slab(5) by auto
  have "class_alloc sa' cid ac3 ac' r"
    using allocateLocked_spec [OF _ p(1) p(4) al] pool_ok_class [OF p(2), of cid] c' slab(5) by simp
  then have q: "pool_alloc sa' ?mp sa' (update_ac cid ac' ?mp) sz r" and r: "r \<noteq> None"
  proof -
    assume st: "class_alloc sa' cid ac3 ac' r"
    show "pool_alloc sa' ?mp sa' (update_ac cid ac' ?mp) sz r"
      using class_alloc_pool [OF p(1), of ?mp cid ac' r sz] p(2,5) c' st sz slab(5) by simp
    have "ac_freeSlabs ac3 \<noteq> []" using add by (auto simp: addSlabLocked_def)
    then show "r \<noteq> None" using st by (cases r) (auto simp: class_alloc_def class_full_def)
  qed
  have "pool_alloc sa mp sa' (update_ac cid ac' ?mp) sz r"
  proof (rule pool_alloc_trans [OF _ _ _ q])
    show "chunk_live ?mp h" if "chunk_live mp h" for h using that p(3) [of h] slab(5) by (simp add: chunk_live_def)
  qed (use p(6,7) slab(4) in \<open>simp_all add: sa_extends_def\<close>)
  then show ?thesis using r by simp
qed simp

lemma MemoryPool_allocate_spec:
  assumes sa: "sa_ok sa" and ok: "pool_ok sa mp" and m: "MemoryPool_allocate sz sa mp = Inr (sa', mp', r)"
  obtains cid where "getAllocationClassId mp sz = Inr cid" "pool_alloc sa mp sa' mp' sz r"
    "r = None \<Longrightarrow> allMemorySlabbed sa' \<and> class_full (mp_ac mp ! cid)"
proof -
  obtain cid where g: "getAllocationClassId mp sz = Inr cid"
    using m by (auto simp: MemoryPool_allocate_def split: sum.splits)
  note c = getAllocationClassId_spec [OF ok g]
  have sz: "unat sz \<le> chunk_size (mp_ac mp ! cid)" using c(2) by (simp add: word_le_nat_alt)
  obtain ac1 r1 where a1: "AllocationClass_allocate (mp_ac mp ! cid) = (ac1, r1)" by (cases "AllocationClass_allocate (mp_ac mp ! cid)")
  have s1: "class_alloc sa cid (mp_ac mp ! cid) ac1 r1" using AllocationClass_allocate_spec [OF pool_ok_class [OF ok c(1)] sa a1] .
  let ?mp1 = "update_ac cid ac1 mp"
  have p1: "pool_alloc sa mp sa ?mp1 sz r1" using class_alloc_pool [OF sa ok c(1) s1 sz] .
  show thesis
  proof (cases r1)
    case (Some a)
    then have "sa' = sa" "mp' = add_alloc_size (allocationSize ac1) ?mp1" "r = Some a" using m g a1 by (auto simp: MemoryPool_allocate_def)
    then show ?thesis using that [OF g] p1 Some by simp
  next
    case None
    have full: "class_full (mp_ac mp ! cid)" using s1 None by (simp add: class_alloc_def)
    show ?thesis
    proof (cases "allSlabsAllocated ?mp1")
      case True
      then have e: "sa' = sa" "mp' = ?mp1" "r = None" using m g a1 None by (auto simp: MemoryPool_allocate_def)
      have "getSlabLocked sa ?mp1 = (sa, ?mp1, None)" using True by (simp add: getSlabLocked_def)
      then have "allMemorySlabbed sa" using getSlabLocked_cases [OF sa] p1 by (metis option.distinct(1) pool_alloc_def)
      then show ?thesis using that [OF g] p1 None e full by simp
    next
      case False
      obtain ac2 r2 where a2: "AllocationClass_allocate ac1 = (ac2, r2)" by (cases "AllocationClass_allocate ac1")
      let ?mp2 = "update_ac cid ac2 ?mp1"
      have "class_ok sa cid ac1" using s1 by (simp add: class_alloc_def)
      then have s2: "class_alloc sa cid ac1 ac2 r2" using AllocationClass_allocate_spec [OF _ sa a2] by blast
      have z: "allocationSize ac1 = allocationSize (mp_ac mp ! cid)" "allocationSize ac2 = allocationSize (mp_ac mp ! cid)"
        using s1 s2 by (simp_all add: class_alloc_def)
      have p2: "pool_alloc sa ?mp1 sa ?mp2 sz r2"
        using class_alloc_pool [OF sa, of ?mp1 cid ac2 r2 sz] p1 s2 c(1) sz z by (simp add: pool_alloc_def)
      then have p12: "pool_alloc sa mp sa ?mp2 sz r2" using pool_alloc_trans [OF pool_alloc_live [OF p1] _ _ p2] by simp
      show ?thesis
      proof (cases r2)
        case (Some a)
        then have "sa' = sa" "mp' = add_alloc_size (allocationSize ac1) ?mp2" "r = Some a"
          using m g a1 a2 None False by (auto simp: MemoryPool_allocate_def)
        then show ?thesis using that [OF g] p12 Some by simp
      next
        case n2: None
        obtain sb mpb q where gs: "getSlabLocked sa ?mp2 = (sb, mpb, q)" by (cases "getSlabLocked sa ?mp2")
        have ok2: "pool_ok sa ?mp2" using p2 by (simp add: pool_alloc_def)
        show ?thesis
        proof (cases q)
          case qn: None
          then have e: "sa' = sb" "mp' = mpb" "r = None" using m g a1 a2 None n2 False gs by (auto simp: MemoryPool_allocate_def)
          from sa ok2 gs have "pool_alloc sa ?mp2 sb mpb sz None \<and> allMemorySlabbed sb"
            by (cases rule: getSlabLocked_cases) (use qn in \<open>auto simp: pool_alloc_def sa_extends_def chunk_live_def\<close>)
          then show ?thesis using that [OF g] pool_alloc_trans [OF pool_alloc_live [OF p12]] e full by simp
        next
          case (Some s)
          obtain sc ac4 r4 where ad: "addSlabAndAllocate s sb ac2 = (sc, ac4, r4)" by (cases "addSlabAndAllocate s sb ac2")
          then have e: "sa' = sc" "mp' = add_alloc_size (allocationSize ac1) (update_ac cid ac4 mpb)" "r = r4"
            using m g a1 a2 None n2 False gs Some by (auto simp: MemoryPool_allocate_def)
          have "pool_alloc sa ?mp2 sc (update_ac cid ac4 mpb) sz r4 \<and> r4 \<noteq> None"
            using slab_path_spec [OF sa ok2, of cid sz sb mpb s sc ac4 r4] c(1) sz z gs Some ad by simp
          then have "pool_alloc sa mp sc (update_ac cid ac4 mpb) sz r4" "r4 \<noteq> None"
            using pool_alloc_trans [OF pool_alloc_live [OF p12] refl refl] by auto
          then show ?thesis using that [OF g] by (auto simp: e)
        qed
      qed
    qed
  qed
qed

lemma MemoryPool_free_spec:
  assumes sa: "sa_ok sa" and ok: "pool_ok sa mp" and l: "chunk_live mp h"
  obtains mp' where "MemoryPool_free (fst h) sa mp = Inr mp'" "pool_ok sa mp'" "\<And>k. chunk_live mp k \<Longrightarrow> fst k \<noteq> fst h \<Longrightarrow> chunk_live mp' k"
proof -
  obtain i where i: "i < length (mp_ac mp)" "is_chunk (mp_ac mp ! i) (fst h)" "fst h \<notin> set (freedAllocations (mp_ac mp ! i))"
    using l by (auto simp: chunk_live_def)
  let ?ac = "mp_ac mp ! i" and ?a = "fst h"
  have c: "class_ok sa i ?ac" using pool_ok_class [OF ok i(1)] .
  obtain hd where hd: "getSlabHeader sa ?a = Some hd" "h_poolId hd = 0" "h_classId hd = int i" "\<not> isMarkedForRelease hd"
    using is_chunk_header [OF sa c i(2)] by blast
  have cid: "getAllocationClassId_memory sa mp ?a = Inr i"
    using hd i(1) ok by (simp add: getAllocationClassId_memory_def pool_ok_def kInvalidClassId_def)
  define ac where "ac = ?ac\<lparr>freedAllocations := ?a # freedAllocations ?ac, ac_canAllocate := True\<rparr>"
  have fr: "AllocationClass_free ?a sa ?ac = Inr ac"
    using hd c by (simp add: AllocationClass_free_def Let_def ac_def class_ok_def)
  let ?mp = "(update_ac i ac mp)\<lparr>currAllocSize := currAllocSize mp - ucast (allocationSize ac)\<rparr>"
  have free: "MemoryPool_free ?a sa mp = Inr ?mp" using cid fr by (simp add: MemoryPool_free_def)
  have chunk: "is_chunk ac = is_chunk ?ac" unfolding ac_def by (rule is_chunk_cong) simp_all
  have "class_ok sa i ac" using c i chunk by (simp add: class_ok_def) (simp add: ac_def owns_slab_def)
  moreover have "map allocationSize ((mp_ac mp)[i := ac]) = map allocationSize (mp_ac mp)"
    using i(1) by (intro nth_equalityI) (auto simp: nth_list_update ac_def)
  moreover have "class_ok sa j ((mp_ac mp)[i := ac] ! j)" if "class_ok sa i ac" "j < length (mp_ac mp)" for j
    using that pool_ok_class [OF ok that(2)] by (cases "j = i") auto
  ultimately have "pool_ok sa ?mp" using ok by (simp add: pool_ok_def)
  moreover have "chunk_live ?mp k" if k: "chunk_live mp k" "fst k \<noteq> ?a" for k
  proof -
    obtain j where j: "j < length (mp_ac mp)" "is_chunk (mp_ac mp ! j) (fst k)" "fst k \<notin> set (freedAllocations (mp_ac mp ! j))"
      "unat (snd k) \<le> chunk_size (mp_ac mp ! j)" using k(1) by (auto simp: chunk_live_def)
    then show ?thesis unfolding chunk_live_def using k(2) chunk
      by (intro exI [of _ j]) (cases "j = i"; auto simp: ac_def)
  qed
  ultimately show thesis using that free by blast
qed

section \<open>The whole allocator\<close>

definition ma_ok :: "MemoryAllocator \<Rightarrow> (u64 \<times> u64) list \<Rightarrow> bool" where
  "ma_ok a hs \<longleftrightarrow> sa_ok (slabAllocator a) \<and> distinct (map fst hs)
     \<and> (\<exists>mp. pools (memoryPoolManager a) = [mp] \<and> pool_ok (slabAllocator a) mp \<and> (\<forall>h \<in> set hs. chunk_live mp h))"

lemma ma_allocate_ok:
  assumes ok: "ma_ok a hs" and al: "MemoryAllocator_allocate 0 sz a = Inr (a', r)" and n: "unat n \<le> unat sz"
  shows "ma_ok a' (case r of None \<Rightarrow> hs | Some p \<Rightarrow> (p, n) # hs)"
    "slabMemoryStart (slabAllocator a') = slabMemoryStart (slabAllocator a)" "slabMemorySize (slabAllocator a') = slabMemorySize (slabAllocator a)"
proof -
  obtain mp where mp: "pools (memoryPoolManager a) = [mp]" "pool_ok (slabAllocator a) mp" "\<forall>h \<in> set hs. chunk_live mp h"
    and sa: "sa_ok (slabAllocator a)" and d: "distinct (map fst hs)" using ok by (auto simp: ma_ok_def)
  obtain sa' mp' where m: "MemoryPool_allocate sz (slabAllocator a) mp = Inr (sa', mp', r)"
    and a': "a' = a\<lparr>slabAllocator := sa', memoryPoolManager := update_pool 0 mp' (memoryPoolManager a)\<rparr>"
    using al mp(1) by (auto simp: MemoryAllocator_allocate_def getPoolById_def split: sum.splits)
  have p: "pool_alloc (slabAllocator a) mp sa' mp' sz r" using MemoryPool_allocate_spec [OF sa mp(2) m] by blast
  then show "slabMemoryStart (slabAllocator a') = slabMemoryStart (slabAllocator a)" "slabMemorySize (slabAllocator a') = slabMemorySize (slabAllocator a)"
    by (simp_all add: a' pool_alloc_def)
  have "\<forall>h \<in> set hs. chunk_live mp' h \<and> r \<noteq> Some (fst h)" using p mp(3) unfolding pool_alloc_def by blast
  then show "ma_ok a' (case r of None \<Rightarrow> hs | Some p \<Rightarrow> (p, n) # hs)"
    using p n mp(1) d by (auto simp: ma_ok_def a' pool_alloc_def split: option.splits)
qed

lemma ma_free_ok:
  assumes ok: "ma_ok a (xs @ h # ys)"
  obtains a' where "MemoryAllocator_free (fst h) a = Inr a'" "ma_ok a' (xs @ ys)" "slabAllocator a' = slabAllocator a"
proof -
  obtain mp where mp: "pools (memoryPoolManager a) = [mp]" "pool_ok (slabAllocator a) mp" "\<forall>k \<in> set (xs @ h # ys). chunk_live mp k"
    and sa: "sa_ok (slabAllocator a)" and d: "distinct (map fst (xs @ h # ys))" using ok unfolding ma_ok_def by blast
  then have l: "chunk_live mp h" by simp
  obtain mp' where f: "MemoryPool_free (fst h) (slabAllocator a) mp = Inr mp'" "pool_ok (slabAllocator a) mp'"
    "\<And>k. chunk_live mp k \<Longrightarrow> fst k \<noteq> fst h \<Longrightarrow> chunk_live mp' k" using MemoryPool_free_spec [OF sa mp(2) l] by metis
  obtain i where i: "i < length (mp_ac mp)" "is_chunk (mp_ac mp ! i) (fst h)" using l by (auto simp: chunk_live_def)
  obtain hd where hd: "getSlabHeader (slabAllocator a) (fst h) = Some hd" "h_poolId hd = 0"
    using is_chunk_header [OF sa pool_ok_class [OF mp(2) i(1)] i(2)] by blast
  let ?a = "a\<lparr>memoryPoolManager := update_pool 0 mp' (memoryPoolManager a)\<rparr>"
  have e: "MemoryAllocator_free (fst h) a = Inr ?a"
    using hd mp(1) f(1) by (simp add: MemoryAllocator_free_def getPoolById_def)
  have "\<forall>k \<in> set (xs @ ys). chunk_live mp' k" using mp(3) d by (auto intro!: f(3) simp: rev_image_eqI)
  then have "ma_ok ?a (xs @ ys)" using f(2) mp(1) d sa by (auto simp: ma_ok_def)
  then show thesis using that [OF e] by simp
qed

lemma ma_disjoint:
  assumes ok: "ma_ok a (xs @ h # ys)" and k: "k \<in> set xs \<union> set ys"
  shows "disjoint_regions (unat (fst h), unat (snd h)) (unat (fst k), unat (snd k))"
proof -
  obtain mp where mp: "pool_ok (slabAllocator a) mp" "\<forall>k \<in> set (xs @ h # ys). chunk_live mp k"
    and sa: "sa_ok (slabAllocator a)" and d: "distinct (map fst (xs @ h # ys))" using ok unfolding ma_ok_def by blast
  obtain i where i: "i < length (mp_ac mp)" "is_chunk (mp_ac mp ! i) (fst h)" "unat (snd h) \<le> chunk_size (mp_ac mp ! i)"
    using mp(2) by (auto simp: chunk_live_def)
  have "chunk_live mp k" using mp(2) k by auto
  then obtain j where j: "j < length (mp_ac mp)" "is_chunk (mp_ac mp ! j) (fst k)" "unat (snd k) \<le> chunk_size (mp_ac mp ! j)"
    by (auto simp: chunk_live_def)
  have "fst h \<noteq> fst k" using d k by (auto simp: rev_image_eqI)
  from chunks_disjoint [OF sa pool_ok_class [OF mp(1) i(1)] i(2) pool_ok_class [OF mp(1) j(1)] j(2) this]
  show ?thesis using i(3) j(3) disjoint_regions_sub by blast
qed

lemma ma_within:
  assumes ok: "ma_ok a hs" and h: "h \<in> set hs"
  shows "within_region (unat (slabMemoryStart (slabAllocator a)), unat (slabMemorySize (slabAllocator a))) (unat (fst h), unat (snd h))"
proof -
  obtain mp where mp: "pool_ok (slabAllocator a) mp" "chunk_live mp h" and sa: "sa_ok (slabAllocator a)"
    using ok h unfolding ma_ok_def by blast
  obtain i where i: "i < length (mp_ac mp)" "is_chunk (mp_ac mp ! i) (fst h)" "unat (snd h) \<le> chunk_size (mp_ac mp ! i)"
    using mp(2) by (auto simp: chunk_live_def)
  obtain s where s: "chunk_in (mp_ac mp ! i) s (fst h)" using i(2) by (auto simp: is_chunk_def)
  note c = chunk_in_slab [OF sa pool_ok_class [OF mp(1) i(1)] s]
  have "isValidSlab (slabAllocator a) s" using c(3) by (simp add: owns_slab_def)
  from sa_ok_valid_slab [OF sa this] show ?thesis using c(1,2) i(3) by (simp add: within_region_def)
qed

end
