(* ===== verification/Store_Metrics.thy ===== *)
theory Store_Metrics
  imports Complex_Main Store_Types
begin

text \<open>
  The gauges and counters of \<open>MasterMetricManager\<close> that the store updates. The values are
  \<open>int64_t\<close>: a 64-bit word, whose wrap-around is that of the atomic additions, read with its
  sign. The histogram of value sizes is the list of the observations.
\<close>

text \<open>The operations that have a request and a failure counter, and the batch operations.\<close>

datatype rpc_op =
  Op_exist_key | Op_put_start | Op_put_end | Op_put_revoke | Op_get_replica_list
  | Op_get_replica_list_by_regex | Op_remove | Op_remove_by_regex | Op_remove_all | Op_mount_segment
  | Op_unmount_segment | Op_remount_segment | Op_ping

datatype batch_op = Batch_exist_key | Batch_get_replica_list | Batch_put_start | Batch_put_end | Batch_put_revoke

datatype counter =
    requests rpc_op | failures rpc_op
  | batch_requests batch_op | batch_failures batch_op | batch_partial_successes batch_op
  | batch_items batch_op | batch_failed_items batch_op
  | eviction_success | eviction_attempts | evicted_key_count | evicted_size

record MasterMetrics =
  mem_allocated_size :: u64
  mem_total_capacity :: u64
  file_allocated_size :: u64
  file_total_capacity :: u64
  key_count :: u64
  soft_pin_key_count :: u64
  active_clients :: u64
  value_size_distribution :: "u64 list"
  counters :: "counter \<Rightarrow> u64"

definition inc_allocated_mem_size :: "u64 \<Rightarrow> MasterMetrics \<Rightarrow> MasterMetrics" where
  "inc_allocated_mem_size val m = m\<lparr>mem_allocated_size := mem_allocated_size m + val\<rparr>"

definition dec_allocated_mem_size :: "u64 \<Rightarrow> MasterMetrics \<Rightarrow> MasterMetrics" where
  "dec_allocated_mem_size val m = m\<lparr>mem_allocated_size := mem_allocated_size m - val\<rparr>"

definition inc_total_mem_capacity :: "u64 \<Rightarrow> MasterMetrics \<Rightarrow> MasterMetrics" where
  "inc_total_mem_capacity val m = m\<lparr>mem_total_capacity := mem_total_capacity m + val\<rparr>"

definition dec_total_mem_capacity :: "u64 \<Rightarrow> MasterMetrics \<Rightarrow> MasterMetrics" where
  "dec_total_mem_capacity val m = m\<lparr>mem_total_capacity := mem_total_capacity m - val\<rparr>"

definition inc_allocated_file_size :: "u64 \<Rightarrow> MasterMetrics \<Rightarrow> MasterMetrics" where
  "inc_allocated_file_size val m = m\<lparr>file_allocated_size := file_allocated_size m + val\<rparr>"

definition dec_allocated_file_size :: "u64 \<Rightarrow> MasterMetrics \<Rightarrow> MasterMetrics" where
  "dec_allocated_file_size val m = m\<lparr>file_allocated_size := file_allocated_size m - val\<rparr>"

definition inc_total_file_capacity :: "u64 \<Rightarrow> MasterMetrics \<Rightarrow> MasterMetrics" where
  "inc_total_file_capacity val m = m\<lparr>file_total_capacity := file_total_capacity m + val\<rparr>"

definition dec_total_file_capacity :: "u64 \<Rightarrow> MasterMetrics \<Rightarrow> MasterMetrics" where
  "dec_total_file_capacity val m = m\<lparr>file_total_capacity := file_total_capacity m - val\<rparr>"

definition inc_key_count :: "u64 \<Rightarrow> MasterMetrics \<Rightarrow> MasterMetrics" where
  "inc_key_count val m = m\<lparr>key_count := key_count m + val\<rparr>"

definition dec_key_count :: "u64 \<Rightarrow> MasterMetrics \<Rightarrow> MasterMetrics" where
  "dec_key_count val m = m\<lparr>key_count := key_count m - val\<rparr>"

definition inc_soft_pin_key_count :: "u64 \<Rightarrow> MasterMetrics \<Rightarrow> MasterMetrics" where
  "inc_soft_pin_key_count val m = m\<lparr>soft_pin_key_count := soft_pin_key_count m + val\<rparr>"

definition dec_soft_pin_key_count :: "u64 \<Rightarrow> MasterMetrics \<Rightarrow> MasterMetrics" where
  "dec_soft_pin_key_count val m = m\<lparr>soft_pin_key_count := soft_pin_key_count m - val\<rparr>"

definition inc_active_clients :: "u64 \<Rightarrow> MasterMetrics \<Rightarrow> MasterMetrics" where
  "inc_active_clients val m = m\<lparr>active_clients := active_clients m + val\<rparr>"

definition dec_active_clients :: "u64 \<Rightarrow> MasterMetrics \<Rightarrow> MasterMetrics" where
  "dec_active_clients val m = m\<lparr>active_clients := active_clients m - val\<rparr>"

definition observe_value_size :: "u64 \<Rightarrow> MasterMetrics \<Rightarrow> MasterMetrics" where
  "observe_value_size sz m = m\<lparr>value_size_distribution := value_size_distribution m @ [sz]\<rparr>"

abbreviation inc_counter :: "counter \<Rightarrow> u64 \<Rightarrow> MasterMetrics \<Rightarrow> MasterMetrics" where
  "inc_counter c val m \<equiv> m\<lparr>counters := (counters m)(c := counters m c + val)\<rparr>"

definition inc_requests :: "rpc_op \<Rightarrow> MasterMetrics \<Rightarrow> MasterMetrics" where
  "inc_requests op m = inc_counter (requests op) 1 m"

definition inc_failures :: "rpc_op \<Rightarrow> MasterMetrics \<Rightarrow> MasterMetrics" where
  "inc_failures op m = inc_counter (failures op) 1 m"

definition inc_batch_requests :: "batch_op \<Rightarrow> u64 \<Rightarrow> MasterMetrics \<Rightarrow> MasterMetrics" where
  "inc_batch_requests op items m = inc_counter (batch_items op) items (inc_counter (batch_requests op) 1 m)"

definition inc_batch_failures :: "batch_op \<Rightarrow> u64 \<Rightarrow> MasterMetrics \<Rightarrow> MasterMetrics" where
  "inc_batch_failures op failed_items m =
     inc_counter (batch_failed_items op) failed_items (inc_counter (batch_failures op) 1 m)"

definition inc_batch_partial_success :: "batch_op \<Rightarrow> u64 \<Rightarrow> MasterMetrics \<Rightarrow> MasterMetrics" where
  "inc_batch_partial_success op failed_items m =
     inc_counter (batch_failed_items op) failed_items (inc_counter (batch_partial_successes op) 1 m)"

definition inc_eviction_success :: "u64 \<Rightarrow> u64 \<Rightarrow> MasterMetrics \<Rightarrow> MasterMetrics" where
  "inc_eviction_success keys sz m =
     inc_counter eviction_attempts 1 (inc_counter eviction_success 1
       (inc_counter evicted_size sz (inc_counter evicted_key_count keys m)))"

definition inc_eviction_fail :: "MasterMetrics \<Rightarrow> MasterMetrics" where
  "inc_eviction_fail m = inc_counter eviction_attempts 1 m"

text \<open>
  The ratios in \<open>double\<close>: \<open>rnd\<close> is the rounding of the machine's floating-point operations, an
  argument here; what is shown below does not depend on it.
\<close>

definition get_global_mem_used_ratio :: "(rat \<Rightarrow> rat) \<Rightarrow> MasterMetrics \<Rightarrow> rat" where
  "get_global_mem_used_ratio rnd m =
     (let allocated = rnd (of_int (sint (mem_allocated_size m)));
          capacity = rnd (of_int (sint (mem_total_capacity m)))
      in if capacity = 0 then 0 else rnd (allocated / capacity))"

definition get_global_file_used_ratio :: "(rat \<Rightarrow> rat) \<Rightarrow> MasterMetrics \<Rightarrow> rat" where
  "get_global_file_used_ratio rnd m =
     (let allocated = rnd (of_int (sint (file_allocated_size m)));
          capacity = rnd (of_int (sint (file_total_capacity m)))
      in if capacity = 0 then 0 else rnd (allocated / capacity))"

lemmas metric_defs = inc_allocated_mem_size_def dec_allocated_mem_size_def inc_total_mem_capacity_def dec_total_mem_capacity_def
  inc_allocated_file_size_def dec_allocated_file_size_def inc_total_file_capacity_def dec_total_file_capacity_def
  inc_key_count_def dec_key_count_def inc_soft_pin_key_count_def dec_soft_pin_key_count_def
  inc_active_clients_def dec_active_clients_def observe_value_size_def

end
