(* ===== verification/Buffer_Allocator.thy ===== *)
theory Buffer_Allocator
  imports Offset_Allocator Slab_Safe Store_Metrics
begin

text \<open>
  The buffer allocators of \<open>allocator.h\<close> and \<open>allocator.cpp\<close>: \<open>OffsetBufferAllocator\<close> over the offset
  allocator and \<open>CachelibBufferAllocator\<close> over the slab allocator, behind the interface
  \<open>BufferAllocatorBase\<close>. A buffer refers to its allocator by a weak pointer: in the model the
  number under which the allocator is kept, which is absent once the allocator is destroyed.
\<close>

section \<open>State\<close>

record CachelibBufferAllocator =
  cb_segment_name :: string
  cb_base :: u64
  cb_total_size :: u64
  cb_cur_size :: u64
  cb_transport_endpoint :: string
  header_region_size :: u64
  memory_allocator :: MemoryAllocator
  pool_id :: int

record OffsetBufferAllocator =
  ob_segment_name :: string
  ob_base :: u64
  ob_total_size :: u64
  ob_cur_size :: u64
  ob_transport_endpoint :: string
  offset_allocator :: "OffsetAllocator option"

datatype BufferAllocator = Cachelib CachelibBufferAllocator | Offset OffsetBufferAllocator

type_synonym allocator_id = nat

record AllocatedBuffer =
  buf_allocator :: allocator_id
  buffer_ptr :: u64
  buf_size :: u64
  offset_handle :: "OffsetAllocationHandle option"

record BufferDescriptor =
  desc_size :: u64
  buffer_address :: u64
  transport_endpoint :: string

type_synonym allocator_heap = "allocator_id \<rightharpoonup> BufferAllocator"

section \<open>The cachelib allocator\<close>

definition main_pool :: string where "main_pool = ''main''"

definition CachelibBufferAllocator_new :: "string \<Rightarrow> u64 \<Rightarrow> u64 \<Rightarrow> string \<Rightarrow> exn + CachelibBufferAllocator" where
  "CachelibBufferAllocator_new segment_name base sz endpoint =
     (let header_size = sizeof_SlabHeader * ucast (numSlabs sz) + 1;
          zeroed = (\<lambda>_. \<lparr>h_poolId = 0, h_classId = 0, h_flags = 0, h_allocSize = 0\<rparr>)
      in case generateAllocSizes (unat Slab_kSize) 72 of
        Inl e \<Rightarrow> Inl e
      | Inr sizes \<Rightarrow>
          (case MemoryAllocator_new sizes (Some 1) zeroed header_size base sz of
             Inl e \<Rightarrow> Inl e
           | Inr a \<Rightarrow>
               (case addPool main_pool sz [] False a of
                  Inl e \<Rightarrow> Inl e
                | Inr (a, pid) \<Rightarrow>
                    Inr \<lparr>cb_segment_name = segment_name, cb_base = base, cb_total_size = sz, cb_cur_size = 0,
                         cb_transport_endpoint = endpoint, header_region_size = header_size,
                         memory_allocator = a, pool_id = pid\<rparr>)))"

definition CachelibBufferAllocator_allocate ::
  "allocator_id \<Rightarrow> u64 \<Rightarrow> CachelibBufferAllocator \<Rightarrow> MasterMetrics \<Rightarrow> CachelibBufferAllocator \<times> MasterMetrics \<times> AllocatedBuffer option" where
  "CachelibBufferAllocator_allocate self sz b m =
     (let padding_size = max sz kMinSliceSize
      in case MemoryAllocator_allocate (pool_id b) (ucast padding_size) (memory_allocator b) of
        Inl _ \<Rightarrow> (b, m, None)
      | Inr (a, None) \<Rightarrow> (b\<lparr>memory_allocator := a\<rparr>, m, None)
      | Inr (a, Some buffer) \<Rightarrow>
          (b\<lparr>memory_allocator := a, cb_cur_size := cb_cur_size b + sz\<rparr>, inc_allocated_mem_size sz m,
           Some \<lparr>buf_allocator = self, buffer_ptr = buffer, buf_size = sz, offset_handle = None\<rparr>))"

definition CachelibBufferAllocator_deallocate ::
  "AllocatedBuffer \<Rightarrow> CachelibBufferAllocator \<Rightarrow> MasterMetrics \<Rightarrow> CachelibBufferAllocator \<times> MasterMetrics" where
  "CachelibBufferAllocator_deallocate handle b m =
     (case MemoryAllocator_free (buffer_ptr handle) (memory_allocator b) of
        Inl _ \<Rightarrow> (b, m)
      | Inr a \<Rightarrow>
          (b\<lparr>memory_allocator := a, cb_cur_size := cb_cur_size b - buf_size handle\<rparr>,
           dec_allocated_mem_size (buf_size handle) m))"

section \<open>The offset buffer allocator\<close>

definition OffsetBufferAllocator_new :: "string \<Rightarrow> u64 \<Rightarrow> u64 \<Rightarrow> string \<Rightarrow> OffsetBufferAllocator" where
  "OffsetBufferAllocator_new segment_name base sz endpoint =
     (let init_capacity = sz div 4096;
          init_capacity = max init_capacity 1024;
          init_capacity = min init_capacity (64 * 1024);
          max_capacity = sz div 1024;
          max_capacity = max max_capacity (1024 * 1024);
          max_capacity = min max_capacity (64 * 1024 * 1024)
      in \<lparr>ob_segment_name = segment_name, ob_base = base, ob_total_size = sz, ob_cur_size = 0,
          ob_transport_endpoint = endpoint,
          offset_allocator = Some (OffsetAllocator_new base sz (ucast init_capacity) (ucast max_capacity))\<rparr>)"

definition OffsetBufferAllocator_allocate ::
  "allocator_id \<Rightarrow> u64 \<Rightarrow> OffsetBufferAllocator \<Rightarrow> MasterMetrics \<Rightarrow> OffsetBufferAllocator \<times> MasterMetrics \<times> AllocatedBuffer option" where
  "OffsetBufferAllocator_allocate self sz b m =
     (case offset_allocator b of
        None \<Rightarrow> (b, m, None)
      | Some w \<Rightarrow>
          (case OffsetAllocator_allocate sz w of
             (w, None) \<Rightarrow> (b\<lparr>offset_allocator := Some w\<rparr>, m, None)
           | (w, Some allocation_handle) \<Rightarrow>
               (b\<lparr>offset_allocator := Some w, ob_cur_size := ob_cur_size b + sz\<rparr>, inc_allocated_mem_size sz m,
                Some \<lparr>buf_allocator = self, buffer_ptr = real_base allocation_handle, buf_size = sz,
                      offset_handle = Some (fst (handle_move allocation_handle))\<rparr>)))"

definition OffsetBufferAllocator_deallocate ::
  "AllocatedBuffer \<Rightarrow> OffsetBufferAllocator \<Rightarrow> MasterMetrics \<Rightarrow> OffsetBufferAllocator \<times> MasterMetrics" where
  "OffsetBufferAllocator_deallocate handle b m =
     (let freed_size = buf_size handle;
          w = (case offset_handle handle of None \<Rightarrow> offset_allocator b | Some h \<Rightarrow> handle_destroy h (offset_allocator b))
      in (b\<lparr>offset_allocator := w, ob_cur_size := ob_cur_size b - freed_size\<rparr>, dec_allocated_mem_size freed_size m))"

definition OffsetBufferAllocator_getLargestFreeRegion :: "OffsetBufferAllocator \<Rightarrow> u64" where
  "OffsetBufferAllocator_getLargestFreeRegion b =
     (case offset_allocator b of None \<Rightarrow> 0 | Some w \<Rightarrow> largestFreeRegion (OffsetAllocator_storageReport w))"

section \<open>The interface\<close>

definition kAllocatorUnknownFreeSpace :: u64 where "kAllocatorUnknownFreeSpace = - 1"

fun allocator_allocate ::
  "allocator_id \<Rightarrow> u64 \<Rightarrow> BufferAllocator \<Rightarrow> MasterMetrics \<Rightarrow> BufferAllocator \<times> MasterMetrics \<times> AllocatedBuffer option" where
  "allocator_allocate self sz (Cachelib b) m = apfst Cachelib (CachelibBufferAllocator_allocate self sz b m)"
| "allocator_allocate self sz (Offset b) m = apfst Offset (OffsetBufferAllocator_allocate self sz b m)"

fun allocator_deallocate :: "AllocatedBuffer \<Rightarrow> BufferAllocator \<Rightarrow> MasterMetrics \<Rightarrow> BufferAllocator \<times> MasterMetrics" where
  "allocator_deallocate handle (Cachelib b) m = apfst Cachelib (CachelibBufferAllocator_deallocate handle b m)"
| "allocator_deallocate handle (Offset b) m = apfst Offset (OffsetBufferAllocator_deallocate handle b m)"

fun allocator_capacity :: "BufferAllocator \<Rightarrow> u64" where
  "allocator_capacity (Cachelib b) = cb_total_size b"
| "allocator_capacity (Offset b) = ob_total_size b"

fun allocator_size :: "BufferAllocator \<Rightarrow> u64" where
  "allocator_size (Cachelib b) = cb_cur_size b"
| "allocator_size (Offset b) = ob_cur_size b"

fun allocator_segment_name :: "BufferAllocator \<Rightarrow> string" where
  "allocator_segment_name (Cachelib b) = cb_segment_name b"
| "allocator_segment_name (Offset b) = ob_segment_name b"

fun allocator_endpoint :: "BufferAllocator \<Rightarrow> string" where
  "allocator_endpoint (Cachelib b) = cb_transport_endpoint b"
| "allocator_endpoint (Offset b) = ob_transport_endpoint b"

fun getLargestFreeRegion :: "BufferAllocator \<Rightarrow> u64" where
  "getLargestFreeRegion (Cachelib b) = kAllocatorUnknownFreeSpace"
| "getLargestFreeRegion (Offset b) = OffsetBufferAllocator_getLargestFreeRegion b"

section \<open>Allocated buffers\<close>

definition isAllocatorValid :: "allocator_heap \<Rightarrow> AllocatedBuffer \<Rightarrow> bool" where
  "isAllocatorValid H b \<longleftrightarrow> H (buf_allocator b) \<noteq> None"

definition getSegmentName :: "allocator_heap \<Rightarrow> AllocatedBuffer \<Rightarrow> string" where
  "getSegmentName H b = (case H (buf_allocator b) of None \<Rightarrow> [] | Some alloc \<Rightarrow> allocator_segment_name alloc)"

definition get_buffer_descriptor :: "allocator_heap \<Rightarrow> AllocatedBuffer \<Rightarrow> BufferDescriptor" where
  "get_buffer_descriptor H b =
     \<lparr>desc_size = buf_size b, buffer_address = buffer_ptr b,
      transport_endpoint = (case H (buf_allocator b) of None \<Rightarrow> [] | Some alloc \<Rightarrow> allocator_endpoint alloc)\<rparr>"

text \<open>The destructor: the buffer goes back to its allocator, if that is still there.\<close>

definition destroy_buffer :: "AllocatedBuffer \<Rightarrow> allocator_heap \<times> MasterMetrics \<Rightarrow> allocator_heap \<times> MasterMetrics" where
  "destroy_buffer b = (\<lambda>(H, m).
     case H (buf_allocator b) of
       Some alloc \<Rightarrow> (case allocator_deallocate b alloc m of (alloc, m) \<Rightarrow> (H(buf_allocator b \<mapsto> alloc), m))
     | None \<Rightarrow> (H, dec_allocated_mem_size (buf_size b) m))"

end
