(* ===== verification/Held_Allocator.thy ===== *)
theory Held_Allocator
  imports Allocator_Interface "HOL-Library.Multiset"
begin

text \<open>
  The contract of an allocator for clients that keep their handles in many places and give
  them back in any order: the same laws as in \<open>Allocator_Interface\<close>, over the multiset of the
  handles that are held. Every allocator with the first contract has the second.
\<close>

locale held_allocator =
  fixes held :: "'s \<Rightarrow> 'h multiset \<Rightarrow> bool"
    and valid :: "'s \<Rightarrow> 'n \<Rightarrow> bool"
    and al :: "'n \<Rightarrow> 's \<Rightarrow> 's \<times> 'h option"
    and rel :: "'h \<Rightarrow> 's \<Rightarrow> 's"
    and region :: "'s \<Rightarrow> 'h \<Rightarrow> nat \<times> nat"
    and range :: "'s \<Rightarrow> nat \<times> nat"
  assumes al_held: "held s M \<Longrightarrow> valid s n \<Longrightarrow> al n s = (s', r) \<Longrightarrow> held s' (case r of None \<Rightarrow> M | Some h \<Rightarrow> add_mset h M)"
    and al_keeps: "held s M \<Longrightarrow> al n s = (s', r) \<Longrightarrow> range s' = range s \<and> valid s' = valid s"
    and rel_held: "held s M \<Longrightarrow> h \<in># M \<Longrightarrow> held (rel h s) (M - {#h#})"
    and rel_keeps: "held s M \<Longrightarrow> h \<in># M \<Longrightarrow> range (rel h s) = range s \<and> valid (rel h s) = valid s"
    and held_disjoint: "held s M \<Longrightarrow> {#h, k#} \<subseteq># M \<Longrightarrow> disjoint_regions (region s h) (region s k)"
    and held_within: "held s M \<Longrightarrow> h \<in># M \<Longrightarrow> within_region (range s) (region s h)"
begin

text \<open>Giving back many handles, in any order.\<close>

lemma rel_all_held:
  assumes "held s M" and "mset hs \<subseteq># M"
  shows "held (fold rel hs s) (M - mset hs) \<and> range (fold rel hs s) = range s \<and> valid (fold rel hs s) = valid s"
  using assms
proof (induction hs arbitrary: s M)
  case (Cons h hs)
  have h: "h \<in># M" and "mset hs \<subseteq># M - {#h#}" using Cons.prems(2) by (simp_all add: insert_subset_eq_iff)
  from Cons.IH [OF rel_held [OF Cons.prems(1) h] this(2)] rel_keeps [OF Cons.prems(1) h]
  show ?case by (simp add: diff_diff_add_mset)
qed simp

lemma held_one_handle:
  assumes "held s M" and "count M h \<ge> 2" shows "snd (region s h) = 0"
proof -
  have "{#h, h#} \<subseteq># M" using assms(2) by (simp add: subseteq_mset_def)
  from held_disjoint [OF assms(1) this] show ?thesis by (simp add: disjoint_regions_def)
qed

end

sublocale handle_allocator \<subseteq> ms: held_allocator "\<lambda>s M. \<exists>hs. mset hs = M \<and> ok s hs" valid al rel region range
proof
  fix s M n s' r assume h: "\<exists>hs. mset hs = M \<and> ok s hs" and a: "al n s = (s', r)"
  then show "range s' = range s \<and> valid s' = valid s" using al_range by blast
  assume "valid s n"
  then show "\<exists>hs. mset hs = (case r of None \<Rightarrow> M | Some h \<Rightarrow> add_mset h M) \<and> ok s' hs"
    using h al_ok [OF _ _ a] by (cases r) (metis mset.simps(2) option.simps(4,5))+
next
  fix s M h assume "\<exists>hs. mset hs = M \<and> ok s hs" and "h \<in># M"
  then obtain xs ys where x: "mset (xs @ h # ys) = M" "ok s (xs @ h # ys)" by (metis split_list set_mset_mset)
  show "\<exists>hs. mset hs = M - {#h#} \<and> ok (rel h s) hs" using x rel_ok [OF x(2)] by (intro exI [of _ "xs @ ys"]) auto
  show "range (rel h s) = range s \<and> valid (rel h s) = valid s" by (rule rel_range [OF x(2)])
  show "within_region (range s) (region s h)" using ok_within [OF x(2)] by simp
next
  fix s M h k assume "\<exists>hs. mset hs = M \<and> ok s hs" and sub: "{#h, k#} \<subseteq># M"
  moreover have "h \<in># M" using sub by (auto dest: mset_subset_eqD)
  ultimately obtain xs ys where x: "mset (xs @ h # ys) = M" "ok s (xs @ h # ys)" by (metis split_list set_mset_mset)
  have "{#k#} \<subseteq># mset (xs @ ys)" using sub x(1) by (simp add: subset_eq_diff_conv flip: x(1))
  then have "k \<in> set xs \<union> set ys" by simp
  then show "disjoint_regions (region s h) (region s k)" by (rule ok_disjoint [OF x(2)])
qed

end
