(* ===== verification/Buffer_Contract.thy ===== *)
theory Buffer_Contract
  imports Buffer_Allocator Held_Allocator
begin

text \<open>
  Both buffer allocators keep the contract of an allocator: the buffers that exist of an
  allocator occupy disjoint pieces of its segment. On top of it, the heap of all allocators
  of the store, with the buffers that refer to them.
\<close>

section \<open>A new slab allocator\<close>

lemma createAllocationClasses_spec:
  "0 \<le> cid \<Longrightarrow> createAllocationClasses pid cid sizes = Inr acs \<Longrightarrow>
   length acs = length sizes \<and> map allocationSize acs = sizes
   \<and> (\<forall>i < length acs. AllocationClass_new (cid + int i) pid (sizes ! i) = Inr (acs ! i) \<and> kMinAllocSize \<le> sizes ! i)"
proof (induction sizes arbitrary: cid acs)
  case (Cons sz sizes)
  obtain ac acs' where c: "kMinAllocSize \<le> sz" "AllocationClass_new cid pid sz = Inr ac"
    "createAllocationClasses pid (cid + 1) sizes = Inr acs'" "acs = ac # acs'"
    using Cons.prems by (auto split: if_splits sum.splits)
  have z: "allocationSize ac = sz" using c(2) by (auto simp: AllocationClass_new_def split: if_splits)
  have IH: "length acs' = length sizes" "map allocationSize acs' = sizes"
    "\<forall>i < length acs'. AllocationClass_new (cid + 1 + int i) pid (sizes ! i) = Inr (acs' ! i) \<and> kMinAllocSize \<le> sizes ! i"
    using Cons.IH [OF _ c(3)] Cons.prems(1) by auto
  have "AllocationClass_new (cid + int i) pid ((sz # sizes) ! i) = Inr (acs ! i) \<and> kMinAllocSize \<le> (sz # sizes) ! i"
    if "i < length acs" for i
    using that IH(3) c by (cases i) (auto simp: algebra_simps)
  then show ?case using IH(1,2) c(4) z by simp
qed simp

lemma AllocationClass_new_ok:
  assumes "AllocationClass_new (int i) 0 sz = Inr ac" "kMinAllocSize \<le> sz" shows "class_ok sa i ac"
  using assms by (auto simp: AllocationClass_new_def class_ok_def class_full_def kMinAllocSize_def word_le_nat_alt word_less_nat_alt split: if_splits)

lemma is_sorted_adjacent: "is_sorted xs \<Longrightarrow> adjacent_find xs = None \<Longrightarrow> sorted_wrt (<) xs"
proof (induction xs rule: is_sorted.induct)
  case (1 a b xs)
  then have "a < b" "sorted_wrt (<) (b # xs)" by (auto split: if_splits)
  then show ?case by (auto intro: less_trans)
qed auto

lemma mod_kSize_iff: "w mod Slab_kSize = 0 \<longleftrightarrow> unat w mod 16777216 = 0"
  by (simp add: word_unat_eq_iff unat_mod)

lemma ma_new_ok:
  assumes new: "MemoryAllocator_new sizes hs header hsize start sz = Inr a" and pool: "addPool name sz [] False a = Inr (a', pid)"
    and range: "unat start + unat sz < 2 ^ 64"
  shows "ma_ok a' []" "pid = 0" "slabMemoryStart (slabAllocator a') = start" "slabMemorySize (slabAllocator a') = sz"
proof -
  obtain sa where sa: "SlabAllocator_new hs header hsize start sz = Inr sa" and a: "config_allocSizes a = sizes" "slabAllocator a = sa"
    "pools (memoryPoolManager a) = []"
    using new by (auto simp: MemoryAllocator_new_def split: sum.splits if_splits)
  have s: "slabMemoryStart sa = start" "slabMemorySize sa = sz" "nextSlabAllocation sa = start" "sa_freeSlabs sa = []" "sa_canAllocate sa"
    "start mod Slab_kSize = 0" "sz mod Slab_kSize = 0" using sa by (auto simp: SlabAllocator_new_def split: if_splits)
  obtain mp where mp: "MemoryPool_new 0 sz sa sizes = Inr mp" "\<not> getRemainingSizeLocked sa (memoryPoolManager a) < sz"
    and a': "slabAllocator a' = sa" "pools (memoryPoolManager a') = [mp]" and "pid = 0"
    using pool a by (auto simp: addPool_def createNewPool_def Let_def split: sum.splits if_splits)
  then show "pid = 0" "slabMemoryStart (slabAllocator a') = start" "slabMemorySize (slabAllocator a') = sz" by (simp_all add: s)
  have n: "unat (getNumUsableSlabs sa) = unat sz div 16777216 mod 2 ^ 32"
    by (simp add: getNumUsableSlabs_def getSlabMemoryEnd_def s kNumSlabBits_def unsigned_ucast_eq unat_drop_bit_div take_bit_eq_mod)
  have "unat (getNumUsableSlabs sa) < 2 ^ 32" using n by simp
  then have "unat (ucast (getNumUsableSlabs sa) * Slab_kSize :: u64) = unat (getNumUsableSlabs sa) * 16777216"
    by (simp add: unat_word_ariths)
  then have "unat sz \<le> unat (getNumUsableSlabs sa) * 16777216"
    using mp(2) a(3) by (simp add: getRemainingSizeLocked_def word_less_nat_alt not_less)
  then have sz: "unat sz < 2 ^ 56" using n \<open>unat (getNumUsableSlabs sa) < 2 ^ 32\<close> by simp
  have "unat start mod 16777216 = 0" "unat sz mod 16777216 = 0"
    using s(6,7) by (simp_all add: mod_kSize_iff)
  then have "sa_ok sa" using s range sz by (auto simp: sa_ok_def)
  moreover obtain acs where acs: "createAllocationClasses 0 0 sizes = Inr acs" and mpe: "mp = \<lparr>mp_id = 0, maxSize = sz, currSlabAllocSize = 0,
      currAllocSize = 0, mp_freeSlabs = [], acSizes = sizes, mp_ac = acs, curSlabsAdvised = 0\<rparr>" and ch: "MemoryPool_checkState sa mp = None"
    using mp(1) by (auto simp: MemoryPool_new_def Let_def split: sum.splits option.splits)
  have cl: "length acs = length sizes" "map allocationSize acs = sizes"
    "\<And>i. i < length acs \<Longrightarrow> AllocationClass_new (int i) 0 (sizes ! i) = Inr (acs ! i) \<and> kMinAllocSize \<le> sizes ! i"
    using createAllocationClasses_spec [OF _ acs] by auto
  have "is_sorted sizes" "adjacent_find sizes = None" "sizes \<noteq> []"
    using ch by (auto simp: MemoryPool_checkState_def mpe split: if_splits)
  then have "sorted_wrt (<) sizes" "sizes \<noteq> []" using is_sorted_adjacent by auto
  moreover have "class_ok sa i (acs ! i)" if "i < length acs" for i
    using cl(3) [OF that] AllocationClass_new_ok by blast
  ultimately have "sa_ok sa" "pool_ok sa mp" using cl(1,2) by (simp_all add: pool_ok_def mpe s) auto
  then show "ma_ok a' []" using a' by (simp add: ma_ok_def)
qed

section \<open>The contract of the buffer allocators\<close>

definition buffer_region :: "AllocatedBuffer \<Rightarrow> nat \<times> nat" where
  "buffer_region b = (unat (buffer_ptr b), unat (buf_size b))"

text \<open>\<open>ba_ok i b bufs\<close>: the allocator \<open>b\<close>, kept under the number \<open>i\<close>, and its buffers \<open>bufs\<close> agree.\<close>

fun ba_ok :: "allocator_id \<Rightarrow> BufferAllocator \<Rightarrow> AllocatedBuffer list \<Rightarrow> bool" where
  "ba_ok i (Cachelib b) bufs \<longleftrightarrow>
     ma_ok (memory_allocator b) (map (\<lambda>x. (buffer_ptr x, buf_size x)) bufs) \<and> pool_id b = 0
     \<and> slabMemoryStart (slabAllocator (memory_allocator b)) = cb_base b
     \<and> slabMemorySize (slabAllocator (memory_allocator b)) = cb_total_size b
     \<and> (\<forall>x \<in> set bufs. buf_allocator x = i \<and> offset_handle x = None) \<and> cb_cur_size b = sum_list (map buf_size bufs)"
| "ba_ok i (Offset b) bufs \<longleftrightarrow>
     (\<exists>w. offset_allocator b = Some w \<and> wa_ok w (map (the \<circ> offset_handle) bufs)
        \<and> m_base w = ob_base b \<and> m_capacity w = ob_total_size b)
     \<and> (\<forall>x \<in> set bufs. buf_allocator x = i \<and> (\<exists>h. offset_handle x = Some h \<and> buffer_ptr x = real_base h \<and> buf_size x = requested_size h))
     \<and> ob_cur_size b = sum_list (map buf_size bufs)"

fun ba_range :: "BufferAllocator \<Rightarrow> nat \<times> nat" where
  "ba_range (Cachelib b) = (unat (cb_base b), unat (cb_total_size b))"
| "ba_range (Offset b) = (unat (ob_base b), unat (ob_total_size b))"

text \<open>The requests for which the arithmetic of the allocator does not wrap.\<close>

fun ba_valid :: "BufferAllocator \<Rightarrow> u64 \<Rightarrow> bool" where
  "ba_valid (Cachelib b) sz \<longleftrightarrow> unat sz < 2 ^ 32"
| "ba_valid (Offset b) sz \<longleftrightarrow> unat sz \<le> 2 ^ 63"

type_synonym allocator_state = "allocator_id \<times> BufferAllocator \<times> MasterMetrics"

definition st_allocate :: "u64 \<Rightarrow> allocator_state \<Rightarrow> allocator_state \<times> AllocatedBuffer option" where
  "st_allocate sz = (\<lambda>(i, b, m). case allocator_allocate i sz b m of (b, m, r) \<Rightarrow> ((i, b, m), r))"

definition st_deallocate :: "AllocatedBuffer \<Rightarrow> allocator_state \<Rightarrow> allocator_state" where
  "st_deallocate x = (\<lambda>(i, b, m). (i, allocator_deallocate x b m))"

lemma cachelib_allocate_ok:
  assumes ok: "ba_ok i (Cachelib b) bufs" and v: "unat sz < 2 ^ 32" and a: "CachelibBufferAllocator_allocate i sz b m = (b', m', r)"
  shows "ba_ok i (Cachelib b') (case r of None \<Rightarrow> bufs | Some x \<Rightarrow> x # bufs) \<and> ba_range (Cachelib b') = ba_range (Cachelib b)"
proof -
  let ?hs = "map (\<lambda>x. (buffer_ptr x, buf_size x)) bufs" and ?n = "ucast (max sz kMinSliceSize) :: u32"
  have n: "unat sz \<le> unat ?n"
    using v by (auto simp: max_def kMinSliceSize_def unsigned_ucast_eq take_bit_nat_eq_self word_le_nat_alt)
  have okm: "ma_ok (memory_allocator b) ?hs" "pool_id b = 0" using ok by auto
  show ?thesis
  proof (cases "MemoryAllocator_allocate 0 ?n (memory_allocator b)")
    case (Inl e)
    then show ?thesis using ok a okm by (auto simp: CachelibBufferAllocator_allocate_def Let_def)
  next
    case (Inr p)
    obtain a' q where p: "p = (a', q)" by (cases p)
    note s = ma_allocate_ok [OF okm(1) Inr [unfolded p] n]
    show ?thesis
      using ok a okm s Inr p by (cases q) (auto simp: CachelibBufferAllocator_allocate_def Let_def algebra_simps)
  qed
qed

lemma cachelib_deallocate_ok:
  assumes ok: "ba_ok i (Cachelib b) (xs @ x # ys)" and d: "CachelibBufferAllocator_deallocate x b m = (b', m')"
  shows "ba_ok i (Cachelib b') (xs @ ys) \<and> ba_range (Cachelib b') = ba_range (Cachelib b)" "m' = dec_allocated_mem_size (buf_size x) m"
proof -
  let ?f = "\<lambda>x. (buffer_ptr x, buf_size x)"
  have "ma_ok (memory_allocator b) (map ?f xs @ ?f x # map ?f ys)" using ok by simp
  from ma_free_ok [OF this, unfolded fst_conv] obtain a' where a': "MemoryAllocator_free (buffer_ptr x) (memory_allocator b) = Inr a'"
    "ma_ok a' (map ?f xs @ map ?f ys)" "slabAllocator a' = slabAllocator (memory_allocator b)" by blast
  then show "ba_ok i (Cachelib b') (xs @ ys) \<and> ba_range (Cachelib b') = ba_range (Cachelib b)" "m' = dec_allocated_mem_size (buf_size x) m"
    using d ok by (simp_all add: CachelibBufferAllocator_deallocate_def) auto
qed

lemma offset_allocate_ok:
  assumes ok: "ba_ok i (Offset b) bufs" and v: "unat sz \<le> 2 ^ 63" and a: "OffsetBufferAllocator_allocate i sz b m = (b', m', r)"
  shows "ba_ok i (Offset b') (case r of None \<Rightarrow> bufs | Some x \<Rightarrow> x # bufs) \<and> ba_range (Offset b') = ba_range (Offset b)"
proof -
  obtain w where w: "offset_allocator b = Some w" "wa_ok w (map (the \<circ> offset_handle) bufs)" "m_base w = ob_base b" "m_capacity w = ob_total_size b"
    using ok by auto
  obtain w' q where al: "OffsetAllocator_allocate sz w = (w', q)" by (cases "OffsetAllocator_allocate sz w")
  have v': "wa_valid w sz" by (rule wa_ok_small_valid [OF w(2) v])
  have o: "wa_ok w' (case q of None \<Rightarrow> map (the \<circ> offset_handle) bufs | Some h \<Rightarrow> h # map (the \<circ> offset_handle) bufs)"
    using wa.al_ok [OF w(2) v' al] .
  have req: "requested_size h = sz" if "q = Some h" for h
    using that al w(1) by (auto simp: OffsetAllocator_allocate_def Let_def split: if_splits option.splits prod.splits)
  have same: "m_base w' = m_base w" "m_capacity w' = m_capacity w"
    using al by (auto simp: OffsetAllocator_allocate_def Let_def split: if_splits option.splits prod.splits)
  show ?thesis
    using ok a w al o same req
    by (cases q) (auto simp: OffsetBufferAllocator_allocate_def handle_move_def algebra_simps)
qed

lemma offset_deallocate_ok:
  assumes ok: "ba_ok i (Offset b) (xs @ x # ys)" and d: "OffsetBufferAllocator_deallocate x b m = (b', m')"
  shows "ba_ok i (Offset b') (xs @ ys) \<and> ba_range (Offset b') = ba_range (Offset b)" "m' = dec_allocated_mem_size (buf_size x) m"
proof -
  obtain w where w: "offset_allocator b = Some w" "wa_ok w (map (the \<circ> offset_handle) xs @ the (offset_handle x) # map (the \<circ> offset_handle) ys)"
    "m_base w = ob_base b" "m_capacity w = ob_total_size b" using ok by auto
  obtain h where h: "offset_handle x = Some h" "requested_size h = buf_size x" using ok by auto
  have o: "m_owner h" using w(2) h by (auto simp: wa_ok_def handle_ok_def)
  have "wa_ok (wa_release h w) (map (the \<circ> offset_handle) xs @ map (the \<circ> offset_handle) ys)" using wa.rel_ok [OF w(2)] h by simp
  moreover have "handle_destroy h (Some w) = Some (wa_release h w)" using o by (simp add: wa_release_def handle_destroy_def)
  moreover have "m_base (wa_release h w) = m_base w" "m_capacity (wa_release h w) = m_capacity w"
    using o by (simp_all add: wa_release_owner freeAllocation_def split: option.splits)
  ultimately show "ba_ok i (Offset b') (xs @ ys) \<and> ba_range (Offset b') = ba_range (Offset b)" "m' = dec_allocated_mem_size (buf_size x) m"
    using d ok w h by (auto simp: OffsetBufferAllocator_deallocate_def Let_def)
qed

definition st_ok :: "allocator_state \<Rightarrow> AllocatedBuffer list \<Rightarrow> bool" where
  "st_ok = (\<lambda>(i, b, m). ba_ok i b)"

lemma ba_disjoint:
  assumes ok: "ba_ok i b (xs @ x # ys)" and y: "y \<in> set xs \<union> set ys"
  shows "disjoint_regions (buffer_region x) (buffer_region y)"
proof (cases b)
  case (Cachelib c)
  let ?f = "\<lambda>x. (buffer_ptr x, buf_size x)"
  have "ma_ok (memory_allocator c) (map ?f xs @ ?f x # map ?f ys)" using ok Cachelib by simp
  from ma_disjoint [OF this, of "?f y"] y show ?thesis by (auto simp: buffer_region_def)
next
  case (Offset c)
  let ?f = "the \<circ> offset_handle"
  obtain w where "wa_ok w (map ?f xs @ ?f x # map ?f ys)" using ok Offset by auto
  from wa_disjoint [OF this, of "?f y"] y have "disjoint_regions (handle_region (?f x)) (handle_region (?f y))" by auto
  moreover have "handle_region (?f z) = buffer_region z" if "z \<in> set (xs @ x # ys)" for z
  proof -
    have "\<exists>h. offset_handle z = Some h \<and> buffer_ptr z = real_base h \<and> buf_size z = requested_size h"
      using ok that Offset by (simp del: set_append)
    then show ?thesis by (auto simp: handle_region_def buffer_region_def)
  qed
  ultimately show ?thesis using y by auto
qed

lemma ba_within:
  assumes ok: "ba_ok i b bufs" and x: "x \<in> set bufs" shows "within_region (ba_range b) (buffer_region x)"
proof (cases b)
  case (Cachelib c)
  then have "ma_ok (memory_allocator c) (map (\<lambda>x. (buffer_ptr x, buf_size x)) bufs)" using ok by simp
  from ma_within [OF this, of "(buffer_ptr x, buf_size x)"] show ?thesis using x ok Cachelib by (auto simp: buffer_region_def)
next
  case (Offset c)
  obtain w where w: "wa_ok w (map (the \<circ> offset_handle) bufs)" "m_base w = ob_base c" "m_capacity w = ob_total_size c"
    using ok Offset by auto
  from wa_within [OF w(1), of "the (offset_handle x)"] x w(2,3) show ?thesis
    using ok Offset by (auto simp: handle_region_def buffer_region_def wa_range_def)
qed

interpretation ba: handle_allocator st_ok "\<lambda>(i, b, m). ba_valid b" st_allocate st_deallocate "\<lambda>_. buffer_region" "\<lambda>(i, b, m). ba_range b"
proof
  fix s bufs n s' r assume ok: "st_ok s bufs" and v: "(case s of (i, b, m) \<Rightarrow> ba_valid b) n" and a: "st_allocate n s = (s', r)"
  obtain i b m where s: "s = (i, b, m)" by (cases s)
  show "st_ok s' (case r of None \<Rightarrow> bufs | Some h \<Rightarrow> h # bufs)"
  proof (cases b)
    case (Cachelib c)
    obtain b' m' q where e: "CachelibBufferAllocator_allocate i n c m = (b', m', q)" by (metis prod_cases3)
    then show ?thesis using ok v a s Cachelib cachelib_allocate_ok [OF _ _ e, of bufs] by (auto simp: st_ok_def st_allocate_def)
  next
    case (Offset c)
    obtain b' m' q where e: "OffsetBufferAllocator_allocate i n c m = (b', m', q)" by (metis prod_cases3)
    then show ?thesis using ok v a s Offset offset_allocate_ok [OF _ _ e, of bufs] by (auto simp: st_ok_def st_allocate_def)
  qed
next
  fix s bufs n s' r assume a: "st_allocate n s = (s', r)"
  obtain i b m where s: "s = (i, b, m)" by (cases s)
  show "(case s' of (i, b, m) \<Rightarrow> ba_range b) = (case s of (i, b, m) \<Rightarrow> ba_range b)
    \<and> (case s' of (i, b, m) \<Rightarrow> ba_valid b) = (case s of (i, b, m) \<Rightarrow> ba_valid b)"
    using a s by (cases b) (auto simp: st_allocate_def fun_eq_iff CachelibBufferAllocator_allocate_def OffsetBufferAllocator_allocate_def Let_def
      split: prod.splits option.splits sum.splits)
next
  fix s xs h ys assume ok: "st_ok s (xs @ h # ys)"
  obtain i b m where s: "s = (i, b, m)" by (cases s)
  show "st_ok (st_deallocate h s) (xs @ ys)"
  proof (cases b)
    case (Cachelib c)
    then show ?thesis using ok s cachelib_deallocate_ok(1) [of i c xs h ys m]
      by (cases "CachelibBufferAllocator_deallocate h c m") (auto simp: st_ok_def st_deallocate_def)
  next
    case (Offset c)
    then show ?thesis using ok s offset_deallocate_ok(1) [of i c xs h ys m]
      by (cases "OffsetBufferAllocator_deallocate h c m") (auto simp: st_ok_def st_deallocate_def)
  qed
  show "(case st_deallocate h s of (i, b, m) \<Rightarrow> ba_range b) = (case s of (i, b, m) \<Rightarrow> ba_range b)
    \<and> (case st_deallocate h s of (i, b, m) \<Rightarrow> ba_valid b) = (case s of (i, b, m) \<Rightarrow> ba_valid b)"
    using s by (cases b) (auto simp: st_deallocate_def fun_eq_iff CachelibBufferAllocator_deallocate_def OffsetBufferAllocator_deallocate_def Let_def
      split: prod.splits option.splits sum.splits)
  show "\<And>k. k \<in> set xs \<union> set ys \<Longrightarrow> disjoint_regions (buffer_region h) (buffer_region k)"
    using ok s ba_disjoint [of i b xs h ys] by (auto simp: st_ok_def)
next
  fix s bufs h assume "st_ok s bufs" "h \<in> set bufs"
  then show "within_region (case s of (i, b, m) \<Rightarrow> ba_range b) (buffer_region h)"
    using ba_within by (auto simp: st_ok_def)
qed simp_all

end
