(* ===== verification/Buffer_Heap.thy ===== *)
theory Buffer_Heap
  imports Buffer_Contract
begin

text \<open>
  All allocators of the store at once: the heap that maps their numbers to them, and the
  multiset of all buffers that exist, wherever they are kept. The heap and the buffers agree
  when each allocator agrees with the buffers that refer to it; a buffer whose allocator is
  gone is not restricted.
\<close>

definition heap_ok :: "allocator_heap \<Rightarrow> AllocatedBuffer multiset \<Rightarrow> bool" where
  "heap_ok H M \<longleftrightarrow> (\<forall>i b. H i = Some b \<longrightarrow> (\<exists>bufs. mset bufs = {#x \<in># M. buf_allocator x = i#} \<and> ba_ok i b bufs))"

text \<open>What never changes of an allocator.\<close>

fun allocator_type :: "BufferAllocator \<Rightarrow> BufferAllocatorType" where
  "allocator_type (Cachelib b) = CACHELIB"
| "allocator_type (Offset b) = OFFSET"

definition allocator_info :: "BufferAllocator \<Rightarrow> string \<times> string \<times> u64 \<times> (nat \<times> nat) \<times> BufferAllocatorType" where
  "allocator_info b = (allocator_segment_name b, allocator_endpoint b, allocator_capacity b, ba_range b, allocator_type b)"

definition same_allocators :: "allocator_heap \<Rightarrow> allocator_heap \<Rightarrow> bool" where
  "same_allocators H H' \<longleftrightarrow> (\<forall>i. map_option allocator_info (H' i) = map_option allocator_info (H i))"

definition total_size :: "AllocatedBuffer multiset \<Rightarrow> u64" where
  "total_size M = sum_mset (image_mset buf_size M)"

lemma total_size_simps [simp]:
  "total_size {#} = 0" "total_size (add_mset x M) = buf_size x + total_size M" "total_size (M + N) = total_size M + total_size N"
  by (simp_all add: total_size_def)

lemma total_size_remove: "x \<in># M \<Longrightarrow> total_size (M - {#x#}) = total_size M - buf_size x"
  by (metis add_diff_cancel_left' insert_DiffM total_size_simps(2))

lemma same_allocators_refl [simp]: "same_allocators H H"
  by (simp add: same_allocators_def)

lemma same_allocators_trans: "same_allocators H H' \<Longrightarrow> same_allocators H' H'' \<Longrightarrow> same_allocators H H''"
  by (simp add: same_allocators_def)

lemma same_allocators_None: "same_allocators H H' \<Longrightarrow> H' i = None \<longleftrightarrow> H i = None"
  by (metis option.map_disc_iff same_allocators_def)

lemma same_allocators_Some: "same_allocators H H' \<Longrightarrow> H i = Some b \<Longrightarrow> \<exists>b'. H' i = Some b' \<and> allocator_info b' = allocator_info b"
  by (metis (no_types, lifting) map_option_eq_Some option.simps(9) same_allocators_def)

lemma same_allocators_descriptor:
  "same_allocators H H' \<Longrightarrow> get_buffer_descriptor H' x = get_buffer_descriptor H x"
  using same_allocators_Some [of H H' "buf_allocator x"] same_allocators_None [of H H' "buf_allocator x"]
  by (cases "H (buf_allocator x)") (auto simp: get_buffer_descriptor_def allocator_info_def)

lemma same_allocators_valid: "same_allocators H H' \<Longrightarrow> isAllocatorValid H' = isAllocatorValid H"
  using same_allocators_None by (simp add: fun_eq_iff isAllocatorValid_def)

lemma ba_valid_info: "allocator_info b = allocator_info b' \<Longrightarrow> ba_valid b = ba_valid b'"
  by (cases b; cases b') (auto simp: allocator_info_def fun_eq_iff)

lemma ba_ok_allocator: "ba_ok i b bufs \<Longrightarrow> x \<in> set bufs \<Longrightarrow> buf_allocator x = i"
  by (cases b) auto

lemma allocate_frame:
  assumes "allocator_allocate i sz b m = (b', m', r)"
  shows "allocator_info b' = allocator_info b"
    "case r of None \<Rightarrow> m' = m | Some x \<Rightarrow> m' = inc_allocated_mem_size sz m \<and> buf_allocator x = i \<and> buf_size x = sz"
  using assms
  by (cases b; auto simp: CachelibBufferAllocator_allocate_def OffsetBufferAllocator_allocate_def Let_def allocator_info_def
      split: prod.splits option.splits sum.splits)+

lemma deallocate_frame:
  assumes "allocator_deallocate x b m = (b', m')" shows "allocator_info b' = allocator_info b"
  using assms
  by (cases b; auto simp: CachelibBufferAllocator_deallocate_def OffsetBufferAllocator_deallocate_def Let_def allocator_info_def
      split: prod.splits option.splits sum.splits)

lemma deallocate_metric:
  assumes "ba_ok i b (xs @ x # ys)" "allocator_deallocate x b m = (b', m')" shows "m' = dec_allocated_mem_size (buf_size x) m"
proof (cases b)
  case (Cachelib c)
  then show ?thesis using assms cachelib_deallocate_ok(2) [of i c xs x ys m]
    by (cases "CachelibBufferAllocator_deallocate x c m") auto
next
  case (Offset c)
  then show ?thesis using assms offset_deallocate_ok(2) [of i c xs x ys m]
    by (cases "OffsetBufferAllocator_deallocate x c m") auto
qed

text \<open>An allocation adds its buffer.\<close>

lemma heap_allocate:
  assumes ok: "heap_ok H M" and i: "H i = Some b" and v: "ba_valid b sz" and a: "allocator_allocate i sz b m = (b', m', r)"
  shows "heap_ok (H(i \<mapsto> b')) (case r of None \<Rightarrow> M | Some x \<Rightarrow> add_mset x M)" "same_allocators H (H(i \<mapsto> b'))"
proof -
  have h: "\<exists>bufs. mset bufs = {#x \<in># M. buf_allocator x = i#} \<and> st_ok (i, b, m) bufs"
    using ok i by (simp add: heap_ok_def st_ok_def)
  from ba.ms.al_held [OF h, of sz "(i, b', m')" r] v a
  have "\<exists>bufs. mset bufs = (case r of None \<Rightarrow> {#x \<in># M. buf_allocator x = i#} | Some x \<Rightarrow> add_mset x {#x \<in># M. buf_allocator x = i#}) \<and> ba_ok i b' bufs"
    by (simp add: st_allocate_def st_ok_def)
  then show "heap_ok (H(i \<mapsto> b')) (case r of None \<Rightarrow> M | Some x \<Rightarrow> add_mset x M)"
    using ok allocate_frame(2) [OF a] by (cases r) (auto simp: heap_ok_def)
  show "same_allocators H (H(i \<mapsto> b'))" using allocate_frame(1) [OF a] i by (simp add: same_allocators_def)
qed

text \<open>Destroying a buffer removes it, and the account of allocated bytes follows.\<close>

lemma heap_destroy:
  assumes ok: "heap_ok H M" and x: "x \<in># M" and d: "destroy_buffer x (H, m) = (H', m')"
  shows "heap_ok H' (M - {#x#})" "same_allocators H H'" "m' = dec_allocated_mem_size (buf_size x) m"
proof -
  let ?i = "buf_allocator x"
  have "heap_ok H' (M - {#x#}) \<and> same_allocators H H' \<and> m' = dec_allocated_mem_size (buf_size x) m"
  proof (cases "H ?i")
    case None
    have "{#y \<in># M - {#x#}. buf_allocator y = i#} = {#y \<in># M. buf_allocator y = i#}" if "i \<noteq> ?i" for i
      using that by (simp add: filter_diff_mset)
    then have "heap_ok H (M - {#x#})" using ok None by (auto simp: heap_ok_def)
    then show ?thesis using d None by (auto simp: destroy_buffer_def)
  next
    case (Some b)
    obtain b' n where e: "allocator_deallocate x b m = (b', n)" by (cases "allocator_deallocate x b m")
    have H': "H' = H(?i \<mapsto> b')" "m' = n" using d Some e by (auto simp: destroy_buffer_def)
    have h: "\<exists>bufs. mset bufs = {#y \<in># M. buf_allocator y = ?i#} \<and> st_ok (?i, b, m) bufs"
      using ok Some by (simp add: heap_ok_def st_ok_def)
    have "x \<in># {#y \<in># M. buf_allocator y = ?i#}" using x by simp
    from ba.ms.rel_held [OF h this] e
    have "\<exists>bufs. mset bufs = {#y \<in># M - {#x#}. buf_allocator y = ?i#} \<and> ba_ok ?i b' bufs"
      by (simp add: st_deallocate_def st_ok_def filter_diff_mset)
    moreover have "{#y \<in># M - {#x#}. buf_allocator y = i#} = {#y \<in># M. buf_allocator y = i#}" if "i \<noteq> ?i" for i
      using that by (simp add: filter_diff_mset)
    ultimately have "heap_ok H' (M - {#x#})" using ok by (auto simp: heap_ok_def H')
    moreover have "same_allocators H H'" using deallocate_frame [OF e] Some by (simp add: same_allocators_def H')
    moreover obtain bufs where bufs: "mset bufs = {#y \<in># M. buf_allocator y = ?i#}" "ba_ok ?i b bufs"
      using ok Some by (auto simp: heap_ok_def)
    moreover have "x \<in># mset bufs" unfolding bufs(1) using x by simp
    then obtain xs ys where "bufs = xs @ x # ys" by (auto dest: split_list)
    ultimately show ?thesis using deallocate_metric [of ?i b xs x ys] e H' by blast
  qed
  then show "heap_ok H' (M - {#x#})" "same_allocators H H'" "m' = dec_allocated_mem_size (buf_size x) m" by auto
qed

definition destroy_buffers :: "AllocatedBuffer list \<Rightarrow> allocator_heap \<times> MasterMetrics \<Rightarrow> allocator_heap \<times> MasterMetrics" where
  "destroy_buffers bufs = fold destroy_buffer bufs"

lemma heap_destroy_all:
  assumes "heap_ok H M" and "mset bufs \<subseteq># M" and "destroy_buffers bufs (H, m) = (H', m')"
  shows "heap_ok H' (M - mset bufs) \<and> same_allocators H H'
    \<and> m' = m\<lparr>mem_allocated_size := mem_allocated_size m - total_size (mset bufs)\<rparr>"
  using assms
proof (induction bufs arbitrary: H m M)
  case (Cons x bufs)
  have x: "x \<in># M" and sub: "mset bufs \<subseteq># M - {#x#}" using Cons.prems(2) by (simp_all add: insert_subset_eq_iff)
  obtain H1 m1 where d: "destroy_buffer x (H, m) = (H1, m1)" by (cases "destroy_buffer x (H, m)")
  note h = heap_destroy [OF Cons.prems(1) x d]
  have "heap_ok H' (M - {#x#} - mset bufs) \<and> same_allocators H1 H'
    \<and> m' = m1\<lparr>mem_allocated_size := mem_allocated_size m1 - total_size (mset bufs)\<rparr>"
    using Cons.IH [OF h(1) sub] Cons.prems(3) d by (simp add: destroy_buffers_def)
  then show ?case using h by (auto simp: dec_allocated_mem_size_def algebra_simps intro: same_allocators_trans)
qed (simp add: destroy_buffers_def)

lemma heap_mount:
  assumes ok: "heap_ok H M" and new: "ba_ok i b []" and fresh: "\<And>x. x \<in># M \<Longrightarrow> buf_allocator x \<noteq> i"
  shows "heap_ok (H(i \<mapsto> b)) M"
proof -
  have "{#x \<in># M. buf_allocator x = i#} = {#}" using fresh by (auto simp: filter_mset_eq_mempty_iff)
  then show ?thesis using ok new unfolding heap_ok_def by (metis fun_upd_apply mset_zero_iff option.inject)
qed

lemma heap_drop: "heap_ok H M \<Longrightarrow> heap_ok (H(i := None)) M"
  by (simp add: heap_ok_def)

text \<open>A buffer that is not referred to by the heap does not matter.\<close>

lemma heap_disjoint:
  assumes ok: "heap_ok H M" and xy: "{#x, y#} \<subseteq># M" and i: "H (buf_allocator x) \<noteq> None" "buf_allocator y = buf_allocator x"
  shows "disjoint_regions (buffer_region x) (buffer_region y)"
proof -
  obtain b where b: "H (buf_allocator x) = Some b" using i(1) by auto
  have h: "\<exists>bufs. mset bufs = {#z \<in># M. buf_allocator z = buf_allocator x#} \<and> st_ok (buf_allocator x, b, undefined) bufs"
    using ok b by (simp add: heap_ok_def st_ok_def)
  have "{#x, y#} \<subseteq># {#z \<in># M. buf_allocator z = buf_allocator x#}"
    using multiset_filter_mono [OF xy, of "\<lambda>z. buf_allocator z = buf_allocator x"] i(2) by simp
  from ba.ms.held_disjoint [OF h this] show ?thesis .
qed

lemma heap_within:
  assumes ok: "heap_ok H M" and x: "x \<in># M" and b: "H (buf_allocator x) = Some b"
  shows "within_region (ba_range b) (buffer_region x)"
proof -
  have h: "\<exists>bufs. mset bufs = {#z \<in># M. buf_allocator z = buf_allocator x#} \<and> st_ok (buf_allocator x, b, undefined) bufs"
    using ok b by (simp add: heap_ok_def st_ok_def)
  from ba.ms.held_within [OF h, of x] x show ?thesis by simp
qed

lemma heap_used:
  assumes ok: "heap_ok H M" and b: "H i = Some b"
  shows "allocator_size b = total_size {#x \<in># M. buf_allocator x = i#}"
proof -
  obtain bufs where bufs: "mset bufs = {#x \<in># M. buf_allocator x = i#}" "ba_ok i b bufs" using ok b by (auto simp: heap_ok_def)
  have "allocator_size b = sum_list (map buf_size bufs)" using bufs(2) by (cases b) auto
  then show ?thesis by (simp add: total_size_def flip: bufs(1) sum_mset_sum_list)
qed

section \<open>New allocators\<close>

lemma OffsetBufferAllocator_new_ok:
  assumes "unat base + unat sz \<le> 2 ^ 64" shows "ba_ok i (Offset (OffsetBufferAllocator_new name base sz endpoint)) []"
proof -
  define init mx :: u64 where "init = min (max (sz div 4096) 1024) (64 * 1024)" and "mx = min (max (sz div 1024) (1024 * 1024)) (64 * 1024 * 1024)"
  have "1024 \<le> init" "init \<le> 64 * 1024" by (auto simp: init_def min_def max_def)
  then have "unat (ucast init :: u32) = unat init" "1024 \<le> unat init" 
    by (auto simp: unsigned_ucast_eq word_le_nat_alt intro!: take_bit_nat_eq_self)
  then have "0 < (ucast init :: u32)" by (simp add: word_less_nat_alt)
  from wa_new_ok [OF this assms, of "ucast mx"]
  show ?thesis unfolding OffsetBufferAllocator_new_def Let_def init_def mx_def by (simp add: OffsetAllocator_new_def Let_def)
qed

lemma CachelibBufferAllocator_new_ok:
  assumes n: "CachelibBufferAllocator_new name base sz endpoint = Inr b" and "unat base + unat sz < 2 ^ 64"
  shows "ba_ok i (Cachelib b) []" "cb_base b = base" "cb_total_size b = sz"
proof -
  obtain sizes a a' pid hsize header where c: "MemoryAllocator_new sizes (Some 1) header hsize base sz = Inr a" "addPool main_pool sz [] False a = Inr (a', pid)"
    "memory_allocator b = a'" "pool_id b = pid" "cb_base b = base" "cb_total_size b = sz" "cb_cur_size b = 0"
    using n by (auto simp: CachelibBufferAllocator_new_def Let_def split: sum.splits prod.splits)
  show "ba_ok i (Cachelib b) []" using ma_new_ok [OF c(1,2) assms(2)] c by simp
  show "cb_base b = base" "cb_total_size b = sz" by (fact c)+
qed

end
