(* ===== verification/Replica.thy ===== *)
theory Replica
  imports Buffer_Heap
begin

text \<open>
  Replicas (\<open>replica.h\<close>) and the metadata of an object (\<open>ObjectMetadata\<close> of \<open>master_service.h\<close>). A
  memory replica owns its buffers: a container element that is erased destroys them. The
  unique pointers of a replica are never null, since only buffers that were allocated are
  put there. A time point is a number of nanoseconds since the epoch of the clock, and the
  reading of the clock is an argument.
\<close>

section \<open>Replicas\<close>

datatype ReplicaType = MEMORY | DISK

datatype ReplicaStatus = UNDEFINED | INITIALIZED | PROCESSING | COMPLETE | REMOVED | FAILED

record ReplicateConfig =
  replica_num :: u64
  with_soft_pin :: bool
  preferred_segment :: string
  prefer_alloc_in_same_node :: bool

datatype ReplicaData = MemoryReplicaData "AllocatedBuffer list" | DiskReplicaData string u64

record Replica =
  rep_data :: ReplicaData
  rep_status :: ReplicaStatus

datatype DescriptorVariant = MemoryDescriptor "BufferDescriptor list" | DiskDescriptor string u64

record ReplicaDescriptor =
  descriptor_variant :: DescriptorVariant
  descriptor_status :: ReplicaStatus

definition Replica_memory :: "AllocatedBuffer list \<Rightarrow> ReplicaStatus \<Rightarrow> Replica" where
  "Replica_memory buffers status = \<lparr>rep_data = MemoryReplicaData buffers, rep_status = status\<rparr>"

definition Replica_disk :: "string \<Rightarrow> u64 \<Rightarrow> ReplicaStatus \<Rightarrow> Replica" where
  "Replica_disk file_path object_size status = \<lparr>rep_data = DiskReplicaData file_path object_size, rep_status = status\<rparr>"

definition replica_type :: "Replica \<Rightarrow> ReplicaType" where
  "replica_type r = (case rep_data r of MemoryReplicaData _ \<Rightarrow> MEMORY | DiskReplicaData _ _ \<Rightarrow> DISK)"

definition is_memory_replica :: "Replica \<Rightarrow> bool" where
  "is_memory_replica r \<longleftrightarrow> (case rep_data r of MemoryReplicaData _ \<Rightarrow> True | _ \<Rightarrow> False)"

definition is_disk_replica :: "Replica \<Rightarrow> bool" where
  "is_disk_replica r \<longleftrightarrow> (case rep_data r of DiskReplicaData _ _ \<Rightarrow> True | _ \<Rightarrow> False)"

definition has_invalid_mem_handle :: "allocator_heap \<Rightarrow> Replica \<Rightarrow> bool" where
  "has_invalid_mem_handle H r \<longleftrightarrow>
     (case rep_data r of
        MemoryReplicaData buffers \<Rightarrow> list_ex (\<lambda>b. \<not> isAllocatorValid H b) buffers
      | DiskReplicaData _ _ \<Rightarrow> False)"

definition mark_complete :: "Replica \<Rightarrow> Replica" where
  "mark_complete r = (if rep_status r = PROCESSING then r\<lparr>rep_status := COMPLETE\<rparr> else r)"

definition get_descriptor :: "allocator_heap \<Rightarrow> Replica \<Rightarrow> ReplicaDescriptor" where
  "get_descriptor H r =
     \<lparr>descriptor_variant =
        (case rep_data r of
           MemoryReplicaData buffers \<Rightarrow> MemoryDescriptor (map (get_buffer_descriptor H) buffers)
         | DiskReplicaData file_path object_size \<Rightarrow> DiskDescriptor file_path object_size),
      descriptor_status = rep_status r\<rparr>"

definition get_segment_names :: "allocator_heap \<Rightarrow> Replica \<Rightarrow> string option list" where
  "get_segment_names H r =
     (case rep_data r of
        MemoryReplicaData buffers \<Rightarrow> map (\<lambda>b. if isAllocatorValid H b then Some (getSegmentName H b) else None) buffers
      | DiskReplicaData _ _ \<Rightarrow> [])"

definition get_memory_descriptor :: "ReplicaDescriptor \<Rightarrow> exn + BufferDescriptor list" where
  "get_memory_descriptor d =
     (case descriptor_variant d of MemoryDescriptor bs \<Rightarrow> Inr bs | DiskDescriptor _ _ \<Rightarrow> Inl runtime_error)"

definition get_disk_descriptor :: "ReplicaDescriptor \<Rightarrow> exn + string \<times> u64" where
  "get_disk_descriptor d =
     (case descriptor_variant d of DiskDescriptor p n \<Rightarrow> Inr (p, n) | MemoryDescriptor _ \<Rightarrow> Inl runtime_error)"

text \<open>The buffers a replica owns, and their destruction with it.\<close>

definition replica_buffers :: "Replica \<Rightarrow> AllocatedBuffer list" where
  "replica_buffers r = (case rep_data r of MemoryReplicaData buffers \<Rightarrow> buffers | DiskReplicaData _ _ \<Rightarrow> [])"

type_synonym world = "allocator_heap \<times> MasterMetrics"

definition destroy_replicas :: "Replica list \<Rightarrow> world \<Rightarrow> world" where
  "destroy_replicas rs = destroy_buffers (concat (map replica_buffers rs))"

section \<open>Object metadata\<close>

type_synonym time = int

record ObjectMetadata =
  replicas :: "Replica list"
  obj_size :: u64
  lease_timeout :: time
  soft_pin_timeout :: "time option"
  disk_replica_size :: u64

definition milliseconds :: "u64 \<Rightarrow> time" where
  "milliseconds n = int (unat n) * 1000000"

definition disk_size :: "Replica \<Rightarrow> u64" where
  "disk_size r = (case rep_data r of DiskReplicaData _ n \<Rightarrow> n | MemoryReplicaData _ \<Rightarrow> 0)"

definition ObjectMetadata_new :: "u64 \<Rightarrow> Replica list \<Rightarrow> bool \<Rightarrow> MasterMetrics \<Rightarrow> ObjectMetadata \<times> MasterMetrics" where
  "ObjectMetadata_new value_length reps enable_soft_pin m =
     (let m = inc_key_count 1 m;
          m = (if enable_soft_pin then inc_soft_pin_key_count 1 m else m);
          m = observe_value_size value_length m;
          disk = sum_list (map disk_size (filter is_disk_replica reps))
      in (\<lparr>replicas = reps, obj_size = value_length, lease_timeout = 0,
           soft_pin_timeout = (if enable_soft_pin then Some 0 else None), disk_replica_size = disk\<rparr>,
          inc_allocated_file_size disk m))"

definition destroy_metadata :: "ObjectMetadata \<Rightarrow> world \<Rightarrow> world" where
  "destroy_metadata md = (\<lambda>(H, m).
     let m = dec_key_count 1 m;
         m = (if soft_pin_timeout md \<noteq> None then dec_soft_pin_key_count 1 m else m);
         m = dec_allocated_file_size (disk_replica_size md) m
     in destroy_replicas (replicas md) (H, m))"

definition HasDiffRepStatus :: "ReplicaStatus \<Rightarrow> ReplicaType \<Rightarrow> ObjectMetadata \<Rightarrow> ReplicaStatus option" where
  "HasDiffRepStatus status rtype md =
     map_option rep_status (List.find (\<lambda>r. rep_status r \<noteq> status \<and> replica_type r = rtype) (replicas md))"

definition GrantLease :: "time \<Rightarrow> u64 \<Rightarrow> u64 \<Rightarrow> ObjectMetadata \<Rightarrow> ObjectMetadata" where
  "GrantLease now ttl soft_ttl md =
     md\<lparr>lease_timeout := max (lease_timeout md) (now + milliseconds ttl),
        soft_pin_timeout := map_option (\<lambda>t. max t (now + milliseconds soft_ttl)) (soft_pin_timeout md)\<rparr>"

text \<open>Erasing the replicas of a type: what stays in the metadata, and what is destroyed.\<close>

definition EraseReplica :: "ReplicaType \<Rightarrow> ObjectMetadata \<Rightarrow> world \<Rightarrow> ObjectMetadata \<times> world" where
  "EraseReplica rtype md w =
     (md\<lparr>replicas := filter (\<lambda>r. replica_type r \<noteq> rtype) (replicas md)\<rparr>,
      destroy_replicas (filter (\<lambda>r. replica_type r = rtype) (replicas md)) w)"

definition HasMemReplica :: "ObjectMetadata \<Rightarrow> bool" where
  "HasMemReplica md \<longleftrightarrow> list_ex (\<lambda>r. replica_type r = MEMORY) (replicas md)"

definition GetMemReplicaCount :: "ObjectMetadata \<Rightarrow> nat" where
  "GetMemReplicaCount md = length (filter (\<lambda>r. replica_type r = MEMORY) (replicas md))"

definition IsLeaseExpired :: "time \<Rightarrow> ObjectMetadata \<Rightarrow> bool" where
  "IsLeaseExpired now md \<longleftrightarrow> now \<ge> lease_timeout md"

definition IsSoftPinned :: "time \<Rightarrow> ObjectMetadata \<Rightarrow> bool" where
  "IsSoftPinned now md \<longleftrightarrow> (case soft_pin_timeout md of None \<Rightarrow> False | Some t \<Rightarrow> now < t)"

definition IsValid :: "ObjectMetadata \<Rightarrow> bool" where
  "IsValid md \<longleftrightarrow> replicas md \<noteq> [] \<and> obj_size md > 0"

definition IsAllReplicasComplete :: "ObjectMetadata \<Rightarrow> bool" where
  "IsAllReplicasComplete md \<longleftrightarrow> list_all (\<lambda>r. rep_status r = COMPLETE) (replicas md)"

definition CleanupStaleHandles :: "ObjectMetadata \<Rightarrow> world \<Rightarrow> ObjectMetadata \<times> world \<times> bool" where
  "CleanupStaleHandles md w =
     (let md' = md\<lparr>replicas := filter (\<lambda>r. \<not> has_invalid_mem_handle (fst w) r) (replicas md)\<rparr>
      in (md', destroy_replicas (filter (has_invalid_mem_handle (fst w)) (replicas md)) w, replicas md' = []))"

section \<open>What the operations do to the buffers\<close>

definition metadata_buffers :: "ObjectMetadata \<Rightarrow> AllocatedBuffer multiset" where
  "metadata_buffers md = mset (concat (map replica_buffers (replicas md)))"

end
