(* ===== verification/World.thy ===== *)
theory World
  imports Replica
begin

text \<open>
  The allocators and the metrics against everything that owns buffers: the metadata of the
  objects and the buffers held elsewhere (those of a request that is being served). Erasing,
  cleaning up and destroying metadata keep the account: the gauges of the metrics are what
  the metadata says, and no buffer is lost or given back twice.
\<close>

definition all_buffers :: "ObjectMetadata multiset \<Rightarrow> AllocatedBuffer multiset" where
  "all_buffers MDs = sum_mset (image_mset metadata_buffers MDs)"

lemma all_buffers_simps [simp]:
  "all_buffers {#} = {#}" "all_buffers (add_mset md MDs) = metadata_buffers md + all_buffers MDs"
  "all_buffers (A + B) = all_buffers A + all_buffers B"
  by (simp_all add: all_buffers_def)

definition gauges_ok :: "MasterMetrics \<Rightarrow> ObjectMetadata multiset \<Rightarrow> bool" where
  "gauges_ok m MDs \<longleftrightarrow> key_count m = of_nat (size MDs)
     \<and> soft_pin_key_count m = of_nat (size {#md \<in># MDs. soft_pin_timeout md \<noteq> None#})
     \<and> file_allocated_size m = sum_mset (image_mset disk_replica_size MDs)"

definition world_ok :: "world \<Rightarrow> ObjectMetadata multiset \<Rightarrow> AllocatedBuffer multiset \<Rightarrow> bool" where
  "world_ok w MDs B \<longleftrightarrow> heap_ok (fst w) (all_buffers MDs + B)
     \<and> mem_allocated_size (snd w) = total_size (all_buffers MDs + B) \<and> gauges_ok (snd w) MDs"

text \<open>What the operations on buffers leave alone.\<close>

definition world_frame :: "world \<Rightarrow> world \<Rightarrow> bool" where
  "world_frame w w' \<longleftrightarrow> same_allocators (fst w) (fst w') \<and> mem_total_capacity (snd w') = mem_total_capacity (snd w)
     \<and> active_clients (snd w') = active_clients (snd w) \<and> counters (snd w') = counters (snd w)
     \<and> file_total_capacity (snd w') = file_total_capacity (snd w)"

lemma world_frame_refl [simp]: "world_frame w w"
  by (simp add: world_frame_def)

lemma world_frame_trans: "world_frame w w' \<Longrightarrow> world_frame w' w'' \<Longrightarrow> world_frame w w''"
  by (auto simp: world_frame_def intro: same_allocators_trans)

lemma world_frame_allocators: "world_frame w w' \<Longrightarrow> same_allocators (fst w) (fst w')"
  by (simp add: world_frame_def)

lemma destroy_buffer_frame: "world_frame w (destroy_buffer x w)"
proof -
  obtain H m where w: "w = (H, m)" by (cases w)
  show ?thesis
  proof (cases "H (buf_allocator x)")
    case None
    then show ?thesis by (simp add: w destroy_buffer_def world_frame_def dec_allocated_mem_size_def)
  next
    case (Some b)
    obtain b' m' where d: "allocator_deallocate x b m = (b', m')" by (cases "allocator_deallocate x b m")
    have "m' = m \<or> m' = dec_allocated_mem_size (buf_size x) m"
      using d by (cases b) (auto simp: CachelibBufferAllocator_deallocate_def OffsetBufferAllocator_deallocate_def Let_def split: sum.splits)
    then show ?thesis using deallocate_frame [OF d] Some d
      by (auto simp: w destroy_buffer_def world_frame_def dec_allocated_mem_size_def same_allocators_def)
  qed
qed

lemma destroy_buffers_frame: "world_frame w (destroy_buffers bufs w)"
proof (induction bufs arbitrary: w)
  case (Cons x bufs)
  from world_frame_trans [OF destroy_buffer_frame Cons.IH] show ?case by (simp add: destroy_buffers_def)
qed (simp add: destroy_buffers_def)

lemma destroy_buffers_world:
  assumes ok: "world_ok w MDs (mset bufs + B)" and d: "destroy_buffers bufs w = w'"
  shows "world_ok w' MDs B" "world_frame w w'"
proof -
  obtain H m H' m' where w: "w = (H, m)" "w' = (H', m')" by (cases w, cases w')
  have h: "heap_ok H (all_buffers MDs + (mset bufs + B))" using ok w by (simp add: world_ok_def)
  have sub: "mset bufs \<subseteq># all_buffers MDs + (mset bufs + B)" by (simp add: mset_subset_eq_add_left subset_mset.add_increasing)
  note a = heap_destroy_all [OF h sub, of m H' m'] d [unfolded w]
  have e: "all_buffers MDs + (mset bufs + B) - mset bufs = all_buffers MDs + B"
    by (metis add.left_commute add_diff_cancel_left')
  show "world_ok w' MDs B" using a ok w unfolding e by (auto simp: world_ok_def gauges_ok_def algebra_simps)
  show "world_frame w w'" using a w by (auto simp: world_frame_def)
qed

text \<open>Metadata may be viewed with some of its buffers already taken out.\<close>

lemma world_ok_shift:
  assumes "metadata_buffers md = metadata_buffers md' + R" "soft_pin_timeout md' = None \<longleftrightarrow> soft_pin_timeout md = None"
    "disk_replica_size md' = disk_replica_size md"
  shows "world_ok w (add_mset md MDs) B = world_ok w (add_mset md' MDs) (R + B)"
proof -
  have "all_buffers (add_mset md MDs) + B = all_buffers (add_mset md' MDs) + (R + B)"
    by (simp add: assms(1) ac_simps)
  moreover have "gauges_ok m (add_mset md MDs) = gauges_ok m (add_mset md' MDs)" for m
    using assms(2,3) by (auto simp: gauges_ok_def)
  ultimately show ?thesis by (simp only: world_ok_def)
qed

lemma world_ok_metadata_cong:
  assumes "metadata_buffers md' = metadata_buffers md" "soft_pin_timeout md' = None \<longleftrightarrow> soft_pin_timeout md = None"
    "disk_replica_size md' = disk_replica_size md"
  shows "world_ok w (add_mset md' MDs) B = world_ok w (add_mset md MDs) B"
  using world_ok_shift [of md md' "{#}" w MDs B] assms by simp

lemma buffers_partition:
  "mset (concat (map f rs)) = mset (concat (map f (filter (\<lambda>r. \<not> P r) rs))) + mset (concat (map f (filter P rs)))"
  by (induction rs) auto

lemma destroy_replicas_world:
  assumes "world_ok w MDs (mset (concat (map replica_buffers rs)) + B)" and "destroy_replicas rs w = w'"
  shows "world_ok w' MDs B" "world_frame w w'"
  using destroy_buffers_world [OF assms(1)] assms(2) by (simp_all add: destroy_replicas_def)

lemma CleanupStaleHandles_world:
  assumes ok: "world_ok w (add_mset md MDs) B" and c: "CleanupStaleHandles md w = (md', w', e)"
  shows "world_ok w' (add_mset md' MDs) B" "world_frame w w'"
proof -
  let ?bad = "filter (has_invalid_mem_handle (fst w)) (replicas md)"
  have e: "md' = md\<lparr>replicas := filter (\<lambda>r. \<not> has_invalid_mem_handle (fst w) r) (replicas md)\<rparr>" "destroy_replicas ?bad w = w'"
    using c by (auto simp: CleanupStaleHandles_def Let_def)
  have "metadata_buffers md = metadata_buffers md' + mset (concat (map replica_buffers ?bad))"
    using buffers_partition [of replica_buffers "replicas md" "has_invalid_mem_handle (fst w)"] by (simp add: metadata_buffers_def e(1))
  from world_ok_shift [OF this] have "world_ok w (add_mset md' MDs) (mset (concat (map replica_buffers ?bad)) + B)"
    using ok by (simp add: e(1))
  from destroy_replicas_world [OF this e(2)] show "world_ok w' (add_mset md' MDs) B" "world_frame w w'" .
qed

lemma EraseReplica_world:
  assumes ok: "world_ok w (add_mset md MDs) B" and c: "EraseReplica rtype md w = (md', w')"
  shows "world_ok w' (add_mset md' MDs) B" "world_frame w w'"
proof -
  let ?bad = "filter (\<lambda>r. replica_type r = rtype) (replicas md)"
  have e: "md' = md\<lparr>replicas := filter (\<lambda>r. replica_type r \<noteq> rtype) (replicas md)\<rparr>" "destroy_replicas ?bad w = w'"
    using c by (auto simp: EraseReplica_def)
  have "metadata_buffers md = metadata_buffers md' + mset (concat (map replica_buffers ?bad))"
    using buffers_partition [of replica_buffers "replicas md" "\<lambda>r. replica_type r = rtype"] by (simp add: metadata_buffers_def e(1))
  from world_ok_shift [OF this] have "world_ok w (add_mset md' MDs) (mset (concat (map replica_buffers ?bad)) + B)"
    using ok by (simp add: e(1))
  from destroy_replicas_world [OF this e(2)] show "world_ok w' (add_mset md' MDs) B" "world_frame w w'" .
qed

lemma destroy_metadata_world:
  assumes ok: "world_ok w (add_mset md MDs) B" and d: "destroy_metadata md w = w'"
  shows "world_ok w' MDs B" "world_frame w w'"
proof -
  obtain H m where w: "w = (H, m)" by (cases w)
  define m1 where "m1 = (let m = dec_key_count 1 m; m = (if soft_pin_timeout md \<noteq> None then dec_soft_pin_key_count 1 m else m)
    in dec_allocated_file_size (disk_replica_size md) m)"
  have d': "destroy_replicas (replicas md) (H, m1) = w'" using d by (simp add: destroy_metadata_def w m1_def Let_def)
  have "world_ok (H, m1) MDs (mset (concat (map replica_buffers (replicas md))) + B)"
    using ok by (auto simp: world_ok_def gauges_ok_def w m1_def Let_def metric_defs metadata_buffers_def ac_simps)
  note r = destroy_replicas_world [OF this d']
  show "world_ok w' MDs B" by (rule r)
  have "world_frame w (H, m1)" by (simp add: world_frame_def w m1_def Let_def metric_defs)
  then show "world_frame w w'" using r(2) world_frame_trans by blast
qed

lemma ObjectMetadata_new_world:
  assumes ok: "world_ok (H, m) MDs (mset (concat (map replica_buffers reps)) + B)" and n: "ObjectMetadata_new len reps soft m = (md, m')"
  shows "world_ok (H, m') (add_mset md MDs) B" "world_frame (H, m) (H, m')"
    "replicas md = reps" "obj_size md = len" "lease_timeout md = 0"
  using assms by (cases soft; auto simp: ObjectMetadata_new_def Let_def world_ok_def world_frame_def gauges_ok_def metric_defs metadata_buffers_def ac_simps)+

lemma GrantLease_world:
  "world_ok w (add_mset (GrantLease now ttl soft_ttl md) MDs) B = world_ok w (add_mset md MDs) B"
  by (rule world_ok_metadata_cong) (simp_all add: GrantLease_def metadata_buffers_def)

text \<open>An allocation by one of the allocators.\<close>

lemma allocate_world:
  assumes ok: "world_ok (H, m) MDs B" and i: "H i = Some b" and v: "ba_valid b sz" and a: "allocator_allocate i sz b m = (b', m', r)"
  shows "world_ok (H(i \<mapsto> b'), m') MDs (case r of None \<Rightarrow> B | Some x \<Rightarrow> add_mset x B)" "world_frame (H, m) (H(i \<mapsto> b'), m')"
proof -
  have h: "heap_ok H (all_buffers MDs + B)" using ok by (simp add: world_ok_def)
  note s = heap_allocate [OF h i v a] allocate_frame(2) [OF a]
  show "world_ok (H(i \<mapsto> b'), m') MDs (case r of None \<Rightarrow> B | Some x \<Rightarrow> add_mset x B)"
    using s ok by (cases r) (auto simp: world_ok_def gauges_ok_def inc_allocated_mem_size_def algebra_simps)
  show "world_frame (H, m) (H(i \<mapsto> b'), m')"
    using s by (cases r) (auto simp: world_frame_def inc_allocated_mem_size_def)
qed

end
