(* ===== verification/Strategy.thy ===== *)
theory Strategy
  imports World
begin

text \<open>
  \<open>RandomAllocationStrategy\<close> of \<open>allocation_strategy.h\<close>. The random permutation of \<open>std::shuffle\<close> is an
  argument: \<open>shuffle k xs\<close> is the result of the \<open>k\<close>-th call. The containers of shared pointers to
  allocators are lists of their numbers. Vectors that go out of scope on an early return, or
  that are shortened, destroy the buffers in them.
\<close>

section \<open>Operations\<close>

record AllocationStrategy =
  retry_counter :: u64
  shuffles :: nat

type_synonym shuffle_fn = "nat \<Rightarrow> nat list \<Rightarrow> nat list"

definition kMaxRetryLimit :: nat where "kMaxRetryLimit = 10"

definition validateInput :: "u64 list \<Rightarrow> u64 \<Rightarrow> ErrorCode option" where
  "validateInput slice_sizes n =
     (if n = 0 \<or> slice_sizes = [] \<or> 0 < count_list slice_sizes 0 then Some INVALID_PARAMS else None)"

text \<open>\<open>allocator->allocate(size)\<close> through a shared pointer.\<close>

definition pointer_allocate :: "allocator_id \<Rightarrow> u64 \<Rightarrow> world \<Rightarrow> world \<times> AllocatedBuffer option" where
  "pointer_allocate i sz = (\<lambda>(H, m).
     case H i of
       None \<Rightarrow> ((H, m), None)
     | Some b \<Rightarrow> (case allocator_allocate i sz b m of (b, m, r) \<Rightarrow> ((H(i \<mapsto> b), m), r)))"

fun random_tries :: "u64 \<Rightarrow> allocator_id list \<Rightarrow> world \<Rightarrow> AllocationStrategy \<Rightarrow> world \<times> AllocationStrategy \<times> AllocatedBuffer option" where
  "random_tries sz [] w st = (w, st, None)"
| "random_tries sz (i # is) w st =
     (case pointer_allocate i sz w of
        (w, Some buffer) \<Rightarrow> (w, st, Some buffer)
      | (w, None) \<Rightarrow> random_tries sz is w (st\<lparr>retry_counter := retry_counter st + 1\<rparr>))"

definition eligible_indices :: "allocator_id list \<Rightarrow> u64 \<Rightarrow> string list \<Rightarrow> allocator_heap \<Rightarrow> nat list" where
  "eligible_indices allocators sz excluded_segments H =
     filter (\<lambda>i. case H (allocators ! i) of
               None \<Rightarrow> False
             | Some b \<Rightarrow> allocator_segment_name b \<notin> set excluded_segments \<and> getLargestFreeRegion b \<ge> sz)
       [0..<length allocators]"

definition tryRandomAllocate ::
  "shuffle_fn \<Rightarrow> allocator_id list \<Rightarrow> u64 \<Rightarrow> string list \<Rightarrow> world \<Rightarrow> AllocationStrategy \<Rightarrow> world \<times> AllocationStrategy \<times> AllocatedBuffer option" where
  "tryRandomAllocate shuffle allocators sz excluded_segments w st =
     (let eligible = eligible_indices allocators sz excluded_segments (fst w)
      in if eligible = [] then (w, st, None)
         else
           let order = shuffle (shuffles st) eligible;
               st = st\<lparr>shuffles := shuffles st + 1\<rparr>;
               max_tries = min kMaxRetryLimit (length eligible)
           in random_tries sz (map (\<lambda>i. allocators ! i) (take max_tries order)) w st)"

fun preferred_tries :: "u64 \<Rightarrow> allocator_id list \<Rightarrow> world \<Rightarrow> world \<times> AllocatedBuffer option" where
  "preferred_tries sz [] w = (w, None)"
| "preferred_tries sz (i # is) w =
     (case pointer_allocate i sz w of
        (w, Some buffer) \<Rightarrow> (w, Some buffer)
      | (w, None) \<Rightarrow> preferred_tries sz is w)"

type_synonym allocator_index = "(string \<times> allocator_id list) list"

definition allocateSingleBuffer ::
  "shuffle_fn \<Rightarrow> allocator_id list \<Rightarrow> allocator_index \<Rightarrow> u64 \<Rightarrow> ReplicateConfig \<Rightarrow> string list \<Rightarrow> world \<Rightarrow> AllocationStrategy
     \<Rightarrow> world \<times> AllocationStrategy \<times> AllocatedBuffer option" where
  "allocateSingleBuffer shuffle allocators allocators_by_name sz config excluded_segments w st =
     (let (w, r) =
        (if preferred_segment config \<noteq> [] \<and> preferred_segment config \<notin> set excluded_segments then
           (case map_of allocators_by_name (preferred_segment config) of
              None \<Rightarrow> (w, None)
            | Some as \<Rightarrow> preferred_tries sz as w)
         else (w, None))
      in case r of
        Some buffer \<Rightarrow> (w, st, Some buffer)
      | None \<Rightarrow> tryRandomAllocate shuffle allocators sz excluded_segments w st)"

fun allocateSlice ::
  "shuffle_fn \<Rightarrow> allocator_id list \<Rightarrow> allocator_index \<Rightarrow> u64 \<Rightarrow> nat \<Rightarrow> ReplicateConfig \<Rightarrow> string list \<Rightarrow> world \<Rightarrow> AllocationStrategy
     \<Rightarrow> world \<times> AllocationStrategy \<times> AllocatedBuffer list" where
  "allocateSlice shuffle allocators allocators_by_name sz 0 config used_segments w st = (w, st, [])"
| "allocateSlice shuffle allocators allocators_by_name sz (Suc n) config used_segments w st =
     (case allocateSingleBuffer shuffle allocators allocators_by_name sz config used_segments w st of
        (w, st, None) \<Rightarrow> (w, st, [])
      | (w, st, Some buffer) \<Rightarrow>
          (case allocateSlice shuffle allocators allocators_by_name sz n config (getSegmentName (fst w) buffer # used_segments) w st of
             (w, st, buffers) \<Rightarrow> (w, st, buffer # buffers)))"

fun allocate_slices ::
  "shuffle_fn \<Rightarrow> allocator_id list \<Rightarrow> allocator_index \<Rightarrow> u64 list \<Rightarrow> nat \<Rightarrow> AllocatedBuffer list list \<Rightarrow> ReplicateConfig
     \<Rightarrow> world \<Rightarrow> AllocationStrategy \<Rightarrow> world \<times> AllocationStrategy \<times> (ErrorCode + AllocatedBuffer list list)" where
  "allocate_slices shuffle allocators allocators_by_name [] actual rbufs config w st = (w, st, Inr rbufs)"
| "allocate_slices shuffle allocators allocators_by_name (sz # slice_sizes) actual rbufs config w st =
     (case allocateSlice shuffle allocators allocators_by_name sz actual config [] w st of
        (w, st, slice_replicas) \<Rightarrow>
          if slice_replicas = [] then (destroy_buffers (concat rbufs) w, st, Inl NO_AVAILABLE_HANDLE)
          else
            let n = length slice_replicas;
                w = (if n < actual then destroy_buffers (concat (drop n rbufs)) w else w);
                rbufs = (if n < actual then take n rbufs else rbufs);
                actual = (if n < actual then n else actual)
            in allocate_slices shuffle allocators allocators_by_name slice_sizes actual
                 (map2 (\<lambda>buffers b. buffers @ [b]) rbufs slice_replicas) config w st)"

definition Allocate ::
  "shuffle_fn \<Rightarrow> allocator_id list \<Rightarrow> allocator_index \<Rightarrow> u64 list \<Rightarrow> ReplicateConfig \<Rightarrow> world \<Rightarrow> AllocationStrategy
     \<Rightarrow> world \<times> AllocationStrategy \<times> (ErrorCode + Replica list)" where
  "Allocate shuffle allocators allocators_by_name slice_sizes config w st =
     (case validateInput slice_sizes (replica_num config) of
        Some e \<Rightarrow> (w, st, Inl e)
      | None \<Rightarrow>
          let n = unat (replica_num config)
          in case allocate_slices shuffle allocators allocators_by_name slice_sizes n (replicate n []) config w st of
            (w, st, Inl e) \<Rightarrow> (w, st, Inl e)
          | (w, st, Inr rbufs) \<Rightarrow> (w, st, Inr (map (\<lambda>buffers. Replica_memory buffers PROCESSING) rbufs)))"

section \<open>What an allocation gives\<close>

definition alive :: "allocator_heap \<Rightarrow> u64 list \<Rightarrow> allocator_id list \<Rightarrow> bool" where
  "alive H sizes as \<longleftrightarrow> (\<forall>i \<in> set as. \<exists>b. H i = Some b \<and> (\<forall>sz \<in> set sizes. ba_valid b sz))"

lemma alive_same: "same_allocators H H' \<Longrightarrow> alive H sizes as \<Longrightarrow> alive H' sizes as"
  unfolding alive_def by (metis ba_valid_info same_allocators_Some)

text \<open>The promise of a single allocation: at most one new buffer, of the size, from a live allocator among \<open>as\<close>.\<close>

definition single_ok :: "u64 \<Rightarrow> allocator_id list \<Rightarrow> world \<Rightarrow> world \<Rightarrow> AllocatedBuffer option \<Rightarrow> bool" where
  "single_ok sz as w w' r \<longleftrightarrow> world_frame w w'
     \<and> (\<forall>MDs B. world_ok w MDs B \<longrightarrow> world_ok w' MDs (case r of None \<Rightarrow> B | Some x \<Rightarrow> add_mset x B))
     \<and> (\<forall>x. r = Some x \<longrightarrow> buf_size x = sz \<and> buf_allocator x \<in> set as)"

lemma pointer_allocate_ok:
  assumes al: "alive (fst w) [sz] as" and i: "i \<in> set as" and p: "pointer_allocate i sz w = (w', r)"
  shows "single_ok sz as w w' r"
proof -
  obtain H m where w: "w = (H, m)" by (cases w)
  obtain b where b: "H i = Some b" "ba_valid b sz" using al i w by (auto simp: alive_def)
  obtain b' m' where a: "allocator_allocate i sz b m = (b', m', r)" and w': "w' = (H(i \<mapsto> b'), m')"
    using p b w by (auto simp: pointer_allocate_def split: prod.splits)
  have frame: "world_frame w w'"
    using allocate_frame [OF a] b(1) by (cases r) (auto simp: world_frame_def w w' same_allocators_def inc_allocated_mem_size_def)
  have "world_ok w' MDs (case r of None \<Rightarrow> B | Some x \<Rightarrow> add_mset x B)" if "world_ok w MDs B" for MDs B
    using allocate_world(1) [of H m MDs B i b sz b' m' r] that b a by (simp add: w w')
  moreover have "\<forall>x. r = Some x \<longrightarrow> buf_size x = sz \<and> buf_allocator x \<in> set as"
    using allocate_frame(2) [OF a] i by auto
  ultimately show ?thesis using frame by (simp add: single_ok_def)
qed

lemma single_ok_same: "single_ok sz as w w' r \<Longrightarrow> same_allocators (fst w) (fst w')"
  by (simp add: single_ok_def world_frame_def)

lemma single_ok_none:
  assumes "single_ok sz as w w1 None" "single_ok sz as w1 w' r" shows "single_ok sz as w w' r"
  using assms by (auto simp: single_ok_def intro: world_frame_trans)

lemma single_ok_refl [simp]: "single_ok sz as w w None"
  by (simp add: single_ok_def)

lemma single_ok_mono: "single_ok sz as w w' r \<Longrightarrow> set as \<subseteq> set as' \<Longrightarrow> single_ok sz as' w w' r"
  by (auto simp: single_ok_def)

lemma preferred_tries_ok:
  assumes "alive (fst w) [sz] as" "preferred_tries sz as w = (w', r)"
  shows "single_ok sz as w w' r"
  using assms
proof (induction as arbitrary: w)
  case (Cons i as)
  obtain w1 q where p: "pointer_allocate i sz w = (w1, q)" by (cases "pointer_allocate i sz w")
  have s: "single_ok sz (i # as) w w1 q" using pointer_allocate_ok [OF Cons.prems(1) _ p] by simp
  show ?case
  proof (cases q)
    case (Some x)
    then show ?thesis using s p Cons.prems(2) by simp
  next
    case None
    have "alive (fst w) [sz] as" using Cons.prems(1) by (simp add: alive_def)
    then have "alive (fst w1) [sz] as" by (rule alive_same [OF single_ok_same [OF s]])
    then have "single_ok sz as w1 w' r" using Cons.IH Cons.prems(2) p None by simp
    then have "single_ok sz (i # as) w1 w' r" by (rule single_ok_mono) auto
    then show ?thesis by (rule single_ok_none [OF s [unfolded None]])
  qed
qed simp

lemma random_tries_preferred:
  "random_tries sz as w st = (w', st', r) \<Longrightarrow> preferred_tries sz as w = (w', r)"
  by (induction as arbitrary: w st) (auto split: prod.splits option.splits)

text \<open>The buffer of \<open>tryRandomAllocate\<close> is in none of the excluded segments.\<close>

definition names_kept :: "allocator_heap \<Rightarrow> allocator_index \<Rightarrow> bool" where
  "names_kept H idx \<longleftrightarrow> (\<forall>(n, as) \<in> set idx. \<forall>i \<in> set as. \<exists>b. H i = Some b \<and> allocator_segment_name b = n)"

lemma same_allocators_name:
  "same_allocators H H' \<Longrightarrow> getSegmentName H' x = getSegmentName H x"
  using same_allocators_Some [of H H' "buf_allocator x"] same_allocators_None [of H H' "buf_allocator x"]
  by (cases "H (buf_allocator x)") (auto simp: getSegmentName_def allocator_info_def)

lemma same_allocators_names: "same_allocators H H' \<Longrightarrow> getSegmentName H' = getSegmentName H"
  by (rule ext) (rule same_allocators_name)

lemma names_kept_same: "same_allocators H H' \<Longrightarrow> names_kept H idx \<Longrightarrow> names_kept H' idx"
  unfolding names_kept_def by (fastforce dest: same_allocators_Some simp: allocator_info_def)

lemma tryRandomAllocate_ok:
  assumes al: "alive (fst w) [sz] as" and sh: "\<And>k xs. mset (shuffle k xs) = mset xs"
    and t: "tryRandomAllocate shuffle as sz excluded w st = (w', st', r)"
  shows "single_ok sz as w w' r" "r = Some x \<Longrightarrow> getSegmentName (fst w') x \<notin> set excluded"
proof -
  let ?el = "eligible_indices as sz excluded (fst w)"
  let ?ids = "map (\<lambda>i. as ! i) (take (min kMaxRetryLimit (length ?el)) (shuffle (shuffles st) ?el))"
  have el: "i < length as \<and> (\<exists>b. fst w (as ! i) = Some b \<and> allocator_segment_name b \<notin> set excluded)" if "i \<in> set ?el" for i
    using that by (auto simp: eligible_indices_def split: option.splits)
  have "set (shuffle (shuffles st) ?el) = set ?el" using sh by (metis set_mset_mset)
  then have ids: "\<exists>k \<in> set ?el. i = as ! k" if "i \<in> set ?ids" for i using that by (auto dest!: in_set_takeD)
  have "single_ok sz as w w' r \<and> (r = Some x \<longrightarrow> getSegmentName (fst w') x \<notin> set excluded)"
  proof (cases "?el = []")
    case True
    then show ?thesis using t by (auto simp: tryRandomAllocate_def)
  next
    case False
    then have "preferred_tries sz ?ids w = (w', r)" using t random_tries_preferred by (auto simp: tryRandomAllocate_def Let_def)
    moreover have sub: "set ?ids \<subseteq> set as" using ids el by fastforce
    then have "alive (fst w) [sz] ?ids" using al unfolding alive_def by blast
    ultimately have s: "single_ok sz ?ids w w' r" using preferred_tries_ok by blast
    have "getSegmentName (fst w') x \<notin> set excluded" if "r = Some x"
    proof -
      have "buf_allocator x \<in> set ?ids" using s that by (simp add: single_ok_def)
      then obtain b where "fst w (buf_allocator x) = Some b" "allocator_segment_name b \<notin> set excluded" using ids el by metis
      then have "getSegmentName (fst w) x \<notin> set excluded" by (simp add: getSegmentName_def)
      then show ?thesis by (simp add: same_allocators_name [OF single_ok_same [OF s]])
    qed
    then show ?thesis using single_ok_mono [OF s sub] by blast
  qed
  then show "single_ok sz as w w' r" "r = Some x \<Longrightarrow> getSegmentName (fst w') x \<notin> set excluded" by auto
qed

definition pool :: "allocator_heap \<Rightarrow> u64 list \<Rightarrow> allocator_id list \<Rightarrow> allocator_index \<Rightarrow> bool" where
  "pool H sizes as idx \<longleftrightarrow> alive H sizes as \<and> alive H sizes (concat (map snd idx)) \<and> names_kept H idx"

lemma pool_same: "same_allocators H H' \<Longrightarrow> pool H sizes as idx \<Longrightarrow> pool H' sizes as idx"
  by (simp add: pool_def alive_same names_kept_same)

lemma pool_sub: "pool H sizes as idx \<Longrightarrow> set sizes' \<subseteq> set sizes \<Longrightarrow> pool H sizes' as idx"
  unfolding pool_def alive_def by blast

lemma allocateSingleBuffer_ok:
  assumes pl: "pool (fst w) [sz] as idx" and sh: "\<And>k xs. mset (shuffle k xs) = mset xs"
    and t: "allocateSingleBuffer shuffle as idx sz config excluded w st = (w', st', r)"
  shows "single_ok sz (as @ concat (map snd idx)) w w' r" "r = Some x \<Longrightarrow> getSegmentName (fst w') x \<notin> set excluded"
proof -
  let ?all = "as @ concat (map snd idx)" and ?p = "preferred_segment config"
  let ?pref = "?p \<noteq> [] \<and> ?p \<notin> set excluded"
  define ids where "ids = (if ?pref then case map_of idx ?p of None \<Rightarrow> [] | Some as \<Rightarrow> as else [])"
  obtain w1 q where p: "preferred_tries sz ids w = (w1, q)" by (cases "preferred_tries sz ids w")
  have e: "(if ?pref then case map_of idx ?p of None \<Rightarrow> (w, None) | Some as \<Rightarrow> preferred_tries sz as w else (w, None)) = (w1, q)"
  proof (cases ?pref)
    case True
    then have "ids = (case map_of idx ?p of None \<Rightarrow> [] | Some as \<Rightarrow> as)" by (simp add: ids_def)
    then show ?thesis using p True by (cases "map_of idx ?p") simp_all
  next
    case False
    then have "ids = []" unfolding ids_def by (rule if_not_P)
    then show ?thesis using p by (simp only: if_not_P [OF False] preferred_tries.simps)
  qed
  have i: "?pref \<and> (?p, ids) \<in> set idx" if "i \<in> set ids" for i
  proof -
    have t: ?pref
    proof (rule ccontr)
      assume "\<not> ?pref"
      then have "ids = []" unfolding ids_def by (rule if_not_P)
      then show False using that by simp
    qed
    then have "map_of idx ?p = Some ids" using that by (cases "map_of idx ?p") (simp_all add: ids_def)
    from map_of_SomeD [OF this] t show ?thesis by blast
  qed
  have ids: "set ids \<subseteq> set (concat (map snd idx))"
  proof
    fix j assume j: "j \<in> set ids"
    have "(?p, ids) \<in> set idx" using i [OF j] by blast
    then show "j \<in> set (concat (map snd idx))" using j by (simp add: bexI [of _ "(?p, ids)"])
  qed
  have nm: "?pref \<and> (\<exists>b. fst w i = Some b \<and> allocator_segment_name b = ?p)" if "i \<in> set ids" for i
    using i [OF that] that pl unfolding pool_def names_kept_def by fastforce
  have "alive (fst w) [sz] ids" using pl ids unfolding pool_def alive_def by blast
  then have s: "single_ok sz ids w w1 q" using p preferred_tries_ok by blast
  have sm: "single_ok sz ?all w w1 q" by (rule single_ok_mono [OF s]) (use ids in auto)
  have "single_ok sz ?all w w' r \<and> (r = Some x \<longrightarrow> getSegmentName (fst w') x \<notin> set excluded)"
  proof (cases q)
    case (Some y)
    then have r: "w' = w1" "r = Some y" using t e by (simp_all add: allocateSingleBuffer_def)
    have y: "buf_allocator y \<in> set ids" using s Some by (simp add: single_ok_def)
    have "getSegmentName (fst w) y \<notin> set excluded" using nm [OF y] by (auto simp: getSegmentName_def)
    then have "getSegmentName (fst w') y \<notin> set excluded" by (simp add: r same_allocators_name [OF single_ok_same [OF s]])
    then show ?thesis using sm r Some by blast
  next
    case None
    then have "tryRandomAllocate shuffle as sz excluded w1 st = (w', st', r)" using t e by (simp add: allocateSingleBuffer_def)
    moreover have "alive (fst w1) [sz] as" using alive_same [OF single_ok_same [OF s]] pl by (simp add: pool_def)
    ultimately have t: "single_ok sz as w1 w' r" "r = Some x \<longrightarrow> getSegmentName (fst w') x \<notin> set excluded"
      using tryRandomAllocate_ok [of w1 sz as shuffle excluded st w' st' r] sh by simp_all
    have "single_ok sz ?all w1 w' r" by (rule single_ok_mono [OF t(1)]) simp
    then show ?thesis using single_ok_none [OF sm [unfolded None]] t(2) by blast
  qed
  then show "single_ok sz ?all w w' r" "r = Some x \<Longrightarrow> getSegmentName (fst w') x \<notin> set excluded" by auto
qed

text \<open>One slice: its buffers lie in different segments.\<close>

definition slice_ok :: "u64 \<Rightarrow> string list \<Rightarrow> world \<Rightarrow> world \<Rightarrow> AllocatedBuffer list \<Rightarrow> bool" where
  "slice_ok sz excl w w' bufs \<longleftrightarrow> world_frame w w' \<and> (\<forall>MDs B. world_ok w MDs B \<longrightarrow> world_ok w' MDs (mset bufs + B))
     \<and> (\<forall>x \<in> set bufs. buf_size x = sz \<and> isAllocatorValid (fst w') x)
     \<and> distinct (map (getSegmentName (fst w')) bufs) \<and> set (map (getSegmentName (fst w')) bufs) \<inter> set excl = {}"

lemma allocateSlice_ok:
  assumes "pool (fst w) [sz] as idx" and sh: "\<And>k xs. mset (shuffle k xs) = mset xs"
    and "allocateSlice shuffle as idx sz n config excl w st = (w', st', bufs)"
  shows "slice_ok sz excl w w' bufs \<and> length bufs \<le> n"
  using assms(1,3)
proof (induction n arbitrary: excl w st bufs)
  case 0
  then show ?case by (simp add: slice_ok_def)
next
  case (Suc n)
  obtain w1 st1 q where a: "allocateSingleBuffer shuffle as idx sz config excl w st = (w1, st1, q)"
    by (cases "allocateSingleBuffer shuffle as idx sz config excl w st")
  note s = allocateSingleBuffer_ok [OF Suc.prems(1) sh a]
  show ?case
  proof (cases q)
    case None
    then show ?thesis using s Suc.prems(2) a by (auto simp: slice_ok_def single_ok_def)
  next
    case (Some x)
    let ?excl = "getSegmentName (fst w1) x # excl"
    obtain bs where r: "allocateSlice shuffle as idx sz n config ?excl w1 st1 = (w', st', bs)" "bufs = x # bs"
      using Suc.prems(2) a Some by (auto split: prod.splits)
    have "pool (fst w1) [sz] as idx" using pool_same [OF single_ok_same [OF s(1)] Suc.prems(1)] .
    from Suc.IH [OF this r(1)] have IH: "slice_ok sz ?excl w1 w' bs" "length bs \<le> n" by auto
    have same: "same_allocators (fst w1) (fst w')" using IH(1) by (simp add: slice_ok_def world_frame_def)
    have nm: "getSegmentName (fst w') x = getSegmentName (fst w1) x" by (rule same_allocators_name [OF same])
    have x: "buf_size x = sz" "buf_allocator x \<in> set (as @ concat (map snd idx))" using s(1) Some by (auto simp: single_ok_def)
    then have "isAllocatorValid (fst w) x" using Suc.prems(1) unfolding pool_def alive_def isAllocatorValid_def by fastforce
    then have v: "isAllocatorValid (fst w') x"
      using same_allocators_valid [OF single_ok_same [OF s(1)]] same_allocators_valid [OF same] by simp
    have "world_frame w w'" using world_frame_trans [of w w1 w'] s(1) IH(1) by (simp add: single_ok_def slice_ok_def)
    moreover have "world_ok w' MDs (mset bufs + B)" if "world_ok w MDs B" for MDs B
    proof -
      have "world_ok w1 MDs (add_mset x B)" using s(1) Some that by (auto simp: single_ok_def)
      then have "world_ok w' MDs (mset bs + add_mset x B)" using IH(1) unfolding slice_ok_def by blast
      then show ?thesis by (simp add: r(2))
    qed
    ultimately show ?thesis using IH x v s(2) [OF Some] nm unfolding slice_ok_def r(2) by auto
  qed
qed

text \<open>All slices: each replica has one buffer per slice.\<close>

definition shape_ok :: "allocator_heap \<Rightarrow> u64 list \<Rightarrow> AllocatedBuffer list list \<Rightarrow> bool" where
  "shape_ok H sizes rbufs \<longleftrightarrow> (\<forall>rb \<in> set rbufs. map buf_size rb = sizes \<and> (\<forall>x \<in> set rb. isAllocatorValid H x))
     \<and> (\<forall>k < length sizes. distinct (map (\<lambda>rb. getSegmentName H (rb ! k)) rbufs))"

lemma shape_ok_same: "same_allocators H H' \<Longrightarrow> shape_ok H sizes rbufs \<Longrightarrow> shape_ok H' sizes rbufs"
  by (simp add: shape_ok_def same_allocators_name same_allocators_valid)

lemma shape_ok_take: "shape_ok H sizes rbufs \<Longrightarrow> shape_ok H sizes (take n rbufs)"
  by (auto simp: shape_ok_def take_map [symmetric] intro: distinct_take dest: in_set_takeD)

lemma set_map2: "x \<in> set (map2 f xs ys) \<Longrightarrow> \<exists>a \<in> set xs. \<exists>b \<in> set ys. x = f a b"
  by (auto dest: set_zip_leftD set_zip_rightD)

lemma shape_ok_append:
  assumes sh: "shape_ok H sizes rbufs" and len: "length bufs = length rbufs"
    and b: "\<forall>x \<in> set bufs. buf_size x = sz \<and> isAllocatorValid H x" "distinct (map (getSegmentName H) bufs)"
  shows "shape_ok H (sizes @ [sz]) (map2 (\<lambda>rb x. rb @ [x]) rbufs bufs)"
proof -
  let ?r = "map2 (\<lambda>rb x. rb @ [x]) rbufs bufs"
  have "map buf_size rb = sizes @ [sz] \<and> (\<forall>x \<in> set rb. isAllocatorValid H x)" if "rb \<in> set ?r" for rb
    using set_map2 [OF that] sh b(1) unfolding shape_ok_def by force
  moreover have "distinct (map (\<lambda>rb. getSegmentName H (rb ! k)) ?r)" if k: "k < length (sizes @ [sz])" for k
  proof (cases "k < length sizes")
    case True
    have "map (\<lambda>rb. getSegmentName H (rb ! k)) ?r = map (\<lambda>rb. getSegmentName H (rb ! k)) rbufs"
    proof (rule nth_equalityI)
      fix j assume "j < length (map (\<lambda>rb. getSegmentName H (rb ! k)) ?r)"
      then have j: "j < length rbufs" "j < length bufs" using len by auto
      then have "rbufs ! j \<in> set rbufs" by simp
      then have "length (rbufs ! j) = length sizes" using sh unfolding shape_ok_def by (metis length_map)
      then show "map (\<lambda>rb. getSegmentName H (rb ! k)) ?r ! j = map (\<lambda>rb. getSegmentName H (rb ! k)) rbufs ! j"
        using j True by (simp add: nth_append)
    qed (simp add: len)
    then show ?thesis using sh True by (simp add: shape_ok_def)
  next
    case False
    have "map (\<lambda>rb. getSegmentName H (rb ! k)) ?r = map (getSegmentName H) bufs"
    proof (rule nth_equalityI)
      fix j assume "j < length (map (\<lambda>rb. getSegmentName H (rb ! k)) ?r)"
      then have j: "j < length rbufs" "j < length bufs" using len by auto
      then have "rbufs ! j \<in> set rbufs" by simp
      then have "length (rbufs ! j) = length sizes" using sh unfolding shape_ok_def by (metis length_map)
      then show "map (\<lambda>rb. getSegmentName H (rb ! k)) ?r ! j = map (getSegmentName H) bufs ! j"
        using j False k by (simp add: nth_append)
    qed (simp add: len)
    then show ?thesis using b(2) by simp
  qed
  ultimately show ?thesis unfolding shape_ok_def by blast
qed

lemma mset_map2_append:
  "length bufs = length rbufs \<Longrightarrow> mset (concat (map2 (\<lambda>rb x. rb @ [x]) rbufs bufs)) = mset bufs + mset (concat rbufs)"
  by (induction rbufs bufs rule: list_induct2') auto

lemma allocate_slices_ok:
  assumes "pool (fst w) sizes as idx" and sh: "\<And>k xs. mset (shuffle k xs) = mset xs"
    and "allocate_slices shuffle as idx sizes actual rbufs config w st = (w', st', r)"
    and "length rbufs = actual" and "shape_ok (fst w) sofar rbufs" and "0 < actual"
  shows "world_frame w w' \<and> (case r of
      Inl e \<Rightarrow> e = NO_AVAILABLE_HANDLE \<and> (\<forall>MDs B. world_ok w MDs (mset (concat rbufs) + B) \<longrightarrow> world_ok w' MDs B)
    | Inr rb \<Rightarrow> shape_ok (fst w') (sofar @ sizes) rb \<and> 0 < length rb \<and> length rb \<le> actual
        \<and> (\<forall>MDs B. world_ok w MDs (mset (concat rbufs) + B) \<longrightarrow> world_ok w' MDs (mset (concat rb) + B)))"
  using assms(1,3-)
proof (induction sizes arbitrary: actual rbufs w st sofar)
  case (Cons sz sizes)
  obtain w1 st1 bufs where a: "allocateSlice shuffle as idx sz actual config [] w st = (w1, st1, bufs)"
    by (cases "allocateSlice shuffle as idx sz actual config [] w st")
  have "pool (fst w) [sz] as idx" using pool_sub [OF Cons.prems(1)] by simp
  then have s: "slice_ok sz [] w w1 bufs" "length bufs \<le> actual" using allocateSlice_ok [OF _ sh a] by auto
  have f1: "world_frame w w1" using s(1) by (simp add: slice_ok_def)
  have ok1: "world_ok w1 MDs (mset bufs + (mset (concat rbufs) + B))" if "world_ok w MDs (mset (concat rbufs) + B)" for MDs B
    using s(1) that by (simp add: slice_ok_def)
  show ?case
  proof (cases "bufs = []")
    case True
    then have r: "w' = destroy_buffers (concat rbufs) w1" "r = Inl NO_AVAILABLE_HANDLE" using Cons.prems(2) a by auto
    have "world_frame w w'" using world_frame_trans [OF f1 destroy_buffers_frame] by (simp add: r)
    moreover have "world_ok w' MDs B" if "world_ok w MDs (mset (concat rbufs) + B)" for MDs B
      using destroy_buffers_world(1) [OF _ r(1) [symmetric]] ok1 [OF that] True by simp
    ultimately show ?thesis using r by simp
  next
    case False
    define n where "n = length bufs"
    define w2 where "w2 = (if n < actual then destroy_buffers (concat (drop n rbufs)) w1 else w1)"
    define rb where "rb = take n rbufs"
    have n: "n \<le> actual" "0 < n" "n = (if n < actual then n else actual)" using s(2) False by (auto simp: n_def)
    have rb: "rb = (if n < actual then take n rbufs else rbufs)" "length rb = n" "length bufs = length rb"
      using n Cons.prems(3) by (auto simp: rb_def n_def)
    let ?rb = "map2 (\<lambda>rb x. rb @ [x]) rb bufs"
    have rec: "allocate_slices shuffle as idx sizes n ?rb config w2 st1 = (w', st', r)"
      using Cons.prems(2) a False n(3) by (simp add: Let_def w2_def rb(1) n_def [symmetric])
    have f2: "world_frame w1 w2" by (simp add: w2_def destroy_buffers_frame)
    have sa: "same_allocators (fst w) (fst w2)" "same_allocators (fst w1) (fst w2)" "same_allocators (fst w) (fst w1)"
      using world_frame_allocators [OF world_frame_trans [OF f1 f2]] world_frame_allocators [OF f2] world_frame_allocators [OF f1] by auto
    have "shape_ok (fst w2) sofar rb" unfolding rb_def by (intro shape_ok_take shape_ok_same [OF sa(1) Cons.prems(4)])
    moreover have "\<forall>x \<in> set bufs. buf_size x = sz \<and> isAllocatorValid (fst w2) x" "distinct (map (getSegmentName (fst w2)) bufs)"
      using s(1) by (simp_all add: slice_ok_def same_allocators_valid [OF sa(2)] same_allocators_names [OF sa(2)])
    ultimately have shp: "shape_ok (fst w2) (sofar @ [sz]) ?rb" using shape_ok_append rb(3) by blast
    have "pool (fst w2) sizes as idx" using pool_same [OF sa(1) pool_sub [OF Cons.prems(1)]] by auto
    note IH = Cons.IH [OF this rec _ shp n(2)]
    have len: "length ?rb = n" using rb by simp
    have ok2: "world_ok w2 MDs (mset (concat ?rb) + B)" if "world_ok w MDs (mset (concat rbufs) + B)" for MDs B
    proof -
      have e: "mset (concat ?rb) = mset bufs + mset (concat rb)" using mset_map2_append [OF rb(3)] .
      have sp: "mset (concat rbufs) = mset (concat rb) + mset (concat (drop n rbufs))"
        unfolding rb_def by (metis append_take_drop_id concat_append mset_append)
      have "world_ok w1 MDs (mset (concat (drop n rbufs)) + (mset bufs + mset (concat rb) + B))"
        using ok1 [OF that] by (simp add: sp ac_simps)
      then show ?thesis
        using destroy_buffers_world(1) [of w1 MDs "concat (drop n rbufs)"] n Cons.prems(3)
        by (cases "n < actual") (auto simp: w2_def e)
    qed
    have "world_frame w w2" using f1 f2 world_frame_trans by blast
    then show ?thesis using IH [OF len] ok2 n(1) by (cases r) (auto intro: world_frame_trans)
  qed
qed (auto simp: shape_ok_def)

definition allocated :: "allocator_heap \<Rightarrow> u64 list \<Rightarrow> ReplicateConfig \<Rightarrow> Replica list \<Rightarrow> bool" where
  "allocated H sizes config reps \<longleftrightarrow> (\<exists>rbufs. reps = map (\<lambda>b. Replica_memory b PROCESSING) rbufs \<and> shape_ok H sizes rbufs)
     \<and> 0 < length reps \<and> length reps \<le> unat (replica_num config)"

lemma replica_buffers_memory [simp]: "replica_buffers (Replica_memory b s) = b"
  by (simp add: replica_buffers_def Replica_memory_def)

lemma shape_ok_replicate: "shape_ok H [] (replicate n [])"
  by (auto simp: shape_ok_def)

lemma Allocate_ok:
  assumes pl: "pool (fst w) sizes as idx" and sh: "\<And>k xs. mset (shuffle k xs) = mset xs"
    and a: "Allocate shuffle as idx sizes config w st = (w', st', r)"
  shows "world_frame w w' \<and> (case r of
      Inl e \<Rightarrow> (if validateInput sizes (replica_num config) = None then e = NO_AVAILABLE_HANDLE else e = INVALID_PARAMS \<and> w' = w)
        \<and> (\<forall>MDs B. world_ok w MDs B \<longrightarrow> world_ok w' MDs B)
    | Inr reps \<Rightarrow> allocated (fst w') sizes config reps
        \<and> (\<forall>MDs B. world_ok w MDs B \<longrightarrow> world_ok w' MDs (mset (concat (map replica_buffers reps)) + B)))"
proof (cases "validateInput sizes (replica_num config)")
  case (Some e)
  then show ?thesis using a by (auto simp: Allocate_def validateInput_def split: if_splits)
next
  case None
  let ?n = "unat (replica_num config)"
  obtain q where q: "allocate_slices shuffle as idx sizes ?n (replicate ?n []) config w st = (w', st', q)"
    and r: "r = (case q of Inl e \<Rightarrow> Inl e | Inr rb \<Rightarrow> Inr (map (\<lambda>b. Replica_memory b PROCESSING) rb))"
    using a None by (auto simp: Allocate_def Let_def split: prod.splits sum.splits)
  have "0 < ?n" using None by (simp add: validateInput_def unat_gt_0 split: if_splits)
  from allocate_slices_ok [OF pl sh q _ shape_ok_replicate this]
  show ?thesis using None by (cases q) (auto simp: r allocated_def o_def)
qed

end
