(* ===== verification/Alist_Lemmas.thy ===== *)
theory Alist_Lemmas
  imports "HOL-Library.AList" "HOL-Library.Multiset"
begin

text \<open>
  Association lists for the unordered maps of the sources: iteration follows the order of the
  list, which stands for the unspecified order of the container. What updating and deleting
  an entry does to the multiset of the entries.
\<close>

lemma alist_update_new: "map_of al k = None \<Longrightarrow> AList.update k v al = al @ [(k, v)]"
  by (induction al) (auto split: if_splits)

lemma alist_update_mset:
  assumes "map_of al k = Some v0"
  shows "add_mset (k, v0) (mset (AList.update k v al)) = add_mset (k, v) (mset al)"
  using assms
proof (induction al)
  case (Cons p al)
  then show ?case by (cases p) (auto simp: add_mset_commute [of "(k, v0)"] add_mset_commute [of _ "(k, v)"])
qed simp

lemma alist_delete_none: "map_of al k = None \<Longrightarrow> AList.delete k al = al"
  by (induction al) (auto split: if_splits)

lemma alist_delete_mset:
  assumes "distinct (map fst al)" "map_of al k = Some v0"
  shows "add_mset (k, v0) (mset (AList.delete k al)) = mset al"
  using assms
proof (induction al)
  case (Cons p al)
  show ?case
  proof (cases "fst p = k")
    case True
    then have "map_of al k = None" using Cons.prems(1) by (auto simp: map_of_eq_None_iff)
    then have "AList.delete k al = al" by (rule alist_delete_none)
    then show ?thesis using True Cons.prems(2) by (cases p) simp
  next
    case False
    have "add_mset (k, v0) (mset (AList.delete k al)) = mset al" using Cons False by (cases p) simp
    then show ?thesis using False by (cases p) (simp add: add_mset_commute [of "(k, v0)"])
  qed
qed simp

lemmas alist_simps [simp] = update_conv' delete_conv' distinct_update distinct_delete

lemma alist_values_update:
  assumes "map_of al k = Some v0"
  shows "add_mset v0 (mset (map snd (AList.update k v al))) = add_mset v (mset (map snd al))"
  using arg_cong [OF alist_update_mset [OF assms, of v], of "image_mset snd"] by simp

lemma alist_values_delete:
  assumes "distinct (map fst al)" "map_of al k = Some v0"
  shows "add_mset v0 (mset (map snd (AList.delete k al))) = mset (map snd al)"
  using arg_cong [OF alist_delete_mset [OF assms], of "image_mset snd"] by simp

end
