(* ===== verification/Segment_Manager.thy ===== *)
theory Segment_Manager
  imports Strategy Alist_Lemmas
begin

text \<open>
  The segment manager (\<open>segment.h\<close>, \<open>segment.cpp\<close>). Every operation runs with the segment mutex
  held and is one step. The shared pointers to an allocator are its number in
  \<open>allocators_\<close>, \<open>allocators_by_name_\<close> and \<open>mounted_segments_\<close>; when the last of them is gone, the
  allocator leaves the heap, and the weak pointers of its buffers expire.
\<close>

section \<open>State\<close>

datatype SegmentStatus = Segment_UNDEFINED | Segment_OK | UNMOUNTING

record MountedSegment =
  ms_segment :: Segment
  ms_status :: SegmentStatus
  ms_allocator :: "allocator_id option"

record SegmentManager =
  memory_allocator_kind :: BufferAllocatorType
  allocators_by_name :: allocator_index
  allocators :: "allocator_id list"
  mounted_segments :: "(UUID \<times> MountedSegment) list"
  client_segments :: "(UUID \<times> UUID list) list"
  next_allocator :: allocator_id

definition SegmentManager_new :: "BufferAllocatorType \<Rightarrow> SegmentManager" where
  "SegmentManager_new kind =
     \<lparr>memory_allocator_kind = kind, allocators_by_name = [], allocators = [], mounted_segments = [],
      client_segments = [], next_allocator = 0\<rparr>"

text \<open>\<open>m[k].push_back(x)\<close> on a map of vectors.\<close>

definition map_push_back :: "'k \<Rightarrow> 'v \<Rightarrow> ('k \<times> 'v list) list \<Rightarrow> ('k \<times> 'v list) list" where
  "map_push_back k x al = AList.update k ((case map_of al k of None \<Rightarrow> [] | Some xs \<Rightarrow> xs) @ [x]) al"

text \<open>\<open>std::find\<close> and \<open>erase\<close> in the vector under a key, and erasing the key when the vector is empty.\<close>

definition map_erase_one :: "'k \<Rightarrow> 'v \<Rightarrow> ('k \<times> 'v list) list \<Rightarrow> ('k \<times> 'v list) list" where
  "map_erase_one k x al =
     (case map_of al k of
        None \<Rightarrow> al
      | Some xs \<Rightarrow> if remove1 x xs = [] then AList.delete k al else AList.update k (remove1 x xs) al)"

definition referenced :: "SegmentManager \<Rightarrow> allocator_id \<Rightarrow> bool" where
  "referenced sm i \<longleftrightarrow> i \<in> set (allocators sm) \<or> list_ex (\<lambda>(_, as). i \<in> set as) (allocators_by_name sm)
     \<or> list_ex (\<lambda>(_, ms). ms_allocator ms = Some i) (mounted_segments sm)"

text \<open>A shared pointer to the allocator \<open>i\<close> goes out of scope.\<close>

definition release_pointer :: "SegmentManager \<Rightarrow> allocator_id option \<Rightarrow> allocator_heap \<Rightarrow> allocator_heap" where
  "release_pointer sm oi H =
     (case oi of None \<Rightarrow> H | Some i \<Rightarrow> if referenced sm i then H else H(i := None))"

section \<open>Operations\<close>

definition new_allocator :: "BufferAllocatorType \<Rightarrow> Segment \<Rightarrow> BufferAllocator option" where
  "new_allocator kind segment =
     (case kind of
        CACHELIB \<Rightarrow>
          (case CachelibBufferAllocator_new (seg_name segment) (seg_base segment) (seg_size segment) (te_endpoint segment) of
             Inl _ \<Rightarrow> None
           | Inr b \<Rightarrow> Some (Cachelib b))
      | OFFSET \<Rightarrow>
          Some (Offset (OffsetBufferAllocator_new (seg_name segment) (seg_base segment) (seg_size segment) (te_endpoint segment))))"

definition MountSegment :: "Segment \<Rightarrow> UUID \<Rightarrow> SegmentManager \<Rightarrow> world \<Rightarrow> SegmentManager \<times> world \<times> ErrorCode" where
  "MountSegment segment client_id sm w =
     (let buffer = seg_base segment; sz = seg_size segment
      in if buffer = 0 \<or> sz = 0 then (sm, w, INVALID_PARAMS)
         else if memory_allocator_kind sm = CACHELIB \<and> (buffer mod Slab_kSize \<noteq> 0 \<or> sz mod Slab_kSize \<noteq> 0)
         then (sm, w, INVALID_PARAMS)
         else case map_of (mounted_segments sm) (seg_id segment) of
           Some exist_segment \<Rightarrow>
             if ms_status exist_segment = Segment_OK then (sm, w, SEGMENT_ALREADY_EXISTS)
             else (sm, w, UNAVAILABLE_IN_CURRENT_STATUS)
         | None \<Rightarrow>
             (case new_allocator (memory_allocator_kind sm) segment of
                None \<Rightarrow> (sm, w, INVALID_PARAMS)
              | Some b \<Rightarrow>
                  let i = next_allocator sm;
                      sm = sm\<lparr>next_allocator := i + 1,
                              allocators := allocators sm @ [i],
                              allocators_by_name := map_push_back (seg_name segment) i (allocators_by_name sm),
                              client_segments := map_push_back client_id (seg_id segment) (client_segments sm),
                              mounted_segments := AList.update (seg_id segment)
                                \<lparr>ms_segment = segment, ms_status = Segment_OK, ms_allocator = Some i\<rparr> (mounted_segments sm)\<rparr>
                  in (sm, ((fst w)(i \<mapsto> b), inc_total_mem_capacity sz (snd w)), OK)))"

fun ReMountSegment :: "Segment list \<Rightarrow> UUID \<Rightarrow> SegmentManager \<Rightarrow> world \<Rightarrow> SegmentManager \<times> world \<times> ErrorCode" where
  "ReMountSegment [] client_id sm w = (sm, w, OK)"
| "ReMountSegment (segment # segments) client_id sm w =
     (case MountSegment segment client_id sm w of (sm, w, err) \<Rightarrow>
        if err = UNAVAILABLE_IN_CURRENT_STATUS \<or> err = INTERNAL_ERROR then (sm, w, err)
        else ReMountSegment segments client_id sm w)"

definition PrepareUnmountSegment :: "UUID \<Rightarrow> SegmentManager \<Rightarrow> world \<Rightarrow> SegmentManager \<times> world \<times> ErrorCode \<times> u64" where
  "PrepareUnmountSegment segment_id sm w =
     (case map_of (mounted_segments sm) segment_id of
        None \<Rightarrow> (sm, w, SEGMENT_NOT_FOUND, 0)
      | Some mounted \<Rightarrow>
          if ms_status mounted = UNMOUNTING then (sm, w, UNAVAILABLE_IN_CURRENT_STATUS, 0)
          else
            let segment = ms_segment mounted;
                allocator = ms_allocator mounted;
                sm = (case allocator of
                        None \<Rightarrow> sm
                      | Some i \<Rightarrow> sm\<lparr>allocators := remove1 i (allocators sm),
                                     allocators_by_name := map_erase_one (seg_name segment) i (allocators_by_name sm)\<rparr>);
                sm = sm\<lparr>mounted_segments := AList.update segment_id
                          (mounted\<lparr>ms_allocator := None, ms_status := UNMOUNTING\<rparr>) (mounted_segments sm)\<rparr>
            in (sm, (release_pointer sm allocator (fst w), snd w), OK, seg_size segment))"

definition CommitUnmountSegment :: "UUID \<Rightarrow> UUID \<Rightarrow> u64 \<Rightarrow> SegmentManager \<Rightarrow> world \<Rightarrow> SegmentManager \<times> world \<times> ErrorCode" where
  "CommitUnmountSegment segment_id client_id metrics_dec_capacity sm w =
     (let allocator = (case map_of (mounted_segments sm) segment_id of None \<Rightarrow> None | Some ms \<Rightarrow> ms_allocator ms);
          sm = sm\<lparr>client_segments := map_erase_one client_id segment_id (client_segments sm),
                  mounted_segments := AList.delete segment_id (mounted_segments sm)\<rparr>
      in (sm, (release_pointer sm allocator (fst w), dec_total_mem_capacity metrics_dec_capacity (snd w)), OK))"

definition GetClientSegments :: "UUID \<Rightarrow> SegmentManager \<Rightarrow> ErrorCode + Segment list" where
  "GetClientSegments client_id sm =
     (case map_of (client_segments sm) client_id of
        None \<Rightarrow> Inl SEGMENT_NOT_FOUND
      | Some ids \<Rightarrow> Inr (List.map_filter (\<lambda>i. map_option ms_segment (map_of (mounted_segments sm) i)) ids))"

definition GetAllSegments :: "SegmentManager \<Rightarrow> string list" where
  "GetAllSegments sm =
     map (seg_name \<circ> ms_segment \<circ> snd) (filter (\<lambda>(_, ms). ms_status ms = Segment_OK) (mounted_segments sm))"

definition QuerySegments :: "string \<Rightarrow> SegmentManager \<Rightarrow> allocator_heap \<Rightarrow> ErrorCode + u64 \<times> u64" where
  "QuerySegments segment sm H =
     (case map_of (allocators_by_name sm) segment of
        None \<Rightarrow> Inl SEGMENT_NOT_FOUND
      | Some as \<Rightarrow>
          (case H (hd as) of
             None \<Rightarrow> Inl SEGMENT_NOT_FOUND
           | Some b \<Rightarrow> Inr (allocator_size b, allocator_capacity b)))"

section \<open>The invariant\<close>

text \<open>The vector under a key of a map of vectors; a missing key is the empty vector.\<close>

definition lookup_list :: "('k \<times> 'v list) list \<Rightarrow> 'k \<Rightarrow> 'v list" where
  "lookup_list al k = (case map_of al k of None \<Rightarrow> [] | Some xs \<Rightarrow> xs)"

definition no_empty :: "('k \<times> 'v list) list \<Rightarrow> bool" where
  "no_empty al \<longleftrightarrow> distinct (map fst al) \<and> (\<forall>k. map_of al k \<noteq> Some [])"

lemma lookup_push_back [simp]: "lookup_list (map_push_back k x al) = (lookup_list al)(k := lookup_list al k @ [x])"
  by (auto simp: lookup_list_def map_push_back_def fun_eq_iff split: option.splits)

lemma lookup_erase_one [simp]: "lookup_list (map_erase_one k x al) = (lookup_list al)(k := remove1 x (lookup_list al k))"
  by (auto simp: lookup_list_def map_erase_one_def fun_eq_iff split: option.splits)

lemma no_empty_push_back: "no_empty al \<Longrightarrow> no_empty (map_push_back k x al)"
  by (auto simp: no_empty_def map_push_back_def simp del: map_of_eq_Some_iff)

lemma no_empty_erase_one: "no_empty al \<Longrightarrow> no_empty (map_erase_one k x al)"
  by (auto simp: no_empty_def map_erase_one_def simp del: map_of_eq_Some_iff split: option.splits if_splits)

lemma no_empty_entry: "no_empty al \<Longrightarrow> (k, xs) \<in> set al \<Longrightarrow> xs = lookup_list al k"
  by (simp add: no_empty_def lookup_list_def map_of_is_SomeI)

definition serves :: "BufferAllocator \<Rightarrow> Segment \<Rightarrow> bool" where
  "serves b segment \<longleftrightarrow> allocator_segment_name b = seg_name segment \<and> allocator_endpoint b = te_endpoint segment
     \<and> allocator_capacity b = seg_size segment \<and> ba_range b = (unat (seg_base segment), unat (seg_size segment))"

text \<open>A segment whose addresses do not wrap around.\<close>

definition seg_valid :: "Segment \<Rightarrow> bool" where
  "seg_valid segment \<longleftrightarrow> unat (seg_base segment) + unat (seg_size segment) < 2 ^ 64"

definition mounted_ok :: "allocator_heap \<Rightarrow> UUID \<Rightarrow> MountedSegment \<Rightarrow> bool" where
  "mounted_ok H sid ms \<longleftrightarrow> seg_id (ms_segment ms) = sid
     \<and> (ms_status ms = UNMOUNTING \<and> ms_allocator ms = None
        \<or> ms_status ms = Segment_OK \<and> (\<exists>i b. ms_allocator ms = Some i \<and> H i = Some b \<and> serves b (ms_segment ms)))"

definition mounted_as :: "SegmentManager \<Rightarrow> UUID \<Rightarrow> allocator_id \<Rightarrow> bool" where
  "mounted_as sm sid i \<longleftrightarrow> (\<exists>ms. map_of (mounted_segments sm) sid = Some ms \<and> ms_allocator ms = Some i)"

text \<open>The two indices of the allocators hold exactly the allocators that exist.\<close>

definition index_ok :: "SegmentManager \<Rightarrow> allocator_heap \<Rightarrow> bool" where
  "index_ok sm H \<longleftrightarrow> distinct (allocators sm) \<and> set (allocators sm) = dom H \<and> no_empty (allocators_by_name sm)
     \<and> (\<forall>n. distinct (lookup_list (allocators_by_name sm) n)
          \<and> set (lookup_list (allocators_by_name sm) n) = {i. \<exists>b. H i = Some b \<and> allocator_segment_name b = n})"

definition total_capacity :: "SegmentManager \<Rightarrow> u64" where
  "total_capacity sm = sum_mset (image_mset (seg_size \<circ> ms_segment) (mset (map snd (mounted_segments sm))))"

definition seg_inv :: "SegmentManager \<Rightarrow> world \<Rightarrow> bool" where
  "seg_inv sm w \<longleftrightarrow>
     distinct (map fst (mounted_segments sm))
     \<and> (\<forall>sid ms. map_of (mounted_segments sm) sid = Some ms \<longrightarrow> mounted_ok (fst w) sid ms)
     \<and> (\<forall>i \<in> dom (fst w). \<exists>!sid. mounted_as sm sid i)
     \<and> index_ok sm (fst w)
     \<and> (\<forall>i b. fst w i = Some b \<longrightarrow> i < next_allocator sm \<and> allocator_type b = memory_allocator_kind sm)
     \<and> no_empty (client_segments sm)
     \<and> (\<forall>sid \<in> dom (map_of (mounted_segments sm)). \<exists>c. sid \<in> set (lookup_list (client_segments sm) c))
     \<and> mem_total_capacity (snd w) = total_capacity sm"

lemma same_allocators_sym: "same_allocators H H' \<Longrightarrow> same_allocators H' H"
  by (simp add: same_allocators_def)

lemma same_allocators_parts:
  assumes "same_allocators H H'" "H i = Some b"
  shows "\<exists>b'. H' i = Some b' \<and> allocator_segment_name b' = allocator_segment_name b \<and> allocator_type b' = allocator_type b
    \<and> (\<forall>segment. serves b' segment = serves b segment)"
  using same_allocators_Some [OF assms] by (auto simp: allocator_info_def serves_def)

lemma mounted_ok_frame:
  assumes s: "same_allocators H H'" and "mounted_ok H sid ms" shows "mounted_ok H' sid ms"
  using assms(2) same_allocators_parts [OF s] unfolding mounted_ok_def by metis

lemma same_allocators_dom: "same_allocators H H' \<Longrightarrow> dom H' = dom H"
  using same_allocators_None by (auto simp: dom_def)

lemma same_allocators_named:
  assumes s: "same_allocators H H'"
  shows "{i. \<exists>b. H' i = Some b \<and> allocator_segment_name b = n} = {i. \<exists>b. H i = Some b \<and> allocator_segment_name b = n}"
  using same_allocators_parts [OF s] same_allocators_parts [OF same_allocators_sym [OF s]] by fastforce

lemma same_allocators_type:
  "same_allocators H H' \<Longrightarrow> H' i = Some b' \<Longrightarrow> \<exists>b. H i = Some b \<and> allocator_type b = allocator_type b'"
  using same_allocators_parts [OF same_allocators_sym] by blast

text \<open>Allocating and freeing buffers does not touch the tables.\<close>

lemma seg_inv_frame:
  assumes "seg_inv sm w" and f: "world_frame w w'" shows "seg_inv sm w'"
proof -
  have s: "same_allocators (fst w) (fst w')" by (rule world_frame_allocators [OF f])
  have "\<forall>i b. fst w' i = Some b \<longrightarrow> i < next_allocator sm \<and> allocator_type b = memory_allocator_kind sm"
    using assms(1) same_allocators_type [OF s] unfolding seg_inv_def by metis
  then show ?thesis using assms(1) f mounted_ok_frame [OF s] same_allocators_dom [OF s] same_allocators_named [OF s]
    unfolding seg_inv_def index_ok_def world_frame_def by simp
qed

end
