(* ===== verification/Segment_Safe.thy ===== *)
theory Segment_Safe
  imports Segment_Manager
begin

text \<open>
  Mounting and unmounting keep the tables of the segment manager consistent with each other,
  with the allocators that exist, with the buffers that exist and with the capacity gauge.
\<close>

declare map_of_eq_Some_iff [simp del] split_paired_All [simp del] split_paired_Ex [simp del]

lemma seg_invD:
  assumes "seg_inv sm w"
  shows "distinct (map fst (mounted_segments sm))"
    "\<And>sid ms. map_of (mounted_segments sm) sid = Some ms \<Longrightarrow> mounted_ok (fst w) sid ms"
    "\<And>i b. fst w i = Some b \<Longrightarrow> \<exists>!sid. mounted_as sm sid i"
    "index_ok sm (fst w)"
    "\<And>i b. fst w i = Some b \<Longrightarrow> i < next_allocator sm \<and> allocator_type b = memory_allocator_kind sm"
    "no_empty (client_segments sm)"
    "\<And>sid ms. map_of (mounted_segments sm) sid = Some ms \<Longrightarrow> \<exists>c. sid \<in> set (lookup_list (client_segments sm) c)"
    "mem_total_capacity (snd w) = total_capacity sm"
  using assms unfolding seg_inv_def by blast+

definition store_ok :: "SegmentManager \<Rightarrow> world \<Rightarrow> ObjectMetadata multiset \<Rightarrow> AllocatedBuffer multiset \<Rightarrow> bool" where
  "store_ok sm w MDs B \<longleftrightarrow> seg_inv sm w \<and> world_ok w MDs B
     \<and> (\<forall>x \<in># all_buffers MDs + B. buf_allocator x < next_allocator sm)"

section \<open>Mounting\<close>

lemma new_allocator_ok:
  assumes "new_allocator kind segment = Some b" "seg_valid segment"
  shows "ba_ok i b []" "serves b segment" "allocator_type b = kind"
proof -
  have "ba_ok i b [] \<and> serves b segment \<and> allocator_type b = kind"
  proof (cases kind)
    case CACHELIB
    then obtain c where c: "CachelibBufferAllocator_new (seg_name segment) (seg_base segment) (seg_size segment) (te_endpoint segment) = Inr c"
      "b = Cachelib c" using assms(1) by (auto simp: new_allocator_def split: sum.splits)
    have "cb_segment_name c = seg_name segment" "cb_transport_endpoint c = te_endpoint segment"
      using c(1) by (auto simp: CachelibBufferAllocator_new_def Let_def split: sum.splits prod.splits)
    then show ?thesis using CachelibBufferAllocator_new_ok [OF c(1)] assms(2) c(2) CACHELIB
      by (simp add: seg_valid_def serves_def)
  next
    case OFFSET
    then show ?thesis using assms OffsetBufferAllocator_new_ok [of "seg_base segment" "seg_size segment" i]
      by (auto simp: new_allocator_def seg_valid_def serves_def OffsetBufferAllocator_new_def Let_def)
  qed
  then show "ba_ok i b []" "serves b segment" "allocator_type b = kind" by auto
qed

lemma MountSegment_cases:
  assumes "MountSegment segment client_id sm w = (sm', w', e)"
  obtains (failed) "sm' = sm" "w' = w" "e \<in> {INVALID_PARAMS, SEGMENT_ALREADY_EXISTS, UNAVAILABLE_IN_CURRENT_STATUS}"
  | (mounted) b where "new_allocator (memory_allocator_kind sm) segment = Some b" "e = OK"
      "map_of (mounted_segments sm) (seg_id segment) = None"
      "w' = ((fst w)(next_allocator sm \<mapsto> b), inc_total_mem_capacity (seg_size segment) (snd w))"
      "sm' = sm\<lparr>next_allocator := next_allocator sm + 1, allocators := allocators sm @ [next_allocator sm],
         allocators_by_name := map_push_back (seg_name segment) (next_allocator sm) (allocators_by_name sm),
         client_segments := map_push_back client_id (seg_id segment) (client_segments sm),
         mounted_segments := AList.update (seg_id segment)
           \<lparr>ms_segment = segment, ms_status = Segment_OK, ms_allocator = Some (next_allocator sm)\<rparr> (mounted_segments sm)\<rparr>"
proof -
  note d = assms [unfolded MountSegment_def Let_def]
  show ?thesis
  proof (cases "map_of (mounted_segments sm) (seg_id segment)")
    case (Some m)
    then show ?thesis using d by (intro failed) (simp_all split: if_splits)
  next
    case None
    show ?thesis
    proof (cases "new_allocator (memory_allocator_kind sm) segment")
      case (Some b)
      show ?thesis
      proof (cases "seg_base segment = 0 \<or> seg_size segment = 0 \<or> memory_allocator_kind sm = CACHELIB
          \<and> (seg_base segment mod Slab_kSize \<noteq> 0 \<or> seg_size segment mod Slab_kSize \<noteq> 0)")
        case True
        then show ?thesis using d by (intro failed) (auto split: if_splits)
      next
        case False
        then show ?thesis using d None Some by (intro mounted [OF Some]) (simp_all split: if_splits)
      qed
    qed (use d None in \<open>intro failed; simp split: if_splits\<close>)
  qed
qed

lemma index_ok_mount:
  assumes "index_ok sm H" "H i = None" "allocator_segment_name b = n" "allocators sm' = allocators sm @ [i]"
    "allocators_by_name sm' = map_push_back n i (allocators_by_name sm)"
  shows "index_ok sm' (H(i \<mapsto> b))"
  using assms by (auto simp: index_ok_def no_empty_push_back split: if_splits)

lemma mounted_ok_mono:
  "mounted_ok H sid ms \<Longrightarrow> (\<And>i. ms_allocator ms = Some i \<Longrightarrow> H' i = H i) \<Longrightarrow> mounted_ok H' sid ms"
  by (auto simp: mounted_ok_def)

lemma total_capacity_mount:
  "map_of (mounted_segments sm) k = None \<Longrightarrow> mounted_segments sm' = AList.update k ms (mounted_segments sm)
     \<Longrightarrow> total_capacity sm' = total_capacity sm + seg_size (ms_segment ms)"
  by (simp add: total_capacity_def alist_update_new)

lemma seg_inv_live: "seg_inv sm w \<Longrightarrow> mounted_as sm sid i \<Longrightarrow> \<exists>b. fst w i = Some b"
  using seg_invD(2) [of sm w sid] by (fastforce simp: mounted_as_def mounted_ok_def)

lemma MountSegment_ok:
  assumes ok: "store_ok sm w MDs B" and v: "seg_valid segment" and m: "MountSegment segment client_id sm w = (sm', w', e)"
  shows "store_ok sm' w' MDs B"
  using m
proof (cases rule: MountSegment_cases)
  case failed
  then show ?thesis using ok by simp
next
  case (mounted b)
  let ?i = "next_allocator sm" and ?H = "fst w"
  note sm' = mounted(5)
  note nb = new_allocator_ok [OF mounted(1) v]
  have inv: "seg_inv sm w" using ok by (simp add: store_ok_def)
  have fresh: "?H ?i = None" using seg_invD(5) [OF inv, of ?i] by fastforce
  have as: "mounted_as sm' sid i \<longleftrightarrow> (sid = seg_id segment \<and> i = ?i \<or> mounted_as sm sid i)" for sid i
    using mounted(3) by (auto simp: mounted_as_def sm')
  have notyet: "\<not> mounted_as sm sid ?i" for sid using seg_inv_live [OF inv] fresh by fastforce
  have noid: "\<not> mounted_as sm (seg_id segment) i" for i using mounted(3) by (simp add: mounted_as_def)
  have "\<exists>!sid. mounted_as sm' sid i" if "i \<in> dom (fst w')" for i
  proof (cases "i = ?i")
    case True
    then show ?thesis using notyet as by auto
  next
    case False
    then have "\<exists>!sid. mounted_as sm sid i" using that seg_invD(3) [OF inv, of i] unfolding mounted(4) dom_def by fastforce
    then show ?thesis using False by (simp add: as)
  qed
  moreover have "mounted_ok (fst w') sid ms" if "map_of (mounted_segments sm') sid = Some ms" for sid ms
  proof (cases "sid = seg_id segment")
    case True
    then show ?thesis using that nb by (auto simp: sm' mounted(4) mounted_ok_def)
  next
    case False
    then have ms: "map_of (mounted_segments sm) sid = Some ms" using that by (simp add: sm')
    then have "mounted_ok ?H sid ms" by (rule seg_invD(2) [OF inv])
    then show ?thesis using ms notyet [of sid] by (auto simp: mounted(4) mounted_as_def elim!: mounted_ok_mono)
  qed
  moreover have "index_ok sm' (fst w')"
    using index_ok_mount [of sm ?H ?i b "seg_name segment" sm'] seg_invD(4) [OF inv] fresh nb by (simp add: serves_def sm' mounted(4))
  moreover have "\<exists>c. sid \<in> set (lookup_list (client_segments sm') c)" if sid: "sid \<in> dom (map_of (mounted_segments sm'))" for sid
  proof (cases "sid = seg_id segment")
    case True
    then show ?thesis by (intro exI [of _ client_id]) (simp add: sm')
  next
    case False
    then have "sid \<in> dom (map_of (mounted_segments sm))" using sid by (auto simp: sm')
    then obtain c where "sid \<in> set (lookup_list (client_segments sm) c)" using inv unfolding seg_inv_def by blast
    then show ?thesis by (intro exI [of _ c]) (auto simp: sm')
  qed
  moreover have "mem_total_capacity (snd w') = total_capacity sm'"
    using total_capacity_mount [OF mounted(3), of sm'] seg_invD(8) [OF inv] by (simp add: sm' mounted(4) inc_total_mem_capacity_def)
  moreover have "i < next_allocator sm' \<and> allocator_type c = memory_allocator_kind sm'" if "fst w' i = Some c" for i c
    using that seg_invD(5) [OF inv, of i c] nb(3) by (auto simp: mounted(4) sm' less_Suc_eq split: if_splits)
  moreover have "distinct (map fst (mounted_segments sm'))" "no_empty (client_segments sm')"
    using seg_invD(1,6) [OF inv] by (simp_all add: sm' no_empty_push_back)
  ultimately have "seg_inv sm' w'" unfolding seg_inv_def by blast
  moreover have lt: "buf_allocator x \<noteq> ?i" if "x \<in># all_buffers MDs + B" for x
    using ok that less_not_refl unfolding store_ok_def by metis
  have "heap_ok ?H (all_buffers MDs + B)" using ok by (simp add: store_ok_def world_ok_def)
  from heap_mount [OF this nb(1) lt] have "heap_ok (fst w') (all_buffers MDs + B)" by (simp add: mounted(4))
  then have "world_ok w' MDs B" using ok by (simp add: store_ok_def world_ok_def mounted(4) gauges_ok_def inc_total_mem_capacity_def)
  moreover have "\<forall>x \<in># all_buffers MDs + B. buf_allocator x < next_allocator sm'"
    using ok by (auto simp: store_ok_def sm' less_Suc_eq)
  ultimately show ?thesis by (simp add: store_ok_def)
qed

lemma ReMountSegment_ok:
  assumes "store_ok sm w MDs B" "\<And>s. s \<in> set segments \<Longrightarrow> seg_valid s" "ReMountSegment segments client_id sm w = (sm', w', e)"
  shows "store_ok sm' w' MDs B"
  using assms
proof (induction segments arbitrary: sm w)
  case (Cons s segments)
  obtain sm1 w1 e1 where m: "MountSegment s client_id sm w = (sm1, w1, e1)" by (cases "MountSegment s client_id sm w")
  have "store_ok sm1 w1 MDs B" using MountSegment_ok [OF Cons.prems(1) _ m] Cons.prems(2) by simp
  then show ?case using Cons.IH [of sm1 w1] Cons.prems(2,3) m by (auto split: if_splits)
qed simp

section \<open>Unmounting\<close>

lemma index_ok_unmount:
  assumes ok: "index_ok sm H" and b: "H i = Some b" "allocator_segment_name b = n" and "allocators sm' = remove1 i (allocators sm)"
    "allocators_by_name sm' = map_erase_one n i (allocators_by_name sm)"
  shows "index_ok sm' (H(i := None))"
proof -
  have "set (remove1 i (allocators sm)) = dom (H(i := None))" "distinct (remove1 i (allocators sm))"
    using ok by (auto simp: index_ok_def set_remove1_eq)
  moreover have "distinct (lookup_list (allocators_by_name sm') m)
      \<and> set (lookup_list (allocators_by_name sm') m) = {j. \<exists>c. (H(i := None)) j = Some c \<and> allocator_segment_name c = m}" for m
    using ok b by (auto simp: index_ok_def assms(5) set_remove1_eq)
  ultimately show ?thesis using ok by (simp add: index_ok_def assms(4,5) no_empty_erase_one)
qed

lemma total_capacity_update:
  assumes "map_of (mounted_segments sm) k = Some ms0" "ms_segment ms = ms_segment ms0"
    "mounted_segments sm' = AList.update k ms (mounted_segments sm)"
  shows "total_capacity sm' = total_capacity sm"
  using arg_cong [OF alist_values_update [OF assms(1), of ms], of "\<lambda>M. sum_mset (image_mset (seg_size \<circ> ms_segment) M)"] assms(2,3)
  by (simp add: total_capacity_def)

lemma PrepareUnmountSegment_cases:
  assumes "PrepareUnmountSegment segment_id sm w = (sm', w', e, cap)" and inv: "seg_inv sm w"
  obtains (failed) "sm' = sm" "w' = w" "e \<in> {SEGMENT_NOT_FOUND, UNAVAILABLE_IN_CURRENT_STATUS}"
  | (prepared) mounted i b where "map_of (mounted_segments sm) segment_id = Some mounted" "ms_allocator mounted = Some i"
      "fst w i = Some b" "serves b (ms_segment mounted)" "e = OK" "cap = seg_size (ms_segment mounted)"
      "w' = ((fst w)(i := None), snd w)"
      "sm' = sm\<lparr>allocators := remove1 i (allocators sm),
          allocators_by_name := map_erase_one (seg_name (ms_segment mounted)) i (allocators_by_name sm),
          mounted_segments := AList.update segment_id (mounted\<lparr>ms_allocator := None, ms_status := UNMOUNTING\<rparr>) (mounted_segments sm)\<rparr>"
proof (cases "map_of (mounted_segments sm) segment_id")
  case None
  then show ?thesis using assms by (intro failed) (auto simp: PrepareUnmountSegment_def)
next
  case (Some mounted)
  have mo: "mounted_ok (fst w) segment_id mounted" by (rule seg_invD(2) [OF inv Some])
  show ?thesis
  proof (cases "ms_status mounted = UNMOUNTING")
    case True
    then show ?thesis using assms Some by (intro failed) (auto simp: PrepareUnmountSegment_def)
  next
    case False
    then obtain i b where i: "ms_allocator mounted = Some i" "fst w i = Some b" "serves b (ms_segment mounted)"
      using mo by (auto simp: mounted_ok_def)
    define sm1 where "sm1 = sm\<lparr>allocators := remove1 i (allocators sm),
          allocators_by_name := map_erase_one (seg_name (ms_segment mounted)) i (allocators_by_name sm),
          mounted_segments := AList.update segment_id (mounted\<lparr>ms_allocator := None, ms_status := UNMOUNTING\<rparr>) (mounted_segments sm)\<rparr>"
    have ix: "index_ok sm1 ((fst w)(i := None))"
      by (rule index_ok_unmount [of sm _ i b "seg_name (ms_segment mounted)"]) (use seg_invD(4) [OF inv] i in \<open>simp_all add: serves_def sm1_def\<close>)
    have "i \<notin> set as" if "(n, as) \<in> set (allocators_by_name sm1)" for n as
      using ix no_empty_entry [OF _ that] unfolding index_ok_def by fastforce
    moreover have "ms_allocator ms \<noteq> Some i" if ms: "(sid, ms) \<in> set (mounted_segments sm1)" for sid ms
    proof
      assume a: "ms_allocator ms = Some i"
      have "distinct (map fst (mounted_segments sm1))" using seg_invD(1) [OF inv] by (simp add: sm1_def)
      then have "map_of (mounted_segments sm1) sid = Some ms" using ms by (rule map_of_is_SomeI)
      then have "sid \<noteq> segment_id \<and> mounted_as sm sid i" using a by (auto simp: sm1_def mounted_as_def split: if_splits)
      moreover have "mounted_as sm segment_id i" using Some i by (simp add: mounted_as_def)
      moreover have "\<exists>!sid. mounted_as sm sid i" by (rule seg_invD(3) [OF inv i(2)])
      ultimately show False by auto
    qed
    ultimately have "\<not> referenced sm1 i" using ix by (auto simp: referenced_def list_ex_iff index_ok_def)
    then show ?thesis using assms(1) Some False i
      by (intro prepared) (auto simp: PrepareUnmountSegment_def Let_def release_pointer_def sm1_def)
  qed
qed

lemma PrepareUnmountSegment_ok:
  assumes ok: "store_ok sm w MDs B" and p: "PrepareUnmountSegment segment_id sm w = (sm', w', e, cap)"
  shows "store_ok sm' w' MDs B"
proof (rule PrepareUnmountSegment_cases [OF p])
  show inv: "seg_inv sm w" using ok by (simp add: store_ok_def)
  fix mounted i b
  assume prepared: "map_of (mounted_segments sm) segment_id = Some mounted" "ms_allocator mounted = Some i"
      "fst w i = Some b" "serves b (ms_segment mounted)" "e = OK" "cap = seg_size (ms_segment mounted)"
      "w' = ((fst w)(i := None), snd w)"
      "sm' = sm\<lparr>allocators := remove1 i (allocators sm),
          allocators_by_name := map_erase_one (seg_name (ms_segment mounted)) i (allocators_by_name sm),
          mounted_segments := AList.update segment_id (mounted\<lparr>ms_allocator := None, ms_status := UNMOUNTING\<rparr>) (mounted_segments sm)\<rparr>"
  note sm' = prepared(8)
  have mi: "mounted_as sm segment_id i" using prepared by (simp add: mounted_as_def)
  have as: "mounted_as sm' sid j \<longleftrightarrow> sid \<noteq> segment_id \<and> mounted_as sm sid j" for sid j
    by (auto simp: mounted_as_def sm' split: if_splits)
  have only: "sid = segment_id" if "mounted_as sm sid i" for sid using that mi seg_invD(3) [OF inv prepared(3)] by blast
  have oth: "j = i" if "mounted_as sm segment_id j" for j using that prepared by (simp add: mounted_as_def)
  have "\<exists>!sid. mounted_as sm' sid j" if "j \<in> dom (fst w')" for j
  proof -
    have "j \<noteq> i" "j \<in> dom (fst w)" using that by (auto simp: prepared(7) split: if_splits)
    then have "\<exists>!sid. mounted_as sm sid j" using seg_invD(3) [OF inv] by blast
    then show ?thesis using oth \<open>j \<noteq> i\<close> as by metis
  qed
  moreover have "mounted_ok (fst w') sid ms" if "map_of (mounted_segments sm') sid = Some ms" for sid ms
  proof (cases "sid = segment_id")
    case True
    then show ?thesis using that seg_invD(2) [OF inv prepared(1)] by (auto simp: sm' mounted_ok_def)
  next
    case False
    then have ms: "map_of (mounted_segments sm) sid = Some ms" using that by (simp add: sm')
    then have "mounted_ok (fst w) sid ms" by (rule seg_invD(2) [OF inv])
    moreover have "ms_allocator ms \<noteq> Some i" using only [of sid] ms False by (auto simp: mounted_as_def)
    ultimately show ?thesis by (auto simp: prepared(7) elim!: mounted_ok_mono)
  qed
  moreover have "index_ok sm' (fst w')" unfolding prepared(7) fst_conv
    by (rule index_ok_unmount [of sm _ i b "seg_name (ms_segment mounted)"]) (use seg_invD(4) [OF inv] prepared in \<open>simp_all add: serves_def\<close>)
  moreover have "total_capacity sm' = total_capacity sm"
    by (rule total_capacity_update [OF prepared(1), where ms = "mounted\<lparr>ms_allocator := None, ms_status := UNMOUNTING\<rparr>"]) (simp_all add: sm')
  then have "mem_total_capacity (snd w') = total_capacity sm'" using seg_invD(8) [OF inv] by (simp add: prepared(7))
  moreover have "dom (map_of (mounted_segments sm')) = dom (map_of (mounted_segments sm))" using prepared(1) by (auto simp: sm')
  then have "\<forall>sid \<in> dom (map_of (mounted_segments sm')). \<exists>c. sid \<in> set (lookup_list (client_segments sm') c)"
    using inv unfolding seg_inv_def by (simp add: sm')
  moreover have "j < next_allocator sm' \<and> allocator_type c = memory_allocator_kind sm'" if "fst w' j = Some c" for j c
    using that seg_invD(5) [OF inv] by (auto simp: prepared(7) sm' split: if_splits)
  moreover have "distinct (map fst (mounted_segments sm'))" "no_empty (client_segments sm')"
    using seg_invD(1,6) [OF inv] by (simp_all add: sm')
  ultimately have "seg_inv sm' w'" unfolding seg_inv_def by blast
  moreover have "world_ok w' MDs B" using ok by (simp add: store_ok_def world_ok_def prepared(7) heap_drop)
  ultimately show ?thesis using ok by (simp add: store_ok_def sm')
qed (use ok in simp)

text \<open>The commit, for a segment that was prepared, with the capacity the preparation returned.\<close>

lemma CommitUnmountSegment_ok:
  assumes ok: "store_ok sm w MDs B" and ms: "map_of (mounted_segments sm) segment_id = Some ms" "ms_status ms = UNMOUNTING"
    and c: "CommitUnmountSegment segment_id client_id (seg_size (ms_segment ms)) sm w = (sm', w', e)"
  shows "store_ok sm' w' MDs B"
proof -
  have inv: "seg_inv sm w" using ok by (simp add: store_ok_def)
  have none: "ms_allocator ms = None" using ms seg_invD(2) [OF inv ms(1)] by (simp add: mounted_ok_def)
  have sm': "sm' = sm\<lparr>client_segments := map_erase_one client_id segment_id (client_segments sm),
                  mounted_segments := AList.delete segment_id (mounted_segments sm)\<rparr>"
    and w': "w' = (fst w, dec_total_mem_capacity (seg_size (ms_segment ms)) (snd w))"
    using c none ms(1) by (auto simp: CommitUnmountSegment_def Let_def release_pointer_def)
  have mo: "map_of (mounted_segments sm') sid = (if sid = segment_id then None else map_of (mounted_segments sm) sid)" for sid
    by (simp add: sm' restrict_map_def)
  have as: "mounted_as sm' sid i \<longleftrightarrow> mounted_as sm sid i" for sid i using ms none by (auto simp: mounted_as_def mo)
  have "mem_total_capacity (snd w') = total_capacity sm'"
    using arg_cong [OF alist_values_delete [OF _ ms(1)], of "\<lambda>M. sum_mset (image_mset (seg_size \<circ> ms_segment) M)"] seg_invD(1,8) [OF inv]
    by (simp add: total_capacity_def sm' w' dec_total_mem_capacity_def algebra_simps)
  moreover have "\<exists>c. sid \<in> set (lookup_list (client_segments sm') c)" if sid: "sid \<in> dom (map_of (mounted_segments sm'))" for sid
  proof -
    have "sid \<noteq> segment_id" "sid \<in> dom (map_of (mounted_segments sm))" using sid by (auto simp: mo split: if_splits)
    then obtain c where "sid \<in> set (lookup_list (client_segments sm) c)" using inv unfolding seg_inv_def by blast
    then show ?thesis using \<open>sid \<noteq> segment_id\<close> by (intro exI [of _ c]) (auto simp: sm')
  qed
  moreover have "\<forall>sid ms. map_of (mounted_segments sm') sid = Some ms \<longrightarrow> mounted_ok (fst w') sid ms"
    using seg_invD(2) [OF inv] by (simp add: mo w')
  moreover have "distinct (map fst (mounted_segments sm'))" "no_empty (client_segments sm')"
    using seg_invD(1,6) [OF inv] by (simp_all add: sm' no_empty_erase_one)
  moreover have "index_ok sm' (fst w')" using seg_invD(4) [OF inv] by (simp add: index_ok_def sm' w')
  moreover have "\<forall>i \<in> dom (fst w'). \<exists>!sid. mounted_as sm' sid i" using inv unfolding seg_inv_def by (simp add: as w')
  moreover have "\<forall>i b. fst w' i = Some b \<longrightarrow> i < next_allocator sm' \<and> allocator_type b = memory_allocator_kind sm'"
    using seg_invD(5) [OF inv] by (simp add: sm' w')
  ultimately have "seg_inv sm' w'" unfolding seg_inv_def by blast
  moreover have "world_ok w' MDs B" using ok by (simp add: store_ok_def world_ok_def w' gauges_ok_def dec_total_mem_capacity_def)
  ultimately show ?thesis using ok by (simp add: store_ok_def sm')
qed

end
