(* ===== verification/Master.thy ===== *)
theory Master
  imports Segment_Safe
begin

text \<open>
  The master service (\<open>master_service.h\<close>, \<open>master_service.cpp\<close>): its state and the handlers of the
  requests. A handler that holds the lock of one shard, or the segment mutex, is one step;
  \<open>UnmountSegment\<close> and the loops over all shards are sequences of such steps. What the sources
  take from the platform is in the record \<open>Platform\<close>: the hash of strings, the random
  permutations, the regular expressions, whether the queue of pings accepts an entry, and the
  rounding of double arithmetic. The readings of the clock are arguments.
\<close>

section \<open>State\<close>

record Platform =
  std_hash :: "string \<Rightarrow> u64"
  std_shuffle :: shuffle_fn
  std_regex :: "string \<Rightarrow> (string \<Rightarrow> bool) option"
  queue_accepts :: "UUID list \<Rightarrow> UUID \<Rightarrow> bool"
  rounding :: "rat \<Rightarrow> rat"

record MasterServiceConfig =
  default_kv_lease_ttl :: u64
  default_kv_soft_pin_ttl :: u64
  allow_evict_soft_pinned_objects :: bool
  eviction_ratio :: rat
  eviction_high_watermark_ratio :: rat
  config_view_version :: int
  client_live_ttl_sec :: int
  enable_ha :: bool
  cluster_id :: string
  root_fs_dir :: string
  global_file_segment_size :: int
  memory_allocator_type :: BufferAllocatorType

definition kNumShards :: nat where "kNumShards = 1024"

type_synonym MetadataShard = "(string \<times> ObjectMetadata) list"

record MasterService =
  service_config :: MasterServiceConfig
  use_disk_replica :: bool
  metadata_shards :: "nat \<Rightarrow> MetadataShard"
  need_eviction :: bool
  view_version :: int
  ok_client :: "UUID set"
  client_ping_queue :: "UUID list"
  segment_manager :: SegmentManager
  allocation_strategy :: AllocationStrategy
  shared :: world

text \<open>
  The constructor. The member \<open>view_version_\<close> has no initialiser: \<open>indeterminate\<close> stands for what
  its memory holds.
\<close>

definition MasterService_new :: "MasterServiceConfig \<Rightarrow> int \<Rightarrow> MasterMetrics \<Rightarrow> exn + MasterService" where
  "MasterService_new config indeterminate m =
     (if eviction_ratio config < 0 \<or> eviction_ratio config > 1 then Inl invalid_argument
      else if eviction_high_watermark_ratio config < 0 \<or> eviction_high_watermark_ratio config > 1 then Inl invalid_argument
      else
        let disk = root_fs_dir config \<noteq> []
        in Inr \<lparr>service_config = config, use_disk_replica = disk, metadata_shards = (\<lambda>_. []), need_eviction = False,
                view_version = indeterminate, ok_client = {}, client_ping_queue = [],
                segment_manager = SegmentManager_new (memory_allocator_type config),
                allocation_strategy = \<lparr>retry_counter = 0, shuffles = 0\<rparr>,
                shared = (Map.empty, if disk then inc_total_file_capacity (word_of_int (global_file_segment_size config)) m else m)\<rparr>)"

section \<open>Mounting\<close>

definition push_ping :: "Platform \<Rightarrow> UUID \<Rightarrow> MasterService \<Rightarrow> MasterService option" where
  "push_ping p client_id s =
     (if queue_accepts p (client_ping_queue s) client_id
      then Some (s\<lparr>client_ping_queue := client_ping_queue s @ [client_id]\<rparr>) else None)"

definition MasterService_MountSegment :: "Platform \<Rightarrow> Segment \<Rightarrow> UUID \<Rightarrow> MasterService \<Rightarrow> MasterService \<times> (ErrorCode + unit)" where
  "MasterService_MountSegment p segment client_id s =
     (case push_ping p client_id s of
        None \<Rightarrow> (s, Inl INTERNAL_ERROR)
      | Some s \<Rightarrow>
          (case MountSegment segment client_id (segment_manager s) (shared s) of (sm, w, err) \<Rightarrow>
             let s = s\<lparr>segment_manager := sm, shared := w\<rparr>
             in if err = SEGMENT_ALREADY_EXISTS then (s, Inr ())
                else if err \<noteq> OK then (s, Inl err)
                else (s, Inr ())))"

definition MasterService_ReMountSegment :: "Platform \<Rightarrow> Segment list \<Rightarrow> UUID \<Rightarrow> MasterService \<Rightarrow> MasterService \<times> (ErrorCode + unit)" where
  "MasterService_ReMountSegment p segments client_id s =
     (if client_id \<in> ok_client s then (s, Inr ())
      else case push_ping p client_id s of
        None \<Rightarrow> (s, Inl INTERNAL_ERROR)
      | Some s \<Rightarrow>
          (case ReMountSegment segments client_id (segment_manager s) (shared s) of (sm, w, err) \<Rightarrow>
             let s = s\<lparr>segment_manager := sm, shared := w\<rparr>
             in if err \<noteq> OK then (s, Inl err)
                else (s\<lparr>ok_client := insert client_id (ok_client s), shared := (fst w, inc_active_clients 1 (snd w))\<rparr>, Inr ())))"

section \<open>The shards\<close>

definition getShardIndex :: "Platform \<Rightarrow> string \<Rightarrow> nat" where
  "getShardIndex p key = unat (std_hash p key) mod kNumShards"

definition find_metadata :: "Platform \<Rightarrow> string \<Rightarrow> MasterService \<Rightarrow> ObjectMetadata option" where
  "find_metadata p key s = map_of (metadata_shards s (getShardIndex p key)) key"

definition set_metadata :: "Platform \<Rightarrow> string \<Rightarrow> ObjectMetadata \<Rightarrow> MasterService \<Rightarrow> MasterService" where
  "set_metadata p key md s =
     (let i = getShardIndex p key
      in s\<lparr>metadata_shards := (metadata_shards s)(i := AList.update key md (metadata_shards s i))\<rparr>)"

definition erase_metadata :: "Platform \<Rightarrow> string \<Rightarrow> ObjectMetadata \<Rightarrow> MasterService \<Rightarrow> MasterService" where
  "erase_metadata p key md s =
     (let i = getShardIndex p key
      in s\<lparr>metadata_shards := (metadata_shards s)(i := AList.delete key (metadata_shards s i)),
           shared := destroy_metadata md (shared s)\<rparr>)"

text \<open>The accessor cleans the entry up and drops it when no replica is left.\<close>

definition MetadataAccessor :: "Platform \<Rightarrow> string \<Rightarrow> MasterService \<Rightarrow> MasterService \<times> ObjectMetadata option" where
  "MetadataAccessor p key s =
     (case find_metadata p key s of
        None \<Rightarrow> (s, None)
      | Some md \<Rightarrow>
          (case CleanupStaleHandles md (shared s) of (md, w, none_left) \<Rightarrow>
             let s = set_metadata p key md (s\<lparr>shared := w\<rparr>)
             in if none_left then (erase_metadata p key md s, None) else (s, Some md)))"

text \<open>
  The loops \<open>while (it != end)\<close> over the entries of a shard: the body changes the entry and says
  whether it is erased; the loop ends early when the condition on the accumulator fails.
\<close>

fun scan_metadata ::
  "('a \<Rightarrow> bool) \<Rightarrow> (string \<Rightarrow> ObjectMetadata \<Rightarrow> 'a \<Rightarrow> world \<Rightarrow> ObjectMetadata \<times> 'a \<times> world \<times> bool) \<Rightarrow> MetadataShard
     \<Rightarrow> 'a \<Rightarrow> world \<Rightarrow> MetadataShard \<times> 'a \<times> world" where
  "scan_metadata go body [] a w = ([], a, w)"
| "scan_metadata go body ((key, md) # rest) a w =
     (if \<not> go a then ((key, md) # rest, a, w)
      else case body key md a w of (md, a, w, erase) \<Rightarrow>
        (case scan_metadata go body rest a (if erase then destroy_metadata md w else w) of (rest, a, w) \<Rightarrow>
           (if erase then rest else (key, md) # rest, a, w)))"

definition scan_shard ::
  "('a \<Rightarrow> bool) \<Rightarrow> (string \<Rightarrow> ObjectMetadata \<Rightarrow> 'a \<Rightarrow> world \<Rightarrow> ObjectMetadata \<times> 'a \<times> world \<times> bool) \<Rightarrow> nat
     \<Rightarrow> 'a \<Rightarrow> MasterService \<Rightarrow> MasterService \<times> 'a" where
  "scan_shard go body i a s =
     (case scan_metadata go body (metadata_shards s i) a (shared s) of (shard, a, w) \<Rightarrow>
        (s\<lparr>metadata_shards := (metadata_shards s)(i := shard), shared := w\<rparr>, a))"

fun scan_shards ::
  "('a \<Rightarrow> bool) \<Rightarrow> (string \<Rightarrow> ObjectMetadata \<Rightarrow> 'a \<Rightarrow> world \<Rightarrow> ObjectMetadata \<times> 'a \<times> world \<times> bool) \<Rightarrow> nat list
     \<Rightarrow> 'a \<Rightarrow> MasterService \<Rightarrow> MasterService \<times> 'a" where
  "scan_shards go body [] a s = (s, a)"
| "scan_shards go body (i # is) a s =
     (if \<not> go a then (s, a) else case scan_shard go body i a s of (s, a) \<Rightarrow> scan_shards go body is a s)"

abbreviation all_shards :: "nat list" where "all_shards \<equiv> [0..<kNumShards]"

abbreviation always :: "'a \<Rightarrow> bool" where "always \<equiv> \<lambda>_. True"

section \<open>Unmounting\<close>

definition clear_body :: "string \<Rightarrow> ObjectMetadata \<Rightarrow> unit \<Rightarrow> world \<Rightarrow> ObjectMetadata \<times> unit \<times> world \<times> bool" where
  "clear_body key md a w = (case CleanupStaleHandles md w of (md, w, none_left) \<Rightarrow> (md, a, w, none_left))"

definition ClearInvalidHandles :: "MasterService \<Rightarrow> MasterService" where
  "ClearInvalidHandles s = fst (scan_shards always clear_body all_shards () s)"

definition UnmountSegment :: "UUID \<Rightarrow> UUID \<Rightarrow> MasterService \<Rightarrow> MasterService \<times> (ErrorCode + unit)" where
  "UnmountSegment segment_id client_id s =
     (case PrepareUnmountSegment segment_id (segment_manager s) (shared s) of (sm, w, err, metrics_dec_capacity) \<Rightarrow>
        let s = s\<lparr>segment_manager := sm, shared := w\<rparr>
        in if err = SEGMENT_NOT_FOUND then (s, Inr ())
           else if err \<noteq> OK then (s, Inl err)
           else
             let s = ClearInvalidHandles s
             in case CommitUnmountSegment segment_id client_id metrics_dec_capacity (segment_manager s) (shared s) of (sm, w, err) \<Rightarrow>
               let s = s\<lparr>segment_manager := sm, shared := w\<rparr>
               in if err \<noteq> OK then (s, Inl err) else (s, Inr ()))"

section \<open>Queries\<close>

definition ExistKey :: "Platform \<Rightarrow> time \<Rightarrow> string \<Rightarrow> MasterService \<Rightarrow> MasterService \<times> (ErrorCode + bool)" where
  "ExistKey p now key s =
     (case MetadataAccessor p key s of
        (s, None) \<Rightarrow> (s, Inr False)
      | (s, Some md) \<Rightarrow>
          if list_ex (\<lambda>r. rep_status r = COMPLETE) (replicas md)
          then (set_metadata p key (GrantLease now (default_kv_lease_ttl (service_config s))
                  (default_kv_soft_pin_ttl (service_config s)) md) s, Inr True)
          else (s, Inr False))"

text \<open>A request with several keys; the clock is read for each of them.\<close>

fun batch :: "('k \<Rightarrow> 's \<Rightarrow> 's \<times> 'r) \<Rightarrow> 'k list \<Rightarrow> 's \<Rightarrow> 's \<times> 'r list" where
  "batch f [] s = (s, [])"
| "batch f (k # ks) s = (case f k s of (s, r) \<Rightarrow> case batch f ks s of (s, rs) \<Rightarrow> (s, r # rs))"

definition BatchExistKey :: "Platform \<Rightarrow> (time \<times> string) list \<Rightarrow> MasterService \<Rightarrow> MasterService \<times> (ErrorCode + bool) list" where
  "BatchExistKey p = batch (\<lambda>(now, key). ExistKey p now key)"

definition GetAllKeys :: "MasterService \<Rightarrow> ErrorCode + string list" where
  "GetAllKeys s = Inr (concat (map (\<lambda>i. map fst (metadata_shards s i)) all_shards))"

definition MasterService_GetAllSegments :: "MasterService \<Rightarrow> ErrorCode + string list" where
  "MasterService_GetAllSegments s = Inr (GetAllSegments (segment_manager s))"

definition MasterService_QuerySegments :: "string \<Rightarrow> MasterService \<Rightarrow> ErrorCode + u64 \<times> u64" where
  "MasterService_QuerySegments segment s = QuerySegments segment (segment_manager s) (fst (shared s))"

definition complete_descriptors :: "allocator_heap \<Rightarrow> ObjectMetadata \<Rightarrow> ReplicaDescriptor list" where
  "complete_descriptors H md = map (get_descriptor H) (filter (\<lambda>r. rep_status r = COMPLETE) (replicas md))"

text \<open>The reading of the clock at an entry is given by its key.\<close>

definition get_regex_body ::
  "MasterServiceConfig \<Rightarrow> (string \<Rightarrow> time) \<Rightarrow> (string \<Rightarrow> bool) \<Rightarrow> string \<Rightarrow> ObjectMetadata \<Rightarrow> (string \<times> ReplicaDescriptor list) list \<Rightarrow> world
     \<Rightarrow> ObjectMetadata \<times> (string \<times> ReplicaDescriptor list) list \<times> world \<times> bool" where
  "get_regex_body config now pattern key md results w =
     (if pattern key then
        let replica_list = complete_descriptors (fst w) md
        in if replica_list = [] then (md, results, w, False)
           else (GrantLease (now key) (default_kv_lease_ttl config) (default_kv_soft_pin_ttl config) md,
                 results @ [(key, replica_list)], w, False)
      else (md, results, w, False))"

definition GetReplicaListByRegex ::
  "Platform \<Rightarrow> (string \<Rightarrow> time) \<Rightarrow> string \<Rightarrow> MasterService \<Rightarrow> MasterService \<times> (ErrorCode + (string \<times> ReplicaDescriptor list) list)" where
  "GetReplicaListByRegex p now regex_pattern s =
     (case std_regex p regex_pattern of
        None \<Rightarrow> (s, Inl INVALID_PARAMS)
      | Some pattern \<Rightarrow>
          (case scan_shards always (get_regex_body (service_config s) now pattern) all_shards [] s of (s, results) \<Rightarrow> (s, Inr results)))"

definition GetReplicaList ::
  "Platform \<Rightarrow> time \<Rightarrow> string \<Rightarrow> MasterService \<Rightarrow> MasterService \<times> (ErrorCode + ReplicaDescriptor list \<times> u64)" where
  "GetReplicaList p now key s =
     (case MetadataAccessor p key s of
        (s, None) \<Rightarrow> (s, Inl OBJECT_NOT_FOUND)
      | (s, Some md) \<Rightarrow>
          let replica_list = complete_descriptors (fst (shared s)) md;
              ttl = default_kv_lease_ttl (service_config s)
          in if replica_list = [] then (s, Inl REPLICA_IS_NOT_READY)
             else (set_metadata p key (GrantLease now ttl (default_kv_soft_pin_ttl (service_config s)) md) s, Inr (replica_list, ttl)))"

definition GetKeyCount :: "MasterService \<Rightarrow> nat" where
  "GetKeyCount s = sum_list (map (\<lambda>i. length (metadata_shards s i)) all_shards)"

definition Ping :: "Platform \<Rightarrow> UUID \<Rightarrow> MasterService \<Rightarrow> MasterService \<times> (ErrorCode + int \<times> ClientStatus)" where
  "Ping p client_id s =
     (let client_status = (if client_id \<in> ok_client s then Client_OK else NEED_REMOUNT)
      in case push_ping p client_id s of
        None \<Rightarrow> (s, Inl INTERNAL_ERROR)
      | Some s \<Rightarrow> (s, Inr (view_version s, client_status)))"

definition GetFsdir :: "MasterService \<Rightarrow> ErrorCode + string" where
  "GetFsdir s =
     (let c = service_config s
      in if root_fs_dir c = [] \<or> cluster_id c = [] then Inr []
         else Inr (root_fs_dir c @ ''/'' @ cluster_id c))"

section \<open>File paths\<close>

definition kInvalidChars :: string where
  "kInvalidChars = [CHR ''/'', CHR 0x5C, CHR '':'', CHR ''*'', CHR ''?'', CHR 0x22, CHR ''<'', CHR ''>'', CHR ''|'']"

definition SanitizeKey :: "string \<Rightarrow> string" where
  "SanitizeKey key = map (\<lambda>c. if c \<in> set kInvalidChars then CHR ''_'' else c) key"

text \<open>\<open>std::filesystem::path\<close> on POSIX: \<open>operator/\<close> and \<open>lexically_normal\<close>.\<close>

definition path_append :: "string \<Rightarrow> string \<Rightarrow> string" where
  "path_append a b =
     (if b \<noteq> [] \<and> hd b = CHR ''/'' then b
      else if a \<noteq> [] \<and> last a \<noteq> CHR ''/'' then a @ ''/'' @ b
      else a @ b)"

fun path_split :: "string \<Rightarrow> string \<Rightarrow> string list" where
  "path_split acc [] = [acc]"
| "path_split acc (c # cs) = (if c = CHR ''/'' then acc # path_split [] cs else path_split (acc @ [c]) cs)"

text \<open>One element of the path: the elements kept so far in reverse, and whether a separator follows the last.\<close>

definition path_step :: "bool \<Rightarrow> string \<Rightarrow> string list \<times> bool \<Rightarrow> string list \<times> bool" where
  "path_step rooted c = (\<lambda>(kept, sep).
     if c = [] then (kept, True)
     else if c = ''.'' then (kept, True)
     else if c = ''..'' then
       (case kept of
          [] \<Rightarrow> if rooted then ([], True) else ([c], False)
        | k # ks \<Rightarrow> if k = ''..'' then (c # kept, False) else (ks, True))
     else (c # kept, False))"

fun path_join :: "string list \<Rightarrow> string" where
  "path_join [] = []"
| "path_join [c] = c"
| "path_join (c # cs) = c @ ''/'' @ path_join cs"

definition lexically_normal :: "string \<Rightarrow> string" where
  "lexically_normal path =
     (if path = [] then []
      else
        let rooted = (hd path = CHR ''/'');
            (kept, sep) = fold (path_step rooted) (path_split [] path) ([], False);
            body = path_join (rev kept) @ (if sep \<and> kept \<noteq> [] \<and> hd kept \<noteq> ''..'' then ''/'' else [])
        in if rooted then ''/'' @ body else if body = [] then ''.'' else body)"

definition ResolvePath :: "Platform \<Rightarrow> string \<Rightarrow> MasterServiceConfig \<Rightarrow> string" where
  "ResolvePath p key config =
     (let hash = std_hash p key;
          dir1 = char_of (97 + unat (hash AND 0x0F));
          dir2 = char_of (97 + unat (drop_bit 4 hash AND 0x0F));
          dir_path = path_append [dir1] [dir2]
      in lexically_normal (path_append (path_append (path_append (root_fs_dir config) (cluster_id config)) dir_path) (SanitizeKey key)))"

section \<open>Putting\<close>

text \<open>\<open>emplace\<close> constructs the entry and destroys it again when the key is there already.\<close>

definition emplace_metadata :: "Platform \<Rightarrow> string \<Rightarrow> u64 \<Rightarrow> Replica list \<Rightarrow> bool \<Rightarrow> MasterService \<Rightarrow> MasterService" where
  "emplace_metadata p key total_length reps soft_pin s =
     (case ObjectMetadata_new total_length reps soft_pin (snd (shared s)) of (md, m) \<Rightarrow>
        let s = s\<lparr>shared := (fst (shared s), m)\<rparr>
        in case find_metadata p key s of
          None \<Rightarrow> set_metadata p key md s
        | Some _ \<Rightarrow> s\<lparr>shared := destroy_metadata md (shared s)\<rparr>)"

definition PutStart ::
  "Platform \<Rightarrow> string \<Rightarrow> u64 list \<Rightarrow> ReplicateConfig \<Rightarrow> MasterService \<Rightarrow> MasterService \<times> (ErrorCode + ReplicaDescriptor list)" where
  "PutStart p key slice_lengths config s =
     (if replica_num config = 0 \<or> key = [] \<or> slice_lengths = [] then (s, Inl INVALID_PARAMS)
      else if memory_allocator_type (service_config s) = CACHELIB \<and> list_ex (\<lambda>n. n > kMaxSliceSize) slice_lengths
      then (s, Inl INVALID_PARAMS)
      else
        let total_length = sum_list slice_lengths;
            (s, present) =
              (case find_metadata p key s of
                 None \<Rightarrow> (s, False)
               | Some md \<Rightarrow>
                   (case CleanupStaleHandles md (shared s) of (md, w, none_left) \<Rightarrow>
                      (set_metadata p key md (s\<lparr>shared := w\<rparr>), \<not> none_left)))
        in if present then (s, Inl OBJECT_ALREADY_EXISTS)
           else
             case Allocate (std_shuffle p) (allocators (segment_manager s)) (allocators_by_name (segment_manager s))
                    slice_lengths config (shared s) (allocation_strategy s) of
               (w, st, Inl e) \<Rightarrow>
                 let s = s\<lparr>shared := w, allocation_strategy := st\<rparr>
                 in if e = INVALID_PARAMS then (s, Inl INVALID_PARAMS)
                    else (s\<lparr>need_eviction := True\<rparr>, Inl NO_AVAILABLE_HANDLE)
             | (w, st, Inr reps) \<Rightarrow>
                 let s = s\<lparr>shared := w, allocation_strategy := st\<rparr>;
                     reps = (if use_disk_replica s
                             then reps @ [Replica_disk (ResolvePath p key (service_config s)) total_length PROCESSING] else reps);
                     replica_list = map (get_descriptor (fst (shared s))) reps
                 in (emplace_metadata p key total_length reps (with_soft_pin config) s, Inr replica_list))"

definition PutEnd :: "Platform \<Rightarrow> time \<Rightarrow> string \<Rightarrow> ReplicaType \<Rightarrow> MasterService \<Rightarrow> MasterService \<times> (ErrorCode + unit)" where
  "PutEnd p now key rtype s =
     (case MetadataAccessor p key s of
        (s, None) \<Rightarrow> (s, Inl OBJECT_NOT_FOUND)
      | (s, Some md) \<Rightarrow>
          let md = md\<lparr>replicas := map (\<lambda>r. if replica_type r = rtype then mark_complete r else r) (replicas md)\<rparr>
          in (set_metadata p key (GrantLease now 0 (default_kv_soft_pin_ttl (service_config s)) md) s, Inr ()))"

definition PutRevoke :: "Platform \<Rightarrow> string \<Rightarrow> ReplicaType \<Rightarrow> MasterService \<Rightarrow> MasterService \<times> (ErrorCode + unit)" where
  "PutRevoke p key rtype s =
     (case MetadataAccessor p key s of
        (s, None) \<Rightarrow> (s, Inl OBJECT_NOT_FOUND)
      | (s, Some md) \<Rightarrow>
          if HasDiffRepStatus PROCESSING rtype md \<noteq> None then (s, Inl INVALID_WRITE)
          else
            case EraseReplica rtype md (shared s) of (md, w) \<Rightarrow>
              let s = set_metadata p key md (s\<lparr>shared := w\<rparr>)
              in (if \<not> IsValid md then erase_metadata p key md s else s, Inr ()))"

definition BatchPutEnd :: "Platform \<Rightarrow> (time \<times> string) list \<Rightarrow> MasterService \<Rightarrow> MasterService \<times> (ErrorCode + unit) list" where
  "BatchPutEnd p = batch (\<lambda>(now, key). PutEnd p now key MEMORY)"

definition BatchPutRevoke :: "Platform \<Rightarrow> string list \<Rightarrow> MasterService \<Rightarrow> MasterService \<times> (ErrorCode + unit) list" where
  "BatchPutRevoke p = batch (\<lambda>key. PutRevoke p key MEMORY)"

section \<open>Removing\<close>

definition Remove :: "Platform \<Rightarrow> time \<Rightarrow> string \<Rightarrow> MasterService \<Rightarrow> MasterService \<times> (ErrorCode + unit)" where
  "Remove p now key s =
     (case MetadataAccessor p key s of
        (s, None) \<Rightarrow> (s, Inl OBJECT_NOT_FOUND)
      | (s, Some md) \<Rightarrow>
          if \<not> IsLeaseExpired now md then (s, Inl OBJECT_HAS_LEASE)
          else if \<not> IsAllReplicasComplete md then (s, Inl REPLICA_IS_NOT_READY)
          else (erase_metadata p key md s, Inr ()))"

definition remove_regex_body ::
  "(string \<Rightarrow> time) \<Rightarrow> (string \<Rightarrow> bool) \<Rightarrow> string \<Rightarrow> ObjectMetadata \<Rightarrow> int \<Rightarrow> world \<Rightarrow> ObjectMetadata \<times> int \<times> world \<times> bool" where
  "remove_regex_body now pattern key md removed_count w =
     (if pattern key then
        if \<not> IsLeaseExpired (now key) md then (md, removed_count, w, False)
        else if \<not> IsAllReplicasComplete md then (md, removed_count, w, False)
        else (md, removed_count + 1, w, True)
      else (md, removed_count, w, False))"

definition RemoveByRegex :: "Platform \<Rightarrow> (string \<Rightarrow> time) \<Rightarrow> string \<Rightarrow> MasterService \<Rightarrow> MasterService \<times> (ErrorCode + int)" where
  "RemoveByRegex p now regex_pattern s =
     (case std_regex p regex_pattern of
        None \<Rightarrow> (s, Inl INVALID_PARAMS)
      | Some pattern \<Rightarrow>
          (case scan_shards always (remove_regex_body now pattern) all_shards 0 s of (s, removed_count) \<Rightarrow> (s, Inr removed_count)))"

definition remove_all_body :: "time \<Rightarrow> string \<Rightarrow> ObjectMetadata \<Rightarrow> int \<times> u64 \<Rightarrow> world \<Rightarrow> ObjectMetadata \<times> (int \<times> u64) \<times> world \<times> bool" where
  "remove_all_body now key md = (\<lambda>(removed_count, total_freed_size) w.
     if IsLeaseExpired now md
     then (md, (removed_count + 1, total_freed_size + obj_size md * of_nat (GetMemReplicaCount md)), w, True)
     else (md, (removed_count, total_freed_size), w, False))"

definition RemoveAll :: "time \<Rightarrow> MasterService \<Rightarrow> MasterService \<times> int" where
  "RemoveAll now s =
     (case scan_shards always (remove_all_body now) all_shards (0, 0) s of (s, removed_count, _) \<Rightarrow> (s, removed_count))"

end
