(* ===== verification/Master_Inv.thy ===== *)
theory Master_Inv
  imports Master
begin

text \<open>
  The invariant of the master service, and the table of objects it presents: the entries
  whose replicas are not all in memory that has gone. The accessor of the handlers keeps
  both.
\<close>

declare map_of_eq_Some_iff [simp del] split_paired_All [simp del] split_paired_Ex [simp del]

section \<open>The invariant\<close>

definition all_metadata :: "MasterService \<Rightarrow> ObjectMetadata multiset" where
  "all_metadata s = (\<Sum>i < kNumShards. mset (map snd (metadata_shards s i)))"

definition shards_ok :: "Platform \<Rightarrow> MasterService \<Rightarrow> bool" where
  "shards_ok p s \<longleftrightarrow> (\<forall>i < kNumShards. distinct (map fst (metadata_shards s i))
     \<and> (\<forall>k \<in> fst ` set (metadata_shards s i). getShardIndex p k = i))"

text \<open>Every replica has the size of the object, and is being written or complete.\<close>

definition obj_ok :: "ObjectMetadata \<Rightarrow> bool" where
  "obj_ok md \<longleftrightarrow> (\<forall>r \<in> set (replicas md). rep_status r \<in> {PROCESSING, COMPLETE}
     \<and> (is_memory_replica r \<longrightarrow> sum_list (map buf_size (replica_buffers r)) = obj_size md)
     \<and> (is_disk_replica r \<longrightarrow> disk_size r = obj_size md))"

text \<open>
  The state, with entries \<open>X\<close> that are not in the table and buffers \<open>B\<close> that are in no entry.
\<close>

definition ms_ok :: "Platform \<Rightarrow> MasterService \<Rightarrow> ObjectMetadata multiset \<Rightarrow> AllocatedBuffer multiset \<Rightarrow> bool" where
  "ms_ok p s X B \<longleftrightarrow> shards_ok p s \<and> store_ok (segment_manager s) (shared s) (all_metadata s + X) B
     \<and> (\<forall>md \<in># all_metadata s. obj_ok md)
     \<and> memory_allocator_kind (segment_manager s) = memory_allocator_type (service_config s)
     \<and> finite (ok_client s) \<and> active_clients (snd (shared s)) = of_nat (card (ok_client s))"

lemma getShardIndex_less [simp]: "getShardIndex p k < kNumShards"
  by (simp add: getShardIndex_def kNumShards_def)

lemma all_metadata_shard:
  assumes "i < kNumShards"
  shows "\<exists>R. all_metadata s = mset (map snd (metadata_shards s i)) + R
    \<and> (\<forall>t al. metadata_shards t = (metadata_shards s)(i := al) \<longrightarrow> all_metadata t = mset (map snd al) + R)"
proof -
  let ?R = "\<Sum>j \<in> {..<kNumShards} - {i}. mset (map snd (metadata_shards s j))"
  have "all_metadata t = mset (map snd al) + ?R" if "metadata_shards t = (metadata_shards s)(i := al)" for t al
    unfolding all_metadata_def using assms by (subst sum.remove [of _ i]) (auto simp: that intro!: sum.cong)
  moreover from this [of s "metadata_shards s i"] have "all_metadata s = mset (map snd (metadata_shards s i)) + ?R" by simp
  ultimately show ?thesis by blast
qed

lemma shards_okD:
  "shards_ok p s \<Longrightarrow> i < kNumShards \<Longrightarrow> distinct (map fst (metadata_shards s i))"
  "shards_ok p s \<Longrightarrow> i < kNumShards \<Longrightarrow> map_of (metadata_shards s i) k = Some md \<Longrightarrow> getShardIndex p k = i"
  "shards_ok p s \<Longrightarrow> i < kNumShards \<Longrightarrow> k \<in> fst ` set (metadata_shards s i) \<Longrightarrow> getShardIndex p k = i"
  by (force simp: shards_ok_def dest: map_of_SomeD)+

lemma shards_ok_update:
  assumes "shards_ok p s" "metadata_shards t = (metadata_shards s)(i := al)" "distinct (map fst al)"
    "\<And>k. k \<in> fst ` set al \<Longrightarrow> getShardIndex p k = i"
  shows "shards_ok p t"
  using assms by (auto simp: shards_ok_def)

text \<open>An entry in the table: setting and erasing it.\<close>

lemma shards_set_metadata [simp]:
  "metadata_shards (set_metadata p k md s) = (metadata_shards s)(getShardIndex p k := AList.update k md (metadata_shards s (getShardIndex p k)))"
  by (simp add: set_metadata_def Let_def)

lemma shards_erase_metadata [simp]:
  "metadata_shards (erase_metadata p k md s) = (metadata_shards s)(getShardIndex p k := AList.delete k (metadata_shards s (getShardIndex p k)))"
  by (simp add: erase_metadata_def Let_def)

lemma set_metadata_fields [simp]:
  "segment_manager (set_metadata p k md s) = segment_manager s" "shared (set_metadata p k md s) = shared s"
  "service_config (set_metadata p k md s) = service_config s" "ok_client (set_metadata p k md s) = ok_client s"
  "allocation_strategy (set_metadata p k md s) = allocation_strategy s" "use_disk_replica (set_metadata p k md s) = use_disk_replica s"
  "client_ping_queue (set_metadata p k md s) = client_ping_queue s" "need_eviction (set_metadata p k md s) = need_eviction s"
  "view_version (set_metadata p k md s) = view_version s"
  by (simp_all add: set_metadata_def Let_def)

lemma erase_metadata_fields [simp]:
  "segment_manager (erase_metadata p k md s) = segment_manager s" "shared (erase_metadata p k md s) = destroy_metadata md (shared s)"
  "service_config (erase_metadata p k md s) = service_config s" "ok_client (erase_metadata p k md s) = ok_client s"
  "allocation_strategy (erase_metadata p k md s) = allocation_strategy s" "use_disk_replica (erase_metadata p k md s) = use_disk_replica s"
  "client_ping_queue (erase_metadata p k md s) = client_ping_queue s" "need_eviction (erase_metadata p k md s) = need_eviction s"
  "view_version (erase_metadata p k md s) = view_version s"
  by (simp_all add: erase_metadata_def Let_def)

lemma find_set_metadata [simp]:
  "find_metadata p k' (set_metadata p k md s) = (if k' = k then Some md else find_metadata p k' s)"
  by (auto simp: find_metadata_def)

lemma find_erase_metadata [simp]:
  "find_metadata p k' (erase_metadata p k md s) = (if k' = k then None else find_metadata p k' s)"
  by (auto simp: find_metadata_def)

lemma find_metadata_cong: "metadata_shards s = metadata_shards t \<Longrightarrow> find_metadata p k s = find_metadata p k t"
  by (simp add: find_metadata_def)

lemma find_update_simps [simp]:
  "find_metadata p k (s\<lparr>shared := w\<rparr>) = find_metadata p k s"
  "find_metadata p k (s\<lparr>segment_manager := sm\<rparr>) = find_metadata p k s"
  "find_metadata p k (s\<lparr>allocation_strategy := st\<rparr>) = find_metadata p k s"
  "find_metadata p k (s\<lparr>need_eviction := b\<rparr>) = find_metadata p k s"
  "find_metadata p k (s\<lparr>ok_client := c\<rparr>) = find_metadata p k s"
  "find_metadata p k (s\<lparr>client_ping_queue := q\<rparr>) = find_metadata p k s"
  by (simp_all add: find_metadata_def)

lemma shards_ok_set_metadata: "shards_ok p s \<Longrightarrow> shards_ok p (set_metadata p k md s)"
  by (rule shards_ok_update [OF _ shards_set_metadata]) (use shards_okD in \<open>auto simp: dom_update simp del: image_iff\<close>)

lemma shards_ok_erase_metadata: "shards_ok p s \<Longrightarrow> shards_ok p (erase_metadata p k md s)"
  by (rule shards_ok_update [OF _ shards_erase_metadata]) (use shards_okD in \<open>auto simp: delete_keys simp del: set_map simp flip: set_map intro!: distinct_removeAll\<close>)

lemma all_metadata_new:
  assumes "find_metadata p k s = None" shows "all_metadata (set_metadata p k md s) = add_mset md (all_metadata s)"
proof -
  obtain R where R: "all_metadata s = mset (map snd (metadata_shards s (getShardIndex p k))) + R"
    "\<And>t al. metadata_shards t = (metadata_shards s)(getShardIndex p k := al) \<Longrightarrow> all_metadata t = mset (map snd al) + R"
    using all_metadata_shard [OF getShardIndex_less, of s p k] by blast
  show ?thesis using R(1) R(2) [OF shards_set_metadata] assms by (simp add: find_metadata_def alist_update_new)
qed

lemma all_metadata_entry:
  assumes ok: "shards_ok p s" and f: "find_metadata p k s = Some md"
  shows "\<exists>R. all_metadata s = add_mset md R \<and> (\<forall>md'. all_metadata (set_metadata p k md' s) = add_mset md' R)
    \<and> (\<forall>md'. all_metadata (erase_metadata p k md' s) = R)"
proof -
  let ?i = "getShardIndex p k" and ?al = "metadata_shards s (getShardIndex p k)"
  obtain R where R: "all_metadata s = mset (map snd ?al) + R"
    "\<And>t al. metadata_shards t = (metadata_shards s)(?i := al) \<Longrightarrow> all_metadata t = mset (map snd al) + R"
    using all_metadata_shard [OF getShardIndex_less, of s p k] by blast
  have f': "map_of ?al k = Some md" using f by (simp add: find_metadata_def)
  have d: "add_mset md (mset (map snd (AList.delete k ?al))) = mset (map snd ?al)"
    by (rule alist_values_delete [OF shards_okD(1) [OF ok getShardIndex_less] f'])
  have u: "mset (map snd (AList.update k md' ?al)) = add_mset md' (mset (map snd (AList.delete k ?al)))" for md'
  proof -
    have "add_mset md (mset (map snd (AList.update k md' ?al))) = add_mset md (add_mset md' (mset (map snd (AList.delete k ?al))))"
      unfolding alist_values_update [OF f'] by (simp only: add_mset_commute [of md md'] d)
    then show ?thesis by (simp only: add_mset_add_mset_same_iff)
  qed
  show ?thesis
    by (rule exI [of _ "mset (map snd (AList.delete k ?al)) + R"])
      (use R(1) R(2) [OF shards_set_metadata] R(2) [OF shards_erase_metadata] d u in simp_all)
qed

lemma all_metadata_cong: "metadata_shards s = metadata_shards t \<Longrightarrow> all_metadata s = all_metadata t"
  by (simp add: all_metadata_def)

lemma all_metadata_update_simps [simp]:
  "all_metadata (s\<lparr>shared := w\<rparr>) = all_metadata s"
  "all_metadata (s\<lparr>segment_manager := sm\<rparr>) = all_metadata s"
  "all_metadata (s\<lparr>allocation_strategy := st\<rparr>) = all_metadata s"
  "all_metadata (s\<lparr>need_eviction := b\<rparr>) = all_metadata s"
  "all_metadata (s\<lparr>ok_client := c\<rparr>) = all_metadata s"
  "all_metadata (s\<lparr>client_ping_queue := q\<rparr>) = all_metadata s"
  by (simp_all add: all_metadata_def)

lemma shards_ok_update_simps [simp]:
  "shards_ok p (s\<lparr>shared := w\<rparr>) = shards_ok p s"
  "shards_ok p (s\<lparr>segment_manager := sm\<rparr>) = shards_ok p s"
  "shards_ok p (s\<lparr>allocation_strategy := st\<rparr>) = shards_ok p s"
  "shards_ok p (s\<lparr>need_eviction := b\<rparr>) = shards_ok p s"
  "shards_ok p (s\<lparr>ok_client := c\<rparr>) = shards_ok p s"
  "shards_ok p (s\<lparr>client_ping_queue := q\<rparr>) = shards_ok p s"
  by (simp_all add: shards_ok_def)

section \<open>Steps on the store\<close>

lemma store_ok_step:
  assumes ok: "store_ok sm w M B" and f: "world_frame w w'" and w': "world_ok w' M' B'"
    and sub: "\<And>x. x \<in># all_buffers M' + B' \<Longrightarrow> x \<in># all_buffers M + B \<or> isAllocatorValid (fst w') x"
  shows "store_ok sm w' M' B'"
proof -
  have inv: "seg_inv sm w'" by (rule seg_inv_frame [OF _ f]) (use ok in \<open>simp add: store_ok_def\<close>)
  have "buf_allocator x < next_allocator sm" if "x \<in># all_buffers M' + B'" for x
    using sub [OF that]
  proof
    assume "x \<in># all_buffers M + B"
    then show ?thesis using ok unfolding store_ok_def by blast
  next
    assume "isAllocatorValid (fst w') x"
    then show ?thesis using seg_invD(5) [OF inv] by (auto simp: isAllocatorValid_def)
  qed
  then show ?thesis using inv w' by (simp add: store_ok_def)
qed

text \<open>One entry changes, keeping part of its buffers.\<close>

lemma store_ok_entry:
  assumes ok: "store_ok sm w (add_mset md R) B" and f: "world_frame w w'" and w': "world_ok w' (add_mset md' R) B"
    and sub: "set_mset (metadata_buffers md') \<subseteq> set_mset (metadata_buffers md)"
  shows "store_ok sm w' (add_mset md' R) B"
  by (rule store_ok_step [OF ok f w']) (use sub in auto)

lemma store_ok_drop:
  assumes ok: "store_ok sm w (add_mset md R) B" shows "store_ok sm (destroy_metadata md w) R B"
proof -
  have "world_ok w (add_mset md R) B" using ok by (simp add: store_ok_def)
  note d = destroy_metadata_world [OF this refl]
  show ?thesis by (rule store_ok_step [OF ok d(2,1)]) auto
qed

lemma cleanup_frame:
  assumes "CleanupStaleHandles md w = (md', w', e)"
  shows "md' = md\<lparr>replicas := filter (\<lambda>r. \<not> has_invalid_mem_handle (fst w) r) (replicas md)\<rparr>" "e \<longleftrightarrow> replicas md' = []"
    "world_frame w w'" "set_mset (metadata_buffers md') \<subseteq> set_mset (metadata_buffers md)"
  using assms destroy_buffers_frame [of w] by (auto simp: CleanupStaleHandles_def Let_def destroy_replicas_def metadata_buffers_def)

lemma obj_ok_filter: "obj_ok md \<Longrightarrow> obj_ok (md\<lparr>replicas := filter P (replicas md)\<rparr>)"
  by (auto simp: obj_ok_def)

lemma ms_ok_set:
  assumes ok: "ms_ok p s X B" and find: "find_metadata p k s = Some md" and fr: "world_frame (shared s) w'"
    and w: "\<And>M. world_ok (shared s) (add_mset md M) B \<Longrightarrow> world_ok w' (add_mset md' M) B"
    and sub: "set_mset (metadata_buffers md') \<subseteq> set_mset (metadata_buffers md)" and o: "obj_ok md \<Longrightarrow> obj_ok md'"
  shows "ms_ok p (set_metadata p k md' (s\<lparr>shared := w'\<rparr>)) X B"
proof -
  have sh: "shards_ok p s" using ok by (simp add: ms_ok_def)
  obtain R where R: "all_metadata s = add_mset md R" "\<And>md'. all_metadata (set_metadata p k md' s) = add_mset md' R"
    "\<And>md'. all_metadata (erase_metadata p k md' s) = R"
    using all_metadata_entry [OF sh find] by blast
  have e: "all_metadata (set_metadata p k md' (s\<lparr>shared := w'\<rparr>)) = add_mset md' R"
    using R(2) [of md'] by (subst all_metadata_cong [of _ "set_metadata p k md' s"]) simp_all
  have st: "store_ok (segment_manager s) (shared s) (add_mset md (R + X)) B" using ok R(1) by (simp add: ms_ok_def)
  then have "world_ok w' (add_mset md' (R + X)) B" by (intro w) (simp add: store_ok_def)
  from store_ok_entry [OF st fr this sub] show ?thesis
    using ok fr o R(1) by (auto simp: ms_ok_def e shards_ok_set_metadata world_frame_def)
qed

lemma ms_ok_erase:
  assumes ok: "ms_ok p s X B" and find: "find_metadata p k s = Some md"
  shows "ms_ok p (erase_metadata p k md s) X B"
proof -
  have sh: "shards_ok p s" using ok by (simp add: ms_ok_def)
  obtain R where R: "all_metadata s = add_mset md R" "\<And>md'. all_metadata (set_metadata p k md' s) = add_mset md' R"
    "\<And>md'. all_metadata (erase_metadata p k md' s) = R"
    using all_metadata_entry [OF sh find] by blast
  have st: "store_ok (segment_manager s) (shared s) (add_mset md (R + X)) B" using ok R(1) by (simp add: ms_ok_def)
  from st have "world_ok (shared s) (add_mset md (R + X)) B" by (simp add: store_ok_def)
  from destroy_metadata_world(2) [OF this refl] store_ok_drop [OF st] show ?thesis
    using ok R by (auto simp: ms_ok_def shards_ok_erase_metadata world_frame_def)
qed

section \<open>The table of objects\<close>

definition live :: "allocator_heap \<Rightarrow> ObjectMetadata \<Rightarrow> ObjectMetadata" where
  "live H md = md\<lparr>replicas := filter (\<lambda>r. \<not> has_invalid_mem_handle H r) (replicas md)\<rparr>"

definition visible :: "allocator_heap \<Rightarrow> ObjectMetadata option \<Rightarrow> ObjectMetadata option" where
  "visible H omd = (case omd of None \<Rightarrow> None | Some md \<Rightarrow> if replicas (live H md) = [] then None else Some (live H md))"

type_synonym object_table = "string \<rightharpoonup> ObjectMetadata"

definition objects :: "Platform \<Rightarrow> MasterService \<Rightarrow> object_table" where
  "objects p s = (\<lambda>k. visible (fst (shared s)) (find_metadata p k s))"

lemma invalid_handle_same: "same_allocators H H' \<Longrightarrow> has_invalid_mem_handle H' = has_invalid_mem_handle H"
  by (simp add: fun_eq_iff has_invalid_mem_handle_def same_allocators_valid split: ReplicaData.splits)

lemma visible_same: "same_allocators H H' \<Longrightarrow> visible H' = visible H"
  by (simp add: fun_eq_iff visible_def live_def invalid_handle_same split: option.splits)

lemma objects_frame:
  assumes "world_frame (shared s) (shared s')" "\<And>k. find_metadata p k s' = find_metadata p k s"
  shows "objects p s' = objects p s"
  using assms(2) visible_same [OF world_frame_allocators [OF assms(1)]] by (simp add: objects_def fun_eq_iff)

lemma live_live [simp]: "live H (live H md) = live H md"
  by (simp add: live_def)

lemma visible_live [simp]: "visible H (Some (live H md)) = visible H (Some md)"
  by (simp add: visible_def)

lemma objects_Some:
  assumes "objects p s k = Some md"
  shows "live (fst (shared s)) md = md" "replicas md \<noteq> []"
    "\<exists>md0. find_metadata p k s = Some md0 \<and> md = live (fst (shared s)) md0"
  using assms by (auto simp: objects_def visible_def split: option.splits if_splits)

text \<open>A change of one entry changes the table there.\<close>

lemma objects_set:
  assumes "world_frame (shared s) w"
  shows "objects p (set_metadata p k md (s\<lparr>shared := w\<rparr>)) = (objects p s)(k := visible (fst (shared s)) (Some md))"
  using visible_same [OF world_frame_allocators [OF assms]] by (simp add: objects_def fun_eq_iff)

lemma objects_erase:
  assumes "ms_ok p s X B" "find_metadata p k s = Some md"
  shows "objects p (erase_metadata p k md s) = (objects p s)(k := None)" "world_frame (shared s) (destroy_metadata md (shared s))"
proof -
  obtain R where "all_metadata s = add_mset md R" using all_metadata_entry [of p s k md] assms by (auto simp: ms_ok_def)
  then have "world_ok (shared s) (add_mset md (R + X)) B" using assms(1) by (simp add: ms_ok_def store_ok_def)
  from destroy_metadata_world(2) [OF this refl] show f: "world_frame (shared s) (destroy_metadata md (shared s))" .
  show "objects p (erase_metadata p k md s) = (objects p s)(k := None)"
    using visible_same [OF world_frame_allocators [OF f]] by (simp add: objects_def fun_eq_iff visible_def)
qed

lemma set_metadata_shared: "set_metadata p k md (s\<lparr>shared := w\<rparr>) = (set_metadata p k md s)\<lparr>shared := w\<rparr>"
  by (simp add: set_metadata_def Let_def)

section \<open>The accessor\<close>

definition only_metadata :: "MasterService \<Rightarrow> MasterService \<Rightarrow> bool" where
  "only_metadata s s' \<longleftrightarrow> world_frame (shared s) (shared s') \<and> segment_manager s' = segment_manager s
     \<and> service_config s' = service_config s \<and> ok_client s' = ok_client s \<and> client_ping_queue s' = client_ping_queue s
     \<and> need_eviction s' = need_eviction s \<and> allocation_strategy s' = allocation_strategy s
     \<and> use_disk_replica s' = use_disk_replica s \<and> view_version s' = view_version s"

lemma only_metadata_refl [simp]: "only_metadata s s"
  by (simp add: only_metadata_def)

lemma only_metadata_trans: "only_metadata s s' \<Longrightarrow> only_metadata s' s'' \<Longrightarrow> only_metadata s s''"
  unfolding only_metadata_def using world_frame_trans by metis

lemma only_metadata_set: "world_frame (shared s) w \<Longrightarrow> only_metadata s (set_metadata p k md (s\<lparr>shared := w\<rparr>))"
  by (simp add: only_metadata_def)

lemma only_metadata_erase: "ms_ok p s X B \<Longrightarrow> find_metadata p k s = Some md \<Longrightarrow> only_metadata s (erase_metadata p k md s)"
  using objects_erase(2) by (simp add: only_metadata_def)

lemma MetadataAccessor_ok:
  assumes ok: "ms_ok p s X B" and a: "MetadataAccessor p k s = (s', r)"
  shows "ms_ok p s' X B \<and> only_metadata s s' \<and> objects p s' = objects p s \<and> r = objects p s k \<and> find_metadata p k s' = r"
proof (cases "find_metadata p k s")
  case None
  then show ?thesis using ok a by (simp add: MetadataAccessor_def objects_def visible_def)
next
  case (Some md)
  obtain md' w' e where c: "CleanupStaleHandles md (shared s) = (md', w', e)" by (cases "CleanupStaleHandles md (shared s)")
  note cf = cleanup_frame [OF c]
  define t where "t = set_metadata p k md' (s\<lparr>shared := w'\<rparr>)"
  have okt: "ms_ok p t X B" unfolding t_def
    by (rule ms_ok_set [OF ok Some cf(3) CleanupStaleHandles_world(1) [OF _ c] cf(4)]) (simp_all add: cf(1) obj_ok_filter)
  have md': "md' = live (fst (shared s)) md" using cf(1) by (simp add: live_def)
  have ot: "objects p t = objects p s" using objects_set [OF cf(3)] Some md' by (auto simp: t_def objects_def fun_eq_iff)
  have ft: "find_metadata p k t = Some md'" by (simp add: t_def)
  have only: "only_metadata s t" unfolding t_def by (rule only_metadata_set [OF cf(3)])
  have s': "(s', r) = (if e then (erase_metadata p k md' t, None) else (t, Some md'))"
    using a Some c by (simp add: MetadataAccessor_def Let_def t_def split: if_splits)
  show ?thesis
  proof (cases e)
    case True
    have vis: "objects p s k = None" using True cf(2) Some md' by (simp add: objects_def visible_def)
    then have "objects p (erase_metadata p k md' t) = objects p s" using objects_erase(1) [OF okt ft] ot by (auto simp: fun_eq_iff)
    then show ?thesis using s' True vis ms_ok_erase [OF okt ft] only_metadata_trans [OF only only_metadata_erase [OF okt ft]] by simp
  next
    case False
    then show ?thesis using s' okt only ot ft cf(2) Some md' by (simp add: objects_def visible_def)
  qed
qed

end
