(* ===== verification/Master_Spec.thy ===== *)
theory Master_Spec
  imports Master_Inv
begin

text \<open>
  The handlers on one key against their specification: functions on the table of objects,
  which knows nothing of shards, stale handles, allocators or metrics. Each handler keeps the
  invariant, and what it does to the table and returns is what its specification says.
\<close>

declare map_of_eq_Some_iff [simp del] split_paired_All [simp del] split_paired_Ex [simp del]

section \<open>Specification\<close>

definition spec_ExistKey :: "time \<Rightarrow> u64 \<Rightarrow> u64 \<Rightarrow> string \<Rightarrow> object_table \<Rightarrow> object_table \<times> (ErrorCode + bool)" where
  "spec_ExistKey now ttl soft_ttl k T =
     (case T k of
        None \<Rightarrow> (T, Inr False)
      | Some md \<Rightarrow> if \<exists>r \<in> set (replicas md). rep_status r = COMPLETE then (T(k \<mapsto> GrantLease now ttl soft_ttl md), Inr True)
                    else (T, Inr False))"

definition spec_GetReplicaList ::
  "allocator_heap \<Rightarrow> time \<Rightarrow> u64 \<Rightarrow> u64 \<Rightarrow> string \<Rightarrow> object_table \<Rightarrow> object_table \<times> (ErrorCode + ReplicaDescriptor list \<times> u64)" where
  "spec_GetReplicaList H now ttl soft_ttl k T =
     (case T k of
        None \<Rightarrow> (T, Inl OBJECT_NOT_FOUND)
      | Some md \<Rightarrow> if complete_descriptors H md = [] then (T, Inl REPLICA_IS_NOT_READY)
                    else (T(k \<mapsto> GrantLease now ttl soft_ttl md), Inr (complete_descriptors H md, ttl)))"

definition spec_PutEnd :: "time \<Rightarrow> u64 \<Rightarrow> string \<Rightarrow> ReplicaType \<Rightarrow> object_table \<Rightarrow> object_table \<times> (ErrorCode + unit)" where
  "spec_PutEnd now soft_ttl k rtype T =
     (case T k of
        None \<Rightarrow> (T, Inl OBJECT_NOT_FOUND)
      | Some md \<Rightarrow> (T(k \<mapsto> GrantLease now 0 soft_ttl
          (md\<lparr>replicas := map (\<lambda>r. if replica_type r = rtype then mark_complete r else r) (replicas md)\<rparr>)), Inr ()))"

definition spec_PutRevoke :: "string \<Rightarrow> ReplicaType \<Rightarrow> object_table \<Rightarrow> object_table \<times> (ErrorCode + unit)" where
  "spec_PutRevoke k rtype T =
     (case T k of
        None \<Rightarrow> (T, Inl OBJECT_NOT_FOUND)
      | Some md \<Rightarrow>
          if \<exists>r \<in> set (replicas md). replica_type r = rtype \<and> rep_status r \<noteq> PROCESSING then (T, Inl INVALID_WRITE)
          else let md = md\<lparr>replicas := filter (\<lambda>r. replica_type r \<noteq> rtype) (replicas md)\<rparr>
               in (T(k := if IsValid md then Some md else None), Inr ()))"

definition spec_Remove :: "time \<Rightarrow> string \<Rightarrow> object_table \<Rightarrow> object_table \<times> (ErrorCode + unit)" where
  "spec_Remove now k T =
     (case T k of
        None \<Rightarrow> (T, Inl OBJECT_NOT_FOUND)
      | Some md \<Rightarrow>
          if now < lease_timeout md then (T, Inl OBJECT_HAS_LEASE)
          else if \<exists>r \<in> set (replicas md). rep_status r \<noteq> COMPLETE then (T, Inl REPLICA_IS_NOT_READY)
          else (T(k := None), Inr ()))"

section \<open>Changing an entry that is live\<close>

lemma live_cong: "rep_data ` set (replicas md') \<subseteq> rep_data ` set (replicas md) \<Longrightarrow> live H md = md \<Longrightarrow> live H md' = md'"
proof -
  assume a: "rep_data ` set (replicas md') \<subseteq> rep_data ` set (replicas md)" and l: "live H md = md"
  have "filter (\<lambda>r. \<not> has_invalid_mem_handle H r) (replicas md) = replicas md" using arg_cong [OF l, of replicas] by (simp add: live_def)
  then have "\<not> has_invalid_mem_handle H r" if "r \<in> set (replicas md)" for r using that by (metis filter_id_conv)
  then have "\<not> has_invalid_mem_handle H r" if "r \<in> set (replicas md')" for r
    using a that by (fastforce simp: has_invalid_mem_handle_def)
  then show "live H md' = md'" by (simp add: live_def)
qed

lemma GrantLease_fields [simp]:
  "replicas (GrantLease now ttl soft md) = replicas md" "obj_size (GrantLease now ttl soft md) = obj_size md"
  "metadata_buffers (GrantLease now ttl soft md) = metadata_buffers md" "obj_ok (GrantLease now ttl soft md) = obj_ok md"
  by (simp_all add: GrantLease_def metadata_buffers_def obj_ok_def)

lemma mark_complete_data [simp]:
  "rep_data (mark_complete r) = rep_data r" "replica_buffers (mark_complete r) = replica_buffers r"
  "rep_status (mark_complete r) = (if rep_status r = PROCESSING then COMPLETE else rep_status r)"
  "is_memory_replica (mark_complete r) = is_memory_replica r" "is_disk_replica (mark_complete r) = is_disk_replica r"
  "disk_size (mark_complete r) = disk_size r" "replica_type (mark_complete r) = replica_type r"
  by (simp_all add: mark_complete_def replica_buffers_def is_memory_replica_def is_disk_replica_def disk_size_def replica_type_def)

text \<open>The step shared by the handlers: what the accessor returned is replaced.\<close>

lemma accessor_set:
  assumes ok: "ms_ok p s X B" and a: "MetadataAccessor p k s = (s1, Some md)"
    and dat: "map rep_data (replicas md') = map rep_data (replicas md)" and o: "obj_ok md \<Longrightarrow> obj_ok md'"
    and pin: "soft_pin_timeout md' = None \<longleftrightarrow> soft_pin_timeout md = None" "disk_replica_size md' = disk_replica_size md"
  shows "ms_ok p (set_metadata p k md' s1) X B" "only_metadata s (set_metadata p k md' s1)"
    "objects p (set_metadata p k md' s1) = (objects p s)(k \<mapsto> md')"
proof -
  have ac: "ms_ok p s1 X B" "only_metadata s s1" "objects p s1 = objects p s" "objects p s k = Some md" "find_metadata p k s1 = Some md"
    using MetadataAccessor_ok [OF ok a] by auto
  have bufs: "metadata_buffers md' = metadata_buffers md"
  proof -
    have "map replica_buffers (replicas md') = map replica_buffers (replicas md)"
      using arg_cong [OF dat, of "map (\<lambda>d. case d of MemoryReplicaData b \<Rightarrow> b | DiskReplicaData _ _ \<Rightarrow> [])"]
      by (simp add: replica_buffers_def [abs_def] comp_def)
    then show ?thesis by (simp add: metadata_buffers_def)
  qed
  have "ms_ok p (set_metadata p k md' (s1\<lparr>shared := shared s1\<rparr>)) X B"
    by (rule ms_ok_set [OF ac(1,5)]) (simp_all add: bufs o world_ok_metadata_cong [OF bufs pin])
  then show "ms_ok p (set_metadata p k md' s1) X B" by simp
  show "only_metadata s (set_metadata p k md' s1)"
    using only_metadata_trans [OF ac(2) only_metadata_set [of s1 "shared s1" p k md']] by simp
  have o1: "objects p s1 k = Some md" using ac by simp
  have sd: "set (map rep_data (replicas md')) = set (map rep_data (replicas md))" using dat by simp
  have l: "live (fst (shared s1)) md' = md'"
    by (rule live_cong [OF _ objects_Some(1) [OF o1]]) (use sd in simp)
  have "replicas md' \<noteq> []" using objects_Some(2) [OF o1] dat by auto
  then have "visible (fst (shared s1)) (Some md') = Some md'" by (simp add: visible_def l)
  then show "objects p (set_metadata p k md' s1) = (objects p s)(k \<mapsto> md')"
    using objects_set [of s1 "shared s1" p k md'] ac(3) by simp
qed

lemma accessor_none:
  assumes "ms_ok p s X B" "MetadataAccessor p k s = (s1, None)"
  shows "ms_ok p s1 X B" "only_metadata s s1" "objects p s1 = objects p s" "objects p s k = None"
  using MetadataAccessor_ok [OF assms] by auto

lemma accessor_some:
  assumes "ms_ok p s X B" "MetadataAccessor p k s = (s1, Some md)"
  shows "ms_ok p s1 X B" "only_metadata s s1" "objects p s1 = objects p s" "objects p s k = Some md"
    "find_metadata p k s1 = Some md"
  using MetadataAccessor_ok [OF assms] by auto

lemma GrantLease_pin [simp]:
  "soft_pin_timeout (GrantLease now ttl soft md) = None \<longleftrightarrow> soft_pin_timeout md = None"
  "disk_replica_size (GrantLease now ttl soft md) = disk_replica_size md"
  by (simp_all add: GrantLease_def)

lemma complete_descriptors_same: "world_frame w w' \<Longrightarrow> complete_descriptors (fst w') = complete_descriptors (fst w)"
  using same_allocators_descriptor [OF world_frame_allocators]
  by (auto simp: fun_eq_iff complete_descriptors_def get_descriptor_def split: ReplicaData.splits)

section \<open>The handlers\<close>

lemma ExistKey_ok:
  assumes ok: "ms_ok p s X B" and e: "ExistKey p now k s = (s', r)"
  shows "ms_ok p s' X B \<and> only_metadata s s' \<and> (objects p s', r)
    = spec_ExistKey now (default_kv_lease_ttl (service_config s)) (default_kv_soft_pin_ttl (service_config s)) k (objects p s)"
proof -
  obtain s1 q where a: "MetadataAccessor p k s = (s1, q)" by (cases "MetadataAccessor p k s")
  show ?thesis
  proof (cases q)
    case None
    then show ?thesis using accessor_none [OF ok] a e by (simp add: ExistKey_def spec_ExistKey_def)
  next
    case (Some md)
    note ac = accessor_some [OF ok a [unfolded Some]]
    have c: "service_config s1 = service_config s" using ac(2) by (simp add: only_metadata_def)
    show ?thesis using ac accessor_set [OF ok a [unfolded Some]] a Some e c
      by (auto simp: ExistKey_def spec_ExistKey_def list_ex_iff split: if_splits)
  qed
qed

lemma GetReplicaList_ok:
  assumes ok: "ms_ok p s X B" and e: "GetReplicaList p now k s = (s', r)"
  shows "ms_ok p s' X B \<and> only_metadata s s' \<and> (objects p s', r) = spec_GetReplicaList (fst (shared s)) now
    (default_kv_lease_ttl (service_config s)) (default_kv_soft_pin_ttl (service_config s)) k (objects p s)"
proof -
  obtain s1 q where a: "MetadataAccessor p k s = (s1, q)" by (cases "MetadataAccessor p k s")
  show ?thesis
  proof (cases q)
    case None
    then show ?thesis using accessor_none [OF ok] a e by (simp add: GetReplicaList_def spec_GetReplicaList_def)
  next
    case (Some md)
    note ac = accessor_some [OF ok a [unfolded Some]]
    have c: "service_config s1 = service_config s" using ac(2) by (simp add: only_metadata_def)
    have "world_frame (shared s) (shared s1)" using ac(2) by (simp add: only_metadata_def)
    then have d: "complete_descriptors (fst (shared s1)) = complete_descriptors (fst (shared s))"
      by (rule complete_descriptors_same)
    show ?thesis using ac accessor_set [OF ok a [unfolded Some]] a Some e c
      by (auto simp: GetReplicaList_def spec_GetReplicaList_def Let_def d split: if_splits)
  qed
qed

lemma PutEnd_ok:
  assumes ok: "ms_ok p s X B" and e: "PutEnd p now k rtype s = (s', r)"
  shows "ms_ok p s' X B \<and> only_metadata s s' \<and> (objects p s', r)
    = spec_PutEnd now (default_kv_soft_pin_ttl (service_config s)) k rtype (objects p s)"
proof -
  obtain s1 q where a: "MetadataAccessor p k s = (s1, q)" by (cases "MetadataAccessor p k s")
  show ?thesis
  proof (cases q)
    case None
    then show ?thesis using accessor_none [OF ok] a e by (simp add: PutEnd_def spec_PutEnd_def)
  next
    case (Some md)
    note ac = accessor_some [OF ok a [unfolded Some]]
    have c: "service_config s1 = service_config s" using ac(2) by (simp add: only_metadata_def)
    let ?md = "GrantLease now 0 (default_kv_soft_pin_ttl (service_config s))
      (md\<lparr>replicas := map (\<lambda>r. if replica_type r = rtype then mark_complete r else r) (replicas md)\<rparr>)"
    have "map rep_data (replicas ?md) = map rep_data (replicas md)" by simp
    moreover have "obj_ok md \<Longrightarrow> obj_ok ?md" by (auto simp: obj_ok_def)
    ultimately show ?thesis using ac accessor_set [OF ok a [unfolded Some], of ?md] a Some e c
      by (auto simp: PutEnd_def spec_PutEnd_def Let_def)
  qed
qed

lemma Remove_ok:
  assumes ok: "ms_ok p s X B" and e: "Remove p now k s = (s', r)"
  shows "ms_ok p s' X B \<and> only_metadata s s' \<and> (objects p s', r) = spec_Remove now k (objects p s)"
proof -
  obtain s1 q where a: "MetadataAccessor p k s = (s1, q)" by (cases "MetadataAccessor p k s")
  show ?thesis
  proof (cases q)
    case None
    then show ?thesis using accessor_none [OF ok] a e by (simp add: Remove_def spec_Remove_def)
  next
    case (Some md)
    note ac = accessor_some [OF ok a [unfolded Some]]
    have er: "ms_ok p (erase_metadata p k md s1) X B" "only_metadata s (erase_metadata p k md s1)"
      "objects p (erase_metadata p k md s1) = (objects p s)(k := None)"
      using ms_ok_erase [OF ac(1,5)] only_metadata_trans [OF ac(2) only_metadata_erase [OF ac(1,5)]] objects_erase(1) [OF ac(1,5)] ac(3)
      by simp_all
    show ?thesis
    proof (cases "now < lease_timeout md")
      case True
      then show ?thesis using ac a Some e by (simp add: Remove_def spec_Remove_def IsLeaseExpired_def)
    next
      case False
      then show ?thesis using ac er a Some e
        by (auto simp: Remove_def spec_Remove_def IsLeaseExpired_def IsAllReplicasComplete_def list_all_iff split: if_splits)
    qed
  qed
qed

lemma HasDiffRepStatus_iff:
  "HasDiffRepStatus status rtype md \<noteq> None \<longleftrightarrow> (\<exists>r \<in> set (replicas md). replica_type r = rtype \<and> rep_status r \<noteq> status)"
  by (auto simp: HasDiffRepStatus_def find_None_iff)

lemma PutRevoke_ok:
  assumes ok: "ms_ok p s X B" and e: "PutRevoke p k rtype s = (s', r)"
  shows "ms_ok p s' X B \<and> only_metadata s s' \<and> (objects p s', r) = spec_PutRevoke k rtype (objects p s)"
proof -
  obtain s1 q where a: "MetadataAccessor p k s = (s1, q)" by (cases "MetadataAccessor p k s")
  show ?thesis
  proof (cases q)
    case None
    then show ?thesis using accessor_none [OF ok] a e by (simp add: PutRevoke_def spec_PutRevoke_def)
  next
    case (Some md)
    note ac = accessor_some [OF ok a [unfolded Some]]
    show ?thesis
    proof (cases "HasDiffRepStatus PROCESSING rtype md \<noteq> None")
      case True
      then have d: "\<exists>r \<in> set (replicas md). replica_type r = rtype \<and> rep_status r \<noteq> PROCESSING" by (simp only: HasDiffRepStatus_iff)
      have "(s', r) = (s1, Inl INVALID_WRITE)" using True a Some e by (simp add: PutRevoke_def)
      moreover have "spec_PutRevoke k rtype (objects p s) = (objects p s, Inl INVALID_WRITE)"
        unfolding spec_PutRevoke_def ac(4) option.case if_P [OF d] ..
      ultimately show ?thesis using ac by simp
    next
      case False
      obtain md' w' where er: "EraseReplica rtype md (shared s1) = (md', w')" by (cases "EraseReplica rtype md (shared s1)")
      define t where "t = set_metadata p k md' (s1\<lparr>shared := w'\<rparr>)"
      have md': "md' = md\<lparr>replicas := filter (\<lambda>r. replica_type r \<noteq> rtype) (replicas md)\<rparr>" using er by (simp add: EraseReplica_def)
      have fr: "world_frame (shared s1) w'" using er destroy_buffers_frame [of "shared s1"] by (auto simp: EraseReplica_def destroy_replicas_def)
      have okt: "ms_ok p t X B" unfolding t_def
        by (rule ms_ok_set [OF ac(1,5) fr EraseReplica_world(1) [OF _ er]]) (auto simp: md' metadata_buffers_def obj_ok_filter)
      have ft: "find_metadata p k t = Some md'" by (simp add: t_def)
      have only: "only_metadata s t" unfolding t_def by (rule only_metadata_trans [OF ac(2) only_metadata_set [OF fr]])
      have o1: "objects p s1 k = Some md" using ac by simp
      have "live (fst (shared s1)) md' = md'" by (rule live_cong [OF _ objects_Some(1) [OF o1]]) (auto simp: md')
      then have vis: "visible (fst (shared s1)) (Some md') = (if replicas md' = [] then None else Some md')" by (simp add: visible_def)
      have ot: "objects p t = (objects p s)(k := if replicas md' = [] then None else Some md')"
        unfolding t_def using objects_set [OF fr] vis ac(3) by simp
      have s': "s' = (if \<not> IsValid md' then erase_metadata p k md' t else t)" "r = Inr ()"
        using False a Some e er by (auto simp: PutRevoke_def t_def Let_def)
      have sp: "spec_PutRevoke k rtype (objects p s) = ((objects p s)(k := if IsValid md' then Some md' else None), Inr ())"
      proof -
        have "\<not> (\<exists>r \<in> set (replicas md). replica_type r = rtype \<and> rep_status r \<noteq> PROCESSING)" using False unfolding HasDiffRepStatus_iff .
        then show ?thesis using ac(4) by (simp add: spec_PutRevoke_def md' Let_def)
      qed
      show ?thesis
      proof (cases "IsValid md'")
        case True
        then show ?thesis using s' sp okt only ot by (auto simp: IsValid_def)
      next
        case False
        then show ?thesis
          using s' sp ms_ok_erase [OF okt ft] only_metadata_trans [OF only only_metadata_erase [OF okt ft]] objects_erase(1) [OF okt ft] ot
          by simp
      qed
    qed
  qed
qed

end
