(* ===== verification/Master_Scan.thy ===== *)
theory Master_Scan
  imports Master_Spec
begin

text \<open>
  The loops over the entries of the shards. A body that treats one entry properly keeps the
  invariant over the whole loop, and what it may do to an entry it may do to every entry of
  the table.
\<close>

declare map_of_eq_Some_iff [simp del] split_paired_All [simp del] split_paired_Ex [simp del]

type_synonym 'a scan_body = "string \<Rightarrow> ObjectMetadata \<Rightarrow> 'a \<Rightarrow> world \<Rightarrow> ObjectMetadata \<times> 'a \<times> world \<times> bool"

definition body_ok :: "'a scan_body \<Rightarrow> bool" where
  "body_ok body \<longleftrightarrow> (\<forall>k md a w md' a' w' e. body k md a w = (md', a', w', e) \<longrightarrow>
     world_frame w w' \<and> (\<forall>M B. world_ok w (add_mset md M) B \<longrightarrow> world_ok w' (add_mset md' M) B)
     \<and> set_mset (metadata_buffers md') \<subseteq> set_mset (metadata_buffers md) \<and> (obj_ok md \<longrightarrow> obj_ok md'))"

lemma body_okD:
  assumes "body_ok body" "body k md a w = (md', a', w', e)"
  shows "world_frame w w'" "world_ok w (add_mset md M) B \<Longrightarrow> world_ok w' (add_mset md' M) B"
    "set_mset (metadata_buffers md') \<subseteq> set_mset (metadata_buffers md)" "obj_ok md \<Longrightarrow> obj_ok md'"
  using assms unfolding body_ok_def by blast+

lemma destroy_metadata_frame: "world_frame w (destroy_metadata md w)"
proof -
  obtain H m where w: "w = (H, m)" by (cases w)
  obtain m1 where m1: "destroy_metadata md w = destroy_replicas (replicas md) (H, m1)" "world_frame (H, m) (H, m1)"
    by (auto simp: w destroy_metadata_def Let_def world_frame_def metric_defs)
  show ?thesis
    using world_frame_trans [OF m1(2) destroy_buffers_frame [of "(H, m1)" "concat (map replica_buffers (replicas md))"]] m1(1)
    by (simp add: w destroy_replicas_def)
qed

text \<open>What the loop may have done to the entries of a shard.\<close>

definition at_rel :: "(string \<Rightarrow> ObjectMetadata \<Rightarrow> ObjectMetadata option \<Rightarrow> bool) \<Rightarrow> string \<Rightarrow> ObjectMetadata option \<Rightarrow> ObjectMetadata option \<Rightarrow> bool" where
  "at_rel R k x y \<longleftrightarrow> (case x of None \<Rightarrow> y = None | Some md \<Rightarrow> R k md y)"

lemma at_rel_simps [simp]: "at_rel R k None y \<longleftrightarrow> y = None" "at_rel R k (Some md) y \<longleftrightarrow> R k md y"
  by (simp_all add: at_rel_def)

lemma at_rel_refl: "\<forall>k md. R k md (Some md) \<Longrightarrow> at_rel R k x x"
  by (cases x) simp_all

definition entry_rel :: "(string \<Rightarrow> ObjectMetadata \<Rightarrow> ObjectMetadata option \<Rightarrow> bool) \<Rightarrow> (string \<rightharpoonup> ObjectMetadata) \<Rightarrow> (string \<rightharpoonup> ObjectMetadata) \<Rightarrow> bool" where
  "entry_rel R T T' \<longleftrightarrow> (\<forall>k. at_rel R k (T k) (T' k))"

definition body_does :: "allocator_heap \<Rightarrow> (string \<Rightarrow> ObjectMetadata \<Rightarrow> ObjectMetadata option \<Rightarrow> bool) \<Rightarrow> 'a scan_body \<Rightarrow> bool" where
  "body_does H R body \<longleftrightarrow> (\<forall>k md a w md' a' w' e. same_allocators H (fst w) \<longrightarrow> body k md a w = (md', a', w', e)
     \<longrightarrow> R k md (if e then None else Some md'))"

lemma entry_rel_upd: "entry_rel R T T' \<Longrightarrow> R k md r \<Longrightarrow> entry_rel R (T(k \<mapsto> md)) (T'(k := r))"
  by (simp add: entry_rel_def)

lemma scan_metadata_frame:
  assumes b: "body_ok body" and "scan_metadata go body al a w = (al', a', w')"
  shows "world_frame w w'" "\<And>M B. world_ok w (mset (map snd al) + M) B \<Longrightarrow> world_ok w' (mset (map snd al') + M) B"
    "fst ` set al' \<subseteq> fst ` set al" "distinct (map fst al) \<Longrightarrow> distinct (map fst al')"
    "set_mset (all_buffers (mset (map snd al'))) \<subseteq> set_mset (all_buffers (mset (map snd al)))"
    "\<forall>md \<in> snd ` set al. obj_ok md \<Longrightarrow> \<forall>md \<in> snd ` set al'. obj_ok md"
proof -
  have "world_frame w w' \<and> (\<forall>M B. world_ok w (mset (map snd al) + M) B \<longrightarrow> world_ok w' (mset (map snd al') + M) B)
    \<and> fst ` set al' \<subseteq> fst ` set al \<and> (distinct (map fst al) \<longrightarrow> distinct (map fst al'))
    \<and> set_mset (all_buffers (mset (map snd al'))) \<subseteq> set_mset (all_buffers (mset (map snd al)))
    \<and> ((\<forall>md \<in> snd ` set al. obj_ok md) \<longrightarrow> (\<forall>md \<in> snd ` set al'. obj_ok md))"
    using assms(2)
  proof (induction al arbitrary: a w al')
    case (Cons p rest)
    obtain k md where p: "p = (k, md)" by (cases p)
    show ?case
    proof (cases "go a")
      case False
      then show ?thesis using Cons.prems p by simp
    next
      case True
      obtain md1 a1 w1 e where body: "body k md a w = (md1, a1, w1, e)" by (cases "body k md a w") auto
      define w2 where "w2 = (if e then destroy_metadata md1 w1 else w1)"
      obtain rest' where r: "scan_metadata go body rest a1 w2 = (rest', a', w')" "al' = (if e then rest' else (k, md1) # rest')"
        using Cons.prems True body p by (auto simp: w2_def split: prod.splits)
      note bo = body_okD [OF b body]
      note IH = Cons.IH [OF r(1)]
      have fr: "world_frame w w2" using bo(1) world_frame_trans [OF bo(1) destroy_metadata_frame] by (simp add: w2_def)
      have "world_ok w' (mset (map snd al') + M) B" if wok: "world_ok w (mset (map snd (p # rest)) + M) B" for M B
      proof -
        have w1: "world_ok w1 (add_mset md1 (mset (map snd rest) + M)) B" using bo(2) wok p by simp
        show ?thesis
        proof (cases e)
          case True
          then have "world_ok w2 (mset (map snd rest) + M) B" using destroy_metadata_world(1) [OF w1 refl] by (simp add: w2_def)
          then show ?thesis using IH r(2) True by simp
        next
          case False
          then have "world_ok w2 (mset (map snd rest) + add_mset md1 M) B" using w1 by (simp add: w2_def)
          then have "world_ok w' (mset (map snd rest') + add_mset md1 M) B" using IH by blast
          then show ?thesis using r(2) False by simp
        qed
      qed
      moreover have "fst ` set al' \<subseteq> fst ` set (p # rest)" using IH r(2) p by auto
      moreover have "distinct (map fst (p # rest)) \<longrightarrow> distinct (map fst al')" using IH r(2) p by auto
      moreover have "set_mset (all_buffers (mset (map snd al'))) \<subseteq> set_mset (all_buffers (mset (map snd (p # rest))))"
        using IH r(2) p bo(3) by auto
      moreover have "(\<forall>md \<in> snd ` set (p # rest). obj_ok md) \<longrightarrow> (\<forall>md \<in> snd ` set al'. obj_ok md)" using IH r(2) p bo(4) by auto
      moreover have "world_frame w w'" by (rule world_frame_trans [OF fr conjunct1 [OF IH]])
      ultimately show ?thesis by blast
    qed
  qed simp
  then show "world_frame w w'" "\<And>M B. world_ok w (mset (map snd al) + M) B \<Longrightarrow> world_ok w' (mset (map snd al') + M) B"
    "fst ` set al' \<subseteq> fst ` set al" "distinct (map fst al) \<Longrightarrow> distinct (map fst al')"
    "set_mset (all_buffers (mset (map snd al'))) \<subseteq> set_mset (all_buffers (mset (map snd al)))"
    "\<forall>md \<in> snd ` set al. obj_ok md \<Longrightarrow> \<forall>md \<in> snd ` set al'. obj_ok md" by blast+
qed

lemma scan_metadata_does:
  assumes b: "body_ok body" "body_does H R body" and go: "(\<forall>a. go a) \<or> (\<forall>k md. R k md (Some md))"
    and "scan_metadata go body al a w = (al', a', w')" "distinct (map fst al)" "same_allocators H (fst w)"
  shows "entry_rel R (map_of al) (map_of al')"
  using assms(4-)
proof (induction al arbitrary: a w al')
  case (Cons p rest)
  obtain k md where p: "p = (k, md)" by (cases p)
  show ?case
  proof (cases "go a")
    case False
    then show ?thesis using Cons.prems p go by (auto simp: entry_rel_def at_rel_refl)
  next
    case True
    obtain md1 a1 w1 e where body: "body k md a w = (md1, a1, w1, e)" by (cases "body k md a w") auto
    define w2 where "w2 = (if e then destroy_metadata md1 w1 else w1)"
    obtain rest' where r: "scan_metadata go body rest a1 w2 = (rest', a', w')" "al' = (if e then rest' else (k, md1) # rest')"
      using Cons.prems True body p by (auto simp: w2_def split: prod.splits)
    have fr: "world_frame w w2" using body_okD(1) [OF b(1) body] world_frame_trans [OF _ destroy_metadata_frame] by (auto simp: w2_def)
    have "same_allocators H (fst w2)" by (rule same_allocators_trans [OF Cons.prems(3) world_frame_allocators [OF fr]])
    then have IH: "entry_rel R (map_of rest) (map_of rest')" using Cons.IH [OF r(1)] Cons.prems(2) by simp
    have R: "R k md (if e then None else Some md1)" using b(2) body Cons.prems(3) unfolding body_does_def by blast
    have "k \<notin> fst ` set rest" using Cons.prems(2) p by auto
    then have "k \<notin> fst ` set rest'" using scan_metadata_frame(3) [OF b(1) r(1)] by blast
    then have "map_of rest' k = None" by (simp add: map_of_eq_None_iff)
    then have "map_of (p # rest) = (map_of rest)(k \<mapsto> md)" and "map_of al' = (map_of rest')(k := if e then None else Some md1)"
      using r(2) p by auto
    then show ?thesis using entry_rel_upd [OF IH R] by (simp only:)
  qed
qed (simp add: entry_rel_def)

section \<open>Loops over the shards\<close>

lemma scan_shard_ok:
  assumes ok: "ms_ok p s X B" and b: "body_ok body" and i: "i < kNumShards" and sc: "scan_shard go body i a s = (s', a')"
  shows "ms_ok p s' X B" "only_metadata s s'"
proof -
  obtain al' w' where m: "scan_metadata go body (metadata_shards s i) a (shared s) = (al', a', w')"
    and s': "s' = s\<lparr>metadata_shards := (metadata_shards s)(i := al'), shared := w'\<rparr>"
    using sc by (auto simp: scan_shard_def split: prod.splits)
  note f = scan_metadata_frame [OF b m]
  show only: "only_metadata s s'" using f(1) by (simp add: only_metadata_def s')
  have sh: "shards_ok p s" using ok by (simp add: ms_ok_def)
  obtain R where R: "all_metadata s = mset (map snd (metadata_shards s i)) + R"
    "\<And>t al. metadata_shards t = (metadata_shards s)(i := al) \<Longrightarrow> all_metadata t = mset (map snd al) + R"
    using all_metadata_shard [OF i, of s] by blast
  have R': "all_metadata s' = mset (map snd al') + R" by (rule R(2)) (simp add: s')
  have st: "store_ok (segment_manager s) (shared s) (mset (map snd (metadata_shards s i)) + (R + X)) B"
    using ok R(1) by (simp add: ms_ok_def ac_simps)
  then have "world_ok w' (mset (map snd al') + (R + X)) B" by (intro f(2)) (simp add: store_ok_def)
  from store_ok_step [OF st f(1) this] f(5)
  have "store_ok (segment_manager s) w' (mset (map snd al') + (R + X)) B" by auto
  moreover have "shards_ok p s'"
    by (rule shards_ok_update [OF sh, of _ i al']) (use f(3,4) shards_okD [OF sh i] in \<open>auto simp: s'\<close>)
  moreover have "obj_ok md" if "md \<in># all_metadata s'" for md
    using that f(6) ok R(1) R' by (auto simp: ms_ok_def)
  ultimately show "ms_ok p s' X B" using ok f(1) R' by (simp add: ms_ok_def s' world_frame_def ac_simps)
qed

lemma scan_shards_ok:
  assumes "ms_ok p s X B" and b: "body_ok body" and "set is \<subseteq> {..<kNumShards}" and "scan_shards go body is a s = (s', a')"
  shows "ms_ok p s' X B \<and> only_metadata s s'"
  using assms(1,3,4)
proof (induction "is" arbitrary: s a)
  case (Cons i "is")
  obtain s1 a1 where s1: "scan_shard go body i a s = (s1, a1)" by (cases "scan_shard go body i a s")
  note ok1 = scan_shard_ok [OF Cons.prems(1) b _ s1]
  show ?case
  proof (cases "go a")
    case True
    then have "scan_shards go body is a1 s1 = (s', a')" using Cons.prems(3) s1 by simp
    from Cons.IH [OF _ _ this] ok1 Cons.prems(2) have "ms_ok p s' X B \<and> only_metadata s1 s'" by simp
    then show ?thesis using only_metadata_trans [OF ok1(2)] Cons.prems(2) by simp
  qed (use Cons.prems in simp)
qed simp

definition shard_rel :: "Platform \<Rightarrow> (string \<Rightarrow> ObjectMetadata \<Rightarrow> ObjectMetadata option \<Rightarrow> bool) \<Rightarrow> nat set \<Rightarrow> MasterService \<Rightarrow> MasterService \<Rightarrow> bool" where
  "shard_rel p R I s s' \<longleftrightarrow> (\<forall>k. if getShardIndex p k \<in> I
     then at_rel R k (find_metadata p k s) (find_metadata p k s')
     else find_metadata p k s' = find_metadata p k s)"

lemma scan_shard_does:
  assumes ok: "shards_ok p s" and b: "body_ok body" "body_does H R body" and go: "(\<forall>a. go a) \<or> (\<forall>k md. R k md (Some md))"
    and i: "i < kNumShards" and sc: "scan_shard go body i a s = (s', a')" and H: "same_allocators H (fst (shared s))"
  shows "shard_rel p R {i} s s'"
proof -
  obtain al' w' where m: "scan_metadata go body (metadata_shards s i) a (shared s) = (al', a', w')"
    and s': "s' = s\<lparr>metadata_shards := (metadata_shards s)(i := al'), shared := w'\<rparr>"
    using sc by (auto simp: scan_shard_def split: prod.splits)
  have "entry_rel R (map_of (metadata_shards s i)) (map_of al')"
    by (rule scan_metadata_does [OF b go m shards_okD(1) [OF ok i] H])
  then show ?thesis by (auto simp: shard_rel_def entry_rel_def find_metadata_def s')
qed

lemma scan_shards_does:
  assumes ok: "ms_ok p s X B" and b: "body_ok body" "body_does H R body" and go: "(\<forall>a. go a) \<or> (\<forall>k md. R k md (Some md))"
    and "set is \<subseteq> {..<kNumShards}" "distinct is" "scan_shards go body is a s = (s', a')" "same_allocators H (fst (shared s))"
  shows "shard_rel p R (set is) s s'"
  using assms(1,5-)
proof (induction "is" arbitrary: s a)
  case (Cons i "is")
  obtain s1 a1 where s1: "scan_shard go body i a s = (s1, a1)" by (cases "scan_shard go body i a s")
  have i: "i < kNumShards" using Cons.prems by simp
  note ok1 = scan_shard_ok [OF Cons.prems(1) b(1) i s1]
  show ?case
  proof (cases "go a")
    case True
    have sc: "scan_shards go body is a1 s1 = (s', a')" using Cons.prems(4) s1 True by simp
    have "same_allocators (fst (shared s)) (fst (shared s1))" using ok1(2) by (simp add: only_metadata_def world_frame_def)
    then have H1: "same_allocators H (fst (shared s1))" by (rule same_allocators_trans [OF Cons.prems(5)])
    have r: "shard_rel p R (set is) s1 s'" by (rule Cons.IH [OF ok1(1) _ _ sc H1]) (use Cons.prems in auto)
    have r1: "shard_rel p R {i} s s1"
      by (rule scan_shard_does [OF _ b go i s1 Cons.prems(5)]) (use Cons.prems(1) in \<open>simp add: ms_ok_def\<close>)
    have "i \<notin> set is" using Cons.prems(3) by simp
    show ?thesis unfolding shard_rel_def
    proof
      fix k
      show "if getShardIndex p k \<in> set (i # is)
        then at_rel R k (find_metadata p k s) (find_metadata p k s')
        else find_metadata p k s' = find_metadata p k s"
        using spec [OF r [unfolded shard_rel_def], of k] spec [OF r1 [unfolded shard_rel_def], of k] \<open>i \<notin> set is\<close>
        by (auto split: if_splits)
    qed
  next
    case False
    then show ?thesis using Cons.prems go by (auto simp: shard_rel_def at_rel_refl)
  qed
qed (simp add: shard_rel_def)

lemma shard_rel_all:
  assumes "shard_rel p R (set all_shards) s s'"
  shows "entry_rel R (\<lambda>k. find_metadata p k s) (\<lambda>k. find_metadata p k s')"
  using assms by (simp add: shard_rel_def entry_rel_def)

end
