(* ===== verification/Master_Threads.thy ===== *)
theory Master_Threads
  imports Master
begin

text \<open>
  The two background threads of the master service (\<open>master_service.cpp\<close>): an iteration of the
  eviction thread with \<open>BatchEvict\<close>, and an iteration of the client monitor. The arithmetic on
  doubles is exact up to \<open>rounding\<close>; \<open>std::nth_element\<close> is the element of that rank of the sorted
  vector; \<open>rand()\<close> is an argument.
\<close>

section \<open>Eviction\<close>

record EvictState =
  evicted_count :: int
  object_count :: int
  total_freed_size :: u64
  no_pin_objects :: "time list"
  soft_pin_objects :: "time list"

definition nth_smallest :: "time list \<Rightarrow> int \<Rightarrow> time" where
  "nth_smallest xs n = sort xs ! nat (n - 1)"

text \<open>Evicting an object: its memory replicas go, and the entry with them when nothing is left.\<close>

definition evict_object :: "ObjectMetadata \<Rightarrow> u64 \<Rightarrow> world \<Rightarrow> ObjectMetadata \<times> u64 \<times> world \<times> bool" where
  "evict_object md freed_bytes w =
     (let freed_bytes = freed_bytes + obj_size md * of_nat (GetMemReplicaCount md)
      in case EraseReplica MEMORY md w of (md, w) \<Rightarrow> (md, freed_bytes, w, \<not> IsValid md))"

text \<open>The first pass over a shard: collecting the candidates, then evicting.\<close>

definition collect_candidate :: "MasterServiceConfig \<Rightarrow> time \<Rightarrow> int \<Rightarrow> string \<times> ObjectMetadata \<Rightarrow> time list \<times> EvictState \<Rightarrow> time list \<times> EvictState" where
  "collect_candidate config now ideal_evict_num = (\<lambda>(key, md) (candidates, es).
     if \<not> IsLeaseExpired now md \<or> HasDiffRepStatus COMPLETE MEMORY md \<noteq> None then (candidates, es)
     else if \<not> IsSoftPinned now md then
       if ideal_evict_num > 0 then (candidates @ [lease_timeout md], es)
       else (candidates, es\<lparr>no_pin_objects := no_pin_objects es @ [lease_timeout md]\<rparr>)
     else if allow_evict_soft_pinned_objects config then (candidates, es\<lparr>soft_pin_objects := soft_pin_objects es @ [lease_timeout md]\<rparr>)
     else (candidates, es))"

definition first_pass_body :: "time \<Rightarrow> time \<Rightarrow> string \<Rightarrow> ObjectMetadata \<Rightarrow> EvictState \<Rightarrow> world \<Rightarrow> ObjectMetadata \<times> EvictState \<times> world \<times> bool" where
  "first_pass_body now target_timeout key md es w =
     (if \<not> IsLeaseExpired now md \<or> IsSoftPinned now md \<or> HasDiffRepStatus COMPLETE MEMORY md \<noteq> None \<or> \<not> HasMemReplica md
      then (md, es, w, False)
      else if lease_timeout md \<le> target_timeout then
        case evict_object md (total_freed_size es) w of (md, freed_bytes, w, erase) \<Rightarrow>
          (md, es\<lparr>total_freed_size := freed_bytes, evicted_count := evicted_count es + 1\<rparr>, w, erase)
      else (md, es\<lparr>no_pin_objects := no_pin_objects es @ [lease_timeout md]\<rparr>, w, False))"

definition first_pass_shard :: "Platform \<Rightarrow> time \<Rightarrow> rat \<Rightarrow> nat \<Rightarrow> EvictState \<Rightarrow> MasterService \<Rightarrow> MasterService \<times> EvictState" where
  "first_pass_shard p now evict_ratio_target i es s =
     (let es = es\<lparr>object_count := object_count es + int (length (metadata_shards s i))\<rparr>;
          ideal_evict_num = \<lceil>rounding p (of_int (object_count es) * evict_ratio_target)\<rceil> - evicted_count es;
          (candidates, es) = fold (collect_candidate (service_config s) now ideal_evict_num) (metadata_shards s i) ([], es)
      in if ideal_evict_num > 0 \<and> candidates \<noteq> [] then
           let evict_num = min ideal_evict_num (int (length candidates));
               target_timeout = nth_smallest candidates evict_num
           in scan_shard always (first_pass_body now target_timeout) i es s
         else (s, es))"

fun first_pass :: "Platform \<Rightarrow> time \<Rightarrow> rat \<Rightarrow> nat list \<Rightarrow> EvictState \<Rightarrow> MasterService \<Rightarrow> MasterService \<times> EvictState" where
  "first_pass p now ratio [] es s = (s, es)"
| "first_pass p now ratio (i # is) es s =
     (case first_pass_shard p now ratio i es s of (s, es) \<Rightarrow> first_pass p now ratio is es s)"

text \<open>The second pass: its accumulator is the state of the eviction and the number still to evict.\<close>

definition second_pass_step :: "bool \<Rightarrow> ObjectMetadata \<Rightarrow> EvictState \<times> int \<Rightarrow> world \<Rightarrow> ObjectMetadata \<times> (EvictState \<times> int) \<times> world \<times> bool" where
  "second_pass_step chosen md = (\<lambda>(es, target_evict_num) w.
     if chosen then
       case evict_object md (total_freed_size es) w of (md, freed_bytes, w, erase) \<Rightarrow>
         (md, (es\<lparr>total_freed_size := freed_bytes, evicted_count := evicted_count es + 1\<rparr>, target_evict_num - 1), w, erase)
     else (md, (es, target_evict_num), w, False))"

definition second_pass_A_body ::
  "time \<Rightarrow> time \<Rightarrow> string \<Rightarrow> ObjectMetadata \<Rightarrow> EvictState \<times> int \<Rightarrow> world \<Rightarrow> ObjectMetadata \<times> (EvictState \<times> int) \<times> world \<times> bool" where
  "second_pass_A_body now target_timeout key md =
     second_pass_step (lease_timeout md \<le> target_timeout \<and> \<not> IsSoftPinned now md
       \<and> HasDiffRepStatus COMPLETE MEMORY md = None \<and> HasMemReplica md) md"

definition second_pass_B_body ::
  "time \<Rightarrow> time \<Rightarrow> string \<Rightarrow> ObjectMetadata \<Rightarrow> EvictState \<times> int \<Rightarrow> world \<Rightarrow> ObjectMetadata \<times> (EvictState \<times> int) \<times> world \<times> bool" where
  "second_pass_B_body now soft_target_timeout key md =
     second_pass_step
       (\<not> (\<not> IsLeaseExpired now md \<or> HasDiffRepStatus COMPLETE MEMORY md \<noteq> None \<or> \<not> HasMemReplica md)
        \<and> (\<not> IsSoftPinned now md \<or> lease_timeout md \<le> soft_target_timeout)) md"

definition second_pass :: "time \<Rightarrow> rat \<Rightarrow> Platform \<Rightarrow> nat list \<Rightarrow> EvictState \<Rightarrow> MasterService \<Rightarrow> MasterService \<times> EvictState" where
  "second_pass now evict_ratio_lowerbound p order es s =
     (let no_pin = int (length (no_pin_objects es));
          soft_pin = int (length (soft_pin_objects es));
          target_evict_num = \<lceil>rounding p (of_int (object_count es) * evict_ratio_lowerbound)\<rceil> - evicted_count es;
          target_evict_num = min target_evict_num (no_pin + soft_pin)
      in if target_evict_num > 0 then
           if target_evict_num \<le> no_pin then
             let target_timeout = nth_smallest (no_pin_objects es) target_evict_num
             in case scan_shards (\<lambda>(_, n). n > 0) (second_pass_A_body now target_timeout) order (es, target_evict_num) s of
               (s, es, _) \<Rightarrow> (s, es)
           else if soft_pin_objects es \<noteq> [] then
             let soft_pin_evict_num = target_evict_num - no_pin;
                 soft_target_timeout = nth_smallest (soft_pin_objects es) soft_pin_evict_num
             in case scan_shards (\<lambda>(_, n). n > 0) (second_pass_B_body now soft_target_timeout) order (es, target_evict_num) s of
               (s, es, _) \<Rightarrow> (s, es)
           else (s, es)
         else (s, es))"

definition shard_order :: "nat \<Rightarrow> nat list" where
  "shard_order start_idx = map (\<lambda>i. (start_idx + i) mod kNumShards) all_shards"

definition BatchEvict :: "Platform \<Rightarrow> nat \<Rightarrow> time \<Rightarrow> rat \<Rightarrow> rat \<Rightarrow> MasterService \<Rightarrow> MasterService" where
  "BatchEvict p random now evict_ratio_target evict_ratio_lowerbound s =
     (let evict_ratio_lowerbound = (if evict_ratio_target < evict_ratio_lowerbound then evict_ratio_target else evict_ratio_lowerbound);
          order = shard_order (random mod kNumShards);
          es = \<lparr>evicted_count = 0, object_count = 0, total_freed_size = 0, no_pin_objects = [], soft_pin_objects = []\<rparr>;
          (s, es) = first_pass p now evict_ratio_target order es s;
          (s, es) = second_pass now evict_ratio_lowerbound p order es s
      in if evicted_count es > 0 then
           s\<lparr>need_eviction := False,
             shared := (fst (shared s), inc_eviction_success (word_of_int (evicted_count es)) (total_freed_size es) (snd (shared s)))\<rparr>
         else
           s\<lparr>need_eviction := (if object_count es = 0 then False else need_eviction s),
             shared := (fst (shared s), inc_eviction_fail (snd (shared s)))\<rparr>)"

definition EvictionThread_iteration :: "Platform \<Rightarrow> nat \<Rightarrow> time \<Rightarrow> MasterService \<Rightarrow> MasterService" where
  "EvictionThread_iteration p random now s =
     (let c = service_config s;
          used_ratio = get_global_mem_used_ratio (rounding p) (snd (shared s));
          high = eviction_high_watermark_ratio c
      in if used_ratio > high \<or> need_eviction s \<and> eviction_ratio c > 0 then
           let excess = rounding p (used_ratio - high);
               evict_ratio_target = max (eviction_ratio c) (rounding p (excess + eviction_ratio c));
               evict_ratio_lowerbound = max (rounding p (evict_ratio_target * (1 / 2))) excess
           in BatchEvict p random now evict_ratio_target evict_ratio_lowerbound s
         else s)"

section \<open>The client monitor\<close>

type_synonym client_ttls = "(UUID \<times> time) list"

definition seconds :: "int \<Rightarrow> time" where "seconds n = n * 1000000000"

text \<open>Taking the pings out of the queue, and finding the clients whose time is over.\<close>

definition drain_pings :: "time \<Rightarrow> client_ttls \<Rightarrow> MasterService \<Rightarrow> client_ttls \<times> MasterService" where
  "drain_pings now client_ttl s =
     (fold (\<lambda>client_id. AList.update client_id (now + seconds (client_live_ttl_sec (service_config s)))) (client_ping_queue s) client_ttl,
      s\<lparr>client_ping_queue := []\<rparr>)"

definition expired_clients :: "time \<Rightarrow> client_ttls \<Rightarrow> UUID list \<times> client_ttls" where
  "expired_clients now client_ttl = (map fst (filter (\<lambda>(_, t). t < now) client_ttl), filter (\<lambda>(_, t). \<not> t < now) client_ttl)"

fun disconnect_clients :: "UUID list \<Rightarrow> MasterService \<Rightarrow> MasterService" where
  "disconnect_clients [] s = s"
| "disconnect_clients (client_id # cs) s =
     disconnect_clients cs
       (if client_id \<in> ok_client s
        then s\<lparr>ok_client := ok_client s - {client_id}, shared := (fst (shared s), dec_active_clients 1 (snd (shared s)))\<rparr> else s)"

type_synonym pending_unmount = "UUID \<times> UUID \<times> u64"

fun prepare_segments :: "UUID \<Rightarrow> Segment list \<Rightarrow> MasterService \<Rightarrow> MasterService \<times> pending_unmount list" where
  "prepare_segments client_id [] s = (s, [])"
| "prepare_segments client_id (seg # segs) s =
     (case PrepareUnmountSegment (seg_id seg) (segment_manager s) (shared s) of (sm, w, err, metrics_dec_capacity) \<Rightarrow>
        let s = s\<lparr>segment_manager := sm, shared := w\<rparr>
        in case prepare_segments client_id segs s of (s, ps) \<Rightarrow>
          (s, if err = OK then (seg_id seg, client_id, metrics_dec_capacity) # ps else ps))"

fun prepare_clients :: "UUID list \<Rightarrow> MasterService \<Rightarrow> MasterService \<times> pending_unmount list" where
  "prepare_clients [] s = (s, [])"
| "prepare_clients (client_id # cs) s =
     (let segments = (case GetClientSegments client_id (segment_manager s) of Inl _ \<Rightarrow> [] | Inr segs \<Rightarrow> segs)
      in case prepare_segments client_id segments s of (s, ps) \<Rightarrow>
        case prepare_clients cs s of (s, qs) \<Rightarrow> (s, ps @ qs))"

fun commit_segments :: "pending_unmount list \<Rightarrow> MasterService \<Rightarrow> MasterService" where
  "commit_segments [] s = s"
| "commit_segments ((segment_id, client_id, dec_capacity) # ps) s =
     (case CommitUnmountSegment segment_id client_id dec_capacity (segment_manager s) (shared s) of (sm, w, _) \<Rightarrow>
        commit_segments ps (s\<lparr>segment_manager := sm, shared := w\<rparr>))"

definition ClientMonitor_iteration :: "time \<Rightarrow> client_ttls \<Rightarrow> MasterService \<Rightarrow> client_ttls \<times> MasterService" where
  "ClientMonitor_iteration now client_ttl s =
     (let (client_ttl, s) = drain_pings now client_ttl s;
          (expired, client_ttl) = expired_clients now client_ttl
      in if expired = [] then (client_ttl, s)
         else
           case prepare_clients expired (disconnect_clients expired s) of (s, ps) \<Rightarrow>
             (client_ttl, if ps = [] then s else commit_segments ps (ClearInvalidHandles s)))"

end
