(* ===== verification/Master_Loops.thy ===== *)
theory Master_Loops
  imports Master_Scan Master_Threads
begin

text \<open>
  The loops of the master service: clearing stale handles, queries and removals by regular
  expression, removing everything, and the passes of the eviction.
\<close>

declare map_of_eq_Some_iff [simp del] split_paired_All [simp del] split_paired_Ex [simp del]

section \<open>Bodies\<close>

lemma body_okI:
  assumes "\<And>k md a w md' a' w' e. body k md a w = (md', a', w', e) \<Longrightarrow> world_frame w w'
     \<and> (\<forall>M B. world_ok w (add_mset md M) B \<longrightarrow> world_ok w' (add_mset md' M) B)
     \<and> set_mset (metadata_buffers md') \<subseteq> set_mset (metadata_buffers md) \<and> (obj_ok md \<longrightarrow> obj_ok md')"
  shows "body_ok body"
  using assms unfolding body_ok_def by blast

text \<open>Bodies that leave the world alone.\<close>

lemma body_ok_pure:
  assumes "\<And>k md a w md' a' w' e. body k md a w = (md', a', w', e) \<Longrightarrow> w' = w \<and> (md' = md \<or> (\<exists>now ttl soft. md' = GrantLease now ttl soft md))"
  shows "body_ok body"
proof (rule body_okI)
  fix k md a w md' a' w' e
  assume "body k md a w = (md', a', w', e)"
  from assms [OF this] show "world_frame w w' \<and> (\<forall>M B. world_ok w (add_mset md M) B \<longrightarrow> world_ok w' (add_mset md' M) B)
     \<and> set_mset (metadata_buffers md') \<subseteq> set_mset (metadata_buffers md) \<and> (obj_ok md \<longrightarrow> obj_ok md')"
    by (auto simp: GrantLease_world)
qed

lemma clear_body_ok: "body_ok clear_body"
proof (rule body_okI)
  fix k md a w md' a' w' e
  assume "clear_body k md a w = (md', a', w', e)"
  then have c: "CleanupStaleHandles md w = (md', w', e)" by (auto simp: clear_body_def split: prod.splits)
  show "world_frame w w' \<and> (\<forall>M B. world_ok w (add_mset md M) B \<longrightarrow> world_ok w' (add_mset md' M) B)
     \<and> set_mset (metadata_buffers md') \<subseteq> set_mset (metadata_buffers md) \<and> (obj_ok md \<longrightarrow> obj_ok md')"
    using cleanup_frame [OF c] CleanupStaleHandles_world(1) [OF _ c] by (auto simp: obj_ok_filter)
qed

lemma clear_body_does: "body_does H (\<lambda>k md r. r = visible H (Some md)) clear_body"
  unfolding body_does_def
proof (intro allI impI)
  fix k md a w md' a' w' e
  assume H: "same_allocators H (fst w)" and "clear_body k md a w = (md', a', w', e)"
  then have c: "CleanupStaleHandles md w = (md', w', e)" by (auto simp: clear_body_def split: prod.splits)
  have "md' = live (fst w) md" using cleanup_frame(1) [OF c] by (simp add: live_def)
  then have "(if e then None else Some md') = visible (fst w) (Some md)" using cleanup_frame(2) [OF c] by (simp add: visible_def)
  then show "(if e then None else Some md') = visible H (Some md)" by (simp add: visible_same [OF H])
qed

lemma get_regex_body_ok: "body_ok (get_regex_body config now pattern)"
  by (rule body_ok_pure) (auto simp: get_regex_body_def Let_def split: if_splits)

lemma remove_regex_body_ok: "body_ok (remove_regex_body now pattern)"
  by (rule body_ok_pure) (auto simp: remove_regex_body_def split: if_splits)

lemma remove_all_body_ok: "body_ok (remove_all_body now)"
  by (rule body_ok_pure) (auto simp: remove_all_body_def split: if_splits prod.splits)

lemma all_shards_lt: "set all_shards \<subseteq> {..<kNumShards}"
  by auto

section \<open>Clearing stale handles\<close>

lemma ClearInvalidHandles_ok:
  assumes ok: "ms_ok p s X B"
  shows "ms_ok p (ClearInvalidHandles s) X B" "only_metadata s (ClearInvalidHandles s)" "objects p (ClearInvalidHandles s) = objects p s"
    "\<And>k. find_metadata p k (ClearInvalidHandles s) = objects p s k"
proof -
  obtain s' a where sc: "scan_shards always clear_body all_shards () s = (s', a)" by (cases "scan_shards always clear_body all_shards () s")
  have s': "ClearInvalidHandles s = s'" by (simp add: ClearInvalidHandles_def sc)
  have r: "ms_ok p s' X B" "only_metadata s s'" using scan_shards_ok [OF ok clear_body_ok all_shards_lt sc] by auto
  then show "ms_ok p (ClearInvalidHandles s) X B" "only_metadata s (ClearInvalidHandles s)" by (simp_all add: s')
  have "shard_rel p (\<lambda>k md r. r = visible (fst (shared s)) (Some md)) (set all_shards) s s'"
    by (rule scan_shards_does [OF ok clear_body_ok clear_body_does _ all_shards_lt _ sc]) simp_all
  from shard_rel_all [OF this] have f: "at_rel (\<lambda>k md r. r = visible (fst (shared s)) (Some md)) k (find_metadata p k s) (find_metadata p k s')" for k
    by (simp add: entry_rel_def)
  have f': "find_metadata p k s' = objects p s k" for k
    using f [of k] by (cases "find_metadata p k s") (simp_all add: objects_def visible_def)
  then show "\<And>k. find_metadata p k (ClearInvalidHandles s) = objects p s k" by (simp add: s')
  have "visible (fst (shared s')) = visible (fst (shared s))"
    using r(2) visible_same by (simp add: only_metadata_def world_frame_def)
  then have "objects p s' k = objects p s k" for k
    by (simp add: objects_def f' [unfolded objects_def]) (simp add: visible_def split: option.splits)
  then show "objects p (ClearInvalidHandles s) = objects p s" by (simp add: s' fun_eq_iff)
qed

section \<open>Accumulators\<close>

text \<open>The loops without an exit fold over all entries.\<close>

definition entries :: "MasterService \<Rightarrow> nat list \<Rightarrow> (string \<times> ObjectMetadata) list" where
  "entries s is = concat (map (metadata_shards s) is)"

definition body_acc :: "allocator_heap \<Rightarrow> (string \<times> ObjectMetadata \<Rightarrow> 'a \<Rightarrow> 'a) \<Rightarrow> 'a scan_body \<Rightarrow> bool" where
  "body_acc H f body \<longleftrightarrow> (\<forall>k md a w md' a' w' e. same_allocators H (fst w) \<longrightarrow> body k md a w = (md', a', w', e) \<longrightarrow> a' = f (k, md) a)"

lemma scan_metadata_acc:
  assumes b: "body_ok body" "body_acc H f body" and "scan_metadata always body al a w = (al', a', w')" "same_allocators H (fst w)"
  shows "a' = fold f al a"
  using assms(3,4)
proof (induction al arbitrary: a w al')
  case (Cons p rest)
  obtain k md where p: "p = (k, md)" by (cases p)
  obtain md1 a1 w1 e where body: "body k md a w = (md1, a1, w1, e)" by (cases "body k md a w") auto
  define w2 where "w2 = (if e then destroy_metadata md1 w1 else w1)"
  obtain rest' where r: "scan_metadata always body rest a1 w2 = (rest', a', w')"
    using Cons.prems body p by (auto simp: w2_def split: prod.splits)
  have fr: "world_frame w w2" using body_okD(1) [OF b(1) body] world_frame_trans [OF _ destroy_metadata_frame] by (auto simp: w2_def)
  have "same_allocators H (fst w2)" by (rule same_allocators_trans [OF Cons.prems(2) world_frame_allocators [OF fr]])
  moreover have "a1 = f p a" using b(2) body Cons.prems(2) unfolding body_acc_def p by blast
  ultimately show ?case using Cons.IH [OF r] by simp
qed simp

lemma scan_shard_other: "scan_shard go body i a s = (s', a') \<Longrightarrow> j \<noteq> i \<Longrightarrow> metadata_shards s' j = metadata_shards s j"
  by (auto simp: scan_shard_def split: prod.splits)

lemma scan_shards_acc:
  assumes b: "body_ok body" "body_acc H f body" and "scan_shards always body is a s = (s', a')" "distinct is" "same_allocators H (fst (shared s))"
  shows "a' = fold f (entries s is) a"
  using assms(3-)
proof (induction "is" arbitrary: s a)
  case (Cons i "is")
  obtain s1 a1 where s1: "scan_shard always body i a s = (s1, a1)" by (cases "scan_shard always body i a s")
  obtain al' w' where m: "scan_metadata always body (metadata_shards s i) a (shared s) = (al', a1, w')" "shared s1 = w'"
    using s1 by (auto simp: scan_shard_def split: prod.splits)
  have "a1 = fold f (metadata_shards s i) a" by (rule scan_metadata_acc [OF b m(1) Cons.prems(3)])
  moreover have "same_allocators H (fst (shared s1))"
    using same_allocators_trans [OF Cons.prems(3) world_frame_allocators [OF scan_metadata_frame(1) [OF b(1) m(1)]]] m(2) by simp
  moreover have "scan_shards always body is a1 s1 = (s', a')" "distinct is" using Cons.prems s1 by simp_all
  ultimately have "a1 = fold f (metadata_shards s i) a" "a' = fold f (entries s1 is) a1" using Cons.IH by blast+
  moreover have "metadata_shards s1 j = metadata_shards s j" if "j \<in> set is" for j
    using scan_shard_other [OF s1, of j] that Cons.prems(2) by auto
  then have "entries s1 is = entries s is" by (simp add: entries_def cong: map_cong)
  ultimately show ?case by (simp add: entries_def)
qed (simp add: entries_def)

text \<open>The entries of the whole table.\<close>

lemma entries_find:
  assumes "shards_ok p s" shows "(k, md) \<in> set (entries s all_shards) \<longleftrightarrow> find_metadata p k s = Some md"
proof
  assume "(k, md) \<in> set (entries s all_shards)"
  then obtain i where i: "i < kNumShards" "(k, md) \<in> set (metadata_shards s i)" by (auto simp: entries_def)
  then have "getShardIndex p k = i" using shards_okD(3) [OF assms i(1)] by force
  then show "find_metadata p k s = Some md" using i(2) shards_okD(1) [OF assms i(1)] by (simp add: find_metadata_def map_of_is_SomeI)
next
  assume "find_metadata p k s = Some md"
  then have "(k, md) \<in> set (metadata_shards s (getShardIndex p k))" by (auto simp: find_metadata_def dest: map_of_SomeD)
  then show "(k, md) \<in> set (entries s all_shards)" by (auto simp: entries_def)
qed

lemma entries_distinct: "shards_ok p s \<Longrightarrow> distinct is \<Longrightarrow> set is \<subseteq> {..<kNumShards} \<Longrightarrow> distinct (map fst (entries s is))"
proof (induction "is")
  case (Cons i "is")
  have "fst ` set (metadata_shards s i) \<inter> fst ` set (entries s is) = {}"
  proof -
    have "getShardIndex p k \<in> set is" if k: "k \<in> fst ` set (entries s is)" for k
    proof -
      obtain j where "j \<in> set is" "k \<in> fst ` set (metadata_shards s j)" using k by (auto simp: entries_def)
      then show ?thesis using shards_okD(3) [OF Cons.prems(1), of j k] Cons.prems(3) by auto
    qed
    moreover have "getShardIndex p k = i" if "k \<in> fst ` set (metadata_shards s i)" for k
      using shards_okD(3) [OF Cons.prems(1) _ that] Cons.prems(3) by simp
    ultimately show ?thesis using Cons.prems(2) by fastforce
  qed
  then show ?case using Cons shards_okD(1) [OF Cons.prems(1), of i] by (auto simp: entries_def)
qed (simp add: entries_def)

lemma all_metadata_entries: "all_metadata s = mset (map snd (entries s all_shards))"
proof -
  have "mset (map snd (entries s [0..<n])) = (\<Sum>i < n. mset (map snd (metadata_shards s i)))" for n
    by (induction n) (simp_all add: entries_def)
  then show ?thesis by (simp add: all_metadata_def)
qed

section \<open>Regular expressions and removing everything\<close>

lemma get_regex_does:
  "body_does H (\<lambda>k md r. r = Some (if pattern k \<and> complete_descriptors H md \<noteq> []
      then GrantLease (now k) (default_kv_lease_ttl config) (default_kv_soft_pin_ttl config) md else md)) (get_regex_body config now pattern)"
  "body_acc H (\<lambda>(k, md) a. if pattern k \<and> complete_descriptors H md \<noteq> [] then a @ [(k, complete_descriptors H md)] else a)
     (get_regex_body config now pattern)"
proof -
  have e: "same_allocators H (fst w) \<Longrightarrow> complete_descriptors (fst w) = complete_descriptors H" for w :: world
    using same_allocators_descriptor by (fastforce simp: fun_eq_iff complete_descriptors_def get_descriptor_def split: ReplicaData.splits)
  show "body_does H (\<lambda>k md r. r = Some (if pattern k \<and> complete_descriptors H md \<noteq> []
      then GrantLease (now k) (default_kv_lease_ttl config) (default_kv_soft_pin_ttl config) md else md)) (get_regex_body config now pattern)"
    unfolding body_does_def by (auto simp: get_regex_body_def Let_def e split: if_splits)
  show "body_acc H (\<lambda>(k, md) a. if pattern k \<and> complete_descriptors H md \<noteq> [] then a @ [(k, complete_descriptors H md)] else a)
     (get_regex_body config now pattern)"
    unfolding body_acc_def by (auto simp: get_regex_body_def Let_def e split: if_splits)
qed

lemma fold_collect:
  "fold (\<lambda>(k, md) a. if P k md then a @ [(k, f md)] else a) al a = a @ map (\<lambda>(k, md). (k, f md)) (filter (\<lambda>(k, md). P k md) al)"
  by (induction al arbitrary: a) auto

lemma GetReplicaListByRegex_ok:
  assumes ok: "ms_ok p s X B" and g: "GetReplicaListByRegex p now rx s = (s', r)"
  shows "ms_ok p s' X B \<and> only_metadata s s'"
    "case std_regex p rx of
       None \<Rightarrow> r = Inl INVALID_PARAMS \<and> s' = s
     | Some pattern \<Rightarrow> \<exists>results. r = Inr results \<and> distinct (map fst results)
         \<and> (\<forall>k ds. (k, ds) \<in> set results \<longleftrightarrow> (\<exists>md. find_metadata p k s = Some md \<and> pattern k \<and> ds = complete_descriptors (fst (shared s)) md \<and> ds \<noteq> []))
         \<and> (\<forall>k. find_metadata p k s' = map_option (\<lambda>md. if k \<in> fst ` set results
              then GrantLease (now k) (default_kv_lease_ttl (service_config s)) (default_kv_soft_pin_ttl (service_config s)) md else md) (find_metadata p k s))"
proof -
  have sh: "shards_ok p s" using ok by (simp add: ms_ok_def)
  have "ms_ok p s' X B \<and> only_metadata s s' \<and> (case std_regex p rx of
       None \<Rightarrow> r = Inl INVALID_PARAMS \<and> s' = s
     | Some pattern \<Rightarrow> \<exists>results. r = Inr results \<and> distinct (map fst results)
         \<and> (\<forall>k ds. (k, ds) \<in> set results \<longleftrightarrow> (\<exists>md. find_metadata p k s = Some md \<and> pattern k \<and> ds = complete_descriptors (fst (shared s)) md \<and> ds \<noteq> []))
         \<and> (\<forall>k. find_metadata p k s' = map_option (\<lambda>md. if k \<in> fst ` set results
              then GrantLease (now k) (default_kv_lease_ttl (service_config s)) (default_kv_soft_pin_ttl (service_config s)) md else md) (find_metadata p k s)))"
  proof (cases "std_regex p rx")
    case None
    then show ?thesis using ok g by (simp add: GetReplicaListByRegex_def)
  next
    case (Some pattern)
    let ?c = "service_config s" and ?H = "fst (shared s)"
    obtain results where sc: "scan_shards always (get_regex_body ?c now pattern) all_shards [] s = (s', results)" and r: "r = Inr results"
      using g Some by (auto simp: GetReplicaListByRegex_def split: prod.splits)
    let ?P = "\<lambda>k md. pattern k \<and> complete_descriptors ?H md \<noteq> []"
    have res: "results = map (\<lambda>(k, md). (k, complete_descriptors ?H md)) (filter (\<lambda>(k, md). ?P k md) (entries s all_shards))"
      using scan_shards_acc [OF get_regex_body_ok get_regex_does(2) [of ?H] sc] fold_collect [of ?P "complete_descriptors ?H"] by simp
    have mem: "(k, ds) \<in> set results \<longleftrightarrow> (\<exists>md. find_metadata p k s = Some md \<and> pattern k \<and> ds = complete_descriptors ?H md \<and> ds \<noteq> [])" for k ds
      unfolding res by (auto simp: image_iff entries_find [OF sh, symmetric])
    have "map fst results = map fst (filter (\<lambda>(k, md). ?P k md) (entries s all_shards))" unfolding res by (simp add: case_prod_beta comp_def)
    then have dist: "distinct (map fst results)" using entries_distinct [OF sh distinct_upt all_shards_lt] by (simp add: distinct_map_filter)
    have "shard_rel p (\<lambda>k md r. r = Some (if ?P k md then GrantLease (now k) (default_kv_lease_ttl ?c) (default_kv_soft_pin_ttl ?c) md else md))
        (set all_shards) s s'"
      by (rule scan_shards_does [OF ok get_regex_body_ok get_regex_does(1) _ all_shards_lt _ sc]) simp_all
    from shard_rel_all [OF this] have f: "at_rel (\<lambda>k md r. r = Some (if ?P k md
        then GrantLease (now k) (default_kv_lease_ttl ?c) (default_kv_soft_pin_ttl ?c) md else md)) k (find_metadata p k s) (find_metadata p k s')" for k
      by (simp add: entry_rel_def)
    have "find_metadata p k s' = map_option (\<lambda>md. if k \<in> fst ` set results
        then GrantLease (now k) (default_kv_lease_ttl ?c) (default_kv_soft_pin_ttl ?c) md else md) (find_metadata p k s)" for k
    proof (cases "find_metadata p k s")
      case None
      then show ?thesis using f [of k] by simp
    next
      case (Some md)
      have "k \<in> fst ` set results \<longleftrightarrow> (\<exists>ds. (k, ds) \<in> set results)" by force
      then have "k \<in> fst ` set results \<longleftrightarrow> ?P k md" by (simp add: mem Some)
      then show ?thesis using f [of k] Some by simp
    qed
    then show ?thesis using scan_shards_ok [OF ok get_regex_body_ok all_shards_lt sc] r Some mem dist by auto
  qed
  then show "ms_ok p s' X B \<and> only_metadata s s'"
    "case std_regex p rx of
       None \<Rightarrow> r = Inl INVALID_PARAMS \<and> s' = s
     | Some pattern \<Rightarrow> \<exists>results. r = Inr results \<and> distinct (map fst results)
         \<and> (\<forall>k ds. (k, ds) \<in> set results \<longleftrightarrow> (\<exists>md. find_metadata p k s = Some md \<and> pattern k \<and> ds = complete_descriptors (fst (shared s)) md \<and> ds \<noteq> []))
         \<and> (\<forall>k. find_metadata p k s' = map_option (\<lambda>md. if k \<in> fst ` set results
              then GrantLease (now k) (default_kv_lease_ttl (service_config s)) (default_kv_soft_pin_ttl (service_config s)) md else md) (find_metadata p k s))"
    by auto
qed

lemma entries_card:
  assumes sh: "shards_ok p s"
  shows "card {k. \<exists>md. find_metadata p k s = Some md \<and> P k md} = length (filter (\<lambda>(k, md). P k md) (entries s all_shards))"
proof -
  let ?f = "filter (\<lambda>(k, md). P k md) (entries s all_shards)"
  have "distinct (map fst ?f)" using entries_distinct [OF sh distinct_upt all_shards_lt] by (simp add: distinct_map_filter)
  then have "card (set (map fst ?f)) = length (map fst ?f)" by (rule distinct_card)
  moreover have "set (map fst ?f) = {k. \<exists>md. find_metadata p k s = Some md \<and> P k md}"
    by (force simp: entries_find [OF sh, symmetric])
  ultimately show ?thesis by simp
qed

lemma fold_count: "fold (\<lambda>(k, md) n. if P k md then n + 1 else n) al (n :: int) = n + int (length (filter (\<lambda>(k, md). P k md) al))"
  by (induction al arbitrary: n) auto

text \<open>What a removal takes away: the entries that satisfy a condition.\<close>

definition removes :: "Platform \<Rightarrow> (string \<Rightarrow> ObjectMetadata \<Rightarrow> bool) \<Rightarrow> MasterService \<Rightarrow> MasterService \<Rightarrow> int \<Rightarrow> bool" where
  "removes p P s s' n \<longleftrightarrow> n = int (card {k. \<exists>md. find_metadata p k s = Some md \<and> P k md})
     \<and> (\<forall>k. find_metadata p k s' = (case find_metadata p k s of None \<Rightarrow> None | Some md \<Rightarrow> if P k md then None else Some md))"

lemma scan_removes:
  assumes ok: "ms_ok p s X B" and b: "body_ok body" and P: "body_does (fst (shared s)) (\<lambda>k md r. r = (if P k md then None else Some md)) body"
    and acc: "body_acc (fst (shared s)) f body" and n: "\<And>al. g (fold f al a) = int (length (filter (\<lambda>(k, md). P k md) al))"
    and sc: "scan_shards always body all_shards a s = (s', a')"
  shows "ms_ok p s' X B \<and> only_metadata s s' \<and> removes p P s s' (g a')"
proof -
  have sh: "shards_ok p s" using ok by (simp add: ms_ok_def)
  have "a' = fold f (entries s all_shards) a" by (rule scan_shards_acc [OF b acc sc]) simp_all
  then have "g a' = int (card {k. \<exists>md. find_metadata p k s = Some md \<and> P k md})" by (simp add: n entries_card [OF sh])
  moreover have "shard_rel p (\<lambda>k md r. r = (if P k md then None else Some md)) (set all_shards) s s'"
    by (rule scan_shards_does [OF ok b P _ all_shards_lt _ sc]) simp_all
  from shard_rel_all [OF this] have f: "at_rel (\<lambda>k md r. r = (if P k md then None else Some md)) k (find_metadata p k s) (find_metadata p k s')" for k
    by (simp add: entry_rel_def)
  have "find_metadata p k s' = (case find_metadata p k s of None \<Rightarrow> None | Some md \<Rightarrow> if P k md then None else Some md)" for k
    using f [of k] by (cases "find_metadata p k s") simp_all
  ultimately show ?thesis using scan_shards_ok [OF ok b all_shards_lt sc] by (simp add: removes_def)
qed

lemma RemoveByRegex_ok:
  assumes ok: "ms_ok p s X B" and g: "RemoveByRegex p now rx s = (s', r)"
  shows "case std_regex p rx of
      None \<Rightarrow> r = Inl INVALID_PARAMS \<and> s' = s
    | Some pattern \<Rightarrow> \<exists>n. r = Inr n \<and> ms_ok p s' X B \<and> only_metadata s s'
        \<and> removes p (\<lambda>k md. pattern k \<and> IsLeaseExpired (now k) md \<and> IsAllReplicasComplete md) s s' n"
proof (cases "std_regex p rx")
  case (Some pattern)
  let ?P = "\<lambda>k md. pattern k \<and> IsLeaseExpired (now k) md \<and> IsAllReplicasComplete md"
  obtain n where sc: "scan_shards always (remove_regex_body now pattern) all_shards 0 s = (s', n)" and r: "r = Inr n"
    using g Some by (auto simp: RemoveByRegex_def split: prod.splits)
  have "body_does H (\<lambda>k md r. r = (if ?P k md then None else Some md)) (remove_regex_body now pattern)" for H
    unfolding body_does_def by (auto simp: remove_regex_body_def split: if_splits)
  moreover have "body_acc H (\<lambda>(k, md) n. if ?P k md then n + 1 else n) (remove_regex_body now pattern)" for H
    unfolding body_acc_def by (auto simp: remove_regex_body_def split: if_splits)
  ultimately have "ms_ok p s' X B \<and> only_metadata s s' \<and> removes p ?P s s' (id n)"
    by (rule scan_removes [OF ok remove_regex_body_ok _ _ _ sc]) (simp add: fold_count)
  then show ?thesis using Some r by simp
qed (use g in \<open>simp add: RemoveByRegex_def\<close>)

lemma fold_count_pair:
  "fst (fold (\<lambda>(k, md) (n, t). if P md then (n + 1, t + g md) else (n, t)) al (n :: int, t)) = n + int (length (filter (\<lambda>(k, md). P md) al))"
  by (induction al arbitrary: n t) auto

lemma RemoveAll_ok:
  assumes ok: "ms_ok p s X B" and g: "RemoveAll now s = (s', n)"
  shows "ms_ok p s' X B \<and> only_metadata s s' \<and> removes p (\<lambda>k md. IsLeaseExpired now md) s s' n"
proof -
  obtain t where sc: "scan_shards always (remove_all_body now) all_shards (0, 0) s = (s', n, t)"
    using g by (auto simp: RemoveAll_def split: prod.splits)
  let ?f = "\<lambda>(k, md) (n, t). if IsLeaseExpired now md then (n + 1, t + obj_size md * of_nat (GetMemReplicaCount md)) else (n, t)"
  have "body_does H (\<lambda>k md r. r = (if IsLeaseExpired now md then None else Some md)) (remove_all_body now)" for H
    unfolding body_does_def by (auto simp: remove_all_body_def split: if_splits prod.splits)
  moreover have "body_acc H ?f (remove_all_body now)" for H
    unfolding body_acc_def by (auto simp: remove_all_body_def split: if_splits prod.splits)
  ultimately have "ms_ok p s' X B \<and> only_metadata s s' \<and> removes p (\<lambda>k md. IsLeaseExpired now md) s s' (fst (n, t))"
    by (rule scan_removes [OF ok remove_all_body_ok _ _ _ sc]) (simp add: fold_count_pair)
  then show ?thesis by simp
qed

end
