(* ===== verification/Master_Evict.thy ===== *)
theory Master_Evict
  imports Master_Loops
begin

text \<open>
  \<open>BatchEvict\<close>: which objects it may evict, what it leaves of them, and that its count is the
  number of objects that lost their memory replicas.
\<close>

declare map_of_eq_Some_iff [simp del] split_paired_All [simp del] split_paired_Ex [simp del]

section \<open>Accumulators of the loops\<close>

lemma scan_metadata_inv:
  assumes b: "\<And>k md a w md' a' w' e. body k md a w = (md', a', w', e) \<Longrightarrow> I a \<Longrightarrow> I a'"
    and "scan_metadata go body al a w = (al', a', w')" "I a"
  shows "I a'"
  using assms(2,3)
proof (induction al arbitrary: a w al')
  case (Cons p rest)
  obtain k md where p: "p = (k, md)" by (cases p)
  obtain md1 a1 w1 e where body: "body k md a w = (md1, a1, w1, e)" by (cases "body k md a w") auto
  have "I a1" by (rule b [OF body Cons.prems(2)])
  then show ?case using Cons.IH [of a1] Cons.prems body p by (auto split: if_splits prod.splits)
qed simp

lemma scan_shards_inv:
  assumes b: "\<And>k md a w md' a' w' e. body k md a w = (md', a', w', e) \<Longrightarrow> I a \<Longrightarrow> I a'"
    and "scan_shards go body is a s = (s', a')" "I a"
  shows "I a'"
  using assms(2,3)
proof (induction "is" arbitrary: a s)
  case (Cons i "is")
  obtain s1 a1 where s1: "scan_shard go body i a s = (s1, a1)" by (cases "scan_shard go body i a s")
  then obtain al' w' where m: "scan_metadata go body (metadata_shards s i) a (shared s) = (al', a1, w')"
    by (auto simp: scan_shard_def split: prod.splits)
  have "I a1" by (rule scan_metadata_inv [where I = I, OF _ m Cons.prems(2)]) (erule (1) b)
  then show ?case using Cons.IH [of a1 s1] Cons.prems s1 by (auto split: if_splits)
qed simp

text \<open>A balance between the accumulator and the entries.\<close>

definition body_balance :: "(ObjectMetadata \<Rightarrow> int) \<Rightarrow> ('a \<Rightarrow> int) \<Rightarrow> 'a scan_body \<Rightarrow> bool" where
  "body_balance g h body \<longleftrightarrow> (\<forall>k md a w md' a' w' e. body k md a w = (md', a', w', e) \<longrightarrow> h a' + (if e then 0 else g md') = h a + g md)"

definition total :: "(ObjectMetadata \<Rightarrow> int) \<Rightarrow> ObjectMetadata multiset \<Rightarrow> int" where
  "total g M = sum_mset (image_mset g M)"

lemma total_simps [simp]: "total g {#} = 0" "total g (add_mset md M) = g md + total g M" "total g (M + N) = total g M + total g N"
  by (simp_all add: total_def)

lemma scan_metadata_balance:
  assumes b: "body_balance g h body" and "scan_metadata go body al a w = (al', a', w')"
  shows "h a' + total g (mset (map snd al')) = h a + total g (mset (map snd al))"
  using assms(2)
proof (induction al arbitrary: a w al')
  case (Cons p rest)
  obtain k md where p: "p = (k, md)" by (cases p)
  show ?case
  proof (cases "go a")
    case True
    obtain md1 a1 w1 e where body: "body k md a w = (md1, a1, w1, e)" by (cases "body k md a w") auto
    obtain rest' where r: "scan_metadata go body rest a1 (if e then destroy_metadata md1 w1 else w1) = (rest', a', w')"
      "al' = (if e then rest' else (k, md1) # rest')"
      using Cons.prems True body p by (auto split: prod.splits)
    have "h a1 + (if e then 0 else g md1) = h a + g md" using b body unfolding body_balance_def by blast
    then show ?thesis using Cons.IH [OF r(1)] r(2) p by auto
  qed (use Cons.prems p in simp)
qed simp

lemma scan_shard_balance:
  assumes b: "body_balance g h body" and i: "i < kNumShards" and sc: "scan_shard go body i a s = (s', a')"
  shows "h a' + total g (all_metadata s') = h a + total g (all_metadata s)"
proof -
  obtain al' w' where m: "scan_metadata go body (metadata_shards s i) a (shared s) = (al', a', w')"
    and s': "s' = s\<lparr>metadata_shards := (metadata_shards s)(i := al'), shared := w'\<rparr>"
    using sc by (auto simp: scan_shard_def split: prod.splits)
  obtain R where R: "all_metadata s = mset (map snd (metadata_shards s i)) + R"
    "\<And>t al. metadata_shards t = (metadata_shards s)(i := al) \<Longrightarrow> all_metadata t = mset (map snd al) + R"
    using all_metadata_shard [OF i, of s] by blast
  have "all_metadata s' = mset (map snd al') + R" by (rule R(2)) (simp add: s')
  then show ?thesis using scan_metadata_balance [OF b m] R(1) by simp
qed

lemma scan_shards_balance:
  assumes b: "body_balance g h body" and "set is \<subseteq> {..<kNumShards}" "scan_shards go body is a s = (s', a')"
  shows "h a' + total g (all_metadata s') = h a + total g (all_metadata s)"
  using assms(2,3)
proof (induction "is" arbitrary: a s)
  case (Cons i "is")
  obtain s1 a1 where s1: "scan_shard go body i a s = (s1, a1)" by (cases "scan_shard go body i a s")
  show ?case using Cons.IH [of a1 s1] Cons.prems scan_shard_balance [OF b _ s1] s1 by (auto split: if_splits)
qed simp

section \<open>Evicting an object\<close>

definition without_memory :: "ObjectMetadata \<Rightarrow> ObjectMetadata" where
  "without_memory md = md\<lparr>replicas := filter (\<lambda>r. replica_type r \<noteq> MEMORY) (replicas md)\<rparr>"

definition evicted :: "ObjectMetadata \<Rightarrow> ObjectMetadata option" where
  "evicted md = (if IsValid (without_memory md) then Some (without_memory md) else None)"

definition evictable :: "bool \<Rightarrow> time \<Rightarrow> ObjectMetadata \<Rightarrow> bool" where
  "evictable allow_soft now md \<longleftrightarrow> lease_timeout md \<le> now \<and> (IsSoftPinned now md \<longrightarrow> allow_soft)
     \<and> HasMemReplica md \<and> (\<forall>r \<in> set (replicas md). replica_type r = MEMORY \<longrightarrow> rep_status r = COMPLETE)"

definition evict_rel :: "bool \<Rightarrow> time \<Rightarrow> string \<Rightarrow> ObjectMetadata \<Rightarrow> ObjectMetadata option \<Rightarrow> bool" where
  "evict_rel allow_soft now k md r \<longleftrightarrow> r = Some md \<or> evictable allow_soft now md \<and> r = evicted md"

lemma evict_object_eq:
  assumes "evict_object md n w = (md', n', w', e)"
  shows "md' = without_memory md" "EraseReplica MEMORY md w = (md', w')" "e \<longleftrightarrow> \<not> IsValid md'"
    "n' = n + obj_size md * of_nat (GetMemReplicaCount md)"
  using assms by (auto simp: evict_object_def Let_def EraseReplica_def without_memory_def)

lemma evict_objectD: "evict_object md n w = (md', n', w', e) \<Longrightarrow> md' = without_memory md \<and> (e \<longleftrightarrow> \<not> IsValid (without_memory md))"
  using evict_object_eq [of md n w md' n' w' e] by simp

lemma evict_object_ok:
  assumes e: "evict_object md n w = (md', n', w', e)"
  shows "world_frame w w' \<and> (\<forall>M B. world_ok w (add_mset md M) B \<longrightarrow> world_ok w' (add_mset md' M) B)
     \<and> set_mset (metadata_buffers md') \<subseteq> set_mset (metadata_buffers md) \<and> (obj_ok md \<longrightarrow> obj_ok md')"
proof -
  note ev = evict_object_eq [OF e]
  have "world_frame w w'" using ev(2) destroy_buffers_frame [of w] by (auto simp: EraseReplica_def destroy_replicas_def)
  moreover have "set_mset (metadata_buffers md') \<subseteq> set_mset (metadata_buffers md)" by (auto simp: ev(1) without_memory_def metadata_buffers_def)
  ultimately show ?thesis using EraseReplica_world(1) [OF _ ev(2)] by (auto simp: ev(1) without_memory_def obj_ok_filter)
qed

lemma HasMem_without: "\<not> HasMemReplica (without_memory md)"
  by (auto simp: HasMemReplica_def without_memory_def list_ex_iff)

lemma first_pass_body_ok: "body_ok (first_pass_body now t)"
proof (rule body_okI)
  fix k md a w md' a' w' e
  assume b: "first_pass_body now t k md a w = (md', a', w', e)"
  then consider "md' = md" "w' = w" | n n' where "evict_object md n w = (md', n', w', e)"
    by (auto simp: first_pass_body_def split: if_splits prod.splits)
  then show "world_frame w w' \<and> (\<forall>M B. world_ok w (add_mset md M) B \<longrightarrow> world_ok w' (add_mset md' M) B)
     \<and> set_mset (metadata_buffers md') \<subseteq> set_mset (metadata_buffers md) \<and> (obj_ok md \<longrightarrow> obj_ok md')"
    using evict_object_ok by cases auto
qed

lemma second_pass_step_ok: "(\<And>k md. body k md = second_pass_step (c k md) md) \<Longrightarrow> body_ok body"
proof (rule body_okI)
  fix k md a w md' a' w' e
  assume body: "\<And>k md. body k md = second_pass_step (c k md) md" and b: "body k md a w = (md', a', w', e)"
  then consider "md' = md" "w' = w" | n n' where "evict_object md n w = (md', n', w', e)"
    by (auto simp: second_pass_step_def split: if_splits prod.splits)
  then show "world_frame w w' \<and> (\<forall>M B. world_ok w (add_mset md M) B \<longrightarrow> world_ok w' (add_mset md' M) B)
     \<and> set_mset (metadata_buffers md') \<subseteq> set_mset (metadata_buffers md) \<and> (obj_ok md \<longrightarrow> obj_ok md')"
    using evict_object_ok by cases auto
qed

lemma HasDiff_none: "HasDiffRepStatus status rtype md = None \<longleftrightarrow> (\<forall>r \<in> set (replicas md). replica_type r = rtype \<longrightarrow> rep_status r = status)"
  using HasDiffRepStatus_iff [of status rtype md] by blast

lemma first_pass_body_does: "body_does H (evict_rel allow now) (first_pass_body now t)"
  unfolding body_does_def
  by (auto simp: first_pass_body_def evict_rel_def evictable_def evicted_def HasDiff_none IsLeaseExpired_def
      dest!: evict_objectD split: if_splits prod.splits)

lemma second_pass_step_does:
  assumes body: "\<And>k md. body k md = second_pass_step (c k md) md" and c: "\<And>k md. c k md \<Longrightarrow> evictable allow now md"
  shows "body_does H (evict_rel allow now) body"
  unfolding body_does_def body
  by (auto simp: second_pass_step_def evict_rel_def evicted_def dest!: c evict_objectD split: if_splits prod.splits)

definition in_memory :: "ObjectMetadata \<Rightarrow> int" where
  "in_memory md = (if HasMemReplica md then 1 else 0)"

lemma first_pass_body_balance: "body_balance in_memory evicted_count (first_pass_body now t)"
  unfolding body_balance_def
  by (auto simp: first_pass_body_def in_memory_def HasMem_without dest!: evict_objectD split: if_splits prod.splits)

lemma second_pass_step_balance:
  assumes body: "\<And>k md. body k md = second_pass_step (c k md) md" and c: "\<And>k md. c k md \<Longrightarrow> HasMemReplica md"
  shows "body_balance in_memory (evicted_count \<circ> fst) body"
  unfolding body_balance_def body
  by (auto simp: second_pass_step_def in_memory_def HasMem_without dest!: c evict_objectD split: if_splits prod.splits)

section \<open>The passes\<close>

text \<open>What the passes know of the candidates they collect.\<close>

definition candidates_ok :: "bool \<Rightarrow> time \<Rightarrow> EvictState \<Rightarrow> bool" where
  "candidates_ok allow now es \<longleftrightarrow> (\<forall>t \<in> set (no_pin_objects es). t \<le> now) \<and> (soft_pin_objects es \<noteq> [] \<longrightarrow> allow)"

lemma nth_smallest_mem: "0 < n \<Longrightarrow> n \<le> int (length xs) \<Longrightarrow> nth_smallest xs n \<in> set xs"
proof -
  assume "0 < n" "n \<le> int (length xs)"
  then have "nat (n - 1) < length (sort xs)" by simp
  from nth_mem [OF this] show ?thesis by (simp add: nth_smallest_def)
qed

lemma collect_candidates_ok:
  assumes "candidates_ok (allow_evict_soft_pinned_objects c) now es"
    "fold (collect_candidate c now n) al (cs, es) = (cs', es')"
  shows "candidates_ok (allow_evict_soft_pinned_objects c) now es'" "evicted_count es' = evicted_count es"
    "object_count es' = object_count es" "total_freed_size es' = total_freed_size es"
proof -
  have "candidates_ok (allow_evict_soft_pinned_objects c) now es' \<and> evicted_count es' = evicted_count es
      \<and> object_count es' = object_count es \<and> total_freed_size es' = total_freed_size es"
    using assms
  proof (induction al arbitrary: cs es)
    case (Cons p al)
    obtain cs1 es1 where c1: "collect_candidate c now n p (cs, es) = (cs1, es1)" by (cases "collect_candidate c now n p (cs, es)")
    have "candidates_ok (allow_evict_soft_pinned_objects c) now es1 \<and> evicted_count es1 = evicted_count es
        \<and> object_count es1 = object_count es \<and> total_freed_size es1 = total_freed_size es"
      using c1 Cons.prems(1) by (cases p) (auto simp: collect_candidate_def candidates_ok_def IsLeaseExpired_def split: if_splits)
    then show ?case using Cons.IH [of es1 cs1] Cons.prems(2) c1 by simp
  qed simp
  then show "candidates_ok (allow_evict_soft_pinned_objects c) now es'" "evicted_count es' = evicted_count es"
    "object_count es' = object_count es" "total_freed_size es' = total_freed_size es" by auto
qed

text \<open>The account that holds between the passes.\<close>

definition evicting :: "Platform \<Rightarrow> bool \<Rightarrow> time \<Rightarrow> MasterService \<Rightarrow> MasterService \<Rightarrow> EvictState \<Rightarrow> bool" where
  "evicting p allow now s0 s es \<longleftrightarrow> only_metadata s0 s \<and> candidates_ok allow now es
     \<and> entry_rel (evict_rel allow now) (\<lambda>k. find_metadata p k s0) (\<lambda>k. find_metadata p k s)
     \<and> evicted_count es + total in_memory (all_metadata s) = total in_memory (all_metadata s0)"

text \<open>Evicting is transitive: an object that was evicted has no memory replica left.\<close>

lemma evict_rel_trans:
  assumes "at_rel (evict_rel allow now) k x y" "at_rel (evict_rel allow now) k y z" shows "at_rel (evict_rel allow now) k x z"
proof (cases x)
  case (Some md)
  consider "y = Some md" | "evictable allow now md" "y = None" "evicted md = None" | "evictable allow now md" "y = Some (without_memory md)" "evicted md = y"
    using assms(1) Some by (auto simp: evict_rel_def evicted_def split: if_splits)
  then show ?thesis
  proof cases
    case 3
    then have "z = y" using assms(2) HasMem_without by (auto simp: evict_rel_def evictable_def)
    then show ?thesis using assms(1) by simp
  qed (use assms Some in \<open>auto simp: evict_rel_def\<close>)
qed (use assms in simp)

lemma shard_rel_entry:
  assumes "shard_rel p R I s s'" "\<forall>k md. R k md (Some md)" shows "entry_rel R (\<lambda>k. find_metadata p k s) (\<lambda>k. find_metadata p k s')"
  unfolding entry_rel_def
proof
  fix k
  show "at_rel R k (find_metadata p k s) (find_metadata p k s')"
    using spec [OF assms(1) [unfolded shard_rel_def], of k] at_rel_refl [where R = R, OF assms(2)] by (auto split: if_splits)
qed

lemma evict_rel_refl: "\<forall>k md. evict_rel allow now k md (Some md)"
  by (simp add: evict_rel_def)

lemma entry_rel_evict_trans:
  "entry_rel (evict_rel allow now) T T' \<Longrightarrow> entry_rel (evict_rel allow now) T' T'' \<Longrightarrow> entry_rel (evict_rel allow now) T T''"
  unfolding entry_rel_def using evict_rel_trans by blast

lemma first_pass_shard_ok:
  assumes ok: "ms_ok p s X B" and ev: "evicting p (allow_evict_soft_pinned_objects (service_config s)) now s0 s es"
    and i: "i < kNumShards" and f: "first_pass_shard p now ratio i es s = (s', es')"
  shows "ms_ok p s' X B" "evicting p (allow_evict_soft_pinned_objects (service_config s)) now s0 s' es'" "service_config s' = service_config s"
proof -
  let ?c = "service_config s" and ?allow = "allow_evict_soft_pinned_objects (service_config s)"
  define es1 where "es1 = es\<lparr>object_count := object_count es + int (length (metadata_shards s i))\<rparr>"
  define n where "n = \<lceil>rounding p (of_int (object_count es1) * ratio)\<rceil> - evicted_count es1"
  obtain cs es2 where c: "fold (collect_candidate ?c now n) (metadata_shards s i) ([], es1) = (cs, es2)"
    by (cases "fold (collect_candidate ?c now n) (metadata_shards s i) ([], es1)")
  have "candidates_ok ?allow now es1" using ev by (simp add: evicting_def candidates_ok_def es1_def)
  note col = collect_candidates_ok [OF this c]
  define t where "t = nth_smallest cs (min n (int (length cs)))"
  have f': "(if n > 0 \<and> cs \<noteq> [] then scan_shard always (first_pass_body now t) i es2 s else (s, es2)) = (s', es')"
    using f c by (auto simp: first_pass_shard_def Let_def es1_def n_def t_def split: if_splits)
  have "ms_ok p s' X B \<and> evicting p ?allow now s0 s' es' \<and> service_config s' = ?c"
  proof (cases "n > 0 \<and> cs \<noteq> []")
    case False
    then have "s' = s" "es' = es2" using f' by (auto split: if_splits)
    then show ?thesis using ok ev col by (auto simp: evicting_def es1_def)
  next
    case True
    then have sc: "scan_shard always (first_pass_body now t) i es2 s = (s', es')" using f' by simp
    note r = scan_shard_ok [OF ok first_pass_body_ok i sc]
    obtain al' w' where m: "scan_metadata always (first_pass_body now t) (metadata_shards s i) es2 (shared s) = (al', es', w')"
      using sc by (auto simp: scan_shard_def split: prod.splits)
    have "candidates_ok ?allow now es'"
      by (rule scan_metadata_inv [where I = "candidates_ok ?allow now", OF _ m col(1)])
        (auto simp: first_pass_body_def candidates_ok_def IsLeaseExpired_def split: if_splits prod.splits)
    moreover have "shard_rel p (evict_rel ?allow now) {i} s s'"
      by (rule scan_shard_does [OF _ first_pass_body_ok first_pass_body_does _ i sc same_allocators_refl]) (use ok in \<open>simp_all add: ms_ok_def\<close>)
    from shard_rel_entry [OF this evict_rel_refl]
    have "entry_rel (evict_rel ?allow now) (\<lambda>k. find_metadata p k s0) (\<lambda>k. find_metadata p k s')"
      using ev entry_rel_evict_trans unfolding evicting_def by blast
    moreover have "evicted_count es' + total in_memory (all_metadata s') = evicted_count es2 + total in_memory (all_metadata s)"
      by (rule scan_shard_balance [OF first_pass_body_balance i sc])
    ultimately have "evicting p ?allow now s0 s' es'"
      using ev col(2) r(2) only_metadata_trans [of s0 s s'] by (simp add: evicting_def es1_def)
    then show ?thesis using r by (simp add: only_metadata_def)
  qed
  then show "ms_ok p s' X B" "evicting p ?allow now s0 s' es'" "service_config s' = ?c" by auto
qed

lemma first_pass_ok:
  assumes "ms_ok p s X B" "evicting p allow now s0 s es" "allow = allow_evict_soft_pinned_objects (service_config s)"
    "set is \<subseteq> {..<kNumShards}" "first_pass p now ratio is es s = (s', es')"
  shows "ms_ok p s' X B \<and> evicting p allow now s0 s' es' \<and> service_config s' = service_config s"
  using assms
proof (induction "is" arbitrary: s es)
  case (Cons i "is")
  obtain s1 es1 where s1: "first_pass_shard p now ratio i es s = (s1, es1)" by (cases "first_pass_shard p now ratio i es s")
  have i: "i < kNumShards" using Cons.prems by simp
  note r = first_pass_shard_ok [OF Cons.prems(1) Cons.prems(2) [unfolded Cons.prems(3)] i s1]
  show ?case using Cons.IH [OF r(1), of es1] r Cons.prems s1 by simp
qed simp

lemma scan_second_ok:
  assumes ok: "ms_ok p s X B" and ev: "evicting p allow now s0 s es"
    and body: "\<And>k md. body k md = second_pass_step (c k md) md" and c: "\<And>k md. c k md \<Longrightarrow> evictable allow now md"
    and is_: "set is \<subseteq> {..<kNumShards}" "distinct is" and sc: "scan_shards go body is (es, n) s = (s', es', n')"
  shows "ms_ok p s' X B \<and> evicting p allow now s0 s' es'"
proof -
  note b = second_pass_step_ok [OF body]
  have mem: "c k md \<Longrightarrow> HasMemReplica md" for k md using c [of k md] by (simp add: evictable_def)
  have r: "ms_ok p s' X B \<and> only_metadata s s'" by (rule scan_shards_ok [OF ok b is_(1) sc])
  have "shard_rel p (evict_rel allow now) (set is) s s'"
    by (rule scan_shards_does [OF ok b second_pass_step_does [OF body c] _ is_ sc same_allocators_refl]) (simp_all add: evict_rel_refl)
  from shard_rel_entry [OF this evict_rel_refl]
  have f: "entry_rel (evict_rel allow now) (\<lambda>k. find_metadata p k s0) (\<lambda>k. find_metadata p k s')"
    using ev entry_rel_evict_trans unfolding evicting_def by blast
  have t: "evicted_count es' + total in_memory (all_metadata s') = evicted_count es + total in_memory (all_metadata s)"
    using scan_shards_balance [OF second_pass_step_balance [OF body mem] is_(1) sc] by simp
  have "candidates_ok allow now (fst (es', n'))"
    by (rule scan_shards_inv [where I = "\<lambda>a. candidates_ok allow now (fst a)", OF _ sc])
      (use ev in \<open>auto simp: body second_pass_step_def candidates_ok_def evicting_def split: if_splits prod.splits\<close>)
  then show ?thesis using ev r f t only_metadata_trans [of s0 s s'] by (simp add: evicting_def)
qed

lemma second_pass_ok:
  assumes ok: "ms_ok p s X B" and ev: "evicting p allow now s0 s es"
    and order: "set order \<subseteq> {..<kNumShards}" "distinct order" and e: "second_pass now lower p order es s = (s', es')"
  shows "ms_ok p s' X B \<and> evicting p allow now s0 s' es'"
proof -
  define n where "n = min (\<lceil>rounding p (of_int (object_count es) * lower)\<rceil> - evicted_count es)
    (int (length (no_pin_objects es)) + int (length (soft_pin_objects es)))"
  define t where "t = nth_smallest (no_pin_objects es) n"
  define u where "u = nth_smallest (soft_pin_objects es) (n - int (length (no_pin_objects es)))"
  consider "s' = s" "es' = es"
    | n' where "0 < n" "n \<le> int (length (no_pin_objects es))" "scan_shards (\<lambda>(_, n). n > 0) (second_pass_A_body now t) order (es, n) s = (s', es', n')"
    | n' where "soft_pin_objects es \<noteq> []" "scan_shards (\<lambda>(_, n). n > 0) (second_pass_B_body now u) order (es, n) s = (s', es', n')"
    using e unfolding second_pass_def Let_def n_def [symmetric] t_def [symmetric] u_def [symmetric] by (auto split: if_splits prod.splits)
  then show ?thesis
  proof cases
    case 1 then show ?thesis using ok ev by simp
  next
    case 2
    have "t \<in> set (no_pin_objects es)" unfolding t_def by (rule nth_smallest_mem [OF 2(1,2)])
    then have "t \<le> now" using ev by (simp add: evicting_def candidates_ok_def)
    then show ?thesis
      by (intro scan_second_ok [OF ok ev _ _ order 2(3), of "\<lambda>k md. lease_timeout md \<le> t \<and> \<not> IsSoftPinned now md
          \<and> HasDiffRepStatus COMPLETE MEMORY md = None \<and> HasMemReplica md"])
        (auto simp: second_pass_A_body_def evictable_def HasDiff_none)
  next
    case 3
    then have "allow" using ev by (simp add: evicting_def candidates_ok_def)
    then show ?thesis
      by (intro scan_second_ok [OF ok ev _ _ order 3(2), of "\<lambda>k md. \<not> (\<not> IsLeaseExpired now md \<or> HasDiffRepStatus COMPLETE MEMORY md \<noteq> None \<or> \<not> HasMemReplica md)
        \<and> (\<not> IsSoftPinned now md \<or> lease_timeout md \<le> u)"])
        (auto simp: second_pass_B_body_def evictable_def HasDiff_none IsLeaseExpired_def)
  qed
qed

section \<open>A whole round\<close>

lemma shard_order_lt [simp]: "set (shard_order k) \<subseteq> {..<kNumShards}"
  by (auto simp: shard_order_def kNumShards_def)

lemma shard_order_distinct [simp]: "distinct (shard_order k)"
proof -
  have le: "i = j" if "i \<le> j" "j < kNumShards" "(k + j) mod kNumShards = (k + i) mod kNumShards" for i j
  proof -
    have "kNumShards dvd (k + j) - (k + i)" using that mod_eq_dvd_iff_nat [of "k + i" "k + j" kNumShards] by simp
    then have "kNumShards dvd j - i" by simp
    then show ?thesis using that nat_dvd_not_less [of "j - i" kNumShards] by (cases "i = j") auto
  qed
  have "inj_on (\<lambda>i. (k + i) mod kNumShards) {..<kNumShards}"
  proof (rule inj_onI)
    fix i j assume ij: "i \<in> {..<kNumShards}" "j \<in> {..<kNumShards}" "(k + i) mod kNumShards = (k + j) mod kNumShards"
    then show "i = j" using le [of i j] le [of j i] by (cases "i \<le> j") auto
  qed
  then show ?thesis by (simp add: shard_order_def distinct_map lessThan_atLeast0)
qed

text \<open>Changing a counter changes nothing that the invariant speaks of.\<close>

lemma world_ok_counters: "world_ok (H, m\<lparr>counters := c\<rparr>) M B = world_ok (H, m) M B"
  by (simp add: world_ok_def gauges_ok_def)

lemma ms_ok_counters:
  assumes "ms_ok p s X B" "snd w = (snd (shared s))\<lparr>counters := c\<rparr>" "fst w = fst (shared s)"
  shows "ms_ok p (s\<lparr>shared := w\<rparr>) X B"
proof -
  have w: "w = (fst (shared s), (snd (shared s))\<lparr>counters := c\<rparr>)" using assms(2,3) by (metis prod.collapse)
  have "seg_inv sm w = seg_inv sm (shared s)" for sm by (simp add: w seg_inv_def)
  moreover have "world_ok w M B = world_ok (shared s) M B" for M B using world_ok_counters [of "fst (shared s)"] by (simp add: w)
  ultimately show ?thesis using assms(1) by (simp add: ms_ok_def store_ok_def w)
qed

lemma ms_ok_need_eviction: "ms_ok p s X B \<Longrightarrow> ms_ok p (s\<lparr>need_eviction := b\<rparr>) X B"
  by (simp add: ms_ok_def)

definition lost_memory :: "Platform \<Rightarrow> MasterService \<Rightarrow> MasterService \<Rightarrow> string set" where
  "lost_memory p s s' = {k. \<exists>md. find_metadata p k s = Some md \<and> HasMemReplica md
     \<and> (\<forall>md'. find_metadata p k s' = Some md' \<longrightarrow> \<not> HasMemReplica md')}"

lemma total_in_memory:
  assumes "shards_ok p s" shows "total in_memory (all_metadata s) = int (card {k. \<exists>md. find_metadata p k s = Some md \<and> HasMemReplica md})"
proof -
  have "total in_memory (mset (map snd al)) = int (length (filter (\<lambda>(k, md). HasMemReplica md) al))" for al :: "(string \<times> ObjectMetadata) list"
    by (induction al) (auto simp: in_memory_def)
  then show ?thesis by (simp add: entries_card [OF assms] all_metadata_entries)
qed

lemma finite_found: "shards_ok p s \<Longrightarrow> finite {k. \<exists>md. find_metadata p k s = Some md \<and> P k md}"
proof -
  assume sh: "shards_ok p s"
  have "{k. \<exists>md. find_metadata p k s = Some md \<and> P k md} \<subseteq> fst ` set (entries s all_shards)"
    by (force simp: entries_find [OF sh, symmetric])
  then show ?thesis by (rule finite_subset) simp
qed

lemma lost_memory_card:
  assumes "shards_ok p s" "shards_ok p s'" "entry_rel (evict_rel allow now) (\<lambda>k. find_metadata p k s) (\<lambda>k. find_metadata p k s')"
  shows "int (card (lost_memory p s s')) = total in_memory (all_metadata s) - total in_memory (all_metadata s')"
proof -
  let ?M = "\<lambda>s. {k. \<exists>md. find_metadata p k s = Some md \<and> HasMemReplica md}"
  have r: "at_rel (evict_rel allow now) k (find_metadata p k s) (find_metadata p k s')" for k using assms(3) by (simp add: entry_rel_def)
  have "?M s' \<subseteq> ?M s"
  proof
    fix k assume "k \<in> ?M s'"
    then show "k \<in> ?M s" using r [of k] HasMem_without by (cases "find_metadata p k s") (auto simp: evict_rel_def evicted_def split: if_splits)
  qed
  moreover have "lost_memory p s s' = ?M s - ?M s'" by (auto simp: lost_memory_def)
  ultimately have "card (lost_memory p s s') = card (?M s) - card (?M s')" "card (?M s') \<le> card (?M s)"
    using finite_found [OF assms(1), of "\<lambda>k md. HasMemReplica md"] by (simp_all add: card_Diff_subset finite_subset card_mono)
  then show ?thesis by (simp add: total_in_memory [OF assms(1)] total_in_memory [OF assms(2)])
qed

text \<open>
  One round of eviction: the invariant is kept; an entry is left alone or, when its lease has
  expired, its memory is complete and it is not pinned (unless pinned objects may go), its
  memory replicas are dropped; the metrics count exactly the objects that lost their memory.
\<close>

lemma BatchEvict_ok:
  assumes ok: "ms_ok p s X B" and s': "s' = BatchEvict p random now target lower s"
  shows "ms_ok p s' X B"
    "entry_rel (evict_rel (allow_evict_soft_pinned_objects (service_config s)) now) (\<lambda>k. find_metadata p k s) (\<lambda>k. find_metadata p k s')"
    "counters (snd (shared s')) evicted_key_count = counters (snd (shared s)) evicted_key_count + of_nat (card (lost_memory p s s'))"
    "service_config s' = service_config s" "segment_manager s' = segment_manager s" "ok_client s' = ok_client s"
    "same_allocators (fst (shared s)) (fst (shared s'))" "lost_memory p s s' \<noteq> {} \<Longrightarrow> \<not> need_eviction s'"
proof -
  let ?allow = "allow_evict_soft_pinned_objects (service_config s)" and ?order = "shard_order (random mod kNumShards)"
  let ?lower = "if target < lower then target else lower"
  define es where "es = \<lparr>evicted_count = 0, object_count = 0, total_freed_size = 0, no_pin_objects = [], soft_pin_objects = []\<rparr>"
  obtain s1 es1 where p1: "first_pass p now target ?order es s = (s1, es1)" by (cases "first_pass p now target ?order es s")
  obtain s2 es2 where p2: "second_pass now ?lower p ?order es1 s1 = (s2, es2)" by (cases "second_pass now ?lower p ?order es1 s1")
  define c where "c = counters (if evicted_count es2 > 0 then inc_eviction_success (word_of_int (evicted_count es2)) (total_freed_size es2) (snd (shared s2))
      else inc_eviction_fail (snd (shared s2)))"
  define w where "w = (fst (shared s2), (snd (shared s2))\<lparr>counters := c\<rparr>)"
  have s2: "\<exists>b. s' = s2\<lparr>need_eviction := b, shared := w\<rparr> \<and> (evicted_count es2 > 0 \<longrightarrow> \<not> b)"
  proof (cases "evicted_count es2 > 0")
    case True
    then show ?thesis using p1 p2 unfolding s' BatchEvict_def Let_def es_def [symmetric]
      by (intro exI [of _ False]) (simp add: c_def w_def inc_eviction_success_def)
  next
    case False
    then show ?thesis using p1 p2 unfolding s' BatchEvict_def Let_def es_def [symmetric]
      by (intro exI [of _ "if object_count es2 = 0 then False else need_eviction s2"]) (simp add: c_def w_def inc_eviction_fail_def)
  qed
  have "evicting p ?allow now s s es" by (simp add: evicting_def es_def candidates_ok_def entry_rel_def at_rel_refl evict_rel_refl)
  from first_pass_ok [OF ok this refl shard_order_lt p1]
  have f: "ms_ok p s1 X B" "evicting p ?allow now s s1 es1" by auto
  have g: "ms_ok p s2 X B" "evicting p ?allow now s s2 es2" using second_pass_ok [OF f shard_order_lt shard_order_distinct p2] by auto
  then show "ms_ok p s' X B" using s2 ms_ok_counters [OF ms_ok_need_eviction [OF g(1)], of w c] by (auto simp: w_def)
  have e: "find_metadata p k s' = find_metadata p k s2" for k using s2 by auto
  show "entry_rel (evict_rel ?allow now) (\<lambda>k. find_metadata p k s) (\<lambda>k. find_metadata p k s')"
    using g(2) by (simp add: evicting_def e)
  have "lost_memory p s s' = lost_memory p s s2" by (simp add: lost_memory_def e)
  moreover have "int (card (lost_memory p s s2)) = total in_memory (all_metadata s) - total in_memory (all_metadata s2)"
    by (rule lost_memory_card [of p s s2 ?allow now]) (use ok g in \<open>simp_all add: ms_ok_def evicting_def\<close>)
  ultimately have n: "evicted_count es2 = int (card (lost_memory p s s'))" using g(2) by (simp add: evicting_def)
  have o: "only_metadata s s2" using g(2) by (simp add: evicting_def)
  then show "counters (snd (shared s')) evicted_key_count = counters (snd (shared s)) evicted_key_count + of_nat (card (lost_memory p s s'))"
  proof -
    have "c evicted_key_count = counters (snd (shared s2)) evicted_key_count + word_of_int (evicted_count es2)"
      by (auto simp: c_def n inc_eviction_success_def inc_eviction_fail_def)
    moreover have "counters (snd (shared s')) = c" using s2 by (auto simp: w_def)
    ultimately show ?thesis using o by (simp add: n only_metadata_def world_frame_def)
  qed
  have fields: "service_config s' = service_config s2 \<and> segment_manager s' = segment_manager s2 \<and> ok_client s' = ok_client s2
      \<and> fst (shared s') = fst (shared s2)" using s2 by (auto simp: w_def)
  show "service_config s' = service_config s" "segment_manager s' = segment_manager s" "ok_client s' = ok_client s"
    "same_allocators (fst (shared s)) (fst (shared s'))"
    using o fields by (simp_all add: only_metadata_def world_frame_def)
  assume "lost_memory p s s' \<noteq> {}"
  moreover have "finite (lost_memory p s s')"
    using finite_found [of p s "\<lambda>k md. HasMemReplica md"] ok by (auto simp: lost_memory_def ms_ok_def intro: rev_finite_subset)
  ultimately have "evicted_count es2 > 0" by (simp add: n card_gt_0_iff)
  then show "\<not> need_eviction s'" using s2 by auto
qed

end
