(* ===== verification/Master_Put.thy ===== *)
theory Master_Put
  imports Master_Evict Master_Spec
begin

text \<open>
  \<open>PutStart\<close>: the invariant is kept on every path, and the table of objects gets the new object
  exactly when the request succeeds and the key had no entry.
\<close>

declare map_of_eq_Some_iff [simp del] split_paired_All [simp del] split_paired_Ex [simp del]

section \<open>The allocators a request may use\<close>

lemma ba_valid_kind:
  assumes "unat sz \<le> 2 ^ 63" "allocator_type b = CACHELIB \<Longrightarrow> sz \<le> kMaxSliceSize"
  shows "ba_valid b sz"
proof (cases b)
  case (Cachelib c)
  then have "unat sz \<le> unat kMaxSliceSize" using assms(2) by (simp add: word_le_nat_alt)
  then show ?thesis using Cachelib by (simp add: kMaxSliceSize_def push_bit_eq_mult)
qed (use assms(1) in simp)

lemma index_pool:
  assumes ix: "index_ok sm H" and v: "\<And>i b sz. H i = Some b \<Longrightarrow> sz \<in> set sizes \<Longrightarrow> ba_valid b sz"
  shows "pool H sizes (allocators sm) (allocators_by_name sm)"
proof -
  have n: "\<exists>b. H i = Some b \<and> allocator_segment_name b = n" if "(n, as) \<in> set (allocators_by_name sm)" "i \<in> set as" for n as i
  proof -
    have "map_of (allocators_by_name sm) n = Some as" using ix that(1) by (simp add: index_ok_def no_empty_def)
    then have "i \<in> set (lookup_list (allocators_by_name sm) n)" using that(2) by (simp add: lookup_list_def)
    then show ?thesis using ix by (auto simp: index_ok_def)
  qed
  then have "names_kept H (allocators_by_name sm)" unfolding names_kept_def by blast
  moreover have "alive H sizes (concat (map snd (allocators_by_name sm)))" unfolding alive_def
  proof
    fix i assume "i \<in> set (concat (map snd (allocators_by_name sm)))"
    then obtain n as where "(n, as) \<in> set (allocators_by_name sm)" "i \<in> set as" by auto
    then show "\<exists>b. H i = Some b \<and> (\<forall>sz \<in> set sizes. ba_valid b sz)" using n v by blast
  qed
  moreover have "alive H sizes (allocators sm)" using ix v unfolding alive_def index_ok_def by blast
  ultimately show ?thesis by (simp add: pool_def)
qed

section \<open>Placing the new entry\<close>

lemma ms_ok_hold:
  assumes ok: "ms_ok p s X B" and f: "world_frame (shared s) w'" and w: "world_ok w' (all_metadata s + X) (B' + B)"
    and v: "\<And>x. x \<in># B' \<Longrightarrow> isAllocatorValid (fst w') x"
  shows "ms_ok p (s\<lparr>shared := w', allocation_strategy := st\<rparr>) X (B' + B)"
proof -
  have "store_ok (segment_manager s) (shared s) (all_metadata s + X) B" using ok by (simp add: ms_ok_def)
  from store_ok_step [OF this f w] v have "store_ok (segment_manager s) w' (all_metadata s + X) (B' + B)" by auto
  then show ?thesis using ok f by (simp add: ms_ok_def world_frame_def)
qed

lemma ms_ok_new:
  assumes ok: "ms_ok p s X B" and find: "find_metadata p k s = None" and f: "world_frame (shared s) w'"
    and w: "world_ok w' (add_mset md (all_metadata s + X)) B'" and o: "obj_ok md"
    and sub: "\<And>x. x \<in># metadata_buffers md + B' \<Longrightarrow> x \<in># B"
  shows "ms_ok p (set_metadata p k md (s\<lparr>shared := w'\<rparr>)) X B'"
proof -
  have a: "all_metadata (set_metadata p k md (s\<lparr>shared := w'\<rparr>)) = add_mset md (all_metadata s)"
    using all_metadata_new [of p k s md] find by (subst all_metadata_cong [of _ "set_metadata p k md s"]) simp_all
  have st: "store_ok (segment_manager s) (shared s) (all_metadata s + X) B" using ok by (simp add: ms_ok_def)
  have "store_ok (segment_manager s) w' (add_mset md (all_metadata s + X)) B'"
    by (rule store_ok_step [OF st f w]) (use sub in auto)
  then show ?thesis using ok f o by (auto simp: ms_ok_def a shards_ok_set_metadata world_frame_def)
qed

text \<open>The entry is constructed, and kept only when the key has none.\<close>

lemma emplace_ok:
  assumes ok: "ms_ok p s X (mset (concat (map replica_buffers reps)) + B)"
    and o: "\<And>md. replicas md = reps \<Longrightarrow> obj_size md = n \<Longrightarrow> obj_ok md"
    and v: "\<And>r. r \<in> set reps \<Longrightarrow> \<not> has_invalid_mem_handle (fst (shared s)) r" and ne: "reps \<noteq> []"
  shows "ms_ok p (emplace_metadata p k n reps soft s) X B" "only_metadata s (emplace_metadata p k n reps soft s)"
    "objects p (emplace_metadata p k n reps soft s) =
       (if find_metadata p k s = None then (objects p s)(k \<mapsto> fst (ObjectMetadata_new n reps soft (snd (shared s)))) else objects p s)"
proof -
  obtain md m where md: "ObjectMetadata_new n reps soft (snd (shared s)) = (md, m)"
    by (cases "ObjectMetadata_new n reps soft (snd (shared s))")
  let ?w = "(fst (shared s), m)" and ?s' = "emplace_metadata p k n reps soft s"
  have "world_ok (fst (shared s), snd (shared s)) (all_metadata s + X) (mset (concat (map replica_buffers reps)) + B)"
    using ok by (simp add: ms_ok_def store_ok_def)
  note new = ObjectMetadata_new_world [OF this md]
  have f: "world_frame (shared s) ?w" using new(2) by simp
  have "live (fst (shared s)) md = md" using v new(3) by (simp add: live_def)
  then have vis: "visible (fst (shared s)) (Some md) = Some md" using new(3) ne by (simp add: visible_def)
  have d: "destroy_metadata md ?w = w \<Longrightarrow> world_ok w (all_metadata s + X) B \<and> world_frame ?w w" for w
    using destroy_metadata_world [OF new(1)] by blast
  have "ms_ok p ?s' X B \<and> only_metadata s ?s' \<and> objects p ?s' = (if find_metadata p k s = None then (objects p s)(k \<mapsto> md) else objects p s)"
  proof (cases "find_metadata p k s")
    case None
    then have s': "?s' = set_metadata p k md (s\<lparr>shared := ?w\<rparr>)" by (simp add: emplace_metadata_def md Let_def)
    have "ms_ok p ?s' X B" unfolding s'
      by (rule ms_ok_new [OF ok None f new(1) o]) (auto simp: new metadata_buffers_def)
    then show ?thesis using only_metadata_set [OF f] objects_set [OF f] None vis by (simp add: s')
  next
    case (Some old)
    define w where "w = destroy_metadata md ?w"
    have s': "?s' = s\<lparr>shared := w\<rparr>" using Some by (simp add: emplace_metadata_def md Let_def w_def)
    note dw = d [OF w_def [symmetric]]
    have fw: "world_frame (shared s) w" using world_frame_trans [OF f] dw by blast
    have "store_ok (segment_manager s) (shared s) (all_metadata s + X) (mset (concat (map replica_buffers reps)) + B)"
      using ok by (simp add: ms_ok_def)
    from store_ok_step [OF this fw conjunct1 [OF dw]] have "store_ok (segment_manager s) w (all_metadata s + X) B" by auto
    then have "ms_ok p ?s' X B" using ok fw by (simp add: ms_ok_def s' world_frame_def)
    moreover have "only_metadata s ?s'" using fw by (simp add: only_metadata_def s')
    moreover have "objects p ?s' = objects p s" by (rule objects_frame) (simp_all add: s' fw)
    ultimately show ?thesis using Some by simp
  qed
  then show "ms_ok p ?s' X B" "only_metadata s ?s'"
    "objects p ?s' = (if find_metadata p k s = None then (objects p s)(k \<mapsto> fst (ObjectMetadata_new n reps soft (snd (shared s)))) else objects p s)"
    by (auto simp: md)
qed

section \<open>The request\<close>

definition put_cleanup :: "Platform \<Rightarrow> string \<Rightarrow> MasterService \<Rightarrow> MasterService \<times> bool" where
  "put_cleanup p key s =
     (case find_metadata p key s of
        None \<Rightarrow> (s, False)
      | Some md \<Rightarrow>
          (case CleanupStaleHandles md (shared s) of (md, w, none_left) \<Rightarrow>
             (set_metadata p key md (s\<lparr>shared := w\<rparr>), \<not> none_left)))"

lemma put_cleanup_ok:
  assumes ok: "ms_ok p s X B" and c: "put_cleanup p k s = (s', b)"
  shows "ms_ok p s' X B" "only_metadata s s'" "objects p s' = objects p s" "b \<longleftrightarrow> objects p s k \<noteq> None"
    "find_metadata p k s' = None \<longleftrightarrow> find_metadata p k s = None"
proof -
  have "ms_ok p s' X B \<and> only_metadata s s' \<and> objects p s' = objects p s \<and> (b \<longleftrightarrow> objects p s k \<noteq> None)
    \<and> (find_metadata p k s' = None \<longleftrightarrow> find_metadata p k s = None)"
  proof (cases "find_metadata p k s")
    case None
    then show ?thesis using ok c by (simp add: put_cleanup_def objects_def visible_def)
  next
    case (Some md)
    obtain md' w' e where cl: "CleanupStaleHandles md (shared s) = (md', w', e)" by (cases "CleanupStaleHandles md (shared s)")
    note cf = cleanup_frame [OF cl]
    have s': "s' = set_metadata p k md' (s\<lparr>shared := w'\<rparr>)" "b \<longleftrightarrow> \<not> e" using c Some cl by (auto simp: put_cleanup_def)
    have md': "md' = live (fst (shared s)) md" using cf(1) by (simp add: live_def)
    have "ms_ok p s' X B" unfolding s'
      by (rule ms_ok_set [OF ok Some cf(3) CleanupStaleHandles_world(1) [OF _ cl] cf(4)]) (simp_all add: cf(1) obj_ok_filter)
    moreover have "objects p s' = objects p s" using objects_set [OF cf(3)] Some md' by (auto simp: s' objects_def fun_eq_iff)
    moreover have "b \<longleftrightarrow> objects p s k \<noteq> None" using s'(2) cf(2) Some md' by (simp add: objects_def visible_def)
    ultimately show ?thesis using only_metadata_set [OF cf(3)] Some by (simp add: s')
  qed
  then show "ms_ok p s' X B" "only_metadata s s'" "objects p s' = objects p s" "b \<longleftrightarrow> objects p s k \<noteq> None"
    "find_metadata p k s' = None \<longleftrightarrow> find_metadata p k s = None" by auto
qed

definition put_args_ok :: "string \<Rightarrow> u64 list \<Rightarrow> ReplicateConfig \<Rightarrow> MasterService \<Rightarrow> bool" where
  "put_args_ok key sizes config s \<longleftrightarrow> replica_num config \<noteq> 0 \<and> key \<noteq> [] \<and> sizes \<noteq> []
     \<and> (memory_allocator_type (service_config s) = CACHELIB \<longrightarrow> (\<forall>n \<in> set sizes. n \<le> kMaxSliceSize))"

definition new_object :: "u64 \<Rightarrow> Replica list \<Rightarrow> bool \<Rightarrow> ObjectMetadata" where
  "new_object n reps soft = \<lparr>replicas = reps, obj_size = n, lease_timeout = 0,
     soft_pin_timeout = (if soft then Some 0 else None), disk_replica_size = sum_list (map disk_size (filter is_disk_replica reps))\<rparr>"

lemma ObjectMetadata_new_fst: "fst (ObjectMetadata_new n reps soft m) = new_object n reps soft"
  by (simp add: ObjectMetadata_new_def new_object_def Let_def)

text \<open>The replicas of a new object: those in memory, and the file when the store has one.\<close>

definition put_replicas :: "Platform \<Rightarrow> string \<Rightarrow> u64 list \<Rightarrow> MasterService \<Rightarrow> Replica list \<Rightarrow> Replica list" where
  "put_replicas p key sizes s reps =
     (if use_disk_replica s then reps @ [Replica_disk (ResolvePath p key (service_config s)) (sum_list sizes) PROCESSING] else reps)"

lemma put_replicas_buffers: "concat (map replica_buffers (put_replicas p key sizes s reps)) = concat (map replica_buffers reps)"
  by (simp add: put_replicas_def Replica_disk_def replica_buffers_def)

lemma put_replicas_ok:
  assumes a: "allocated H sizes config reps"
  shows "replicas md = put_replicas p key sizes s reps \<Longrightarrow> obj_size md = sum_list sizes \<Longrightarrow> obj_ok md"
    "r \<in> set (put_replicas p key sizes s reps) \<Longrightarrow> \<not> has_invalid_mem_handle H r" "put_replicas p key sizes s reps \<noteq> []"
    "x \<in> set (concat (map replica_buffers reps)) \<Longrightarrow> isAllocatorValid H x"
proof -
  obtain rbufs where r: "reps = map (\<lambda>b. Replica_memory b PROCESSING) rbufs" "shape_ok H sizes rbufs" "reps \<noteq> []"
    using a by (auto simp: allocated_def)
  have rb: "map buf_size rb = sizes" "\<forall>x \<in> set rb. isAllocatorValid H x" if "rb \<in> set rbufs" for rb
    using r(2) that by (simp_all add: shape_ok_def)
  show "replicas md = put_replicas p key sizes s reps \<Longrightarrow> obj_size md = sum_list sizes \<Longrightarrow> obj_ok md"
    using r(1) rb(1) by (auto simp: obj_ok_def put_replicas_def Replica_memory_def Replica_disk_def is_memory_replica_def
        is_disk_replica_def replica_buffers_def disk_size_def)
  show "r \<in> set (put_replicas p key sizes s reps) \<Longrightarrow> \<not> has_invalid_mem_handle H r"
    using r(1) rb(2) by (auto simp: put_replicas_def Replica_memory_def Replica_disk_def has_invalid_mem_handle_def list_ex_iff split: if_splits)
  show "put_replicas p key sizes s reps \<noteq> []" using r(3) by (simp add: put_replicas_def)
  show "x \<in> set (concat (map replica_buffers reps)) \<Longrightarrow> isAllocatorValid H x" using r(1) rb(2) by auto
qed

lemma PutStart_unfold:
  "PutStart p key sizes config s =
     (if \<not> put_args_ok key sizes config s then (s, Inl INVALID_PARAMS)
      else case put_cleanup p key s of (s, present) \<Rightarrow>
        if present then (s, Inl OBJECT_ALREADY_EXISTS)
        else case Allocate (std_shuffle p) (allocators (segment_manager s)) (allocators_by_name (segment_manager s))
               sizes config (shared s) (allocation_strategy s) of
             (w, st, Inl e) \<Rightarrow>
               if e = INVALID_PARAMS then (s\<lparr>shared := w, allocation_strategy := st\<rparr>, Inl INVALID_PARAMS)
               else (s\<lparr>shared := w, allocation_strategy := st, need_eviction := True\<rparr>, Inl NO_AVAILABLE_HANDLE)
           | (w, st, Inr reps) \<Rightarrow>
               (emplace_metadata p key (sum_list sizes) (put_replicas p key sizes s reps) (with_soft_pin config)
                  (s\<lparr>shared := w, allocation_strategy := st\<rparr>),
                Inr (map (get_descriptor (fst w)) (put_replicas p key sizes s reps))))"
  unfolding PutStart_def put_args_ok_def put_cleanup_def Let_def put_replicas_def
  by (auto simp: list_ex_iff not_less not_le split: option.splits prod.splits sum.splits)

text \<open>What a request promises of the objects.\<close>

definition put_result :: "Platform \<Rightarrow> string \<Rightarrow> u64 list \<Rightarrow> ReplicateConfig \<Rightarrow> MasterService \<Rightarrow> MasterService \<Rightarrow> ErrorCode + ReplicaDescriptor list \<Rightarrow> bool" where
  "put_result p key sizes config s s' r = (case r of
       Inl e \<Rightarrow> objects p s' = objects p s
         \<and> (if \<not> put_args_ok key sizes config s then e = INVALID_PARAMS
            else if objects p s key \<noteq> None then e = OBJECT_ALREADY_EXISTS
            else if 0 \<in> set sizes then e = INVALID_PARAMS
            else e = NO_AVAILABLE_HANDLE \<and> need_eviction s')
     | Inr ds \<Rightarrow> put_args_ok key sizes config s \<and> objects p s key = None \<and> 0 \<notin> set sizes
         \<and> (\<exists>reps. allocated (fst (shared s')) sizes config reps
              \<and> ds = map (get_descriptor (fst (shared s'))) (put_replicas p key sizes s reps)
              \<and> objects p s' = (if find_metadata p key s = None
                  then (objects p s)(key \<mapsto> new_object (sum_list sizes) (put_replicas p key sizes s reps) (with_soft_pin config))
                  else objects p s)))"

lemma validateInput_none: "validateInput sizes n = None \<longleftrightarrow> n \<noteq> 0 \<and> sizes \<noteq> [] \<and> 0 \<notin> set sizes"
  by (auto simp: validateInput_def count_list_0_iff)

lemma get_descriptor_same: "same_allocators H H' \<Longrightarrow> get_descriptor H' = get_descriptor H"
  by (auto simp: fun_eq_iff get_descriptor_def same_allocators_descriptor split: ReplicaData.splits)

lemma PutStart_ok:
  assumes ok: "ms_ok p s X B" and sh: "\<And>k xs. mset (std_shuffle p k xs) = mset xs"
    and sz: "\<forall>n \<in> set sizes. unat n \<le> 2 ^ 63" and ps: "PutStart p key sizes config s = (s', r)"
  shows "ms_ok p s' X B" "put_result p key sizes config s s' r" "segment_manager s' = segment_manager s" "service_config s' = service_config s"
    "world_frame (shared s) (shared s')" "ok_client s' = ok_client s" "use_disk_replica s' = use_disk_replica s"
proof -
  have "ms_ok p s' X B \<and> put_result p key sizes config s s' r \<and> world_frame (shared s) (shared s')
    \<and> segment_manager s' = segment_manager s \<and> service_config s' = service_config s \<and> ok_client s' = ok_client s
    \<and> use_disk_replica s' = use_disk_replica s"
  proof (cases "put_args_ok key sizes config s")
    case False
    then have "s' = s" "r = Inl INVALID_PARAMS" using ps by (simp_all add: PutStart_unfold)
    then show ?thesis using ok False by (simp add: put_result_def)
  next
    case True
    obtain s1 b where c: "put_cleanup p key s = (s1, b)" by (cases "put_cleanup p key s")
    note cl = put_cleanup_ok [OF ok c]
    note o = cl(2) [unfolded only_metadata_def]
    show ?thesis
    proof (cases b)
      case True
      then have "s' = s1" "r = Inl OBJECT_ALREADY_EXISTS" using ps \<open>put_args_ok key sizes config s\<close> c by (simp_all add: PutStart_unfold)
      then show ?thesis using cl True \<open>put_args_ok key sizes config s\<close> o by (auto simp: put_result_def)
    next
      case b: False
      obtain w st q where a: "Allocate (std_shuffle p) (allocators (segment_manager s1)) (allocators_by_name (segment_manager s1))
          sizes config (shared s1) (allocation_strategy s1) = (w, st, q)" by (metis prod_cases3)
      have inv: "seg_inv (segment_manager s1) (shared s1)" and kind: "memory_allocator_kind (segment_manager s1) = memory_allocator_type (service_config s1)"
        using cl(1) by (simp_all add: ms_ok_def store_ok_def)
      have "pool (fst (shared s1)) sizes (allocators (segment_manager s1)) (allocators_by_name (segment_manager s1))"
      proof (rule index_pool [OF seg_invD(4) [OF inv]])
        fix i b n assume i: "fst (shared s1) i = Some b" and n: "n \<in> set sizes"
        show "ba_valid b n"
          by (rule ba_valid_kind) (use sz n True kind seg_invD(5) [OF inv i] o in \<open>auto simp: put_args_ok_def\<close>)
      qed
      note al = Allocate_ok [OF this sh a]
      have w: "world_ok (shared s1) (all_metadata s1 + X) B" using cl(1) by (simp add: ms_ok_def store_ok_def)
      let ?t = "s1\<lparr>shared := w, allocation_strategy := st\<rparr>"
      have frame: "world_frame (shared s) w" using world_frame_trans [of "shared s" "shared s1" w] o al by blast
      have objt: "objects p ?t = objects p s1" by (rule objects_frame) (use al in simp_all)
      show ?thesis
      proof (cases q)
        case (Inl e)
        have "ms_ok p ?t X B" using ms_ok_hold [OF cl(1), of w "{#}" st] al w Inl by simp
        moreover have "s' = (if e = INVALID_PARAMS then ?t else ?t\<lparr>need_eviction := True\<rparr>)" "r = Inl (if e = INVALID_PARAMS then e else NO_AVAILABLE_HANDLE)"
          using ps True c b a Inl by (simp_all add: PutStart_unfold split: if_splits)
        moreover have "e = (if 0 \<in> set sizes then INVALID_PARAMS else NO_AVAILABLE_HANDLE)"
          using al Inl True by (auto simp: validateInput_none put_args_ok_def split: if_splits)
        moreover have "objects p (?t\<lparr>need_eviction := True\<rparr>) = objects p ?t" by (simp add: objects_def)
        ultimately show ?thesis using o frame objt cl b True by (auto simp: put_result_def ms_ok_need_eviction)
      next
        case (Inr reps)
        then have ar: "allocated (fst w) sizes config reps" and wr: "world_ok w (all_metadata s1 + X) (mset (concat (map replica_buffers reps)) + B)"
          using al w by simp_all
        note pr = put_replicas_ok [OF ar]
        let ?reps = "put_replicas p key sizes s1 reps"
        have s': "s' = emplace_metadata p key (sum_list sizes) ?reps (with_soft_pin config) ?t" "r = Inr (map (get_descriptor (fst w)) ?reps)"
          using ps True c b a Inr by (simp_all add: PutStart_unfold)
        have "ms_ok p ?t X (mset (concat (map replica_buffers ?reps)) + B)" unfolding put_replicas_buffers
          by (rule ms_ok_hold [OF cl(1) _ wr]) (use al pr(4) in auto)
        note em = emplace_ok [where k = key and n = "sum_list sizes" and soft = "with_soft_pin config", OF this]
        have em: "ms_ok p s' X B" "only_metadata ?t s'" "objects p s' = (if find_metadata p key ?t = None
            then (objects p ?t)(key \<mapsto> new_object (sum_list sizes) ?reps (with_soft_pin config)) else objects p ?t)"
          unfolding s'(1) ObjectMetadata_new_fst [of _ _ _ "snd (shared ?t)", symmetric]
          by (rule em; use pr in simp)+
        have rp: "?reps = put_replicas p key sizes s reps" using o by (simp add: put_replicas_def)
        have same: "same_allocators (fst w) (fst (shared s'))" using em(2) by (simp add: only_metadata_def world_frame_def)
        have "validateInput sizes (replica_num config) = None" using a Inr by (auto simp: Allocate_def split: option.splits)
        then have nz: "0 \<notin> set sizes" by (simp add: validateInput_none)
        have "allocated (fst (shared s')) sizes config reps"
          using ar shape_ok_same [OF same] unfolding allocated_def by blast
        then have "put_result p key sizes config s s' r"
          using True nz s'(2) b cl(3-5) em(3) objt get_descriptor_same [OF same] unfolding put_result_def rp by auto
        then show ?thesis using em(1,2) o world_frame_trans [OF frame, of "shared s'"] by (simp add: only_metadata_def)
      qed
    qed
  qed
  then show "ms_ok p s' X B" "put_result p key sizes config s s' r" "segment_manager s' = segment_manager s" "service_config s' = service_config s"
    "world_frame (shared s) (shared s')" "ok_client s' = ok_client s" "use_disk_replica s' = use_disk_replica s" by auto
qed

end
