(* ===== verification/Master_Steps.thy ===== *)
theory Master_Steps
  imports Master_Put
begin

text \<open>
  Mounting, unmounting, pings and the client monitor keep the invariant; the handlers and the
  steps of the two threads as a transition system, in which a segment that is being unmounted
  waits between the two parts of its unmounting while other requests are served. The invariant
  holds in every state the system reaches.
\<close>

declare map_of_eq_Some_iff [simp del] split_paired_All [simp del] split_paired_Ex [simp del]

section \<open>Segments that wait to be unmounted\<close>

definition waiting :: "SegmentManager \<Rightarrow> pending_unmount \<Rightarrow> bool" where
  "waiting sm = (\<lambda>(sid, c, cap). \<exists>ms. map_of (mounted_segments sm) sid = Some ms \<and> ms_status ms = UNMOUNTING \<and> seg_size (ms_segment ms) = cap)"

definition pending_ok :: "SegmentManager \<Rightarrow> pending_unmount list \<Rightarrow> bool" where
  "pending_ok sm ps \<longleftrightarrow> distinct (map fst ps) \<and> list_all (waiting sm) ps"

lemma pending_ok_simps [simp]:
  "pending_ok sm []" "pending_ok sm ((sid, c, cap) # ps) \<longleftrightarrow> sid \<notin> fst ` set ps \<and> waiting sm (sid, c, cap) \<and> pending_ok sm ps"
  by (auto simp: pending_ok_def)

lemma ms_ok_segments:
  assumes "ms_ok p s X B" "store_ok sm w (all_metadata s + X) B" "memory_allocator_kind sm = memory_allocator_kind (segment_manager s)"
    "active_clients (snd w) = active_clients (snd (shared s))"
  shows "ms_ok p (s\<lparr>segment_manager := sm, shared := w\<rparr>) X B"
  using assms by (simp add: ms_ok_def)

lemma ms_okD:
  assumes "ms_ok p s X B"
  shows "store_ok (segment_manager s) (shared s) (all_metadata s + X) B" "seg_inv (segment_manager s) (shared s)" "shards_ok p s"
  using assms by (simp_all add: ms_ok_def store_ok_def)

lemma MountSegment_frame:
  assumes "MountSegment segment c sm w = (sm', w', e)"
  shows "memory_allocator_kind sm' = memory_allocator_kind sm" "active_clients (snd w') = active_clients (snd w)"
    "waiting sm x \<Longrightarrow> waiting sm' x" "counters (snd w') = counters (snd w)"
  using assms by (cases rule: MountSegment_cases; force simp: inc_total_mem_capacity_def waiting_def)+

lemma ReMountSegment_frame:
  assumes "ReMountSegment segments c sm w = (sm', w', e)"
  shows "memory_allocator_kind sm' = memory_allocator_kind sm \<and> active_clients (snd w') = active_clients (snd w)
    \<and> (waiting sm x \<longrightarrow> waiting sm' x)"
  using assms
proof (induction segments arbitrary: sm w)
  case (Cons s segments)
  obtain sm1 w1 e1 where m: "MountSegment s c sm w = (sm1, w1, e1)" by (cases "MountSegment s c sm w")
  show ?case using Cons.IH [of sm1 w1] Cons.prems m MountSegment_frame [OF m] by (auto split: if_splits)
qed simp

lemma push_ping_Some: "push_ping p c s = Some s' \<Longrightarrow> \<exists>q. s' = s\<lparr>client_ping_queue := q\<rparr>"
  by (auto simp: push_ping_def split: if_splits)

lemma ms_ok_queue: "ms_ok p (s\<lparr>client_ping_queue := q\<rparr>) X B = ms_ok p s X B"
  by (simp add: ms_ok_def)

lemma MasterService_MountSegment_ok:
  assumes ok: "ms_ok p s X B" "pending_ok (segment_manager s) ps" and v: "seg_valid segment"
    and m: "MasterService_MountSegment p segment c s = (s', r)"
  shows "ms_ok p s' X B" "pending_ok (segment_manager s') ps"
proof -
  have "ms_ok p s' X B \<and> pending_ok (segment_manager s') ps"
  proof (cases "push_ping p c s")
    case None
    then show ?thesis using ok m by (simp add: MasterService_MountSegment_def)
  next
    case (Some s1)
    obtain q where s1: "s1 = s\<lparr>client_ping_queue := q\<rparr>" using push_ping_Some [OF Some] by blast
    obtain sm w e where mm: "MountSegment segment c (segment_manager s1) (shared s1) = (sm, w, e)" by (cases "MountSegment segment c (segment_manager s1) (shared s1)")
    have ok1: "ms_ok p s1 X B" using ok by (simp add: s1 ms_ok_queue)
    note f = MountSegment_frame [OF mm]
    have "ms_ok p (s1\<lparr>segment_manager := sm, shared := w\<rparr>) X B"
      by (rule ms_ok_segments [OF ok1 MountSegment_ok [OF ms_okD(1) [OF ok1] v mm] f(1,2)])
    moreover have "pending_ok sm ps" using ok(2) f(3) by (auto simp: pending_ok_def s1 list_all_iff)
    moreover have "s' = s1\<lparr>segment_manager := sm, shared := w\<rparr>"
      using m Some mm by (auto simp: MasterService_MountSegment_def Let_def split: if_splits)
    ultimately show ?thesis by simp
  qed
  then show "ms_ok p s' X B" "pending_ok (segment_manager s') ps" by auto
qed

lemma MasterService_ReMountSegment_ok:
  assumes ok: "ms_ok p s X B" "pending_ok (segment_manager s) ps" and v: "\<forall>x \<in> set segments. seg_valid x"
    and m: "MasterService_ReMountSegment p segments c s = (s', r)"
  shows "ms_ok p s' X B" "pending_ok (segment_manager s') ps"
proof -
  have "ms_ok p s' X B \<and> pending_ok (segment_manager s') ps"
  proof (cases "c \<in> ok_client s \<or> push_ping p c s = None")
    case True
    then show ?thesis using ok m by (auto simp: MasterService_ReMountSegment_def split: if_splits)
  next
    case False
    then obtain s1 where Some: "push_ping p c s = Some s1" by blast
    obtain q where s1: "s1 = s\<lparr>client_ping_queue := q\<rparr>" using push_ping_Some [OF Some] by blast
    obtain sm w e where mm: "ReMountSegment segments c (segment_manager s1) (shared s1) = (sm, w, e)"
      by (cases "ReMountSegment segments c (segment_manager s1) (shared s1)")
    have ok1: "ms_ok p s1 X B" using ok by (simp add: s1 ms_ok_queue)
    note f = ReMountSegment_frame [OF mm]
    let ?t = "s1\<lparr>segment_manager := sm, shared := w\<rparr>"
    have t: "ms_ok p ?t X B"
      by (rule ms_ok_segments [OF ok1 ReMountSegment_ok [OF ms_okD(1) [OF ok1] _ mm]]) (use v f in auto)
    have pend: "pending_ok sm ps" using ok(2) f by (auto simp: pending_ok_def s1 list_all_iff)
    have s': "s' = (if e \<noteq> OK then ?t else ?t\<lparr>ok_client := insert c (ok_client s1), shared := (fst w, inc_active_clients 1 (snd w))\<rparr>)"
      using m False Some mm by (auto simp: MasterService_ReMountSegment_def Let_def split: if_splits)
    have "ms_ok p (?t\<lparr>ok_client := insert c (ok_client s1), shared := (fst w, inc_active_clients 1 (snd w))\<rparr>) X B"
      using t False by (simp add: ms_ok_def store_ok_def world_ok_def gauges_ok_def seg_inv_def inc_active_clients_def s1)
    then show ?thesis using s' t pend by simp
  qed
  then show "ms_ok p s' X B" "pending_ok (segment_manager s') ps" by auto
qed

section \<open>Unmounting\<close>

abbreviation with_segments :: "MasterService \<Rightarrow> SegmentManager \<Rightarrow> world \<Rightarrow> MasterService" where
  "with_segments s sm w \<equiv> s\<lparr>segment_manager := sm, shared := w\<rparr>"

lemma Prepare_ok:
  assumes ok: "ms_ok p s X B" and pend: "pending_ok (segment_manager s) ps"
    and m: "PrepareUnmountSegment sid (segment_manager s) (shared s) = (sm, w, e, cap)"
  shows "ms_ok p (with_segments s sm w) X B" "pending_ok sm ps" "e = OK \<Longrightarrow> pending_ok sm ((sid, c, cap) # ps)"
    "e \<noteq> OK \<Longrightarrow> sm = segment_manager s \<and> w = shared s" "e \<in> {OK, SEGMENT_NOT_FOUND, UNAVAILABLE_IN_CURRENT_STATUS}"
proof -
  have inv: "seg_inv (segment_manager s) (shared s)" by (rule ms_okD(2) [OF ok])
  have "memory_allocator_kind sm = memory_allocator_kind (segment_manager s) \<and> active_clients (snd w) = active_clients (snd (shared s))
    \<and> pending_ok sm ps \<and> (e = OK \<longrightarrow> sid \<notin> fst ` set ps \<and> waiting sm (sid, c, cap)) \<and> (e \<noteq> OK \<longrightarrow> sm = segment_manager s \<and> w = shared s)
    \<and> e \<in> {OK, SEGMENT_NOT_FOUND, UNAVAILABLE_IN_CURRENT_STATUS}"
    using m inv
  proof (cases rule: PrepareUnmountSegment_cases)
    case failed
    then show ?thesis using pend by auto
  next
    case (prepared mounted i b)
    have "ms_status mounted = Segment_OK" using seg_invD(2) [OF inv prepared(1)] prepared(2) by (simp add: mounted_ok_def)
    then have new: "sid \<noteq> fst x" if "x \<in> set ps" for x
      using pend that prepared(1) by (auto simp: pending_ok_def list_all_iff waiting_def)
    then have "waiting sm x" if "x \<in> set ps" for x
      using pend that by (force simp: pending_ok_def list_all_iff waiting_def prepared(8))
    then have "pending_ok sm ps" using pend by (simp add: pending_ok_def list_all_iff)
    moreover have "sid \<notin> fst ` set ps" using new by blast
    moreover have "waiting sm (sid, c, cap)" using prepared by (simp add: waiting_def)
    ultimately show ?thesis using prepared by simp
  qed
  then show "ms_ok p (with_segments s sm w) X B" "pending_ok sm ps" "e = OK \<Longrightarrow> pending_ok sm ((sid, c, cap) # ps)"
    "e \<noteq> OK \<Longrightarrow> sm = segment_manager s \<and> w = shared s" "e \<in> {OK, SEGMENT_NOT_FOUND, UNAVAILABLE_IN_CURRENT_STATUS}"
    using ms_ok_segments [OF ok PrepareUnmountSegment_ok [OF ms_okD(1) [OF ok] m]] by auto
qed

lemma Commit_ok:
  assumes ok: "ms_ok p s X B" and pend: "pending_ok (segment_manager s) ((sid, c, cap) # ps)"
    and m: "CommitUnmountSegment sid c cap (segment_manager s) (shared s) = (sm, w, e)"
  shows "ms_ok p (with_segments s sm w) X B" "pending_ok sm ps" "e = OK" "map_of (mounted_segments sm) sid = None"
    "fst w = fst (shared s)"
proof -
  obtain ms where ms: "map_of (mounted_segments (segment_manager s)) sid = Some ms" "ms_status ms = UNMOUNTING" "seg_size (ms_segment ms) = cap"
    using pend by (auto simp: waiting_def)
  have none: "ms_allocator ms = None" using ms seg_invD(2) [OF ms_okD(2) [OF ok] ms(1)] by (simp add: mounted_ok_def)
  have sm: "sm = (segment_manager s)\<lparr>client_segments := map_erase_one c sid (client_segments (segment_manager s)),
                  mounted_segments := AList.delete sid (mounted_segments (segment_manager s))\<rparr>"
    and w: "w = (fst (shared s), dec_total_mem_capacity cap (snd (shared s)))" and e: "e = OK"
    using m none ms(1) by (auto simp: CommitUnmountSegment_def Let_def release_pointer_def)
  show "e = OK" "map_of (mounted_segments sm) sid = None" "fst w = fst (shared s)" by (simp_all add: e sm w)
  show "ms_ok p (with_segments s sm w) X B"
    by (rule ms_ok_segments [OF ok CommitUnmountSegment_ok [OF ms_okD(1) [OF ok] ms(1,2) m [folded ms(3)]]])
      (simp_all add: sm w dec_total_mem_capacity_def)
  have "waiting sm x" if "x \<in> set ps" for x
  proof -
    have "fst x \<noteq> sid" "waiting (segment_manager s) x" using pend that by (force simp: pending_ok_def list_all_iff)+
    then show ?thesis by (cases x) (auto simp: waiting_def sm)
  qed
  then show "pending_ok sm ps" using pend by (simp add: pending_ok_def list_all_iff)
qed

text \<open>
  A successful request removes the segment, and from every entry exactly the replicas that
  have lost their memory; an entry that has none left goes away.
\<close>

definition unmounted :: "Platform \<Rightarrow> UUID \<Rightarrow> MasterService \<Rightarrow> MasterService \<Rightarrow> bool" where
  "unmounted p sid s s' \<longleftrightarrow> (\<exists>ms i. map_of (mounted_segments (segment_manager s)) sid = Some ms \<and> ms_allocator ms = Some i
     \<and> same_allocators ((fst (shared s))(i := None)) (fst (shared s'))
     \<and> (\<forall>k. find_metadata p k s' = visible ((fst (shared s))(i := None)) (find_metadata p k s)))"

lemma UnmountSegment_ok:
  assumes ok: "ms_ok p s X B" and pend: "pending_ok (segment_manager s) ps" and u: "UnmountSegment sid c s = (s', r)"
  shows "ms_ok p s' X B" "pending_ok (segment_manager s') ps"
    "r = Inl UNAVAILABLE_IN_CURRENT_STATUS \<and> s' = s
     \<or> r = Inr () \<and> map_of (mounted_segments (segment_manager s')) sid = None
       \<and> (if map_of (mounted_segments (segment_manager s)) sid = None then s' = s else unmounted p sid s s')"
proof -
  obtain sm w e cap where m: "PrepareUnmountSegment sid (segment_manager s) (shared s) = (sm, w, e, cap)"
    by (cases "PrepareUnmountSegment sid (segment_manager s) (shared s)")
  note pr = Prepare_ok [OF ok pend m]
  have "ms_ok p s' X B \<and> pending_ok (segment_manager s') ps \<and> (r = Inl UNAVAILABLE_IN_CURRENT_STATUS \<and> s' = s
     \<or> r = Inr () \<and> map_of (mounted_segments (segment_manager s')) sid = None
       \<and> (if map_of (mounted_segments (segment_manager s)) sid = None then s' = s else unmounted p sid s s'))"
    using m ms_okD(2) [OF ok]
  proof (cases rule: PrepareUnmountSegment_cases)
    case failed
    then have "s' = s" "r = (if e = SEGMENT_NOT_FOUND then Inr () else Inl e)" using u m by (auto simp: UnmountSegment_def split: if_splits)
    moreover have "map_of (mounted_segments (segment_manager s)) sid = None" if "e = SEGMENT_NOT_FOUND"
      using m that by (auto simp: PrepareUnmountSegment_def Let_def split: option.splits if_splits)
    ultimately show ?thesis using ok pend failed(3) by auto
  next
    case (prepared mounted i b)
    let ?t = "with_segments s sm w"
    note cl = ClearInvalidHandles_ok [OF pr(1)]
    let ?t1 = "ClearInvalidHandles ?t"
    obtain sm2 w2 e2 where c2: "CommitUnmountSegment sid c cap (segment_manager ?t1) (shared ?t1) = (sm2, w2, e2)"
      by (cases "CommitUnmountSegment sid c cap (segment_manager ?t1) (shared ?t1)")
    have sm1: "segment_manager ?t1 = sm" using cl(2) by (simp add: only_metadata_def)
    note co = Commit_ok [OF cl(1) _ c2, unfolded sm1, OF pr(3) [OF prepared(5)]]
    have s': "s' = with_segments ?t1 sm2 w2" "r = Inr ()" using u m prepared(5) c2 co(3) by (simp_all add: UnmountSegment_def Let_def)
    have "same_allocators (fst w) (fst (shared ?t1))" using cl(2) by (simp add: only_metadata_def world_frame_def)
    then have "unmounted p sid s s'" unfolding unmounted_def using prepared co(5) cl(4)
      by (intro exI [of _ mounted] exI [of _ i]) (simp add: s' objects_def)
    then show ?thesis using co prepared(1) by (simp add: s')
  qed
  then show "ms_ok p s' X B" "pending_ok (segment_manager s') ps"
    "r = Inl UNAVAILABLE_IN_CURRENT_STATUS \<and> s' = s
     \<or> r = Inr () \<and> map_of (mounted_segments (segment_manager s')) sid = None
       \<and> (if map_of (mounted_segments (segment_manager s)) sid = None then s' = s else unmounted p sid s s')" by auto
qed

section \<open>The client monitor\<close>

lemma pending_ok_perm:
  assumes "mset ps = mset qs" shows "pending_ok sm ps = pending_ok sm qs"
proof -
  have "mset (map fst ps) = mset (map fst qs)" using assms by simp
  from mset_eq_imp_distinct_iff [OF this] mset_eq_setD [OF assms] show ?thesis by (simp only: pending_ok_def list_all_iff)
qed

lemma prepare_segments_ok:
  assumes "ms_ok p s X B" "pending_ok (segment_manager s) qs" "prepare_segments c segs s = (s', ps)"
  shows "ms_ok p s' X B \<and> pending_ok (segment_manager s') (ps @ qs) \<and> metadata_shards s' = metadata_shards s \<and> ok_client s' = ok_client s"
  using assms
proof (induction segs arbitrary: s qs ps)
  case (Cons seg segs)
  obtain sm w e cap where m: "PrepareUnmountSegment (seg_id seg) (segment_manager s) (shared s) = (sm, w, e, cap)"
    by (cases "PrepareUnmountSegment (seg_id seg) (segment_manager s) (shared s)")
  note pr = Prepare_ok [OF Cons.prems(1,2) m]
  obtain rest where r: "prepare_segments c segs (with_segments s sm w) = (s', rest)" "ps = (if e = OK then (seg_id seg, c, cap) # rest else rest)"
    using Cons.prems(3) m by (auto simp: Let_def split: prod.splits)
  show ?case
  proof (cases "e = OK")
    case True
    have "pending_ok (segment_manager (with_segments s sm w)) ((seg_id seg, c, cap) # qs)" using pr(3) [OF True, of c] by simp
    from Cons.IH [OF pr(1) this r(1)]
    have ih: "ms_ok p s' X B" "pending_ok (segment_manager s') (rest @ (seg_id seg, c, cap) # qs)" "metadata_shards s' = metadata_shards s" "ok_client s' = ok_client s"
      by auto
    have "pending_ok (segment_manager s') (ps @ qs) = pending_ok (segment_manager s') (rest @ (seg_id seg, c, cap) # qs)"
      by (rule pending_ok_perm) (simp add: r True)
    then show ?thesis using ih by simp
  next
    case False
    then show ?thesis using Cons.IH [OF pr(1) _ r(1), of qs] pr(2) r(2) by simp
  qed
qed simp

lemma prepare_clients_ok:
  assumes "ms_ok p s X B" "pending_ok (segment_manager s) qs" "prepare_clients cs s = (s', ps)"
  shows "ms_ok p s' X B \<and> pending_ok (segment_manager s') (ps @ qs) \<and> metadata_shards s' = metadata_shards s \<and> ok_client s' = ok_client s"
  using assms
proof (induction cs arbitrary: s qs ps)
  case (Cons c cs)
  define segs where "segs = (case GetClientSegments c (segment_manager s) of Inl _ \<Rightarrow> [] | Inr segs \<Rightarrow> segs)"
  obtain s1 ps1 where p1: "prepare_segments c segs s = (s1, ps1)" by (cases "prepare_segments c segs s")
  obtain ps2 where p2: "prepare_clients cs s1 = (s', ps2)" "ps = ps1 @ ps2"
    using Cons.prems(3) p1 by (auto simp: Let_def segs_def split: prod.splits)
  note a = prepare_segments_ok [OF Cons.prems(1,2) p1]
  have b: "ms_ok p s' X B \<and> pending_ok (segment_manager s') (ps2 @ ps1 @ qs) \<and> metadata_shards s' = metadata_shards s1 \<and> ok_client s' = ok_client s1"
    by (rule Cons.IH [OF _ _ p2(1)]) (use a in auto)
  have "pending_ok (segment_manager s') (ps @ qs) = pending_ok (segment_manager s') (ps2 @ ps1 @ qs)"
    by (rule pending_ok_perm) (simp add: p2 ac_simps)
  then show ?case using a b by simp
qed simp

lemma commit_segments_ok:
  assumes "ms_ok p s X B" "pending_ok (segment_manager s) (ps @ qs)"
  shows "ms_ok p (commit_segments ps s) X B \<and> pending_ok (segment_manager (commit_segments ps s)) qs
    \<and> metadata_shards (commit_segments ps s) = metadata_shards s \<and> ok_client (commit_segments ps s) = ok_client s
    \<and> fst (shared (commit_segments ps s)) = fst (shared s)"
  using assms
proof (induction ps arbitrary: s)
  case (Cons x ps)
  obtain sid c cap where x: "x = (sid, c, cap)" by (cases x)
  obtain sm w e where m: "CommitUnmountSegment sid c cap (segment_manager s) (shared s) = (sm, w, e)"
    by (cases "CommitUnmountSegment sid c cap (segment_manager s) (shared s)")
  note co = Commit_ok [OF Cons.prems(1) _ m, of "ps @ qs"]
  have co: "ms_ok p (with_segments s sm w) X B" "pending_ok sm (ps @ qs)" "fst w = fst (shared s)"
    by (rule co; use Cons.prems(2) x in simp)+
  show ?case using Cons.IH [OF co(1)] co m by (simp add: x)
qed simp

lemma disconnect_clients_ok:
  "ms_ok p s X B \<Longrightarrow> ms_ok p (disconnect_clients cs s) X B \<and> segment_manager (disconnect_clients cs s) = segment_manager s
     \<and> metadata_shards (disconnect_clients cs s) = metadata_shards s \<and> ok_client (disconnect_clients cs s) = ok_client s - set cs
     \<and> fst (shared (disconnect_clients cs s)) = fst (shared s)"
proof (induction cs arbitrary: s)
  case (Cons c cs)
  let ?s = "s\<lparr>ok_client := ok_client s - {c}, shared := (fst (shared s), dec_active_clients 1 (snd (shared s)))\<rparr>"
  have "ms_ok p ?s X B" if "c \<in> ok_client s"
  proof -
    have "finite (ok_client s)" using Cons.prems by (simp add: ms_ok_def)
    then have "card (ok_client s) = Suc (card (ok_client s - {c}))" using that by (rule card.remove)
    then show ?thesis using Cons.prems
      by (simp add: ms_ok_def store_ok_def world_ok_def gauges_ok_def seg_inv_def dec_active_clients_def)
  qed
  then show ?case using Cons by auto
qed simp

text \<open>
  Which segments a round of the monitor unmounts: those of the expired clients that no other
  request is unmounting.
\<close>

abbreviation mounts :: "MasterService \<Rightarrow> UUID \<rightharpoonup> MountedSegment" where
  "mounts s \<equiv> map_of (mounted_segments (segment_manager s))"

definition retire :: "UUID set \<Rightarrow> (UUID \<rightharpoonup> MountedSegment) \<Rightarrow> UUID \<rightharpoonup> MountedSegment" where
  "retire S m = (\<lambda>sid. if sid \<in> S then map_option (\<lambda>ms. ms\<lparr>ms_allocator := None, ms_status := UNMOUNTING\<rparr>) (m sid) else m sid)"

definition in_service :: "(UUID \<rightharpoonup> MountedSegment) \<Rightarrow> UUID set" where
  "in_service m = {sid. \<exists>ms. m sid = Some ms \<and> ms_status ms = Segment_OK}"

lemma retire_retire [simp]: "retire S (retire T m) = retire (T \<union> S) m"
  by (auto simp: retire_def fun_eq_iff option.map_comp comp_def)

lemma in_service_retire [simp]: "in_service (retire S m) = in_service m - S"
  by (auto simp: in_service_def retire_def split: if_splits)

lemma retire_empty [simp]: "retire {} m = m"
  by (simp add: retire_def)

lemma Prepare_mounts:
  assumes inv: "seg_inv sm w" and m: "PrepareUnmountSegment sid sm w = (sm', w', e, cap)"
  shows "map_of (mounted_segments sm') = retire {sid} (map_of (mounted_segments sm))" "client_segments sm' = client_segments sm"
    "e = OK \<longleftrightarrow> sid \<in> in_service (map_of (mounted_segments sm))"
proof -
  have "map_of (mounted_segments sm') = retire {sid} (map_of (mounted_segments sm)) \<and> client_segments sm' = client_segments sm
    \<and> (e = OK \<longleftrightarrow> sid \<in> in_service (map_of (mounted_segments sm)))"
    using m inv
  proof (cases rule: PrepareUnmountSegment_cases)
    case failed
    consider "map_of (mounted_segments sm) sid = None" | ms where "map_of (mounted_segments sm) sid = Some ms" "ms_status ms = UNMOUNTING"
      using m failed(3) by (auto simp: PrepareUnmountSegment_def Let_def split: option.splits if_splits)
    then show ?thesis
    proof cases
      case 2
      then have "ms\<lparr>ms_allocator := None, ms_status := UNMOUNTING\<rparr> = ms" using seg_invD(2) [OF inv 2(1)] by (cases ms) (simp add: mounted_ok_def)
      then show ?thesis using 2 failed by (auto simp: retire_def fun_eq_iff in_service_def)
    qed (use failed in \<open>auto simp: retire_def fun_eq_iff in_service_def\<close>)
  next
    case (prepared mounted i b)
    have "ms_status mounted = Segment_OK" using seg_invD(2) [OF inv prepared(1)] prepared(2) by (simp add: mounted_ok_def)
    then show ?thesis using prepared by (auto simp: retire_def fun_eq_iff in_service_def)
  qed
  then show "map_of (mounted_segments sm') = retire {sid} (map_of (mounted_segments sm))" "client_segments sm' = client_segments sm"
    "e = OK \<longleftrightarrow> sid \<in> in_service (map_of (mounted_segments sm))" by auto
qed

lemma prepare_segments_mounts:
  assumes "ms_ok p s X B" "prepare_segments c segs s = (s', ps)"
  shows "mounts s' = retire (seg_id ` set segs) (mounts s) \<and> client_segments (segment_manager s') = client_segments (segment_manager s)
    \<and> fst ` set ps = seg_id ` set segs \<inter> in_service (mounts s)"
  using assms
proof (induction segs arbitrary: s ps)
  case (Cons seg segs)
  obtain sm w e cap where m: "PrepareUnmountSegment (seg_id seg) (segment_manager s) (shared s) = (sm, w, e, cap)"
    by (cases "PrepareUnmountSegment (seg_id seg) (segment_manager s) (shared s)")
  note pm = Prepare_mounts [OF ms_okD(2) [OF Cons.prems(1)] m]
  have ok1: "ms_ok p (with_segments s sm w) X B" by (rule Prepare_ok(1) [OF Cons.prems(1) _ m, of "[]"]) simp
  obtain rest where r: "prepare_segments c segs (with_segments s sm w) = (s', rest)" "ps = (if e = OK then (seg_id seg, c, cap) # rest else rest)"
    using Cons.prems(2) m by (auto simp: Let_def split: prod.splits)
  have "fst ` set ps = (if e = OK then {seg_id seg} else {}) \<union> fst ` set rest" by (simp add: r(2))
  moreover have ih: "mounts s' = retire (seg_id ` set segs) (retire {seg_id seg} (mounts s))"
    "client_segments (segment_manager s') = client_segments (segment_manager s)"
    "fst ` set rest = seg_id ` set segs \<inter> (in_service (mounts s) - {seg_id seg})"
    using Cons.IH [OF ok1 r(1)] pm(1,2) by simp_all
  ultimately have "fst ` set ps = insert (seg_id seg) (seg_id ` set segs) \<inter> in_service (mounts s)"
    using pm(3) by (cases "e = OK") (simp_all, blast+)
  then show ?case using ih(1,2) by simp
qed simp

definition segments_of :: "SegmentManager \<Rightarrow> UUID set \<Rightarrow> UUID set" where
  "segments_of sm cs = (\<Union>c \<in> cs. set (lookup_list (client_segments sm) c))"

lemma GetClientSegments_ids:
  assumes "seg_inv sm w"
  shows "seg_id ` set (case GetClientSegments c sm of Inl _ \<Rightarrow> [] | Inr segs \<Rightarrow> segs)
    = set (lookup_list (client_segments sm) c) \<inter> dom (map_of (mounted_segments sm))"
proof -
  have id: "seg_id (ms_segment ms) = sid" if "map_of (mounted_segments sm) sid = Some ms" for sid ms
    using seg_invD(2) [OF assms that] by (simp add: mounted_ok_def)
  have "seg_id ` set (List.map_filter (\<lambda>i. map_option ms_segment (map_of (mounted_segments sm) i)) ids) = set ids \<inter> dom (map_of (mounted_segments sm))" for ids
  proof (induction ids)
    case (Cons i ids)
    then show ?case using id [of i] by (cases "map_of (mounted_segments sm) i") (auto simp: map_filter_simps)
  qed (simp add: map_filter_simps)
  then show ?thesis by (simp add: GetClientSegments_def lookup_list_def split: option.splits)
qed

lemma retire_dom [simp]: "retire (S \<inter> dom m) m = retire S m"
  by (auto simp: retire_def fun_eq_iff split: if_splits)

lemma prepare_clients_mounts:
  assumes "ms_ok p s X B" "prepare_clients cs s = (s', ps)"
  shows "mounts s' = retire (segments_of (segment_manager s) (set cs)) (mounts s)
    \<and> client_segments (segment_manager s') = client_segments (segment_manager s)
    \<and> fst ` set ps = segments_of (segment_manager s) (set cs) \<inter> in_service (mounts s)"
  using assms
proof (induction cs arbitrary: s ps)
  case Nil
  then show ?case by (simp add: segments_of_def)
next
  case (Cons c cs)
  define segs where "segs = (case GetClientSegments c (segment_manager s) of Inl _ \<Rightarrow> [] | Inr segs \<Rightarrow> segs)"
  obtain s1 ps1 where p1: "prepare_segments c segs s = (s1, ps1)" by (cases "prepare_segments c segs s")
  obtain ps2 where p2: "prepare_clients cs s1 = (s', ps2)" "ps = ps1 @ ps2"
    using Cons.prems(2) p1 by (auto simp: Let_def segs_def split: prod.splits)
  let ?S = "set (lookup_list (client_segments (segment_manager s)) c)"
  have ids: "seg_id ` set segs = ?S \<inter> dom (mounts s)" unfolding segs_def by (rule GetClientSegments_ids [OF ms_okD(2) [OF Cons.prems(1)]])
  note a = prepare_segments_mounts [OF Cons.prems(1) p1, unfolded ids]
  have "ms_ok p s1 X B" using prepare_segments_ok [OF Cons.prems(1) _ p1, of "[]"] by simp
  note b = Cons.IH [OF this p2(1)]
  have sub: "in_service (mounts s) \<subseteq> dom (mounts s)" unfolding in_service_def by blast
  have eq: "segments_of (segment_manager s1) (set cs) = segments_of (segment_manager s) (set cs)"
    "segments_of (segment_manager s) (set (c # cs)) = ?S \<union> segments_of (segment_manager s) (set cs)"
    using a by (simp_all add: segments_of_def)
  have "fst ` set ps = fst ` set ps1 \<union> fst ` set ps2" by (simp add: p2(2) image_Un)
  also have "\<dots> = (?S \<union> segments_of (segment_manager s) (set cs)) \<inter> in_service (mounts s)" using a b sub unfolding eq by auto
  finally show ?case using a b unfolding eq by simp
qed

lemma commit_segments_mounts:
  "mounts (commit_segments ps s) = (\<lambda>sid. if sid \<in> fst ` set ps then None else mounts s sid)"
proof (induction ps arbitrary: s)
  case (Cons x ps)
  obtain sid c cap where x: "x = (sid, c, cap)" by (cases x)
  obtain sm w e where m: "CommitUnmountSegment sid c cap (segment_manager s) (shared s) = (sm, w, e)"
    by (cases "CommitUnmountSegment sid c cap (segment_manager s) (shared s)")
  have "map_of (mounted_segments sm) = (mounts s)(sid := None)" using m by (auto simp: CommitUnmountSegment_def Let_def)
  then show ?case using Cons.IH [of "with_segments s sm w"] m by (auto simp: x fun_eq_iff)
qed simp

lemma retire_idle:
  assumes "seg_inv sm w" "sid \<notin> in_service (map_of (mounted_segments sm))"
  shows "retire S (map_of (mounted_segments sm)) sid = map_of (mounted_segments sm) sid"
proof (cases "map_of (mounted_segments sm) sid")
  case (Some ms)
  have "ms_allocator ms = None" "ms_status ms = UNMOUNTING"
    using seg_invD(2) [OF assms(1) Some] assms(2) Some by (auto simp: mounted_ok_def in_service_def)
  then have "ms\<lparr>ms_allocator := None, ms_status := UNMOUNTING\<rparr> = ms" by (cases ms) simp
  then show ?thesis using Some by (simp add: retire_def)
qed (simp add: retire_def)

lemma visible_idem: "visible H (visible H x) = visible H x"
  by (simp add: visible_def split: option.splits)

lemma ClientMonitor_iteration_ok:
  assumes ok: "ms_ok p s X B" and pend: "pending_ok (segment_manager s) qs" and i: "ClientMonitor_iteration now ttl s = (ttl', s')"
    and e: "expired_clients now (fst (drain_pings now ttl s)) = (expired, rest)"
  shows "ms_ok p s' X B" "pending_ok (segment_manager s') qs" "ttl' = rest" "ok_client s' = ok_client s - set expired"
    "mounts s' = (\<lambda>sid. if sid \<in> segments_of (segment_manager s) (set expired) \<inter> in_service (mounts s) then None else mounts s sid)"
    "objects p s' k = visible (fst (shared s')) (find_metadata p k s)"
proof -
  let ?S = "segments_of (segment_manager s) (set expired)"
  define s1 where "s1 = s\<lparr>client_ping_queue := []\<rparr>"
  have ok1: "ms_ok p s1 X B" using ok by (simp add: s1_def ms_ok_queue)
  obtain ttl1 where dr: "drain_pings now ttl s = (ttl1, s1)" by (simp add: drain_pings_def s1_def)
  have e': "expired_clients now ttl1 = (expired, rest)" using e dr by simp
  have "ms_ok p s' X B \<and> pending_ok (segment_manager s') qs \<and> ttl' = rest \<and> ok_client s' = ok_client s - set expired
    \<and> mounts s' = (\<lambda>sid. if sid \<in> ?S \<inter> in_service (mounts s) then None else mounts s sid)
    \<and> objects p s' k = visible (fst (shared s')) (find_metadata p k s)"
  proof (cases "expired = []")
    case True
    then have "s' = s1" "ttl' = rest" using i e' by (simp_all add: ClientMonitor_iteration_def dr Let_def split: prod.splits)
    then show ?thesis using ok1 pend True by (simp add: s1_def segments_of_def objects_def)
  next
    case False
    let ?s2 = "disconnect_clients expired s1"
    note dc = disconnect_clients_ok [OF ok1, of expired]
    obtain s3 ps where p3: "prepare_clients expired ?s2 = (s3, ps)" by (cases "prepare_clients expired ?s2")
    have s': "s' = (if ps = [] then s3 else commit_segments ps (ClearInvalidHandles s3))" "ttl' = rest"
      using i e' False p3 by (simp_all add: ClientMonitor_iteration_def dr Let_def split: prod.splits)
    have sm2: "segment_manager ?s2 = segment_manager s" using dc by (simp add: s1_def)
    have "pending_ok (segment_manager ?s2) qs" using pend by (simp add: sm2)
    note pc = prepare_clients_ok [OF conjunct1 [OF dc] this p3]
    have m3': "mounts s3 = retire ?S (mounts s)" and fps: "fst ` set ps = ?S \<inter> in_service (mounts s)"
      using prepare_clients_mounts [OF conjunct1 [OF dc] p3, unfolded sm2] by simp_all
    have find: "find_metadata p k s3 = find_metadata p k s" using pc dc by (simp add: find_metadata_def s1_def)
    have idle: "retire ?S (mounts s) sid = mounts s sid" if "sid \<notin> in_service (mounts s)" for sid
      by (rule retire_idle [OF ms_okD(2) [OF ok] that])
    have m3: "mounts s3 sid = mounts s sid" if "sid \<notin> ?S \<inter> in_service (mounts s)" for sid
    proof (cases "sid \<in> in_service (mounts s)")
      case True
      then show ?thesis using that by (simp add: m3' retire_def)
    qed (simp add: m3' idle)
    have okc: "ok_client s3 = ok_client s - set expired" using pc dc by (simp add: s1_def)
    show ?thesis
    proof (cases "ps = []")
      case True
      then have none: "?S \<inter> in_service (mounts s) = {}" using fps by simp
      have "mounts s' = mounts s" by (rule ext) (simp add: s'(1) True m3 none)
      then show ?thesis using pc True okc s' find none by (simp add: objects_def)
    next
      case False
      let ?s4 = "ClearInvalidHandles s3"
      note cl = ClearInvalidHandles_ok [OF conjunct1 [OF pc]]
      have o: "segment_manager ?s4 = segment_manager s3" "ok_client ?s4 = ok_client s3" "same_allocators (fst (shared s3)) (fst (shared ?s4))"
        using cl(2) by (simp_all add: only_metadata_def world_frame_def)
      have "pending_ok (segment_manager ?s4) (ps @ qs)" using pc by (simp add: o)
      note cm = commit_segments_ok [OF cl(1) this]
      have "mounts s' = (\<lambda>sid. if sid \<in> ?S \<inter> in_service (mounts s) then None else mounts s sid)"
        by (rule ext) (simp add: s'(1) False commit_segments_mounts o fps m3)
      moreover have "find_metadata p k s' = find_metadata p k ?s4" using s'(1) False cm by (simp add: find_metadata_def)
      then have "objects p s' k = visible (fst (shared s')) (find_metadata p k s)"
        using s'(1) False cm cl(4) [of k] visible_same [OF o(3)] by (simp add: objects_def find visible_idem)
      ultimately show ?thesis using cm s' False okc o(2) by simp
    qed
  qed
  then show "ms_ok p s' X B" "pending_ok (segment_manager s') qs" "ttl' = rest" "ok_client s' = ok_client s - set expired"
    "mounts s' = (\<lambda>sid. if sid \<in> ?S \<inter> in_service (mounts s) then None else mounts s sid)"
    "objects p s' k = visible (fst (shared s')) (find_metadata p k s)" by auto
qed

end
