(* ===== verification/Rpc.thy ===== *)
theory Rpc
  imports Master
begin

text \<open>
  The RPC layer of the master (\<open>rpc_service.cpp\<close>, \<open>rpc_helper.h\<close>): every request is counted, handed
  to the master service, and counted again when it fails; the batch requests run the handlers one
  key after the other. The state is that of the wrapped service, whose part \<open>shared\<close> holds the
  metrics. The timers and the log lines are not modelled. The HTTP handlers that answer from the
  tables are in the last section; \<open>struct_json::to_json\<close> is an argument.
\<close>

section \<open>Counting\<close>

definition upd_metrics :: "(MasterMetrics \<Rightarrow> MasterMetrics) \<Rightarrow> MasterService \<Rightarrow> MasterService" where
  "upd_metrics f s = s\<lparr>shared := (fst (shared s), f (snd (shared s)))\<rparr>"

definition execute_rpc :: "rpc_op \<Rightarrow> (MasterService \<Rightarrow> MasterService \<times> (ErrorCode + 'a)) \<Rightarrow> MasterService \<Rightarrow> MasterService \<times> (ErrorCode + 'a)" where
  "execute_rpc op rpc_call s =
     (case rpc_call (upd_metrics (inc_requests op) s) of (s, result) \<Rightarrow>
        (if isl result then upd_metrics (inc_failures op) s else s, result))"

text \<open>The end of a batch: all items failed, some failed, or none.\<close>

definition failure_count :: "(ErrorCode + 'a) list \<Rightarrow> nat" where
  "failure_count results = length (filter isl results)"

definition count_batch :: "batch_op \<Rightarrow> nat \<Rightarrow> (ErrorCode + 'a) list \<Rightarrow> MasterService \<Rightarrow> MasterService" where
  "count_batch op total_keys results s =
     (let n = failure_count results
      in if n = total_keys then upd_metrics (inc_batch_failures op (of_nat n)) s
         else if n \<noteq> 0 then upd_metrics (inc_batch_partial_success op (of_nat n)) s
         else s)"

definition execute_batch ::
  "batch_op \<Rightarrow> nat \<Rightarrow> (MasterService \<Rightarrow> MasterService \<times> (ErrorCode + 'a) list) \<Rightarrow> MasterService \<Rightarrow> MasterService \<times> (ErrorCode + 'a) list" where
  "execute_batch op total_keys call s =
     (case call (upd_metrics (inc_batch_requests op (of_nat total_keys)) s) of (s, results) \<Rightarrow>
        (count_batch op total_keys results s, results))"

section \<open>The requests on one key\<close>

definition Wrapped_ExistKey :: "Platform \<Rightarrow> time \<Rightarrow> string \<Rightarrow> MasterService \<Rightarrow> MasterService \<times> (ErrorCode + bool)" where
  "Wrapped_ExistKey p now key = execute_rpc Op_exist_key (ExistKey p now key)"

definition Wrapped_GetReplicaListByRegex ::
  "Platform \<Rightarrow> (string \<Rightarrow> time) \<Rightarrow> string \<Rightarrow> MasterService \<Rightarrow> MasterService \<times> (ErrorCode + (string \<times> ReplicaDescriptor list) list)" where
  "Wrapped_GetReplicaListByRegex p now str = execute_rpc Op_get_replica_list_by_regex (GetReplicaListByRegex p now str)"

definition Wrapped_GetReplicaList ::
  "Platform \<Rightarrow> time \<Rightarrow> string \<Rightarrow> MasterService \<Rightarrow> MasterService \<times> (ErrorCode + ReplicaDescriptor list \<times> u64)" where
  "Wrapped_GetReplicaList p now key = execute_rpc Op_get_replica_list (GetReplicaList p now key)"

definition Wrapped_PutStart ::
  "Platform \<Rightarrow> string \<Rightarrow> u64 list \<Rightarrow> ReplicateConfig \<Rightarrow> MasterService \<Rightarrow> MasterService \<times> (ErrorCode + ReplicaDescriptor list)" where
  "Wrapped_PutStart p key slice_lengths config = execute_rpc Op_put_start (PutStart p key slice_lengths config)"

definition Wrapped_PutEnd :: "Platform \<Rightarrow> time \<Rightarrow> string \<Rightarrow> ReplicaType \<Rightarrow> MasterService \<Rightarrow> MasterService \<times> (ErrorCode + unit)" where
  "Wrapped_PutEnd p now key rtype = execute_rpc Op_put_end (PutEnd p now key rtype)"

definition Wrapped_PutRevoke :: "Platform \<Rightarrow> string \<Rightarrow> ReplicaType \<Rightarrow> MasterService \<Rightarrow> MasterService \<times> (ErrorCode + unit)" where
  "Wrapped_PutRevoke p key rtype = execute_rpc Op_put_revoke (PutRevoke p key rtype)"

definition Wrapped_Remove :: "Platform \<Rightarrow> time \<Rightarrow> string \<Rightarrow> MasterService \<Rightarrow> MasterService \<times> (ErrorCode + unit)" where
  "Wrapped_Remove p now key = execute_rpc Op_remove (Remove p now key)"

section \<open>The batches\<close>

definition Wrapped_BatchExistKey :: "Platform \<Rightarrow> (time \<times> string) list \<Rightarrow> MasterService \<Rightarrow> MasterService \<times> (ErrorCode + bool) list" where
  "Wrapped_BatchExistKey p keys = execute_batch Batch_exist_key (length keys) (BatchExistKey p keys)"

definition Wrapped_BatchGetReplicaList ::
  "Platform \<Rightarrow> (time \<times> string) list \<Rightarrow> MasterService \<Rightarrow> MasterService \<times> (ErrorCode + ReplicaDescriptor list \<times> u64) list" where
  "Wrapped_BatchGetReplicaList p keys =
     execute_batch Batch_get_replica_list (length keys) (batch (\<lambda>(now, key). GetReplicaList p now key) keys)"

text \<open>
  With \<open>prefer_alloc_in_same_node\<close> every object is one slice, and the segment of the first object,
  when it could be put, is the preferred one for the others: the endpoint of the first buffer of
  its last memory replica.
\<close>

definition descriptor_endpoint :: "ReplicaDescriptor \<Rightarrow> string \<Rightarrow> string" where
  "descriptor_endpoint replica preferred =
     (case descriptor_variant replica of
        MemoryDescriptor (handle # _) \<Rightarrow> transport_endpoint handle
      | _ \<Rightarrow> preferred)"

definition prefer_segment :: "ErrorCode + ReplicaDescriptor list \<Rightarrow> ReplicateConfig \<Rightarrow> ReplicateConfig" where
  "prefer_segment result config =
     (case result of
        Inl _ \<Rightarrow> config
      | Inr reps \<Rightarrow>
          let preferred = fold descriptor_endpoint reps []
          in if preferred \<noteq> [] then config\<lparr>preferred_segment := preferred\<rparr> else config)"

fun put_start_same_node ::
  "Platform \<Rightarrow> ReplicateConfig \<Rightarrow> nat \<Rightarrow> (string \<times> u64 list) list \<Rightarrow> MasterService \<Rightarrow> MasterService \<times> (ErrorCode + ReplicaDescriptor list) list" where
  "put_start_same_node p new_config i [] s = (s, [])"
| "put_start_same_node p new_config i ((key, slice_lens) # rest) s =
     (case PutStart p key [sum_list slice_lens] new_config s of (s, result) \<Rightarrow>
        case put_start_same_node p (if i = 0 then prefer_segment result new_config else new_config) (i + 1) rest s of (s, results) \<Rightarrow>
          (s, result # results))"

text \<open>\<open>None\<close> stands for a read behind the end of \<open>slice_lengths\<close>, which C++ leaves undefined.\<close>

definition Wrapped_BatchPutStart ::
  "Platform \<Rightarrow> string list \<Rightarrow> u64 list list \<Rightarrow> ReplicateConfig \<Rightarrow> MasterService \<Rightarrow> (MasterService \<times> (ErrorCode + ReplicaDescriptor list) list) option" where
  "Wrapped_BatchPutStart p keys slice_lengths config s =
     (if length slice_lengths < length keys then None
      else Some (execute_batch Batch_put_start (length keys)
        (if prefer_alloc_in_same_node config then put_start_same_node p config 0 (zip keys slice_lengths)
         else batch (\<lambda>(key, slice_lens). PutStart p key slice_lens config) (zip keys slice_lengths)) s))"

definition Wrapped_BatchPutEnd :: "Platform \<Rightarrow> (time \<times> string) list \<Rightarrow> MasterService \<Rightarrow> MasterService \<times> (ErrorCode + unit) list" where
  "Wrapped_BatchPutEnd p keys = execute_batch Batch_put_end (length keys) (batch (\<lambda>(now, key). PutEnd p now key MEMORY) keys)"

definition Wrapped_BatchPutRevoke :: "Platform \<Rightarrow> string list \<Rightarrow> MasterService \<Rightarrow> MasterService \<times> (ErrorCode + unit) list" where
  "Wrapped_BatchPutRevoke p keys = execute_batch Batch_put_revoke (length keys) (batch (\<lambda>key. PutRevoke p key MEMORY) keys)"

section \<open>The other requests\<close>

definition Wrapped_RemoveByRegex :: "Platform \<Rightarrow> (string \<Rightarrow> time) \<Rightarrow> string \<Rightarrow> MasterService \<Rightarrow> MasterService \<times> (ErrorCode + int)" where
  "Wrapped_RemoveByRegex p now str = execute_rpc Op_remove_by_regex (RemoveByRegex p now str)"

definition Wrapped_RemoveAll :: "time \<Rightarrow> MasterService \<Rightarrow> MasterService \<times> int" where
  "Wrapped_RemoveAll now s = RemoveAll now (upd_metrics (inc_requests Op_remove_all) s)"

definition Wrapped_MountSegment :: "Platform \<Rightarrow> Segment \<Rightarrow> UUID \<Rightarrow> MasterService \<Rightarrow> MasterService \<times> (ErrorCode + unit)" where
  "Wrapped_MountSegment p segment client_id = execute_rpc Op_mount_segment (MasterService_MountSegment p segment client_id)"

definition Wrapped_ReMountSegment :: "Platform \<Rightarrow> Segment list \<Rightarrow> UUID \<Rightarrow> MasterService \<Rightarrow> MasterService \<times> (ErrorCode + unit)" where
  "Wrapped_ReMountSegment p segments client_id = execute_rpc Op_remount_segment (MasterService_ReMountSegment p segments client_id)"

definition Wrapped_UnmountSegment :: "UUID \<Rightarrow> UUID \<Rightarrow> MasterService \<Rightarrow> MasterService \<times> (ErrorCode + unit)" where
  "Wrapped_UnmountSegment segment_id client_id = execute_rpc Op_unmount_segment (UnmountSegment segment_id client_id)"

definition Wrapped_GetFsdir :: "MasterService \<Rightarrow> MasterService \<times> (ErrorCode + string)" where
  "Wrapped_GetFsdir s = (s, GetFsdir s)"

definition Wrapped_Ping :: "Platform \<Rightarrow> UUID \<Rightarrow> MasterService \<Rightarrow> MasterService \<times> (ErrorCode + int \<times> ClientStatus)" where
  "Wrapped_Ping p client_id s = Ping p client_id (upd_metrics (inc_requests Op_ping) s)"

definition ServiceReady :: "MasterService \<Rightarrow> MasterService \<times> (ErrorCode + unit)" where
  "ServiceReady s = (s, Inr ())"

section \<open>The server\<close>

text \<open>The registered requests; the readings of the clock that a handler makes come with them.\<close>

datatype rpc_request =
    Rq_ExistKey time string
  | Rq_GetReplicaListByRegex "string \<Rightarrow> time" string
  | Rq_GetReplicaList time string
  | Rq_BatchGetReplicaList "(time \<times> string) list"
  | Rq_PutStart string "u64 list" ReplicateConfig
  | Rq_PutEnd time string ReplicaType
  | Rq_PutRevoke string ReplicaType
  | Rq_BatchPutStart "string list" "u64 list list" ReplicateConfig
  | Rq_BatchPutEnd "(time \<times> string) list"
  | Rq_BatchPutRevoke "string list"
  | Rq_Remove time string
  | Rq_RemoveByRegex "string \<Rightarrow> time" string
  | Rq_RemoveAll time
  | Rq_MountSegment Segment UUID
  | Rq_ReMountSegment "Segment list" UUID
  | Rq_UnmountSegment UUID UUID
  | Rq_Ping UUID
  | Rq_GetFsdir
  | Rq_BatchExistKey "(time \<times> string) list"
  | Rq_ServiceReady

datatype rpc_response =
    Rs_bool "ErrorCode + bool"
  | Rs_bools "(ErrorCode + bool) list"
  | Rs_unit "ErrorCode + unit"
  | Rs_units "(ErrorCode + unit) list"
  | Rs_matches "ErrorCode + (string \<times> ReplicaDescriptor list) list"
  | Rs_replicas "ErrorCode + ReplicaDescriptor list \<times> u64"
  | Rs_replica_lists "(ErrorCode + ReplicaDescriptor list \<times> u64) list"
  | Rs_started "ErrorCode + ReplicaDescriptor list"
  | Rs_started_all "(ErrorCode + ReplicaDescriptor list) list"
  | Rs_removed "ErrorCode + int"
  | Rs_long int
  | Rs_ping "ErrorCode + int \<times> ClientStatus"
  | Rs_string "ErrorCode + string"

fun rpc_call :: "Platform \<Rightarrow> rpc_request \<Rightarrow> MasterService \<Rightarrow> (MasterService \<times> rpc_response) option" where
  "rpc_call p (Rq_ExistKey now key) s = Some (apsnd Rs_bool (Wrapped_ExistKey p now key s))"
| "rpc_call p (Rq_GetReplicaListByRegex now str) s = Some (apsnd Rs_matches (Wrapped_GetReplicaListByRegex p now str s))"
| "rpc_call p (Rq_GetReplicaList now key) s = Some (apsnd Rs_replicas (Wrapped_GetReplicaList p now key s))"
| "rpc_call p (Rq_BatchGetReplicaList keys) s = Some (apsnd Rs_replica_lists (Wrapped_BatchGetReplicaList p keys s))"
| "rpc_call p (Rq_PutStart key slice_lengths config) s = Some (apsnd Rs_started (Wrapped_PutStart p key slice_lengths config s))"
| "rpc_call p (Rq_PutEnd now key rtype) s = Some (apsnd Rs_unit (Wrapped_PutEnd p now key rtype s))"
| "rpc_call p (Rq_PutRevoke key rtype) s = Some (apsnd Rs_unit (Wrapped_PutRevoke p key rtype s))"
| "rpc_call p (Rq_BatchPutStart keys slice_lengths config) s =
     map_option (apsnd Rs_started_all) (Wrapped_BatchPutStart p keys slice_lengths config s)"
| "rpc_call p (Rq_BatchPutEnd keys) s = Some (apsnd Rs_units (Wrapped_BatchPutEnd p keys s))"
| "rpc_call p (Rq_BatchPutRevoke keys) s = Some (apsnd Rs_units (Wrapped_BatchPutRevoke p keys s))"
| "rpc_call p (Rq_Remove now key) s = Some (apsnd Rs_unit (Wrapped_Remove p now key s))"
| "rpc_call p (Rq_RemoveByRegex now str) s = Some (apsnd Rs_removed (Wrapped_RemoveByRegex p now str s))"
| "rpc_call p (Rq_RemoveAll now) s = Some (apsnd Rs_long (Wrapped_RemoveAll now s))"
| "rpc_call p (Rq_MountSegment segment client_id) s = Some (apsnd Rs_unit (Wrapped_MountSegment p segment client_id s))"
| "rpc_call p (Rq_ReMountSegment segments client_id) s = Some (apsnd Rs_unit (Wrapped_ReMountSegment p segments client_id s))"
| "rpc_call p (Rq_UnmountSegment segment_id client_id) s = Some (apsnd Rs_unit (Wrapped_UnmountSegment segment_id client_id s))"
| "rpc_call p (Rq_Ping client_id) s = Some (apsnd Rs_ping (Wrapped_Ping p client_id s))"
| "rpc_call p Rq_GetFsdir s = Some (apsnd Rs_string (Wrapped_GetFsdir s))"
| "rpc_call p (Rq_BatchExistKey keys) s = Some (apsnd Rs_bools (Wrapped_BatchExistKey p keys s))"
| "rpc_call p Rq_ServiceReady s = Some (apsnd Rs_unit (ServiceReady s))"

text \<open>A sequence of requests.\<close>

fun rpc_run :: "Platform \<Rightarrow> rpc_request list \<Rightarrow> MasterService \<Rightarrow> (MasterService \<times> rpc_response list) option" where
  "rpc_run p [] s = Some (s, [])"
| "rpc_run p (rq # rqs) s =
     (case rpc_call p rq s of
        None \<Rightarrow> None
      | Some (s, rs) \<Rightarrow> map_option (apsnd ((#) rs)) (rpc_run p rqs s))"

section \<open>The HTTP server\<close>

datatype http_status = http_ok | http_not_found | http_internal_server_error

text \<open>\<open>std::to_string\<close> of an unsigned number.\<close>

fun to_decimal :: "nat \<Rightarrow> string" where
  "to_decimal n = (if n < 10 then [char_of (48 + n)] else to_decimal (n div 10) @ [char_of (48 + n mod 10)])"

definition newline :: string where "newline = [CHR 0x0A]"

definition http_lines :: "string list \<Rightarrow> string" where
  "http_lines xs = concat (map (\<lambda>x. x @ newline) xs)"

definition memory_handles :: "ReplicaDescriptor \<Rightarrow> BufferDescriptor list" where
  "memory_handles d = (case descriptor_variant d of MemoryDescriptor hs \<Rightarrow> hs | DiskDescriptor _ _ \<Rightarrow> [])"

definition http_query_key :: "(BufferDescriptor \<Rightarrow> string) \<Rightarrow> Platform \<Rightarrow> time \<Rightarrow> string \<Rightarrow> MasterService \<Rightarrow> MasterService \<times> http_status \<times> string" where
  "http_query_key to_json p now key s =
     (case Wrapped_GetReplicaList p now key s of
        (s, Inr (reps, _)) \<Rightarrow> (s, http_ok, http_lines (map to_json (concat (map memory_handles reps))))
      | (s, Inl e) \<Rightarrow> (s, http_not_found, toString e))"

definition http_get_all_keys :: "MasterService \<Rightarrow> http_status \<times> string" where
  "http_get_all_keys s =
     (case GetAllKeys s of
        Inr keys \<Rightarrow> (http_ok, http_lines keys)
      | Inl _ \<Rightarrow> (http_internal_server_error, ''Failed to get all keys''))"

definition http_get_all_segments :: "MasterService \<Rightarrow> http_status \<times> string" where
  "http_get_all_segments s =
     (case MasterService_GetAllSegments s of
        Inr segments \<Rightarrow> (http_ok, http_lines segments)
      | Inl _ \<Rightarrow> (http_internal_server_error, ''Failed to get all segments''))"

definition http_query_segment :: "string \<Rightarrow> MasterService \<Rightarrow> http_status \<times> string" where
  "http_query_segment segment s =
     (case MasterService_QuerySegments segment s of
        Inr (used_bytes, capacity_bytes) \<Rightarrow>
          (http_ok, segment @ newline @ ''Used(bytes): '' @ to_decimal (unat used_bytes) @ newline @ ''Capacity(bytes) : ''
             @ to_decimal (unat capacity_bytes) @ newline)
      | Inl _ \<Rightarrow> (http_internal_server_error, ''Failed to query segment''))"

definition http_health :: "http_status \<times> string" where
  "http_health = (http_ok, ''OK'')"

end
