(* ===== verification/Master_System.thy ===== *)
theory Master_System
  imports Master_Steps Rpc
begin

text \<open>
  The master service as a transition system. A state is the service, the times the client
  monitor keeps and the segments whose unmounting has been prepared and not yet committed.
  A request handler is one step, except for unmounting, whose three parts (under separate
  locks in the code) are steps of their own; so are the parts of a round of the client monitor,
  and the increments of a counter of the metrics by the RPC layer.
\<close>

declare map_of_eq_Some_iff [simp del] split_paired_All [simp del] split_paired_Ex [simp del]

section \<open>The steps\<close>

type_synonym System = "MasterService \<times> client_ttls \<times> pending_unmount list"

inductive step :: "Platform \<Rightarrow> System \<Rightarrow> System \<Rightarrow> bool" for p where
  mount: "seg_valid segment \<Longrightarrow> MasterService_MountSegment p segment c s = (s', r) \<Longrightarrow> step p (s, ttl, ps) (s', ttl, ps)"
| remount: "\<forall>x \<in> set segments. seg_valid x \<Longrightarrow> MasterService_ReMountSegment p segments c s = (s', r) \<Longrightarrow> step p (s, ttl, ps) (s', ttl, ps)"
| prepare: "PrepareUnmountSegment sid (segment_manager s) (shared s) = (sm, w, OK, cap)
    \<Longrightarrow> step p (s, ttl, ps @ qs) (with_segments s sm w, ttl, ps @ (sid, c, cap) # qs)"
| clear: "step p (s, ttl, ps) (ClearInvalidHandles s, ttl, ps)"
| commit: "CommitUnmountSegment sid c cap (segment_manager s) (shared s) = (sm, w, e)
    \<Longrightarrow> step p (s, ttl, ps @ (sid, c, cap) # qs) (with_segments s sm w, ttl, ps @ qs)"
| exist_key: "ExistKey p now key s = (s', r1) \<Longrightarrow> step p (s, ttl, ps) (s', ttl, ps)"
| get_replica_list: "GetReplicaList p now key s = (s', r2) \<Longrightarrow> step p (s, ttl, ps) (s', ttl, ps)"
| get_by_regex: "GetReplicaListByRegex p nows rx s = (s', r3) \<Longrightarrow> step p (s, ttl, ps) (s', ttl, ps)"
| put_start: "\<forall>n \<in> set sizes. unat n \<le> 2 ^ 63 \<Longrightarrow> PutStart p key sizes config s = (s', r4) \<Longrightarrow> step p (s, ttl, ps) (s', ttl, ps)"
| put_end: "PutEnd p now key rtype s = (s', r) \<Longrightarrow> step p (s, ttl, ps) (s', ttl, ps)"
| put_revoke: "PutRevoke p key rtype s = (s', r) \<Longrightarrow> step p (s, ttl, ps) (s', ttl, ps)"
| remove: "Remove p now key s = (s', r) \<Longrightarrow> step p (s, ttl, ps) (s', ttl, ps)"
| remove_by_regex: "RemoveByRegex p nows rx s = (s', r5) \<Longrightarrow> step p (s, ttl, ps) (s', ttl, ps)"
| remove_all: "RemoveAll now s = (s', n) \<Longrightarrow> step p (s, ttl, ps) (s', ttl, ps)"
| ping: "Ping p c s = (s', r6) \<Longrightarrow> step p (s, ttl, ps) (s', ttl, ps)"
| evict: "step p (s, ttl, ps) (EvictionThread_iteration p random now s, ttl, ps)"
| drain: "drain_pings now ttl s = (ttl', s') \<Longrightarrow> step p (s, ttl, ps) (s', ttl', ps)"
| expire: "expired_clients now ttl = (expired, ttl') \<Longrightarrow> step p (s, ttl, ps) (disconnect_clients expired s, ttl', ps)"
| count: "step p (s, ttl, ps) (upd_metrics (inc_counter c n) s, ttl, ps)"

text \<open>The metrics before the service starts.\<close>

definition metrics_zero :: "MasterMetrics \<Rightarrow> bool" where
  "metrics_zero m \<longleftrightarrow> mem_allocated_size m = 0 \<and> mem_total_capacity m = 0 \<and> file_allocated_size m = 0
     \<and> key_count m = 0 \<and> soft_pin_key_count m = 0 \<and> active_clients m = 0"

inductive reachable :: "Platform \<Rightarrow> System \<Rightarrow> bool" for p where
  start: "MasterService_new config v m = Inr s \<Longrightarrow> metrics_zero m \<Longrightarrow> reachable p (s, [], [])"
| step: "reachable p S \<Longrightarrow> step p S S' \<Longrightarrow> reachable p S'"

section \<open>The invariant\<close>

definition sys_ok :: "Platform \<Rightarrow> System \<Rightarrow> bool" where
  "sys_ok p = (\<lambda>(s, ttl, ps). ms_ok p s {#} {#} \<and> pending_ok (segment_manager s) ps)"

lemma new_ok:
  assumes "MasterService_new config v m = Inr s" "metrics_zero m"
  shows "sys_ok p (s, [], [])"
proof -
  have s: "shared s = (Map.empty, if root_fs_dir config \<noteq> [] then inc_total_file_capacity (word_of_int (global_file_segment_size config)) m else m)"
    "segment_manager s = SegmentManager_new (memory_allocator_type config)" "metadata_shards s = (\<lambda>_. [])" "ok_client s = {}" "service_config s = config"
    using assms(1) by (auto simp: MasterService_new_def Let_def split: if_splits)
  have "all_metadata s = {#}" by (simp add: all_metadata_def s)
  then show ?thesis using assms(2)
    by (simp add: sys_ok_def ms_ok_def store_ok_def world_ok_def gauges_ok_def seg_inv_def shards_ok_def s metrics_zero_def
        inc_total_file_capacity_def SegmentManager_new_def index_ok_def no_empty_def lookup_list_def total_capacity_def heap_ok_def mounted_as_def)
qed

lemma sys_ok_metadata: "ms_ok p s' {#} {#} \<Longrightarrow> only_metadata s s' \<Longrightarrow> sys_ok p (s, ttl, ps) \<Longrightarrow> sys_ok p (s', ttl, ps)"
  by (simp add: sys_ok_def only_metadata_def)

definition shuffle_law :: "Platform \<Rightarrow> bool" where
  "shuffle_law p \<longleftrightarrow> (\<forall>k xs. mset (std_shuffle p k xs) = mset xs)"

lemma evict_step_ok: "ms_ok p s X B \<Longrightarrow> ms_ok p (EvictionThread_iteration p random now s) X B
    \<and> segment_manager (EvictionThread_iteration p random now s) = segment_manager s"
  using BatchEvict_ok(1,5) [OF _ refl, of p s X B] unfolding EvictionThread_iteration_def Let_def by (simp split: if_splits)

lemma step_keeps_ok:
  assumes "step p S S'" "shuffle_law p" "sys_ok p S"
  shows "sys_ok p S'"
  using assms
proof (induction rule: step.induct)
  case (mount segment c s s' r ttl ps)
  then have "ms_ok p s {#} {#}" "pending_ok (segment_manager s) ps" by (simp_all add: sys_ok_def)
  from MasterService_MountSegment_ok [OF this mount(1,2)] show ?case by (simp add: sys_ok_def)
next
  case (remount segments c s s' r ttl ps)
  then have "ms_ok p s {#} {#}" "pending_ok (segment_manager s) ps" by (simp_all add: sys_ok_def)
  from MasterService_ReMountSegment_ok [OF this remount(1,2)] show ?case by (simp add: sys_ok_def)
next
  case (prepare sid s sm w cap ttl ps qs c)
  then have "ms_ok p s {#} {#}" "pending_ok (segment_manager s) (ps @ qs)" by (simp_all add: sys_ok_def)
  note pr = Prepare_ok(1,3) [OF this prepare(1)]
  have "pending_ok sm (ps @ (sid, c, cap) # qs) = pending_ok sm ((sid, c, cap) # ps @ qs)" by (rule pending_ok_perm) simp
  with pr show ?case by (simp add: sys_ok_def)
next
  case (clear s ttl ps)
  then have "ms_ok p s {#} {#}" by (simp add: sys_ok_def)
  from ClearInvalidHandles_ok(1,2) [OF this] clear show ?case by (blast intro: sys_ok_metadata)
next
  case (commit sid c cap s sm w e ttl ps qs)
  have "pending_ok (segment_manager s) (ps @ (sid, c, cap) # qs) = pending_ok (segment_manager s) ((sid, c, cap) # ps @ qs)"
    by (rule pending_ok_perm) simp
  then have "ms_ok p s {#} {#}" "pending_ok (segment_manager s) ((sid, c, cap) # ps @ qs)" using commit by (simp_all add: sys_ok_def)
  from Commit_ok(1,2) [OF this commit(1)] show ?case by (simp add: sys_ok_def)
next
  case (exist_key now key s s' r1 ttl ps)
  then have "ms_ok p s {#} {#}" by (simp add: sys_ok_def)
  from ExistKey_ok [OF this exist_key(1)] exist_key(3) show ?case by (blast intro: sys_ok_metadata)
next
  case (get_replica_list now key s s' r2 ttl ps)
  then have "ms_ok p s {#} {#}" by (simp add: sys_ok_def)
  from GetReplicaList_ok [OF this get_replica_list(1)] get_replica_list(3) show ?case by (blast intro: sys_ok_metadata)
next
  case (get_by_regex nows rx s s' r3 ttl ps)
  then have "ms_ok p s {#} {#}" by (simp add: sys_ok_def)
  from GetReplicaListByRegex_ok(1) [OF this get_by_regex(1)] get_by_regex(3) show ?case by (blast intro: sys_ok_metadata)
next
  case (put_start sizes key config s s' r4 ttl ps)
  then have "ms_ok p s {#} {#}" "\<And>k xs. mset (std_shuffle p k xs) = mset xs" by (simp_all add: sys_ok_def shuffle_law_def)
  from PutStart_ok(1,3) [OF this put_start(1,2)] put_start(4) show ?case by (simp add: sys_ok_def)
next
  case (put_end now key rtype s s' r ttl ps)
  then have "ms_ok p s {#} {#}" by (simp add: sys_ok_def)
  from PutEnd_ok [OF this put_end(1)] put_end(3) show ?case by (blast intro: sys_ok_metadata)
next
  case (put_revoke key rtype s s' r ttl ps)
  then have "ms_ok p s {#} {#}" by (simp add: sys_ok_def)
  from PutRevoke_ok [OF this put_revoke(1)] put_revoke(3) show ?case by (blast intro: sys_ok_metadata)
next
  case (remove now key s s' r ttl ps)
  then have "ms_ok p s {#} {#}" by (simp add: sys_ok_def)
  from Remove_ok [OF this remove(1)] remove(3) show ?case by (blast intro: sys_ok_metadata)
next
  case (remove_by_regex nows rx s s' r5 ttl ps)
  then have "ms_ok p s {#} {#}" by (simp add: sys_ok_def)
  from RemoveByRegex_ok [OF this remove_by_regex(1)] remove_by_regex(3) show ?case
    by (cases "std_regex p rx") (auto intro: sys_ok_metadata)
next
  case (remove_all now s s' n ttl ps)
  then have "ms_ok p s {#} {#}" by (simp add: sys_ok_def)
  from RemoveAll_ok [OF this remove_all(1)] remove_all(3) show ?case by (blast intro: sys_ok_metadata)
next
  case (ping c s s' r6 ttl ps)
  then have "s' = s \<or> (\<exists>q. s' = s\<lparr>client_ping_queue := q\<rparr>)"
    by (auto simp: Ping_def Let_def push_ping_def split: if_splits)
  then show ?case using ping by (auto simp: sys_ok_def ms_ok_queue)
next
  case (evict s ttl ps random now)
  then have "ms_ok p s {#} {#}" "pending_ok (segment_manager s) ps" by (simp_all add: sys_ok_def)
  with evict_step_ok [OF this(1), of random now] show ?case by (simp add: sys_ok_def)
next
  case (drain now ttl s ttl' s' ps)
  then show ?case by (auto simp: sys_ok_def drain_pings_def ms_ok_queue)
next
  case (expire now ttl expired ttl' s ps)
  then have "ms_ok p s {#} {#}" "pending_ok (segment_manager s) ps" by (simp_all add: sys_ok_def)
  with disconnect_clients_ok [OF this(1), of expired] show ?case by (simp add: sys_ok_def)
next
  case (count s ttl ps c n)
  then have "ms_ok p s {#} {#}" by (simp add: sys_ok_def)
  from ms_ok_counters [OF this] count show ?case by (simp add: sys_ok_def upd_metrics_def)
qed

lemma reachable_ok: "reachable p S \<Longrightarrow> shuffle_law p \<Longrightarrow> sys_ok p S"
  by (induction rule: reachable.induct) (auto intro: new_ok step_keeps_ok)

section \<open>The composed operations are sequences of steps\<close>

lemma Prepare_failed: "PrepareUnmountSegment sid sm w = (sm', w', e, cap) \<Longrightarrow> e \<noteq> OK \<Longrightarrow> sm' = sm \<and> w' = w"
  by (auto simp: PrepareUnmountSegment_def Let_def split: option.splits if_splits)

lemma unmount_steps:
  assumes u: "UnmountSegment sid c s = (s', r)"
  shows "(step p)\<^sup>*\<^sup>* (s, ttl, ps) (s', ttl, ps)"
proof -
  obtain sm w e cap where m: "PrepareUnmountSegment sid (segment_manager s) (shared s) = (sm, w, e, cap)"
    by (cases "PrepareUnmountSegment sid (segment_manager s) (shared s)")
  show ?thesis
  proof (cases "e = OK")
    case False
    then have "s' = s" using u m Prepare_failed [OF m] by (auto simp: UnmountSegment_def Let_def split: if_splits)
    then show ?thesis by simp
  next
    case True
    let ?t = "ClearInvalidHandles (with_segments s sm w)"
    obtain sm2 w2 e2 where c2: "CommitUnmountSegment sid c cap (segment_manager ?t) (shared ?t) = (sm2, w2, e2)"
      by (cases "CommitUnmountSegment sid c cap (segment_manager ?t) (shared ?t)")
    have "s' = with_segments ?t sm2 w2" using u m True c2 by (auto simp: UnmountSegment_def Let_def split: if_splits)
    moreover have "step p (s, ttl, ps) (with_segments s sm w, ttl, (sid, c, cap) # ps)"
      using step.prepare [OF m [unfolded True], of p ttl "[]" ps c] by simp
    moreover have "step p (with_segments s sm w, ttl, (sid, c, cap) # ps) (?t, ttl, (sid, c, cap) # ps)" by (rule step.clear)
    moreover have "step p (?t, ttl, (sid, c, cap) # ps) (with_segments ?t sm2 w2, ttl, ps)"
      using step.commit [OF c2, of p ttl "[]" ps] by simp
    ultimately show ?thesis by (meson converse_rtranclp_into_rtranclp rtranclp.rtrancl_refl)
  qed
qed

lemma prepare_segments_steps:
  "prepare_segments c segs s = (s', ps) \<Longrightarrow> (step p)\<^sup>*\<^sup>* (s, ttl, qs) (s', ttl, qs @ ps)"
proof (induction segs arbitrary: s qs ps)
  case (Cons seg segs)
  obtain sm w e cap where m: "PrepareUnmountSegment (seg_id seg) (segment_manager s) (shared s) = (sm, w, e, cap)"
    by (cases "PrepareUnmountSegment (seg_id seg) (segment_manager s) (shared s)")
  obtain rest where r: "prepare_segments c segs (with_segments s sm w) = (s', rest)" "ps = (if e = OK then (seg_id seg, c, cap) # rest else rest)"
    using Cons.prems m by (auto simp: Let_def split: prod.splits)
  show ?case
  proof (cases "e = OK")
    case True
    have "step p (s, ttl, qs) (with_segments s sm w, ttl, qs @ [(seg_id seg, c, cap)])"
      using step.prepare [OF m [unfolded True], of p ttl qs "[]" c] by simp
    from converse_rtranclp_into_rtranclp [OF this Cons.IH [OF r(1)]] show ?thesis by (simp add: r(2) True)
  next
    case False
    then show ?thesis using Cons.IH [OF r(1), of qs] Prepare_failed [OF m False] by (simp add: r(2))
  qed
qed simp

lemma prepare_clients_steps:
  "prepare_clients cs s = (s', ps) \<Longrightarrow> (step p)\<^sup>*\<^sup>* (s, ttl, qs) (s', ttl, qs @ ps)"
proof (induction cs arbitrary: s qs ps)
  case (Cons c cs)
  define segs where "segs = (case GetClientSegments c (segment_manager s) of Inl _ \<Rightarrow> [] | Inr segs \<Rightarrow> segs)"
  obtain s1 ps1 where p1: "prepare_segments c segs s = (s1, ps1)" by (cases "prepare_segments c segs s")
  obtain ps2 where p2: "prepare_clients cs s1 = (s', ps2)" "ps = ps1 @ ps2"
    using Cons.prems p1 by (auto simp: Let_def segs_def split: prod.splits)
  show ?case using rtranclp_trans [OF prepare_segments_steps [OF p1] Cons.IH [OF p2(1)]] by (simp add: p2(2))
qed simp

lemma commit_segments_steps: "(step p)\<^sup>*\<^sup>* (s, ttl, qs @ ps) (commit_segments ps s, ttl, qs)"
proof (induction ps arbitrary: s)
  case (Cons x ps)
  obtain sid c cap where x: "x = (sid, c, cap)" by (cases x)
  obtain sm w e where m: "CommitUnmountSegment sid c cap (segment_manager s) (shared s) = (sm, w, e)"
    by (cases "CommitUnmountSegment sid c cap (segment_manager s) (shared s)")
  from converse_rtranclp_into_rtranclp [OF step.commit [OF m, of p ttl qs ps] Cons.IH] show ?case by (simp add: x m)
qed simp

lemma monitor_steps:
  assumes i: "ClientMonitor_iteration now ttl s = (ttl', s')"
  shows "(step p)\<^sup>*\<^sup>* (s, ttl, ps) (s', ttl', ps)"
proof -
  obtain ttl1 s1 where dr: "drain_pings now ttl s = (ttl1, s1)" by (cases "drain_pings now ttl s")
  obtain expired ttl2 where ex: "expired_clients now ttl1 = (expired, ttl2)" by (cases "expired_clients now ttl1")
  obtain s3 qs where p3: "prepare_clients expired (disconnect_clients expired s1) = (s3, qs)"
    by (cases "prepare_clients expired (disconnect_clients expired s1)")
  have "(step p)\<^sup>*\<^sup>* (s, ttl, ps) (disconnect_clients expired s1, ttl2, ps)"
    using step.drain [OF dr, of p ps] step.expire [OF ex, of p s1 ps] by (meson converse_rtranclp_into_rtranclp rtranclp.rtrancl_refl)
  also have "(step p)\<^sup>*\<^sup>* (disconnect_clients expired s1, ttl2, ps) (s3, ttl2, ps @ qs)" by (rule prepare_clients_steps [OF p3])
  finally have a: "(step p)\<^sup>*\<^sup>* (s, ttl, ps) (s3, ttl2, ps @ qs)" .
  have "ttl' = ttl2" using i dr ex p3 by (auto simp: ClientMonitor_iteration_def split: if_splits)
  moreover have "s' = (if qs = [] then s3 else commit_segments qs (ClearInvalidHandles s3))"
    using i dr ex p3 by (cases "expired = []") (auto simp: ClientMonitor_iteration_def)
  moreover have "(step p)\<^sup>*\<^sup>* (s3, ttl2, ps @ qs) (commit_segments qs (ClearInvalidHandles s3), ttl2, ps)"
    by (rule converse_rtranclp_into_rtranclp [OF step.clear commit_segments_steps])
  ultimately show ?thesis using a by (cases "qs = []") auto
qed

lemma reachable_steps: "(step p)\<^sup>*\<^sup>* S S' \<Longrightarrow> reachable p S \<Longrightarrow> reachable p S'"
  by (induction rule: rtranclp_induct) (auto intro: reachable.step)

end
