(* ===== verification/Master_Example.thy ===== *)
theory Master_Example
  imports Master_System "HOL-Library.Code_Target_Numeral"
begin

text \<open>
  A small store, for evaluating the definitions: one segment of two slabs, one client, one
  object. The platform hashes by the length, shuffles nothing, knows no regular expression
  but the one that matches everything, and does not round.
\<close>

definition ex_platform :: Platform where
  "ex_platform = \<lparr>std_hash = (\<lambda>k. of_nat (length k)), std_shuffle = (\<lambda>_ xs. xs), std_regex = (\<lambda>rx. if rx = ''.*'' then Some (\<lambda>_. True) else None),
     queue_accepts = (\<lambda>q _. length q < 8), rounding = id\<rparr>"

definition ex_config :: MasterServiceConfig where
  "ex_config = \<lparr>default_kv_lease_ttl = 5000, default_kv_soft_pin_ttl = 10000, allow_evict_soft_pinned_objects = True,
     eviction_ratio = 1 / 10, eviction_high_watermark_ratio = 9 / 10, config_view_version = 7, client_live_ttl_sec = 10,
     enable_ha = False, cluster_id = ''c'', root_fs_dir = [], global_file_segment_size = 0, memory_allocator_type = CACHELIB\<rparr>"

definition ex_metrics :: MasterMetrics where
  "ex_metrics = \<lparr>mem_allocated_size = 0, mem_total_capacity = 0, file_allocated_size = 0, file_total_capacity = 0,
     key_count = 0, soft_pin_key_count = 0, active_clients = 0, value_size_distribution = [], counters = (\<lambda>_. 0)\<rparr>"

definition ex_new :: MasterService where
  "ex_new = \<lparr>service_config = ex_config, use_disk_replica = False, metadata_shards = (\<lambda>_. []), need_eviction = False,
     view_version = 0, ok_client = {}, client_ping_queue = [], segment_manager = SegmentManager_new CACHELIB,
     allocation_strategy = \<lparr>retry_counter = 0, shuffles = 0\<rparr>, shared = (Map.empty, ex_metrics)\<rparr>"

definition ex_segment :: Segment where
  "ex_segment = \<lparr>seg_id = (1, 1), seg_name = ''s'', seg_base = 16777216, seg_size = 33554432, te_endpoint = ''s''\<rparr>"

definition ex_put :: ReplicateConfig where
  "ex_put = \<lparr>replica_num = 1, with_soft_pin = False, preferred_segment = [], prefer_alloc_in_same_node = False\<rparr>"

definition ex_mounted :: MasterService where
  "ex_mounted = fst (MasterService_MountSegment ex_platform ex_segment (2, 2) ex_new)"

definition ex_started :: MasterService where
  "ex_started = fst (PutStart ex_platform ''k'' [100, 100] ex_put ex_mounted)"

definition ex_stored :: MasterService where
  "ex_stored = fst (PutEnd ex_platform 1000 ''k'' MEMORY ex_started)"

section \<open>The slab allocator of the segment\<close>

definition fresh_class :: "int \<Rightarrow> int \<Rightarrow> u32 \<Rightarrow> AllocationClass" where
  "fresh_class cid pid asize = \<lparr>ac_classId = cid, ac_poolId = pid, allocationSize = asize, currOffset = 0, currSlab = None,
     allocatedSlabs = [], ac_freeSlabs = [], freedAllocations = [], ac_canAllocate = True, activeReleases = 0, slabReleaseAllocMap = Map.empty\<rparr>"

abbreviation class_size :: "u32 \<Rightarrow> bool" where
  "class_size sz \<equiv> kMinAllocSize \<le> sz \<and> ucast sz \<le> Slab_kSize"

lemma createAllocationClasses_fresh:
  "0 \<le> cid \<Longrightarrow> list_all class_size sizes \<Longrightarrow>
   createAllocationClasses pid cid sizes = Inr (map (\<lambda>i. fresh_class (cid + int i) pid (sizes ! i)) [0..<length sizes])"
proof (induction sizes arbitrary: cid)
  case (Cons sz sizes)
  have "[0..<length (sz # sizes)] = 0 # map Suc [0..<length sizes]" by (simp add: upt_conv_Cons map_Suc_upt del: upt_Suc)
  moreover have "AllocationClass_new cid pid sz = Inr (fresh_class cid pid sz)"
    using Cons.prems by (simp add: AllocationClass_new_def fresh_class_def not_less)
  ultimately show ?case using Cons by (simp add: not_less not_le comp_def ac_simps del: upt_Suc)
qed simp

lemma MemoryPool_new_fresh:
  assumes v: "list_all class_size sizes" and s: "is_sorted sizes" "adjacent_find sizes = None" "sizes \<noteq> []"
  shows "MemoryPool_new 0 poolSize sa sizes = Inr \<lparr>mp_id = 0, maxSize = poolSize, currSlabAllocSize = 0, currAllocSize = 0, mp_freeSlabs = [],
     acSizes = sizes, mp_ac = map (\<lambda>i. fresh_class (int i) 0 (sizes ! i)) [0..<length sizes], curSlabsAdvised = 0\<rparr>"
proof -
  let ?acs = "map (\<lambda>i. fresh_class (int i) 0 (sizes ! i)) [0..<length sizes]"
  have "\<not> list_ex (\<lambda>(sz, ac). sz \<noteq> allocationSize ac \<or> sz < kMinAllocSize \<or> Slab_kSize < ucast sz) (zip sizes ?acs)"
    using v by (auto simp: list_ex_iff in_set_zip fresh_class_def list_all_length linorder_not_le [symmetric])
  then show ?thesis using s createAllocationClasses_fresh [OF _ v, of 0 0] by (simp add: MemoryPool_new_def Let_def MemoryPool_checkState_def)
qed

lemma Slab_kSize_eq: "Slab_kSize = 16777216"
  by (simp add: Slab_kSize_def kNumSlabBits_def push_bit_eq_mult)

text \<open>The 53 sizes of the allocation classes.\<close>

definition ex_sizes :: "u32 list" where
  "ex_sizes = [72, 96, 120, 152, 192, 240, 304, 384, 480, 600, 752, 944, 1184, 1480, 1856, 2320, 2904, 3632, 4544, 5680, 7104, 8880,
     11104, 13880, 17352, 21696, 27120, 33904, 42384, 52984, 66232, 82792, 103496, 129376, 161720, 202152, 252696, 315872, 394840, 493552,
     616944, 771184, 963984, 1204984, 1506232, 1882792, 2353496, 2941872, 3677344, 4596680, 5745856, 7182320, 16777216]"

lemma generateAllocSizes_ex: "generateAllocSizes 16777216 72 = Inr ex_sizes"
  by (simp add: generateAllocSizes_def allocSizes_from.simps Slab_kSize_eq Let_def getAlignedSize_def kAlignment_def kMaxClasses_def ex_sizes_def)

lemma ex_sizes_ok: "list_all class_size ex_sizes" "is_sorted ex_sizes" "adjacent_find ex_sizes = None" "ex_sizes \<noteq> []" "length ex_sizes = 53"
  by (simp_all add: ex_sizes_def kMinAllocSize_def Slab_kSize_eq)

definition ex_classes :: "AllocationClass list" where
  "ex_classes = map (\<lambda>i. fresh_class (int i) 0 (ex_sizes ! i)) [0..<53]"

definition ex_slabs :: SlabAllocator where
  "ex_slabs = \<lparr>memoryPoolSize = (\<lambda>_. 0), sa_freeSlabs = [], headerMemory = (\<lambda>_. \<lparr>h_poolId = 0, h_classId = 0, h_flags = 0, h_allocSize = 0\<rparr>),
     slabMemoryStart = 16777216, slabMemorySize = 33554432, nextSlabAllocation = 16777216, sa_canAllocate = True\<rparr>"

definition ex_pool :: MemoryPool where
  "ex_pool = \<lparr>mp_id = 0, maxSize = 33554432, currSlabAllocSize = 0, currAllocSize = 0, mp_freeSlabs = [],
     acSizes = ex_sizes, mp_ac = ex_classes, curSlabsAdvised = 0\<rparr>"

definition ex_allocator :: CachelibBufferAllocator where
  "ex_allocator = \<lparr>cb_segment_name = ''s'', cb_base = 16777216, cb_total_size = 33554432, cb_cur_size = 0, cb_transport_endpoint = ''s'',
     header_region_size = 15, memory_allocator = \<lparr>config_allocSizes = ex_sizes, slabAllocator = ex_slabs,
       memoryPoolManager = \<lparr>pools = [ex_pool], poolsByName = [main_pool \<mapsto> 0]\<rparr>\<rparr>, pool_id = 0\<rparr>"

lemma two_slabs: "drop_bit 24 (33554432 :: u64) = 2"
  by (simp add: drop_bit_eq_div)

lemma ex_allocator_new: "CachelibBufferAllocator_new ''s'' 16777216 33554432 ''s'' = Inr ex_allocator"
  by (simp add: CachelibBufferAllocator_new_def generateAllocSizes_ex Let_def MemoryAllocator_new_def SlabAllocator_new_def numSlabs_def
      kMaxClasses_def Slab_kSize_eq kNumSlabBits_def sizeof_SlabHeader_def addPool_def createNewPool_def getRemainingSizeLocked_def
      getNumUsableSlabs_def kMaxPools_def two_slabs getSlabMemoryEnd_def MemoryPool_new_fresh [OF ex_sizes_ok(1-4)] ex_sizes_ok(4,5)
      ex_allocator_def ex_slabs_def ex_pool_def ex_classes_def del: upt_Suc)

lemma ex_class_id: "getAllocationClassId ex_pool 100 = Inr 2"
  by (simp add: getAllocationClassId_def ex_pool_def ex_sizes_def)

lemma ex_classes_nth: "ex_classes ! 2 = fresh_class 2 0 120" "length ex_classes = 53"
  by (simp_all add: ex_classes_def ex_sizes_def del: upt_Suc upt_rec_numeral)

definition ex_buffer :: AllocatedBuffer where
  "ex_buffer = \<lparr>buf_allocator = 0, buffer_ptr = 16777216, buf_size = 100, offset_handle = None\<rparr>"

definition ex_buffer2 :: AllocatedBuffer where
  "ex_buffer2 = \<lparr>buf_allocator = 0, buffer_ptr = 16777336, buf_size = 100, offset_handle = None\<rparr>"

definition ex_allocator1 :: CachelibBufferAllocator where
  "ex_allocator1 = fst (CachelibBufferAllocator_allocate 0 100 ex_allocator ex_metrics)"

lemma ex_allocate:
  "CachelibBufferAllocator_allocate i 100 ex_allocator m = (ex_allocator1, inc_allocated_mem_size 100 m, Some (ex_buffer\<lparr>buf_allocator := i\<rparr>))"
  unfolding ex_allocator1_def ex_allocator_def CachelibBufferAllocator_allocate_def Let_def kMinSliceSize_def MemoryAllocator_allocate_def
    getPoolById_def MemoryPool_allocate_def
  by (simp add: ex_class_id)
    (simp add: ex_pool_def ex_classes_nth AllocationClass_allocate_def fresh_class_def allocateLocked_def canAllocateFromCurrentSlabLocked_def
      allSlabsAllocated_def getPoolAdvisedSize_def Slab_kSize_eq getSlabLocked_def makeNewSlab_def makeNewSlabImpl_def ex_slabs_def
      allMemorySlabbed_def getSlabMemoryEnd_def initializeHeader_def update_header_def addSlabAndAllocate_def addSlabLocked_def
      setupCurrentSlabLocked_def allocateFromCurrentSlabLocked_def Let_def memoryAtOffset_def ex_buffer_def)

text \<open>After it the class of 120 bytes has a current slab, and the next piece is the one behind.\<close>

definition ex_class1 :: AllocationClass where
  "ex_class1 = (fresh_class 2 0 120)\<lparr>currSlab := Some 16777216, currOffset := 120, allocatedSlabs := [16777216]\<rparr>"

definition ex_pool1 :: MemoryPool where
  "ex_pool1 = ex_pool\<lparr>currSlabAllocSize := 16777216, currAllocSize := 120, mp_ac := ex_classes[2 := ex_class1]\<rparr>"

lemma ex_allocator1_parts:
  "memoryPoolManager (memory_allocator ex_allocator1) = \<lparr>pools = [ex_pool1], poolsByName = [main_pool \<mapsto> 0]\<rparr>"
  "pool_id ex_allocator1 = 0"
  unfolding ex_allocator1_def ex_allocator_def CachelibBufferAllocator_allocate_def Let_def kMinSliceSize_def MemoryAllocator_allocate_def
    getPoolById_def MemoryPool_allocate_def
  by (simp_all add: ex_class_id)
    (simp_all add: ex_pool_def ex_classes_nth AllocationClass_allocate_def fresh_class_def allocateLocked_def canAllocateFromCurrentSlabLocked_def
      allSlabsAllocated_def getPoolAdvisedSize_def Slab_kSize_eq getSlabLocked_def makeNewSlab_def makeNewSlabImpl_def ex_slabs_def
      allMemorySlabbed_def getSlabMemoryEnd_def initializeHeader_def update_header_def addSlabAndAllocate_def addSlabLocked_def
      setupCurrentSlabLocked_def allocateFromCurrentSlabLocked_def Let_def memoryAtOffset_def ex_pool1_def ex_class1_def)

definition ex_allocator2 :: CachelibBufferAllocator where
  "ex_allocator2 = fst (CachelibBufferAllocator_allocate 0 100 ex_allocator1 ex_metrics)"

lemma ex_class_id1: "getAllocationClassId ex_pool1 100 = Inr 2"
  by (simp add: getAllocationClassId_def ex_pool1_def ex_pool_def ex_sizes_def)

lemma ex_allocate2:
  "CachelibBufferAllocator_allocate i 100 ex_allocator1 m = (ex_allocator2, inc_allocated_mem_size 100 m, Some (ex_buffer2\<lparr>buf_allocator := i\<rparr>))"
  unfolding ex_allocator2_def CachelibBufferAllocator_allocate_def Let_def kMinSliceSize_def MemoryAllocator_allocate_def
    getPoolById_def MemoryPool_allocate_def ex_allocator1_parts
  by (simp add: ex_class_id1)
    (simp add: ex_pool1_def ex_pool_def ex_classes_nth AllocationClass_allocate_def ex_class1_def fresh_class_def allocateLocked_def
      canAllocateFromCurrentSlabLocked_def Slab_kSize_eq allocateFromCurrentSlabLocked_def Let_def memoryAtOffset_def ex_buffer2_def)

section \<open>The store\<close>

lemma ex_platform_law: "shuffle_law ex_platform"
  by (simp add: shuffle_law_def ex_platform_def)

lemma ex_new_eq: "MasterService_new ex_config 0 ex_metrics = Inr ex_new"
  by (simp add: ex_new_def MasterService_new_def ex_config_def Let_def)

lemma ex_new_fields:
  "service_config ex_new = ex_config" "use_disk_replica ex_new = False" "metadata_shards ex_new = (\<lambda>_. [])" "ok_client ex_new = {}"
  "client_ping_queue ex_new = []" "segment_manager ex_new = SegmentManager_new CACHELIB" "shared ex_new = (Map.empty, ex_metrics)"
  "allocation_strategy ex_new = \<lparr>retry_counter = 0, shuffles = 0\<rparr>" "need_eviction ex_new = False" "view_version ex_new = 0"
  by (simp_all add: ex_new_def)

definition ex_manager :: SegmentManager where
  "ex_manager = fst (MountSegment ex_segment (2, 2) (SegmentManager_new CACHELIB) (Map.empty, ex_metrics))"

lemma ex_manager_eq:
  "MountSegment ex_segment (2, 2) (SegmentManager_new CACHELIB) (Map.empty, ex_metrics)
     = (ex_manager, ([0 \<mapsto> Cachelib ex_allocator], inc_total_mem_capacity 33554432 ex_metrics), OK)"
  "allocators ex_manager = [0]" "allocators_by_name ex_manager = [(''s'', [0])]" "client_segments ex_manager = [((2, 2), [(1, 1)])]"
  "memory_allocator_kind ex_manager = CACHELIB" "next_allocator ex_manager = 1"
  "mounted_segments ex_manager = [((1, 1), \<lparr>ms_segment = ex_segment, ms_status = Segment_OK, ms_allocator = Some 0\<rparr>)]"
  by (simp_all add: ex_manager_def MountSegment_def ex_segment_def SegmentManager_new_def Slab_kSize_eq Let_def new_allocator_def ex_allocator_new
      map_push_back_def)

lemma ex_mounted_eq:
  "ex_mounted = ex_new\<lparr>client_ping_queue := [(2, 2)], segment_manager := ex_manager,
     shared := ([0 \<mapsto> Cachelib ex_allocator], inc_total_mem_capacity 33554432 ex_metrics)\<rparr>"
  by (simp add: ex_mounted_def MasterService_MountSegment_def push_ping_def ex_new_fields ex_platform_def ex_manager_eq Let_def)

definition ex_replica :: "allocator_id \<Rightarrow> ReplicaStatus \<Rightarrow> Replica" where
  "ex_replica i = Replica_memory [ex_buffer\<lparr>buf_allocator := i\<rparr>, ex_buffer2\<lparr>buf_allocator := i\<rparr>]"

lemma ex_Allocate:
  "Allocate (\<lambda>_ xs. xs) [i] [(''s'', [i])] [100, 100] ex_put ([i \<mapsto> Cachelib ex_allocator], m) st
     = (([i \<mapsto> Cachelib ex_allocator2], inc_allocated_mem_size 100 (inc_allocated_mem_size 100 m)), st\<lparr>shuffles := shuffles st + 2\<rparr>,
        Inr [ex_replica i PROCESSING])"
  by (simp add: Allocate_def validateInput_def ex_put_def Let_def allocateSingleBuffer_def tryRandomAllocate_def eligible_indices_def
      kAllocatorUnknownFreeSpace_def kMaxRetryLimit_def pointer_allocate_def ex_allocate ex_allocate2 ex_replica_def One_nat_def getSegmentName_def)

definition ex_object :: ObjectMetadata where
  "ex_object = new_object 200 [ex_replica 0 PROCESSING] False"

lemma ex_mounted_fields:
  "service_config ex_mounted = ex_config" "use_disk_replica ex_mounted = False" "find_metadata ex_platform k ex_mounted = None"
  "segment_manager ex_mounted = ex_manager" "allocation_strategy ex_mounted = \<lparr>retry_counter = 0, shuffles = 0\<rparr>"
  "shared ex_mounted = ([0 \<mapsto> Cachelib ex_allocator], inc_total_mem_capacity 33554432 ex_metrics)" "metadata_shards ex_mounted = (\<lambda>_. [])"
  "client_ping_queue ex_mounted = [(2, 2)]"
  by (simp_all add: ex_mounted_eq ex_new_fields find_metadata_def)

lemma ex_put_args: "put_args_ok ''k'' [100, 100] ex_put ex_mounted"
  by (simp add: put_args_ok_def ex_put_def kMaxSliceSize_def push_bit_eq_mult)

lemma ex_started_eq:
  "PutStart ex_platform ''k'' [100, 100] ex_put ex_mounted = (ex_started, Inr [get_descriptor [0 \<mapsto> Cachelib ex_allocator2] (ex_replica 0 PROCESSING)])"
  "find_metadata ex_platform ''k'' ex_started = Some ex_object" "fst (shared ex_started) = [0 \<mapsto> Cachelib ex_allocator2]"
  "service_config ex_started = ex_config" "segment_manager ex_started = ex_manager" "use_disk_replica ex_started = False"
  "client_ping_queue ex_started = [(2, 2)]" "allocation_strategy ex_started = \<lparr>retry_counter = 0, shuffles = 2\<rparr>"
proof -
  let ?t = "ex_mounted\<lparr>shared := ([0 \<mapsto> Cachelib ex_allocator2], inc_allocated_mem_size 100 (inc_allocated_mem_size 100 (inc_total_mem_capacity 33554432 ex_metrics))),
    allocation_strategy := \<lparr>retry_counter = 0, shuffles = 2\<rparr>\<rparr>"
  have p: "PutStart ex_platform ''k'' [100, 100] ex_put ex_mounted = (emplace_metadata ex_platform ''k'' 200 [ex_replica 0 PROCESSING] False ?t,
      Inr [get_descriptor [0 \<mapsto> Cachelib ex_allocator2] (ex_replica 0 PROCESSING)])"
    using ex_Allocate [of 0 "inc_total_mem_capacity 33554432 ex_metrics" "\<lparr>retry_counter = 0, shuffles = 0\<rparr>"]
    by (simp add: PutStart_unfold ex_put_args put_cleanup_def ex_mounted_fields ex_manager_eq put_replicas_def)
      (simp add: ex_platform_def ex_put_def numeral_2_eq_2)
  then have s: "ex_started = emplace_metadata ex_platform ''k'' 200 [ex_replica 0 PROCESSING] False ?t" by (simp add: ex_started_def)
  show "PutStart ex_platform ''k'' [100, 100] ex_put ex_mounted = (ex_started, Inr [get_descriptor [0 \<mapsto> Cachelib ex_allocator2] (ex_replica 0 PROCESSING)])"
    using p s by simp
  obtain md m where md: "ObjectMetadata_new 200 [ex_replica 0 PROCESSING] False (snd (shared ?t)) = (md, m)"
    by (cases "ObjectMetadata_new 200 [ex_replica 0 PROCESSING] False (snd (shared ?t))")
  have mo: "md = ex_object" using ObjectMetadata_new_fst [of 200 "[ex_replica 0 PROCESSING]" False "snd (shared ?t)"] md by (simp add: ex_object_def)
  have e: "ex_started = set_metadata ex_platform ''k'' md (?t\<lparr>shared := (fst (shared ?t), m)\<rparr>)"
    using md by (simp add: s emplace_metadata_def ex_mounted_fields)
  show "find_metadata ex_platform ''k'' ex_started = Some ex_object" "fst (shared ex_started) = [0 \<mapsto> Cachelib ex_allocator2]"
    "service_config ex_started = ex_config"
    "segment_manager ex_started = ex_manager" "use_disk_replica ex_started = False" "client_ping_queue ex_started = [(2, 2)]"
    "allocation_strategy ex_started = \<lparr>retry_counter = 0, shuffles = 2\<rparr>"
    unfolding e mo by (simp_all add: ex_mounted_fields)
qed

section \<open>The states are reached\<close>

lemma ex_new_reachable: "reachable ex_platform (ex_new, [], [])"
  by (rule reachable.start [OF ex_new_eq]) (simp add: metrics_zero_def ex_metrics_def)

lemma ex_segment_valid: "seg_valid ex_segment"
  by (simp add: seg_valid_def ex_segment_def)

lemma ex_mounted_reachable: "reachable ex_platform (ex_mounted, [], [])"
  unfolding ex_mounted_def
  by (rule reachable.step [OF ex_new_reachable step.mount [OF ex_segment_valid surjective_pairing]])

lemma ex_started_reachable: "reachable ex_platform (ex_started, [], [])"
  by (rule reachable.step [OF ex_mounted_reachable step.put_start [OF _ ex_started_eq(1)]]) simp

lemma ex_stored_reachable: "reachable ex_platform (ex_stored, [], [])"
  unfolding ex_stored_def by (rule reachable.step [OF ex_started_reachable step.put_end [OF surjective_pairing]])

lemma ex_ok: "ms_ok ex_platform ex_new {#} {#}" "ms_ok ex_platform ex_mounted {#} {#}" "ms_ok ex_platform ex_started {#} {#}" "ms_ok ex_platform ex_stored {#} {#}"
  using reachable_ok [OF ex_new_reachable ex_platform_law] reachable_ok [OF ex_mounted_reachable ex_platform_law]
    reachable_ok [OF ex_started_reachable ex_platform_law] reachable_ok [OF ex_stored_reachable ex_platform_law]
  by (simp_all add: sys_ok_def)

text \<open>The object that was stored, and its lease, which ended when it began.\<close>

definition ex_complete :: ObjectMetadata where
  "ex_complete = \<lparr>replicas = [ex_replica 0 COMPLETE], obj_size = 200, lease_timeout = 1000, soft_pin_timeout = None, disk_replica_size = 0\<rparr>"

lemma ex_replica_simps [simp]:
  "replica_type (ex_replica i st) = MEMORY" "rep_status (ex_replica i st) = st" "replica_buffers (ex_replica i st) = [ex_buffer\<lparr>buf_allocator := i\<rparr>, ex_buffer2\<lparr>buf_allocator := i\<rparr>]"
  "mark_complete (ex_replica i PROCESSING) = ex_replica i COMPLETE" "is_disk_replica (ex_replica i st) = False"
  "has_invalid_mem_handle H (ex_replica i st) = (H i = None)"
  by (simp_all add: ex_replica_def Replica_memory_def replica_type_def replica_buffers_def mark_complete_def is_disk_replica_def
      has_invalid_mem_handle_def isAllocatorValid_def ex_buffer_def ex_buffer2_def)

lemma ex_started_objects: "objects ex_platform ex_started ''k'' = Some ex_object"
  by (simp add: objects_def visible_def live_def ex_started_eq ex_object_def new_object_def)

lemma ex_stored_object:
  "PutEnd ex_platform 1000 ''k'' MEMORY ex_started = (ex_stored, Inr ())" "objects ex_platform ex_stored ''k'' = Some ex_complete"
  "fst (shared ex_stored) 0 \<noteq> None" "service_config ex_stored = ex_config"
proof -
  obtain s' r where e: "PutEnd ex_platform 1000 ''k'' MEMORY ex_started = (s', r)" by (cases "PutEnd ex_platform 1000 ''k'' MEMORY ex_started")
  then have s': "s' = ex_stored" by (simp add: ex_stored_def)
  note pe = PutEnd_ok [OF ex_ok(3) e]
  have "spec_PutEnd 1000 (default_kv_soft_pin_ttl ex_config) ''k'' MEMORY (objects ex_platform ex_started) =
      ((objects ex_platform ex_started)(''k'' \<mapsto> ex_complete), Inr ())"
    by (simp add: spec_PutEnd_def ex_started_objects ex_object_def new_object_def ex_complete_def GrantLease_def ex_config_def milliseconds_def)
  then show "PutEnd ex_platform 1000 ''k'' MEMORY ex_started = (ex_stored, Inr ())" "objects ex_platform ex_stored ''k'' = Some ex_complete"
    using pe e by (simp_all add: s' ex_started_eq)
  have "same_allocators (fst (shared ex_started)) (fst (shared ex_stored))" "service_config ex_stored = service_config ex_started"
    using pe by (simp_all add: s' only_metadata_def world_frame_def)
  then show "fst (shared ex_stored) 0 \<noteq> None" "service_config ex_stored = ex_config"
    using same_allocators_None [of "fst (shared ex_started)" "fst (shared ex_stored)" 0] by (simp_all add: ex_started_eq)
qed

lemma ex_stored_eq:
  "ex_stored = set_metadata ex_platform ''k'' ex_complete (set_metadata ex_platform ''k'' ex_object ex_started)"
proof -
  have "CleanupStaleHandles ex_object (shared ex_started) = (ex_object, shared ex_started, False)"
    by (simp add: CleanupStaleHandles_def Let_def ex_object_def new_object_def ex_started_eq destroy_replicas_def destroy_buffers_def)
  then have "MetadataAccessor ex_platform ''k'' ex_started = (set_metadata ex_platform ''k'' ex_object ex_started, Some ex_object)"
    by (simp add: MetadataAccessor_def ex_started_eq Let_def)
  then show ?thesis
    by (simp add: ex_stored_def PutEnd_def Let_def ex_started_eq ex_object_def new_object_def GrantLease_def ex_config_def milliseconds_def ex_complete_def)
qed

lemma ex_stored_fields:
  "find_metadata ex_platform ''k'' ex_stored = Some ex_complete" "fst (shared ex_stored) = [0 \<mapsto> Cachelib ex_allocator2]"
  "segment_manager ex_stored = ex_manager" "use_disk_replica ex_stored = False" "client_ping_queue ex_stored = [(2, 2)]"
  "allocation_strategy ex_stored = \<lparr>retry_counter = 0, shuffles = 2\<rparr>"
  by (simp_all add: ex_stored_eq ex_started_eq)

section \<open>A segment that is going away\<close>

text \<open>The segment of the object is being unmounted, and another one with the same layout is mounted.\<close>

definition ex_leaving :: MasterService where
  "ex_leaving = (case PrepareUnmountSegment (1, 1) (segment_manager ex_stored) (shared ex_stored) of (sm, w, _) \<Rightarrow> with_segments ex_stored sm w)"

definition ex_second :: Segment where
  "ex_second = ex_segment\<lparr>seg_id := (1, 2)\<rparr>"

definition ex_stale :: MasterService where
  "ex_stale = fst (MasterService_MountSegment ex_platform ex_second (2, 2) ex_leaving)"

lemma ex_leaving_eq:
  "\<exists>sm w. PrepareUnmountSegment (1, 1) (segment_manager ex_stored) (shared ex_stored) = (sm, w, OK, 33554432) \<and> ex_leaving = with_segments ex_stored sm w"
  "fst (shared ex_leaving) = Map.empty" "allocators (segment_manager ex_leaving) = []" "allocators_by_name (segment_manager ex_leaving) = []"
  "map_of (mounted_segments (segment_manager ex_leaving)) (1, 2) = None" "memory_allocator_kind (segment_manager ex_leaving) = CACHELIB"
  "next_allocator (segment_manager ex_leaving) = 1" "find_metadata ex_platform k ex_leaving = find_metadata ex_platform k ex_stored"
  "service_config ex_leaving = ex_config" "use_disk_replica ex_leaving = False" "client_ping_queue ex_leaving = [(2, 2)]"
  "allocation_strategy ex_leaving = \<lparr>retry_counter = 0, shuffles = 2\<rparr>"
  by (simp_all add: ex_leaving_def PrepareUnmountSegment_def ex_stored_fields ex_stored_object(4) ex_manager_eq Let_def ex_segment_def map_erase_one_def
      release_pointer_def referenced_def)

lemma ex_stale_eq:
  "fst (shared ex_stale) = [1 \<mapsto> Cachelib ex_allocator]" "allocators (segment_manager ex_stale) = [1]"
  "allocators_by_name (segment_manager ex_stale) = [(''s'', [1])]" "find_metadata ex_platform k ex_stale = find_metadata ex_platform k ex_stored"
  "service_config ex_stale = ex_config" "use_disk_replica ex_stale = False" "allocation_strategy ex_stale = \<lparr>retry_counter = 0, shuffles = 2\<rparr>"
proof -
  have "new_allocator CACHELIB ex_second = Some (Cachelib ex_allocator)"
    by (simp add: new_allocator_def ex_second_def ex_segment_def ex_allocator_new)
  then have "\<exists>sm w. MountSegment ex_second (2, 2) (segment_manager ex_leaving) (shared ex_leaving) = (sm, w, OK)
    \<and> fst w = [1 \<mapsto> Cachelib ex_allocator] \<and> allocators sm = [1] \<and> allocators_by_name sm = [(''s'', [1])]"
    by (simp add: MountSegment_def ex_leaving_eq Let_def Slab_kSize_eq ex_second_def ex_segment_def map_push_back_def)
  then obtain sm w where m: "MountSegment ex_second (2, 2) (segment_manager ex_leaving) (shared ex_leaving) = (sm, w, OK)"
    "fst w = [1 \<mapsto> Cachelib ex_allocator]" "allocators sm = [1]" "allocators_by_name sm = [(''s'', [1])]" by blast
  then have e: "ex_stale = with_segments (ex_leaving\<lparr>client_ping_queue := [(2, 2), (2, 2)]\<rparr>) sm w"
    by (simp add: ex_stale_def MasterService_MountSegment_def push_ping_def ex_leaving_eq ex_platform_def)
  show "fst (shared ex_stale) = [1 \<mapsto> Cachelib ex_allocator]" "allocators (segment_manager ex_stale) = [1]"
    "allocators_by_name (segment_manager ex_stale) = [(''s'', [1])]" "find_metadata ex_platform k ex_stale = find_metadata ex_platform k ex_stored"
    "service_config ex_stale = ex_config" "use_disk_replica ex_stale = False" "allocation_strategy ex_stale = \<lparr>retry_counter = 0, shuffles = 2\<rparr>"
    unfolding e using m by (simp_all add: ex_leaving_eq)
qed

lemma ex_stale_reachable: "reachable ex_platform (ex_stale, [], [((1, 1), (2, 2), 33554432)])"
proof -
  obtain sm w where p: "PrepareUnmountSegment (1, 1) (segment_manager ex_stored) (shared ex_stored) = (sm, w, OK, 33554432)" "ex_leaving = with_segments ex_stored sm w"
    using ex_leaving_eq(1) by blast
  have "reachable ex_platform (ex_leaving, [], [((1, 1), (2, 2), 33554432)])"
    using reachable.step [OF ex_stored_reachable, of "(ex_leaving, [], [((1, 1), (2, 2), 33554432)])"] step.prepare [OF p(1), of ex_platform "[]" "[]" "[]" "(2, 2)"] p(2) by simp
  moreover have "seg_valid ex_second" by (simp add: seg_valid_def ex_second_def ex_segment_def)
  ultimately show ?thesis unfolding ex_stale_def by (rule reachable.step [OF _ step.mount [OF _ surjective_pairing]])
qed

lemma ex_stale_objects: "objects ex_platform ex_stale ''k'' = None" "find_metadata ex_platform ''k'' ex_stale = Some ex_complete"
  by (simp_all add: objects_def visible_def live_def ex_stale_eq ex_stored_fields ex_complete_def)

definition ex_lost :: MasterService where
  "ex_lost = fst (PutStart ex_platform ''k'' [100, 100] ex_put ex_stale)"

lemma ex_lost_eq:
  "PutStart ex_platform ''k'' [100, 100] ex_put ex_stale = (ex_lost, Inr [get_descriptor [1 \<mapsto> Cachelib ex_allocator2] (ex_replica 1 PROCESSING)])"
proof -
  obtain s1 b where c: "put_cleanup ex_platform ''k'' ex_stale = (s1, b)" by (cases "put_cleanup ex_platform ''k'' ex_stale")
  obtain m where m: "shared ex_stale = ([1 \<mapsto> Cachelib ex_allocator], m)" using ex_stale_eq(1) by (metis prod.collapse)
  have b: "\<not> b" "fst (shared s1) = [1 \<mapsto> Cachelib ex_allocator]" "segment_manager s1 = segment_manager ex_stale" "use_disk_replica s1 = False"
    "allocation_strategy s1 = allocation_strategy ex_stale"
    using c ex_stale_objects(2)
    by (auto simp: put_cleanup_def CleanupStaleHandles_def Let_def ex_complete_def ex_stale_eq(4-) m destroy_replicas_def destroy_buffers_def
        destroy_buffer_def ex_buffer_def ex_buffer2_def)
  have "put_args_ok ''k'' [100, 100] ex_put ex_stale" by (simp add: put_args_ok_def ex_put_def kMaxSliceSize_def push_bit_eq_mult)
  moreover have "shared s1 = ([1 \<mapsto> Cachelib ex_allocator], snd (shared s1))" using b(2) by (metis prod.collapse)
  ultimately have "snd (PutStart ex_platform ''k'' [100, 100] ex_put ex_stale) = Inr [get_descriptor [1 \<mapsto> Cachelib ex_allocator2] (ex_replica 1 PROCESSING)]"
    using ex_Allocate [of 1 "snd (shared s1)" "\<lparr>retry_counter = 0, shuffles = 2\<rparr>"] c b
    by (simp add: PutStart_unfold ex_stale_eq put_replicas_def ex_platform_def)
  then show ?thesis by (simp add: ex_lost_def prod_eq_iff)
qed

end
