(* ===== verification/Master_Progress.thy ===== *)
theory Master_Progress
  imports Master_Evict
begin

text \<open>
  Eviction makes progress: when an object can be evicted, a round of eviction evicts one. A
  round that evicts nothing leaves the state alone and has seen every object that could go.
\<close>

declare map_of_eq_Some_iff [simp del] split_paired_All [simp del] split_paired_Ex [simp del]

section \<open>Counting evictions\<close>

abbreviation idle :: "time \<Rightarrow> ObjectMetadata \<Rightarrow> bool" where
  "idle now \<equiv> evictable False now"

lemma first_scan_mono:
  "scan_metadata go (first_pass_body now t) al es w = (al', es', w') \<Longrightarrow> evicted_count es \<le> evicted_count es'"
proof -
  assume sc: "scan_metadata go (first_pass_body now t) al es w = (al', es', w')"
  show ?thesis
    by (rule scan_metadata_inv [where I = "\<lambda>e. evicted_count es \<le> evicted_count e", OF _ sc])
      (auto simp: first_pass_body_def split: if_splits prod.splits)
qed

lemma first_body_idle: "first_pass_body now t k md es w =
    (if idle now md then
       if lease_timeout md \<le> t then
         case evict_object md (total_freed_size es) w of (md, freed_bytes, w, erase) \<Rightarrow>
           (md, es\<lparr>total_freed_size := freed_bytes, evicted_count := evicted_count es + 1\<rparr>, w, erase)
       else (md, es\<lparr>no_pin_objects := no_pin_objects es @ [lease_timeout md]\<rparr>, w, False)
     else (md, es, w, False))"
  by (auto simp: first_pass_body_def evictable_def HasDiff_none IsLeaseExpired_def split: prod.splits)

lemma first_scan_none:
  assumes "scan_metadata always (first_pass_body now t) al es w = (al', es', w')" "evicted_count es' = evicted_count es"
  shows "al' = al \<and> w' = w \<and> no_pin_objects es' = no_pin_objects es @ map (lease_timeout \<circ> snd) (filter (idle now \<circ> snd) al)
    \<and> soft_pin_objects es' = soft_pin_objects es \<and> object_count es' = object_count es
    \<and> (\<forall>(k, md) \<in> set al. idle now md \<longrightarrow> t < lease_timeout md)"
  using assms
proof (induction al arbitrary: es w al')
  case (Cons x al)
  obtain k md where x: "x = (k, md)" by (cases x)
  obtain md1 es1 w1 e where body: "first_pass_body now t k md es w = (md1, es1, w1, e)" by (cases "first_pass_body now t k md es w") auto
  obtain rest where r: "scan_metadata always (first_pass_body now t) al es1 (if e then destroy_metadata md1 w1 else w1) = (rest, es', w')"
    "al' = (if e then rest else (k, md1) # rest)"
    using Cons.prems(1) body x by (auto split: prod.splits)
  have "evicted_count es1 \<le> evicted_count es" using first_scan_mono [OF r(1)] Cons.prems(2) by simp
  then have nt: "\<not> (idle now md \<and> lease_timeout md \<le> t)" using body by (auto simp: first_body_idle split: prod.splits)
  then have b: "md1 = md" "w1 = w" "\<not> e" "evicted_count es1 = evicted_count es" "soft_pin_objects es1 = soft_pin_objects es" "object_count es1 = object_count es"
    "no_pin_objects es1 = no_pin_objects es @ (if idle now md then [lease_timeout md] else [])"
    using body by (auto simp: first_body_idle split: if_splits)
  have "scan_metadata always (first_pass_body now t) al es1 w = (rest, es', w')" using r(1) b by simp
  from Cons.IH [OF this] Cons.prems(2) b nt r(2) show ?case by (auto simp: x)
qed simp

section \<open>The first pass\<close>

lemma collect_none:
  assumes "fold (collect_candidate c now n) al (cs, es) = (cs', es')" "0 < n"
  shows "no_pin_objects es' = no_pin_objects es \<and> evicted_count es' = evicted_count es \<and> object_count es' = object_count es
    \<and> (\<forall>(k, md) \<in> set al. idle now md \<longrightarrow> cs' \<noteq> []) \<and> (cs \<noteq> [] \<longrightarrow> cs' \<noteq> [])"
  using assms
proof (induction al arbitrary: cs es)
  case (Cons x al)
  obtain k md where x: "x = (k, md)" by (cases x)
  obtain cs1 es1 where c1: "collect_candidate c now n x (cs, es) = (cs1, es1)" by (cases "collect_candidate c now n x (cs, es)")
  have "no_pin_objects es1 = no_pin_objects es \<and> evicted_count es1 = evicted_count es \<and> object_count es1 = object_count es
    \<and> (idle now md \<longrightarrow> cs1 \<noteq> []) \<and> (cs \<noteq> [] \<longrightarrow> cs1 \<noteq> [])"
    using c1 Cons.prems(2) by (auto simp: x collect_candidate_def evictable_def HasDiff_none IsLeaseExpired_def split: if_splits)
  then show ?case using Cons.IH [of cs1 es1] Cons.prems c1 by (auto simp: x)
qed simp

definition idle_leases :: "time \<Rightarrow> MasterService \<Rightarrow> nat list \<Rightarrow> time list" where
  "idle_leases now s is = map (lease_timeout \<circ> snd) (filter (idle now \<circ> snd) (entries s is))"

lemma idle_leases_simps [simp]:
  "idle_leases now s [] = []"
  "idle_leases now s (i # is) = map (lease_timeout \<circ> snd) (filter (idle now \<circ> snd) (metadata_shards s i)) @ idle_leases now s is"
  by (simp_all add: idle_leases_def entries_def)

lemma scan_shard_same:
  "scan_metadata go body (metadata_shards s i) a (shared s) = (metadata_shards s i, a', shared s) \<Longrightarrow> scan_shard go body i a s = (s, a')"
  by (simp add: scan_shard_def)

lemma collect_count: "fold (collect_candidate c now n) al (cs, es) = (cs', es') \<Longrightarrow> evicted_count es' = evicted_count es \<and> object_count es' = object_count es"
proof (induction al arbitrary: cs es)
  case (Cons x al)
  obtain cs1 es1 where c1: "collect_candidate c now n x (cs, es) = (cs1, es1)" by (cases "collect_candidate c now n x (cs, es)")
  have "evicted_count es1 = evicted_count es \<and> object_count es1 = object_count es"
    using c1 by (cases x) (auto simp: collect_candidate_def split: if_splits)
  then show ?case using Cons.IH [of cs1 es1] Cons.prems c1 by simp
qed simp

lemma first_pass_shard_cases:
  assumes f: "first_pass_shard p now ratio i es s = (s', es')"
  obtains cs es2 n where
    "n = \<lceil>rounding p (of_int (object_count es + int (length (metadata_shards s i))) * ratio)\<rceil> - evicted_count es"
    "fold (collect_candidate (service_config s) now n) (metadata_shards s i) ([], es\<lparr>object_count := object_count es + int (length (metadata_shards s i))\<rparr>) = (cs, es2)"
    "(s', es') = (if n > 0 \<and> cs \<noteq> [] then scan_shard always (first_pass_body now (nth_smallest cs (min n (int (length cs))))) i es2 s else (s, es2))"
proof -
  define es1 where "es1 = es\<lparr>object_count := object_count es + int (length (metadata_shards s i))\<rparr>"
  define n where "n = \<lceil>rounding p (of_int (object_count es1) * ratio)\<rceil> - evicted_count es1"
  obtain cs es2 where c: "fold (collect_candidate (service_config s) now n) (metadata_shards s i) ([], es1) = (cs, es2)"
    by (cases "fold (collect_candidate (service_config s) now n) (metadata_shards s i) ([], es1)")
  have "(s', es') = (if n > 0 \<and> cs \<noteq> [] then scan_shard always (first_pass_body now (nth_smallest cs (min n (int (length cs))))) i es2 s else (s, es2))"
    using f c by (auto simp: first_pass_shard_def Let_def es1_def n_def split: if_splits)
  then show ?thesis using c by (intro that [of n cs es2]) (simp_all add: n_def es1_def)
qed

lemma first_pass_shard_mono:
  assumes f: "first_pass_shard p now ratio i es s = (s', es')" shows "evicted_count es \<le> evicted_count es'"
  using f
proof (cases rule: first_pass_shard_cases)
  case (1 cs es2 n)
  have c: "evicted_count es2 = evicted_count es" using collect_count [OF 1(2)] by simp
  show ?thesis
  proof (cases "n > 0 \<and> cs \<noteq> []")
    case True
    then obtain al w where "scan_metadata always (first_pass_body now (nth_smallest cs (min n (int (length cs))))) (metadata_shards s i) es2 (shared s) = (al, es', w)"
      using 1(3) by (auto simp: scan_shard_def split: prod.splits)
    from first_scan_mono [OF this] c show ?thesis by simp
  qed (use 1(3) c in \<open>auto split: if_splits\<close>)
qed

lemma first_pass_mono: "first_pass p now ratio is es s = (s', es') \<Longrightarrow> evicted_count es \<le> evicted_count es'"
proof (induction "is" arbitrary: es s)
  case (Cons i "is")
  obtain s1 es1 where s1: "first_pass_shard p now ratio i es s = (s1, es1)" by (cases "first_pass_shard p now ratio i es s")
  show ?case using Cons.IH [of es1 s1] Cons.prems s1 first_pass_shard_mono [OF s1] by simp
qed simp

lemma first_pass_shard_none:
  assumes f: "first_pass_shard p now ratio i es s = (s', es')" and none: "evicted_count es = 0" "evicted_count es' = 0"
    and pos: "\<And>n. 0 < n \<Longrightarrow> 0 < rounding p (of_int n * ratio)" and oc: "0 \<le> object_count es"
  shows "s' = s \<and> no_pin_objects es' = no_pin_objects es @ map (lease_timeout \<circ> snd) (filter (idle now \<circ> snd) (metadata_shards s i))
    \<and> object_count es' = object_count es + int (length (metadata_shards s i))"
  using f
proof (cases rule: first_pass_shard_cases)
  case (1 cs es2 n)
  let ?al = "metadata_shards s i"
  have oc2: "object_count es2 = object_count es + int (length ?al)" using collect_count [OF 1(2)] by simp
  show ?thesis
  proof (cases "?al = []")
    case True
    then show ?thesis using 1(2,3) by simp
  next
    case False
    then have "0 < length ?al" by simp
    then have "0 < object_count es + int (length ?al)" using oc by linarith
    then have "0 < n" using pos [of "object_count es + int (length ?al)"] none(1) 1(1) by simp
    note cn = collect_none [OF 1(2) this]
    show ?thesis
    proof (cases "cs = []")
      case True
      then have "filter (idle now \<circ> snd) ?al = []" using cn by (auto simp: filter_empty_conv)
      then show ?thesis using 1(3) True cn oc2 by simp
    next
      case False
      then obtain al w where m: "scan_metadata always (first_pass_body now (nth_smallest cs (min n (int (length cs))))) ?al es2 (shared s) = (al, es', w)"
        "s' = s\<lparr>metadata_shards := (metadata_shards s)(i := al), shared := w\<rparr>"
        using 1(3) \<open>0 < n\<close> by (auto simp: scan_shard_def split: prod.splits)
      have "evicted_count es' = evicted_count es2" using cn none by simp
      from first_scan_none [OF m(1) this] show ?thesis using m(2) cn oc2 by simp
    qed
  qed
qed

lemma first_pass_none:
  assumes "first_pass p now ratio is es s = (s', es')" "evicted_count es = 0" "evicted_count es' = 0" "0 \<le> object_count es"
    and pos: "\<And>n. 0 < n \<Longrightarrow> 0 < rounding p (of_int n * ratio)"
  shows "s' = s \<and> no_pin_objects es' = no_pin_objects es @ idle_leases now s is \<and> object_count es' = object_count es + int (length (entries s is))"
  using assms(1-4)
proof (induction "is" arbitrary: es s)
  case (Cons i "is")
  obtain s1 es1 where s1: "first_pass_shard p now ratio i es s = (s1, es1)" by (cases "first_pass_shard p now ratio i es s")
  have r: "first_pass p now ratio is es1 s1 = (s', es')" using Cons.prems(1) s1 by simp
  have e1: "evicted_count es1 = 0" using first_pass_shard_mono [OF s1] first_pass_mono [OF r] Cons.prems by simp
  note a = first_pass_shard_none [OF s1 Cons.prems(2) e1 pos Cons.prems(4)]
  from Cons.IH [OF r e1 Cons.prems(3)] a Cons.prems(4) show ?case by (simp add: entries_def)
qed (simp add: entries_def)

section \<open>The second pass\<close>

lemma second_scan_mono:
  assumes "scan_metadata go body al (es, n) w = (al', (es', n'), w')" and body: "\<And>k md. body k md = second_pass_step (c k md) md"
  shows "evicted_count es \<le> evicted_count es'"
proof -
  have "evicted_count es \<le> evicted_count (fst (es', n'))"
    by (rule scan_metadata_inv [where I = "\<lambda>e. evicted_count es \<le> evicted_count (fst e)", OF _ assms(1)])
      (auto simp: body second_pass_step_def split: if_splits prod.splits)
  then show ?thesis by simp
qed

lemma second_scans_mono:
  assumes "scan_shards go body is (es, n) s = (s', es', n')" and body: "\<And>k md. body k md = second_pass_step (c k md) md"
  shows "evicted_count es \<le> evicted_count es'"
proof -
  have "evicted_count es \<le> evicted_count (fst (es', n'))"
    by (rule scan_shards_inv [where I = "\<lambda>e. evicted_count es \<le> evicted_count (fst e)", OF _ assms(1)])
      (auto simp: body second_pass_step_def split: if_splits prod.splits)
  then show ?thesis by simp
qed

lemma second_scan_none:
  assumes "scan_metadata (\<lambda>(_, n). n > 0) body al (es, n) w = (al', (es', n'), w')" and body: "\<And>k md. body k md = second_pass_step (c k md) md"
    and "evicted_count es' = evicted_count es" "0 < n"
  shows "al' = al \<and> w' = w \<and> es' = es \<and> n' = n \<and> (\<forall>(k, md) \<in> set al. \<not> c k md)"
  using assms(1,3,4)
proof (induction al arbitrary: w al')
  case (Cons x al)
  obtain k md where x: "x = (k, md)" by (cases x)
  obtain md1 es1 n1 w1 e where b: "body k md (es, n) w = (md1, (es1, n1), w1, e)" by (cases "body k md (es, n) w") auto
  obtain rest where r: "scan_metadata (\<lambda>(_, n). n > 0) body al (es1, n1) (if e then destroy_metadata md1 w1 else w1) = (rest, (es', n'), w')"
    "al' = (if e then rest else (k, md1) # rest)"
    using Cons.prems(1,3) b x by (auto split: prod.splits)
  have "\<not> c k md"
  proof
    assume "c k md"
    then have "evicted_count es1 = evicted_count es + 1" using b by (auto simp: body second_pass_step_def split: prod.splits)
    then show False using second_scan_mono [OF r(1) body] Cons.prems(2) by simp
  qed
  then have e: "md1 = md" "es1 = es" "n1 = n" "w1 = w" "\<not> e" using b by (auto simp: body second_pass_step_def)
  then show ?case using Cons.IH [of w rest] r Cons.prems \<open>\<not> c k md\<close> by (simp add: x)
qed simp

lemma second_scans_none:
  assumes "scan_shards (\<lambda>(_, n). n > 0) body is (es, n) s = (s', es', n')" and body: "\<And>k md. body k md = second_pass_step (c k md) md"
    and "evicted_count es' = evicted_count es" "0 < n"
  shows "\<forall>(k, md) \<in> set (entries s is). \<not> c k md"
  using assms(1,3,4)
proof (induction "is")
  case (Cons i "is")
  obtain s1 es1 n1 where s1: "scan_shard (\<lambda>(_, n). n > 0) body i (es, n) s = (s1, es1, n1)" by (cases "scan_shard (\<lambda>(_, n). n > 0) body i (es, n) s") auto
  have r: "scan_shards (\<lambda>(_, n). n > 0) body is (es1, n1) s1 = (s', es', n')" using Cons.prems s1 by simp
  obtain al w where m: "scan_metadata (\<lambda>(_, n). n > 0) body (metadata_shards s i) (es, n) (shared s) = (al, (es1, n1), w)"
    "s1 = s\<lparr>metadata_shards := (metadata_shards s)(i := al), shared := w\<rparr>"
    using s1 by (auto simp: scan_shard_def split: prod.splits)
  have "evicted_count es1 = evicted_count es" using second_scan_mono [OF m(1) body] second_scans_mono [OF r body] Cons.prems(2) by simp
  from second_scan_none [OF m(1) body this Cons.prems(3)]
  have a: "al = metadata_shards s i" "w = shared s" "es1 = es" "n1 = n" "\<forall>(k, md) \<in> set (metadata_shards s i). \<not> c k md" by auto
  then have "s1 = s" using m(2) by simp
  then have "\<forall>(k, md) \<in> set (entries s is). \<not> c k md" using Cons.IH r a Cons.prems by simp
  then show ?case using a(5) by (auto simp: entries_def)
qed (simp add: entries_def)

lemma second_pass_mono:
  assumes e: "second_pass now lower p order es s = (s', es')" shows "evicted_count es \<le> evicted_count es'"
proof -
  consider "es' = es" | go n t n' where "scan_shards go (second_pass_A_body now t) order (es, n) s = (s', es', n')"
    | go n u n' where "scan_shards go (second_pass_B_body now u) order (es, n) s = (s', es', n')"
    using e unfolding second_pass_def Let_def by (auto split: if_splits prod.splits)
  then show ?thesis
  proof cases
    case 2
    show ?thesis by (rule second_scans_mono [OF 2]) (simp add: second_pass_A_body_def)
  next
    case 3
    show ?thesis by (rule second_scans_mono [OF 3]) (simp add: second_pass_B_body_def)
  qed simp
qed

lemma second_pass_none:
  assumes e: "second_pass now lower p order es s = (s', es')" and none: "evicted_count es = 0" "evicted_count es' = 0"
    and np: "no_pin_objects es = idle_leases now s order" "no_pin_objects es \<noteq> []"
    and pos: "0 < rounding p (of_int (object_count es) * lower)"
  shows False
proof -
  define n where "n = min (\<lceil>rounding p (of_int (object_count es) * lower)\<rceil> - evicted_count es)
    (int (length (no_pin_objects es)) + int (length (soft_pin_objects es)))"
  have "0 < int (length (no_pin_objects es))" using np(2) by simp
  then have "0 < int (length (no_pin_objects es)) + int (length (soft_pin_objects es))" by linarith
  then have "0 < n" using pos none(1) by (simp add: n_def)
  obtain k0 md0 where md0: "(k0, md0) \<in> set (entries s order)" "idle now md0"
    using np by (auto simp: idle_leases_def filter_empty_conv)
  show False
  proof (cases "n \<le> int (length (no_pin_objects es))")
    case True
    define t where "t = nth_smallest (no_pin_objects es) n"
    have "t \<in> set (no_pin_objects es)" unfolding t_def by (rule nth_smallest_mem [OF \<open>0 < n\<close> True])
    then obtain k md where md: "(k, md) \<in> set (entries s order)" "idle now md" "t = lease_timeout md"
      using np(1) by (auto simp: idle_leases_def)
    obtain n' where sc: "scan_shards (\<lambda>(_, n). n > 0) (second_pass_A_body now t) order (es, n) s = (s', es', n')"
      using e \<open>0 < n\<close> True unfolding second_pass_def Let_def n_def [symmetric] t_def [symmetric] by (auto split: if_splits prod.splits)
    have "\<forall>(k, md) \<in> set (entries s order). \<not> (lease_timeout md \<le> t \<and> \<not> IsSoftPinned now md
       \<and> HasDiffRepStatus COMPLETE MEMORY md = None \<and> HasMemReplica md)"
      by (rule second_scans_none [OF sc _ _ \<open>0 < n\<close>]) (simp_all add: second_pass_A_body_def none)
    then show False using md by (auto simp: evictable_def HasDiff_none)
  next
    case False
    define u where "u = nth_smallest (soft_pin_objects es) (n - int (length (no_pin_objects es)))"
    have "soft_pin_objects es \<noteq> []" using False by (auto simp: n_def)
    then obtain n' where sc: "scan_shards (\<lambda>(_, n). n > 0) (second_pass_B_body now u) order (es, n) s = (s', es', n')"
      using e \<open>0 < n\<close> False unfolding second_pass_def Let_def n_def [symmetric] u_def [symmetric] by (auto split: if_splits prod.splits)
    have "\<forall>(k, md) \<in> set (entries s order). \<not> (\<not> (\<not> IsLeaseExpired now md \<or> HasDiffRepStatus COMPLETE MEMORY md \<noteq> None \<or> \<not> HasMemReplica md)
        \<and> (\<not> IsSoftPinned now md \<or> lease_timeout md \<le> u))"
      by (rule second_scans_none [OF sc _ _ \<open>0 < n\<close>]) (simp_all add: second_pass_B_body_def none)
    then show False using md0 by (auto simp: evictable_def HasDiff_none IsLeaseExpired_def)
  qed
qed

section \<open>Progress\<close>

lemma entries_order: "set (entries s (shard_order k)) = set (entries s all_shards)"
proof -
  have "card (set (shard_order k)) = kNumShards" using distinct_card [OF shard_order_distinct [of k]] by (simp add: shard_order_def)
  then have "set (shard_order k) = {..<kNumShards}" by (intro card_subset_eq) auto
  then show ?thesis by (auto simp: entries_def)
qed

lemma BatchEvict_progress:
  assumes ok: "ms_ok p s X B" and find: "find_metadata p k s = Some md" and md: "idle now md"
    and t: "0 < target" "0 < lower" and pos: "\<And>n x. 0 < n \<Longrightarrow> x \<in> {target, lower} \<Longrightarrow> 0 < rounding p (of_int n * x)"
    and s': "s' = BatchEvict p random now target lower s"
  shows "lost_memory p s s' \<noteq> {}"
proof
  assume lost: "lost_memory p s s' = {}"
  let ?order = "shard_order (random mod kNumShards)" and ?lower = "if target < lower then target else lower"
  let ?allow = "allow_evict_soft_pinned_objects (service_config s)"
  define es where "es = \<lparr>evicted_count = 0, object_count = 0, total_freed_size = 0, no_pin_objects = [], soft_pin_objects = []\<rparr>"
  obtain s1 es1 where p1: "first_pass p now target ?order es s = (s1, es1)" by (cases "first_pass p now target ?order es s")
  obtain s2 es2 where p2: "second_pass now ?lower p ?order es1 s1 = (s2, es2)" by (cases "second_pass now ?lower p ?order es1 s1")
  have "evicting p ?allow now s s es" by (simp add: evicting_def es_def candidates_ok_def entry_rel_def at_rel_refl evict_rel_refl)
  from first_pass_ok [OF ok this refl shard_order_lt p1]
  have f: "ms_ok p s1 X B" "evicting p ?allow now s s1 es1" by auto
  have g: "ms_ok p s2 X B" "evicting p ?allow now s s2 es2" using second_pass_ok [OF f shard_order_lt shard_order_distinct p2] by auto
  have "find_metadata p k s' = find_metadata p k s2" for k
    using p1 p2 unfolding s' BatchEvict_def Let_def es_def [symmetric] by simp
  then have "lost_memory p s s2 = {}" using lost by (simp add: lost_memory_def)
  moreover have "int (card (lost_memory p s s2)) = total in_memory (all_metadata s) - total in_memory (all_metadata s2)"
    by (rule lost_memory_card [of p s s2 ?allow now]) (use ok g in \<open>simp_all add: ms_ok_def evicting_def\<close>)
  ultimately have e2: "evicted_count es2 = 0" using g(2) by (simp add: evicting_def)
  have "evicted_count es1 \<le> evicted_count es2" by (rule second_pass_mono [OF p2])
  then have e1: "evicted_count es1 = 0" using first_pass_mono [OF p1] e2 by (simp add: es_def)
  have a: "s1 = s" "no_pin_objects es1 = idle_leases now s ?order" "object_count es1 = int (length (entries s ?order))"
    using first_pass_none [OF p1 _ e1] pos by (auto simp: es_def)
  have "(k, md) \<in> set (entries s ?order)" using find ok by (simp add: entries_order entries_find [of p s] ms_ok_def)
  then have ne: "idle_leases now s ?order \<noteq> []" "entries s ?order \<noteq> []"
    using md by (auto simp: idle_leases_def filter_empty_conv intro!: bexI [of _ "(k, md)"])
  then have "0 < object_count es1" by (simp add: a(3))
  then have "0 < rounding p (of_int (object_count es1) * ?lower)" using pos by simp
  from second_pass_none [OF p2 e1 e2 _ _ this] a ne show False by simp
qed

end
