(* ===== verification/Store_Properties.thy ===== *)
theory Store_Properties
  imports Master_Example Master_Progress
begin

text \<open>
  The properties of the master service: memory safety and accounts in every reachable state,
  the handlers against their specifications, putting and getting an object, leases, eviction,
  unmounting and the client monitor.
\<close>

declare map_of_eq_Some_iff [simp del] split_paired_All [simp del] split_paired_Ex [simp del]

section \<open>Memory\<close>

lemma mset_two: "i < length xs \<Longrightarrow> j < length xs \<Longrightarrow> i \<noteq> j \<Longrightarrow> {#xs ! i, xs ! j#} \<subseteq># mset xs"
proof -
  assume ij: "i < length xs" "j < length xs" "i \<noteq> j"
  have le: "{#xs ! a, xs ! b#} \<subseteq># mset xs" if "a < b" "b < length xs" for a b
  proof -
    have "mset xs = mset (take b xs) + mset (drop b xs)" by (metis append_take_drop_id mset_append)
    moreover have "xs ! a \<in># mset (take b xs)" using that by (simp add: in_set_conv_nth) (metis nth_take)
    moreover have "xs ! b \<in># mset (drop b xs)" using that by (metis Cons_nth_drop_Suc in_set_conv_decomp set_mset_mset append_Nil)
    ultimately show ?thesis by (metis (no_types, lifting) add_mset_add_single mset_subset_eq_single subset_mset.add_mono union_commute)
  qed
  show ?thesis using le [of i j] le [of j i] ij by (cases "i < j") (auto simp: add_mset_commute)
qed

text \<open>The buffer at a position of an object: a replica and a slice of it.\<close>

definition buffer_at :: "ObjectMetadata \<Rightarrow> nat \<Rightarrow> nat \<Rightarrow> AllocatedBuffer option" where
  "buffer_at md i a = (if i < length (replicas md) \<and> a < length (replica_buffers (replicas md ! i))
     then Some (replica_buffers (replicas md ! i) ! a) else None)"

lemma buffer_at_mem: "buffer_at md i a = Some x \<Longrightarrow> x \<in># metadata_buffers md"
  by (auto simp: buffer_at_def metadata_buffers_def split: if_splits intro!: bexI [of _ "replicas md ! i"])

lemma concat_two:
  "i < length xss \<Longrightarrow> j < length xss \<Longrightarrow> i \<noteq> j \<Longrightarrow> x \<in> set (xss ! i) \<Longrightarrow> y \<in> set (xss ! j) \<Longrightarrow> {#x, y#} \<subseteq># mset (concat xss)"
proof -
  assume ij: "i < length xss" "j < length xss" "i \<noteq> j" and x: "x \<in> set (xss ! i)" and y: "y \<in> set (xss ! j)"
  have s: "mset (concat xss) = sum_mset (image_mset mset (mset xss))" by (induction xss) auto
  obtain R where "mset xss = {#xss ! i, xss ! j#} + R" using mset_two [OF ij] by (metis mset_subset_eq_exists_conv)
  then have "mset (concat xss) = mset (xss ! i) + mset (xss ! j) + sum_mset (image_mset mset R)" by (simp add: s)
  moreover have "{#x#} + {#y#} \<subseteq># mset (xss ! i) + mset (xss ! j)" using x y by (intro subset_mset.add_mono) auto
  ultimately show ?thesis by (metis add_mset_add_single mset_subset_eq_add_left subset_mset.order_trans union_commute)
qed

lemma buffer_at_two:
  assumes "buffer_at md i a = Some x" "buffer_at md j b = Some y" "(i, a) \<noteq> (j, b)"
  shows "{#x, y#} \<subseteq># metadata_buffers md"
proof (cases "i = j")
  case True
  let ?bs = "replica_buffers (replicas md ! i)"
  have "{#x, y#} \<subseteq># mset ?bs" using assms True mset_two [of a ?bs b] by (auto simp: buffer_at_def split: if_splits)
  moreover have "mset ?bs \<subseteq># metadata_buffers md"
  proof -
    have "i < length (replicas md)" using assms(1) by (simp add: buffer_at_def split: if_splits)
    then have "concat (map replica_buffers (replicas md)) = concat (map replica_buffers (take i (replicas md))) @ ?bs @ concat (map replica_buffers (drop (Suc i) (replicas md)))"
      by (metis concat.simps(2) concat_append id_take_nth_drop list.simps(9) map_append)
    then show ?thesis by (simp add: metadata_buffers_def)
  qed
  ultimately show ?thesis by (rule subset_mset.order_trans)
next
  case False
  have "{#x, y#} \<subseteq># mset (concat (map replica_buffers (replicas md)))"
    by (rule concat_two [of i _ j]) (use assms False in \<open>auto simp: buffer_at_def split: if_splits\<close>)
  then show ?thesis by (simp add: metadata_buffers_def)
qed

lemma all_buffers_two:
  assumes ok: "shards_ok p s" and f: "find_metadata p k s = Some md" "find_metadata p k' s = Some md'"
    and x: "buffer_at md i a = Some x" and y: "buffer_at md' j b = Some y" and ne: "(k, i, a) \<noteq> (k', j, b)"
  shows "{#x, y#} \<subseteq># all_buffers (all_metadata s)"
proof (cases "k = k'")
  case True
  then have "{#x, y#} \<subseteq># metadata_buffers md" using buffer_at_two [of md i a x j b y] f x y ne by auto
  moreover obtain R where "all_metadata s = add_mset md R" using all_metadata_entry [OF ok f(1)] by blast
  ultimately show ?thesis by (simp add: subset_mset.add_increasing2)
next
  case False
  let ?es = "entries s all_shards"
  have "distinct (map fst ?es)" by (rule entries_distinct [OF ok distinct_upt all_shards_lt])
  have mem: "(k, md) \<in> set ?es" "(k', md') \<in> set ?es" using f by (simp_all add: entries_find [OF ok])
  then obtain m n where mn: "m < length ?es" "n < length ?es" "?es ! m = (k, md)" "?es ! n = (k', md')" by (meson in_set_conv_nth)
  have "m \<noteq> n" using mn False by auto
  then obtain R where "mset ?es = {#(k, md), (k', md')#} + R" using mset_two [of m ?es n] mn by (metis mset_subset_eq_exists_conv)
  then have "all_metadata s = {#md, md'#} + image_mset snd R" by (simp add: all_metadata_entries)
  moreover have "{#x#} + {#y#} \<subseteq># metadata_buffers md + metadata_buffers md'"
    using buffer_at_mem [OF x] buffer_at_mem [OF y] by (intro subset_mset.add_mono) auto
  ultimately show ?thesis by (simp add: add_mset_commute) (metis add_mset_add_single subset_mset.add_increasing2 union_assoc union_commute subset_mset.bot_least)
qed

lemma reachable_ms_ok:
  assumes "reachable p (s, ttl, ps)" "shuffle_law p"
  shows "ms_ok p s {#} {#}" "pending_ok (segment_manager s) ps" "heap_ok (fst (shared s)) (all_buffers (all_metadata s))"
  using reachable_ok [OF assms] by (simp_all add: sys_ok_def ms_ok_def store_ok_def world_ok_def)

text \<open>
  C1: Whatever requests, evictions, unmountings and monitor rounds led to a state, two different
  pieces of memory of the stored objects (of different objects, of different replicas or of
  different slices) that lie in the same mounted segment do not overlap, and a piece whose
  segment is still mounted lies within the address range of that segment.
\<close>

theorem objects_never_overlap:
  assumes "reachable p (s, ttl, ps)" "shuffle_law p"
    and "find_metadata p k s = Some md" "buffer_at md i a = Some x"
    and "find_metadata p k' s = Some md'" "buffer_at md' j b = Some y"
    and "(k, i, a) \<noteq> (k', j, b)" "buf_allocator y = buf_allocator x" "isAllocatorValid (fst (shared s)) x"
  shows "disjoint_regions (buffer_region x) (buffer_region y)
    \<and> (\<exists>sid ms. map_of (mounted_segments (segment_manager s)) sid = Some ms \<and> ms_allocator ms = Some (buf_allocator x)
         \<and> within_region (unat (seg_base (ms_segment ms)), unat (seg_size (ms_segment ms))) (buffer_region x))"
proof
  note r = reachable_ms_ok [OF assms(1,2)]
  have two: "{#x, y#} \<subseteq># all_buffers (all_metadata s)"
    by (rule all_buffers_two [OF ms_okD(3) [OF r(1)] assms(3,5,4,6,7)])
  show "disjoint_regions (buffer_region x) (buffer_region y)"
    by (rule heap_disjoint [OF r(3) two]) (use assms(8,9) in \<open>simp_all add: isAllocatorValid_def\<close>)
  obtain b where b: "fst (shared s) (buf_allocator x) = Some b" using assms(9) by (auto simp: isAllocatorValid_def)
  obtain sid where "mounted_as (segment_manager s) sid (buf_allocator x)" using seg_invD(3) [OF ms_okD(2) [OF r(1)] b] by blast
  then obtain ms where ms: "map_of (mounted_segments (segment_manager s)) sid = Some ms" "ms_allocator ms = Some (buf_allocator x)"
    by (auto simp: mounted_as_def)
  have "serves b (ms_segment ms)" using seg_invD(2) [OF ms_okD(2) [OF r(1)] ms(1)] ms(2) b by (auto simp: mounted_ok_def)
  moreover have "x \<in># all_buffers (all_metadata s)" using two by (metis insert_subset_eq_iff)
  then have "within_region (ba_range b) (buffer_region x)" by (rule heap_within [OF r(3) _ b])
  ultimately show "\<exists>sid ms. map_of (mounted_segments (segment_manager s)) sid = Some ms \<and> ms_allocator ms = Some (buf_allocator x)
         \<and> within_region (unat (seg_base (ms_segment ms)), unat (seg_size (ms_segment ms))) (buffer_region x)"
    using ms by (auto simp: serves_def)
qed

lemma objects_never_overlap_witness:
  "disjoint_regions (buffer_region (ex_buffer\<lparr>buf_allocator := 0\<rparr>)) (buffer_region (ex_buffer2\<lparr>buf_allocator := 0\<rparr>))
    \<and> (\<exists>sid ms. map_of (mounted_segments (segment_manager ex_stored)) sid = Some ms \<and> ms_allocator ms = Some 0
         \<and> within_region (unat (seg_base (ms_segment ms)), unat (seg_size (ms_segment ms))) (buffer_region (ex_buffer\<lparr>buf_allocator := 0\<rparr>)))"
  using objects_never_overlap [OF ex_stored_reachable ex_platform_law ex_stored_fields(1) _ ex_stored_fields(1), of 0 0 "ex_buffer\<lparr>buf_allocator := 0\<rparr>" 0 1
      "ex_buffer2\<lparr>buf_allocator := 0\<rparr>"]
  by (simp add: buffer_at_def ex_complete_def isAllocatorValid_def ex_stored_fields)

section \<open>Accounts\<close>

lemma GetKeyCount_entries: "GetKeyCount s = length (entries s all_shards)"
  by (simp add: GetKeyCount_def entries_def length_concat comp_def)

lemma GetAllKeys_entries: "GetAllKeys s = Inr (map fst (entries s all_shards))"
  by (simp add: GetAllKeys_def entries_def map_concat comp_def)

lemma gauges_match_tables_parts:
  assumes "reachable p (s, ttl, ps)" "shuffle_law p"
  shows "key_count (snd (shared s)) = of_nat (GetKeyCount s)"
    "mem_allocated_size (snd (shared s)) = total_size (all_buffers (all_metadata s))"
    "mem_total_capacity (snd (shared s)) = total_capacity (segment_manager s)"
    "active_clients (snd (shared s)) = of_nat (card (ok_client s))"
    "\<exists>keys. GetAllKeys s = Inr keys \<and> distinct keys \<and> length keys = GetKeyCount s \<and> set keys = {k. find_metadata p k s \<noteq> None}"
proof -
  note r = reachable_ms_ok [OF assms]
  have w: "world_ok (shared s) (all_metadata s) {#}" using r(1) by (simp add: ms_ok_def store_ok_def)
  have "size (all_metadata s) = GetKeyCount s" by (simp add: GetKeyCount_entries all_metadata_entries)
  then show "key_count (snd (shared s)) = of_nat (GetKeyCount s)" using w by (simp add: world_ok_def gauges_ok_def)
  show "mem_allocated_size (snd (shared s)) = total_size (all_buffers (all_metadata s))" using w by (simp add: world_ok_def)
  show "mem_total_capacity (snd (shared s)) = total_capacity (segment_manager s)" by (rule seg_invD(8) [OF ms_okD(2) [OF r(1)]])
  show "active_clients (snd (shared s)) = of_nat (card (ok_client s))" using r(1) by (simp add: ms_ok_def)
  have "distinct (map fst (entries s all_shards))" by (rule entries_distinct [OF ms_okD(3) [OF r(1)] distinct_upt all_shards_lt])
  moreover have "set (map fst (entries s all_shards)) = {k. find_metadata p k s \<noteq> None}"
    by (force simp: entries_find [OF ms_okD(3) [OF r(1)], symmetric])
  ultimately show "\<exists>keys. GetAllKeys s = Inr keys \<and> distinct keys \<and> length keys = GetKeyCount s \<and> set keys = {k. find_metadata p k s \<noteq> None}"
    by (simp add: GetAllKeys_entries GetKeyCount_entries)
qed

text \<open>
  C9: In every reachable state the gauges say what the tables hold: the number of keys is that
  of \<open>GetKeyCount\<close>, the allocated memory is the sum of the sizes of all buffers of all objects, the
  total capacity is the sum of the sizes of the segments, the number of active clients is the
  number of clients in good standing; \<open>GetAllKeys\<close> lists each key with an entry once.
\<close>

theorem gauges_match_tables:
  assumes "reachable p (s, ttl, ps)" "shuffle_law p"
  shows "key_count (snd (shared s)) = of_nat (GetKeyCount s)
    \<and> mem_allocated_size (snd (shared s)) = total_size (all_buffers (all_metadata s))
    \<and> mem_total_capacity (snd (shared s)) = total_capacity (segment_manager s)
    \<and> active_clients (snd (shared s)) = of_nat (card (ok_client s))
    \<and> (\<exists>keys. GetAllKeys s = Inr keys \<and> distinct keys \<and> length keys = GetKeyCount s \<and> set keys = {k. find_metadata p k s \<noteq> None})"
  using gauges_match_tables_parts [OF assms] by blast

lemma gauges_match_tables_witness:
  "key_count (snd (shared ex_stored)) = of_nat (GetKeyCount ex_stored)
    \<and> (\<exists>keys. GetAllKeys ex_stored = Inr keys \<and> distinct keys \<and> length keys = GetKeyCount ex_stored
        \<and> set keys = {k. find_metadata ex_platform k ex_stored \<noteq> None} \<and> ''k'' \<in> set keys)"
  using gauges_match_tables [OF ex_stored_reachable ex_platform_law] by (auto simp: ex_stored_fields)

text \<open>
  C31: \<open>QuerySegments\<close> answers for a name exactly when an allocator serves a mounted segment of that
  name, with the capacity of that segment and the sum of the sizes of the buffers in it.
\<close>

theorem QuerySegments_correct:
  assumes "reachable p (s, ttl, ps)" "shuffle_law p" "MasterService_QuerySegments name s = r"
  shows "case r of
      Inl e \<Rightarrow> e = SEGMENT_NOT_FOUND \<and> (\<forall>sid ms. mounts s sid = Some ms \<and> ms_status ms = Segment_OK \<longrightarrow> seg_name (ms_segment ms) \<noteq> name)
    | Inr (u, capacity) \<Rightarrow> \<exists>sid ms i. mounts s sid = Some ms \<and> ms_status ms = Segment_OK \<and> ms_allocator ms = Some i
        \<and> seg_name (ms_segment ms) = name \<and> capacity = seg_size (ms_segment ms)
        \<and> u = total_size {#x \<in># all_buffers (all_metadata s). buf_allocator x = i#}"
proof -
  note r = reachable_ms_ok [OF assms(1,2)] and inv = ms_okD(2) [OF reachable_ms_ok(1) [OF assms(1,2)]]
  let ?sm = "segment_manager s" and ?H = "fst (shared s)"
  have ix: "no_empty (allocators_by_name ?sm)" "\<And>n. set (lookup_list (allocators_by_name ?sm) n) = {i. \<exists>b. ?H i = Some b \<and> allocator_segment_name b = n}"
    using seg_invD(4) [OF inv] by (simp_all add: index_ok_def)
  show ?thesis
  proof (cases "map_of (allocators_by_name ?sm) name")
    case None
    have "seg_name (ms_segment ms) \<noteq> name" if m: "mounts s sid = Some ms" "ms_status ms = Segment_OK" for sid ms
    proof
      assume n: "seg_name (ms_segment ms) = name"
      obtain i b where "?H i = Some b" "serves b (ms_segment ms)" using seg_invD(2) [OF inv m(1)] m(2) by (auto simp: mounted_ok_def)
      then have "i \<in> set (lookup_list (allocators_by_name ?sm) name)" unfolding ix(2) using n by (auto simp: serves_def)
      then show False using None by (simp add: lookup_list_def)
    qed
    moreover have "r = Inl SEGMENT_NOT_FOUND" using assms(3) None by (simp add: MasterService_QuerySegments_def QuerySegments_def)
    ultimately show ?thesis by auto
  next
    case (Some as)
    then have "as \<noteq> []" using ix(1) by (auto simp: no_empty_def)
    then have "hd as \<in> set (lookup_list (allocators_by_name ?sm) name)" using Some by (simp add: lookup_list_def)
    then obtain b where b: "?H (hd as) = Some b" "allocator_segment_name b = name" unfolding ix(2) by blast
    obtain sid ms where ms: "mounts s sid = Some ms" "ms_allocator ms = Some (hd as)" using seg_invD(3) [OF inv b(1)] by (auto simp: mounted_as_def)
    have mo: "ms_status ms = Segment_OK" "serves b (ms_segment ms)" using seg_invD(2) [OF inv ms(1)] ms(2) b(1) by (auto simp: mounted_ok_def)
    have "r = Inr (allocator_size b, allocator_capacity b)"
      using assms(3) Some b(1) by (simp add: MasterService_QuerySegments_def QuerySegments_def)
    then show ?thesis using ms mo b heap_used [OF r(3) b(1)] by (auto simp: serves_def)
  qed
qed

lemma QuerySegments_correct_witness:
  "\<exists>sid ms i. mounts ex_stored sid = Some ms \<and> ms_status ms = Segment_OK \<and> ms_allocator ms = Some i
        \<and> seg_name (ms_segment ms) = ''s'' \<and> seg_size (ms_segment ms) = 33554432
        \<and> MasterService_QuerySegments ''s'' ex_stored = Inr (total_size {#x \<in># all_buffers (all_metadata ex_stored). buf_allocator x = i#}, 33554432)"
  using QuerySegments_correct [OF ex_stored_reachable ex_platform_law refl, of "''s''"]
  by (auto simp: ex_stored_fields MasterService_QuerySegments_def QuerySegments_def ex_manager_eq ex_segment_def split: if_splits)

section \<open>The handlers implement their specifications\<close>

text \<open>
  C19: \<open>ExistKey\<close> implements its specification on the table of objects: it answers whether the
  object has a complete replica, and when it has one it extends its lease and nothing else.
\<close>

theorem ExistKey_refines:
  assumes "reachable p (s, ttl, ps)" "shuffle_law p" "ExistKey p now k s = (s', r)"
  shows "(objects p s', r) = spec_ExistKey now (default_kv_lease_ttl (service_config s)) (default_kv_soft_pin_ttl (service_config s)) k (objects p s)"
  using ExistKey_ok [OF reachable_ms_ok(1) [OF assms(1,2)] assms(3)] by simp

lemma ExistKey_refines_witness:
  "snd (ExistKey ex_platform 2000 ''k'' ex_stored) = Inr True
    \<and> objects ex_platform (fst (ExistKey ex_platform 2000 ''k'' ex_stored)) = (objects ex_platform ex_stored)(''k'' \<mapsto> GrantLease 2000 5000 10000 ex_complete)"
  using ExistKey_refines [OF ex_stored_reachable ex_platform_law surjective_pairing, of 2000 "''k''"]
  by (simp add: spec_ExistKey_def ex_stored_object ex_complete_def ex_config_def)





text \<open>
  C20: \<open>PutRevoke\<close> implements its specification: it drops the replicas of the given type when none
  of them has been completed, the object with them when nothing is left, and refuses otherwise.
\<close>

theorem PutRevoke_refines:
  assumes "reachable p (s, ttl, ps)" "shuffle_law p" "PutRevoke p k rtype s = (s', r)"
  shows "(objects p s', r) = spec_PutRevoke k rtype (objects p s)"
  using PutRevoke_ok [OF reachable_ms_ok(1) [OF assms(1,2)] assms(3)] by simp

lemma PutRevoke_refines_witness:
  "objects ex_platform (fst (PutRevoke ex_platform ''k'' MEMORY ex_started)) ''k'' = None
    \<and> snd (PutRevoke ex_platform ''k'' MEMORY ex_stored) = Inl INVALID_WRITE"
  using PutRevoke_refines [OF ex_started_reachable ex_platform_law surjective_pairing, of "''k''" MEMORY]
    PutRevoke_refines [OF ex_stored_reachable ex_platform_law surjective_pairing, of "''k''" MEMORY]
  by (simp add: spec_PutRevoke_def ex_started_objects ex_stored_object ex_object_def new_object_def ex_complete_def IsValid_def)

text \<open>
  C18: \<open>Remove\<close> implements its specification: it removes an object whose lease has expired and whose
  replicas are all complete, and refuses any other with the error of the first condition that fails.
\<close>

theorem Remove_refines:
  assumes "reachable p (s, ttl, ps)" "shuffle_law p" "Remove p now k s = (s', r)"
  shows "(objects p s', r) = spec_Remove now k (objects p s)"
  using Remove_ok [OF reachable_ms_ok(1) [OF assms(1,2)] assms(3)] by simp

lemma Remove_refines_witness:
  "objects ex_platform (fst (Remove ex_platform 1000 ''k'' ex_stored)) ''k'' = None
    \<and> snd (Remove ex_platform 999 ''k'' ex_stored) = Inl OBJECT_HAS_LEASE"
  using Remove_refines [OF ex_stored_reachable ex_platform_law surjective_pairing, of 1000 "''k''"]
    Remove_refines [OF ex_stored_reachable ex_platform_law surjective_pairing, of 999 "''k''"]
  by (simp add: spec_Remove_def ex_stored_object ex_complete_def)

section \<open>Putting an object\<close>

text \<open>
  C7: \<open>PutStart\<close> refuses with the error of the first condition that fails and then leaves the
  objects alone; when it succeeds there was no such object, every replica has one buffer per
  slice of the slice's size in a mounted segment, the replicas of a slice lie in different
  segments, at most the requested number of replicas is given, the descriptors that are
  returned are theirs, and the new object has these replicas when the key had no entry.
\<close>

theorem PutStart_correct:
  assumes "reachable p (s, ttl, ps)" "shuffle_law p" "\<forall>n \<in> set sizes. unat n \<le> 2 ^ 63" "PutStart p k sizes config s = (s', r)"
  shows "put_result p k sizes config s s' r"
proof -
  have "\<And>k xs. mset (std_shuffle p k xs) = mset xs" using assms(2) by (simp add: shuffle_law_def)
  from PutStart_ok(2) [OF reachable_ms_ok(1) [OF assms(1,2)] this assms(3,4)] show ?thesis .
qed

lemma PutStart_correct_witness:
  "objects ex_platform ex_started = (objects ex_platform ex_mounted)(''k'' \<mapsto> ex_object) \<and> snd (PutStart ex_platform ''k'' [100, 100] ex_put ex_stored) = Inl OBJECT_ALREADY_EXISTS"
proof
  have "put_result ex_platform ''k'' [100, 100] ex_put ex_mounted ex_started (Inr [get_descriptor [0 \<mapsto> Cachelib ex_allocator2] (ex_replica 0 PROCESSING)])"
    by (rule PutStart_correct [OF ex_mounted_reachable ex_platform_law _ ex_started_eq(1)]) simp
  then obtain reps where "objects ex_platform ex_started = (objects ex_platform ex_mounted)(''k'' \<mapsto> new_object 200 (put_replicas ex_platform ''k'' [100, 100] ex_mounted reps) False)"
    by (auto simp: put_result_def ex_mounted_fields ex_put_def)
  then show "objects ex_platform ex_started = (objects ex_platform ex_mounted)(''k'' \<mapsto> ex_object)"
    using ex_started_objects by (metis fun_upd_same)
  have "put_result ex_platform ''k'' [100, 100] ex_put ex_stored (fst (PutStart ex_platform ''k'' [100, 100] ex_put ex_stored)) (snd (PutStart ex_platform ''k'' [100, 100] ex_put ex_stored))"
    by (rule PutStart_correct [OF ex_stored_reachable ex_platform_law _ surjective_pairing]) simp
  moreover have "put_args_ok ''k'' [100, 100] ex_put ex_stored" by (simp add: put_args_ok_def ex_put_def kMaxSliceSize_def push_bit_eq_mult)
  ultimately show "snd (PutStart ex_platform ''k'' [100, 100] ex_put ex_stored) = Inl OBJECT_ALREADY_EXISTS"
    by (auto simp: put_result_def ex_stored_object split: sum.splits)
qed

text \<open>Putting and getting: what the descriptors of a started put become.\<close>

definition completed :: "ReplicaDescriptor list \<Rightarrow> ReplicaDescriptor list" where
  "completed ds = map (\<lambda>d. d\<lparr>descriptor_status := COMPLETE\<rparr>)
     (filter (\<lambda>d. case descriptor_variant d of MemoryDescriptor _ \<Rightarrow> True | DiskDescriptor _ _ \<Rightarrow> False) ds)"

lemma completed_descriptors:
  assumes "\<forall>r \<in> set reps. rep_status r = PROCESSING"
  shows "map (get_descriptor H) (filter (\<lambda>r. rep_status r = COMPLETE) (map (\<lambda>r. if replica_type r = MEMORY then mark_complete r else r) reps))
    = completed (map (get_descriptor H) reps)"
  using assms
proof (induction reps)
  case (Cons r reps)
  then show ?case by (cases "rep_data r") (auto simp: completed_def get_descriptor_def replica_type_def mark_complete_def)
qed (simp add: completed_def)

lemma put_replicas_status:
  assumes "allocated H sizes config reps"
  shows "\<forall>r \<in> set (put_replicas p k sizes s reps). rep_status r = PROCESSING" "\<exists>r \<in> set (put_replicas p k sizes s reps). replica_type r = MEMORY"
  using assms by (auto simp: allocated_def put_replicas_def Replica_memory_def Replica_disk_def replica_type_def)

lemma put_get_roundtrip_parts:
  assumes "reachable p (s, ttl, ps)" "shuffle_law p" "\<forall>n \<in> set sizes. unat n \<le> 2 ^ 63" "find_metadata p k s = None"
    and "PutStart p k sizes config s = (s1, Inr ds)" "PutEnd p now k MEMORY s1 = (s2, r2)" "GetReplicaList p now' k s2 = (s3, r3)"
  shows "r2 = Inr ()" "r3 = Inr (completed ds, default_kv_lease_ttl (service_config s))" "completed ds \<noteq> []"
proof -
  have sh: "\<And>k xs. mset (std_shuffle p k xs) = mset xs" using assms(2) by (simp add: shuffle_law_def)
  note ps = PutStart_ok [OF reachable_ms_ok(1) [OF assms(1,2)] sh assms(3,5)]
  obtain reps where al: "allocated (fst (shared s1)) sizes config reps"
    and ds: "ds = map (get_descriptor (fst (shared s1))) (put_replicas p k sizes s reps)"
    and o1: "objects p s1 k = Some (new_object (sum_list sizes) (put_replicas p k sizes s reps) (with_soft_pin config))"
    using ps(2) assms(4) by (auto simp: put_result_def)
  let ?reps = "put_replicas p k sizes s reps"
  let ?md = "(new_object (sum_list sizes) ?reps (with_soft_pin config))\<lparr>replicas := map (\<lambda>r. if replica_type r = MEMORY then mark_complete r else r) ?reps\<rparr>"
  note pe = PutEnd_ok [OF ps(1) assms(6)]
  have o2: "objects p s2 k = Some (GrantLease now 0 (default_kv_soft_pin_ttl (service_config s1)) ?md)" and r2: "r2 = Inr ()"
    using pe o1 by (simp_all add: spec_PutEnd_def new_object_def)
  have same: "same_allocators (fst (shared s1)) (fst (shared s2))" "service_config s2 = service_config s"
    using pe ps(4) by (simp_all add: only_metadata_def world_frame_def)
  have cd: "complete_descriptors (fst (shared s2)) (GrantLease now 0 (default_kv_soft_pin_ttl (service_config s1)) ?md) = completed ds"
    using completed_descriptors [OF put_replicas_status(1) [OF al]]
    by (simp add: complete_descriptors_def GrantLease_def ds get_descriptor_same [OF same(1)])
  obtain r where "r \<in> set ?reps" "replica_type r = MEMORY" using put_replicas_status(2) [OF al] by blast
  then show ne: "completed ds \<noteq> []"
    by (cases "rep_data r") (auto simp: completed_def ds filter_empty_conv get_descriptor_def replica_type_def intro!: bexI [of _ r])
  have "(objects p s3, r3) = spec_GetReplicaList (fst (shared s2)) now'
    (default_kv_lease_ttl (service_config s2)) (default_kv_soft_pin_ttl (service_config s2)) k (objects p s2)"
    using GetReplicaList_ok [OF conjunct1 [OF pe] assms(7)] by simp
  then show "r3 = Inr (completed ds, default_kv_lease_ttl (service_config s))" using o2 cd ne same(2) by (simp add: spec_GetReplicaList_def)
  show "r2 = Inr ()" by (rule r2)
qed

text \<open>
  C5: Putting an object and getting it: after a \<open>PutStart\<close> on a key without an entry succeeded,
  \<open>PutEnd\<close> for the memory replicas succeeds, and \<open>GetReplicaList\<close> returns exactly the memory
  replicas that \<open>PutStart\<close> had handed out, now complete, with a lease.
\<close>

theorem put_get_roundtrip:
  assumes "reachable p (s, ttl, ps)" "shuffle_law p" "\<forall>n \<in> set sizes. unat n \<le> 2 ^ 63" "find_metadata p k s = None"
    and "PutStart p k sizes config s = (s1, Inr ds)" "PutEnd p now k MEMORY s1 = (s2, r2)" "GetReplicaList p now' k s2 = (s3, r3)"
  shows "r2 = Inr ()
    \<and> r3 = Inr (completed ds, default_kv_lease_ttl (service_config s))
    \<and> completed ds \<noteq> []"
  using put_get_roundtrip_parts [OF assms] by blast

lemma put_get_roundtrip_witness:
  "snd (GetReplicaList ex_platform 3000 ''k'' (fst (PutEnd ex_platform 2000 ''k'' MEMORY ex_started)))
    = Inr (completed [get_descriptor [0 \<mapsto> Cachelib ex_allocator2] (ex_replica 0 PROCESSING)], 5000)"
  using put_get_roundtrip [where now = 2000 and now' = 3000, OF ex_mounted_reachable ex_platform_law _ ex_mounted_fields(3) ex_started_eq(1)
      surjective_pairing surjective_pairing]
  by (simp add: ex_mounted_fields ex_config_def)

lemma PutStart_stale_entry_lost_parts:
  assumes "reachable p (s, ttl, ps)" "shuffle_law p" "\<forall>n \<in> set sizes. unat n \<le> 2 ^ 63"
    and "find_metadata p k s \<noteq> None" "PutStart p k sizes config s = (s1, Inr ds)" "PutEnd p now k rtype s1 = (s2, r2)"
  shows "ds \<noteq> []" "objects p s1 = objects p s" "objects p s1 k = None" "r2 = Inl OBJECT_NOT_FOUND"
    "mem_allocated_size (snd (shared s1)) = total_size (all_buffers (all_metadata s1))"
proof -
  have sh: "\<And>k xs. mset (std_shuffle p k xs) = mset xs" using assms(2) by (simp add: shuffle_law_def)
  note ps = PutStart_ok [OF reachable_ms_ok(1) [OF assms(1,2)] sh assms(3,5)]
  show o: "objects p s1 = objects p s" and o1: "objects p s1 k = None" and "ds \<noteq> []"
    using ps(2) assms(4) put_replicas_ok(3) by (auto simp: put_result_def)
  show "r2 = Inl OBJECT_NOT_FOUND" using PutEnd_ok [OF ps(1) assms(6)] o1 by (simp add: spec_PutEnd_def)
  show "mem_allocated_size (snd (shared s1)) = total_size (all_buffers (all_metadata s1))"
    using ps(1) by (simp add: ms_ok_def store_ok_def world_ok_def)
qed

text \<open>
  C32: A key whose entry has only replicas in memory that is gone counts as absent, yet its entry
  is still in the table: \<open>PutStart\<close> then reports success and hands out descriptors, but the object is
  not stored, and the \<open>PutEnd\<close> that follows does not find it. The new memory has been given back
  while the client writes to it.
\<close>

theorem PutStart_stale_entry_lost:
  assumes "reachable p (s, ttl, ps)" "shuffle_law p" "\<forall>n \<in> set sizes. unat n \<le> 2 ^ 63"
    and "find_metadata p k s \<noteq> None" "PutStart p k sizes config s = (s1, Inr ds)" "PutEnd p now k rtype s1 = (s2, r2)"
  shows "ds \<noteq> []
    \<and> objects p s1 = objects p s
    \<and> objects p s1 k = None
    \<and> r2 = Inl OBJECT_NOT_FOUND
    \<and> mem_allocated_size (snd (shared s1)) = total_size (all_buffers (all_metadata s1))"
  using PutStart_stale_entry_lost_parts [OF assms] by blast

lemma PutStart_stale_entry_lost_witness:
  "snd (PutStart ex_platform ''k'' [100, 100] ex_put ex_stale) = Inr [get_descriptor [1 \<mapsto> Cachelib ex_allocator2] (ex_replica 1 PROCESSING)]
    \<and> objects ex_platform ex_lost ''k'' = None \<and> snd (PutEnd ex_platform 2000 ''k'' MEMORY ex_lost) = Inl OBJECT_NOT_FOUND"
proof -
  have f: "find_metadata ex_platform ''k'' ex_stale \<noteq> None" by (simp add: ex_stale_objects)
  note l = PutStart_stale_entry_lost [where now = 2000 and rtype = MEMORY, OF ex_stale_reachable ex_platform_law _ f ex_lost_eq surjective_pairing]
  show ?thesis using l ex_lost_eq by (simp add: ex_stale_objects)
qed

section \<open>Leases\<close>

lemma evict_rel_lease: "evict_rel allow now k md r \<Longrightarrow> now < lease_timeout md \<Longrightarrow> r = Some md"
  by (auto simp: evict_rel_def evictable_def)

lemma lease_protects_parts:
  assumes "reachable p (s, ttl, ps)" "shuffle_law p" "objects p s k = Some md" "now < lease_timeout md" "nows k < lease_timeout md"
  shows "objects p (fst (Remove p now k s)) k = Some md" "snd (Remove p now k s) = Inl OBJECT_HAS_LEASE"
    "objects p (fst (RemoveByRegex p nows rx s)) k = Some md" "objects p (fst (RemoveAll now s)) k = Some md"
    "objects p (BatchEvict p random now target lower s) k = Some md"
proof -
  note ok = reachable_ms_ok(1) [OF assms(1,2)]
  obtain md0 where md0: "find_metadata p k s = Some md0" "md = live (fst (shared s)) md0" using objects_Some(3) [OF assms(3)] by blast
  have lease: "lease_timeout md0 = lease_timeout md" by (simp add: md0 live_def)
  have keep: "objects p s' k = Some md" if "find_metadata p k s' = Some md0" "same_allocators (fst (shared s)) (fst (shared s'))" for s'
    using that assms(3) md0(1) visible_same [OF that(2)] by (simp add: objects_def)
  show "objects p (fst (Remove p now k s)) k = Some md" "snd (Remove p now k s) = Inl OBJECT_HAS_LEASE"
    using Remove_ok [where k = k and now = now, OF ok surjective_pairing] assms(3,4) by (simp_all add: spec_Remove_def)
  show "objects p (fst (RemoveByRegex p nows rx s)) k = Some md"
  proof (cases "std_regex p rx")
    case None
    then show ?thesis using assms(3) by (simp add: RemoveByRegex_def)
  next
    case (Some pattern)
    then show ?thesis using RemoveByRegex_ok [where now = nows and rx = rx, OF ok surjective_pairing] assms(5)
      by (intro keep) (auto simp: removes_def md0(1) IsLeaseExpired_def lease only_metadata_def world_frame_def)
  qed
  show "objects p (fst (RemoveAll now s)) k = Some md"
    using RemoveAll_ok [where now = now, OF ok surjective_pairing] assms(4)
    by (intro keep) (auto simp: removes_def md0(1) IsLeaseExpired_def lease only_metadata_def world_frame_def)
  note be = BatchEvict_ok(2,7) [where random = random and now = now and target = target and lower = lower, OF ok refl]
  have "at_rel (evict_rel (allow_evict_soft_pinned_objects (service_config s)) now) k (find_metadata p k s) (find_metadata p k (BatchEvict p random now target lower s))"
    using be(1) by (simp add: entry_rel_def)
  then have "find_metadata p k (BatchEvict p random now target lower s) = Some md0"
    using evict_rel_lease [of _ now k md0] md0(1) lease assms(4) by simp
  then show "objects p (BatchEvict p random now target lower s) k = Some md" using be(2) by (rule keep)
qed

text \<open>
  C8: A lease protects an object: until it ends, neither \<open>Remove\<close> nor \<open>RemoveByRegex\<close> nor \<open>RemoveAll\<close>
  nor a round of eviction takes the object or any of its replicas away.
\<close>

theorem lease_protects:
  assumes "reachable p (s, ttl, ps)" "shuffle_law p" "objects p s k = Some md" "now < lease_timeout md" "nows k < lease_timeout md"
  shows "objects p (fst (Remove p now k s)) k = Some md
    \<and> snd (Remove p now k s) = Inl OBJECT_HAS_LEASE
    \<and> objects p (fst (RemoveByRegex p nows rx s)) k = Some md
    \<and> objects p (fst (RemoveAll now s)) k = Some md
    \<and> objects p (BatchEvict p random now target lower s) k = Some md"
  using lease_protects_parts [where nows = nows and k = k, OF assms] by blast

lemma lease_protects_witness:
  "objects ex_platform (BatchEvict ex_platform 0 999 1 1 ex_stored) ''k'' = Some ex_complete
    \<and> objects ex_platform (fst (RemoveAll 999 ex_stored)) ''k'' = Some ex_complete"
  using lease_protects [where now = 999 and nows = "\<lambda>_. 999" and random = 0 and target = 1 and lower = 1, OF ex_stored_reachable ex_platform_law ex_stored_object(2)]
  by (simp add: ex_complete_def)

lemma RemoveAll_correct_parts:
  assumes "reachable p (s, ttl, ps)" "shuffle_law p" "RemoveAll now s = (s', n)"
  shows "find_metadata p k s' = (case find_metadata p k s of None \<Rightarrow> None | Some md \<Rightarrow> if lease_timeout md \<le> now then None else Some md)"
    "n = int (card {k. \<exists>md. find_metadata p k s = Some md \<and> lease_timeout md \<le> now})"
  using RemoveAll_ok [OF reachable_ms_ok(1) [OF assms(1,2)] assms(3)] by (auto simp: removes_def IsLeaseExpired_def split: option.splits)

text \<open>
  C28: \<open>RemoveAll\<close> removes exactly the entries whose lease has expired, also those that are still
  being written, and returns their number.
\<close>

theorem RemoveAll_correct:
  assumes "reachable p (s, ttl, ps)" "shuffle_law p" "RemoveAll now s = (s', n)"
  shows "find_metadata p k s' = (case find_metadata p k s of None \<Rightarrow> None | Some md \<Rightarrow> if lease_timeout md \<le> now then None else Some md)
    \<and> (n = int (card {k. \<exists>md. find_metadata p k s = Some md \<and> lease_timeout md \<le> now}))"
  using RemoveAll_correct_parts [OF assms] by blast

lemma RemoveAll_correct_witness:
  "find_metadata ex_platform ''k'' (fst (RemoveAll 1000 ex_stored)) = None \<and> find_metadata ex_platform ''k'' (fst (RemoveAll 0 ex_started)) = None"
  using RemoveAll_correct [where k = "''k''" and now = 1000, OF ex_stored_reachable ex_platform_law surjective_pairing]
    RemoveAll_correct [where k = "''k''" and now = 0, OF ex_started_reachable ex_platform_law surjective_pairing]
  by (simp add: ex_stored_fields ex_started_eq ex_complete_def ex_object_def new_object_def)

text \<open>
  C29: \<open>RemoveByRegex\<close> removes exactly the entries whose key matches, whose lease has expired and
  whose replicas are all complete, and returns their number; an expression that does not compile
  is an error and changes nothing.
\<close>

theorem RemoveByRegex_correct:
  assumes "reachable p (s, ttl, ps)" "shuffle_law p" "RemoveByRegex p now rx s = (s', r)"
  shows "case std_regex p rx of
      None \<Rightarrow> r = Inl INVALID_PARAMS \<and> s' = s
    | Some pattern \<Rightarrow> \<exists>n. r = Inr n
        \<and> removes p (\<lambda>k md. pattern k \<and> lease_timeout md \<le> now k \<and> (\<forall>q \<in> set (replicas md). rep_status q = COMPLETE)) s s' n"
proof -
  have "IsAllReplicasComplete md = (\<forall>q \<in> set (replicas md). rep_status q = COMPLETE)" for md
    by (simp add: IsAllReplicasComplete_def list_all_iff)
  then show ?thesis using RemoveByRegex_ok [OF reachable_ms_ok(1) [OF assms(1,2)] assms(3)]
    by (auto simp: IsLeaseExpired_def split: option.splits)
qed

lemma RemoveByRegex_correct_witness:
  "\<exists>n. snd (RemoveByRegex ex_platform (\<lambda>_. 1000) ''.*'' ex_stored) = Inr n
     \<and> removes ex_platform (\<lambda>k md. lease_timeout md \<le> 1000 \<and> (\<forall>q \<in> set (replicas md). rep_status q = COMPLETE)) ex_stored
         (fst (RemoveByRegex ex_platform (\<lambda>_. 1000) ''.*'' ex_stored)) n"
  using RemoveByRegex_correct [where now = "\<lambda>_. 1000" and rx = "''.*''", OF ex_stored_reachable ex_platform_law surjective_pairing]
  by (simp add: ex_platform_def)



section \<open>Eviction\<close>

lemma BatchEvict_correct_parts:
  assumes "reachable p (s, ttl, ps)" "shuffle_law p" "s' = BatchEvict p random now target lower s"
  shows "find_metadata p k s' = find_metadata p k s
      \<or> (\<exists>md. find_metadata p k s = Some md \<and> evictable (allow_evict_soft_pinned_objects (service_config s)) now md \<and> find_metadata p k s' = evicted md)"
    "counters (snd (shared s')) evicted_key_count = counters (snd (shared s)) evicted_key_count + of_nat (card (lost_memory p s s'))"
    "lost_memory p s s' \<noteq> {} \<Longrightarrow> \<not> need_eviction s'"
proof -
  note be = BatchEvict_ok [OF reachable_ms_ok(1) [OF assms(1,2)] assms(3)]
  have "at_rel (evict_rel (allow_evict_soft_pinned_objects (service_config s)) now) k (find_metadata p k s) (find_metadata p k s')"
    using be(2) by (simp add: entry_rel_def)
  then show "find_metadata p k s' = find_metadata p k s
      \<or> (\<exists>md. find_metadata p k s = Some md \<and> evictable (allow_evict_soft_pinned_objects (service_config s)) now md \<and> find_metadata p k s' = evicted md)"
    by (cases "find_metadata p k s") (auto simp: evict_rel_def)
  show "counters (snd (shared s')) evicted_key_count = counters (snd (shared s)) evicted_key_count + of_nat (card (lost_memory p s s'))"
    by (rule be(3))
  show "lost_memory p s s' \<noteq> {} \<Longrightarrow> \<not> need_eviction s'" by (rule be(8))
qed

text \<open>
  C6: A round of eviction leaves every entry alone or, when its lease has expired, all its memory
  replicas are complete and it is not soft pinned (or evicting pinned objects is allowed), drops
  its memory replicas, and the entry itself when no complete replica is left; the counter of
  evicted keys grows by exactly the number of objects that lost their memory.
\<close>

theorem BatchEvict_correct:
  assumes "reachable p (s, ttl, ps)" "shuffle_law p" "s' = BatchEvict p random now target lower s"
  shows "(find_metadata p k s' = find_metadata p k s
      \<or> (\<exists>md. find_metadata p k s = Some md \<and> evictable (allow_evict_soft_pinned_objects (service_config s)) now md \<and> find_metadata p k s' = evicted md))
    \<and> counters (snd (shared s')) evicted_key_count = counters (snd (shared s)) evicted_key_count + of_nat (card (lost_memory p s s'))
    \<and> (lost_memory p s s' \<noteq> {} \<longrightarrow> \<not> need_eviction s')"
  using BatchEvict_correct_parts [OF assms] by blast

lemma BatchEvict_correct_witness:
  "find_metadata ex_platform ''k'' (BatchEvict ex_platform 3 1000 (1 / 2) (1 / 4) ex_stored) \<in> {Some ex_complete, evicted ex_complete}
    \<and> counters (snd (shared (BatchEvict ex_platform 3 1000 (1 / 2) (1 / 4) ex_stored))) evicted_key_count
       = counters (snd (shared ex_stored)) evicted_key_count + of_nat (card (lost_memory ex_platform ex_stored (BatchEvict ex_platform 3 1000 (1 / 2) (1 / 4) ex_stored)))"
  using BatchEvict_correct [where k = "''k''" and random = 3 and now = 1000 and target = "1 / 2" and lower = "1 / 4", OF ex_stored_reachable ex_platform_law refl]
  by (elim conjE disjE exE) (simp_all add: ex_stored_fields)


lemma ex_evictable: "evictable False 1000 ex_complete"
  by (simp add: evictable_def ex_complete_def IsSoftPinned_def HasMemReplica_def)


section \<open>Unmounting\<close>

text \<open>
  C10: \<open>UnmountSegment\<close> is refused while another request unmounts the segment; otherwise the segment
  is gone afterwards, and every entry has lost exactly the replicas with memory in it, and is
  removed when no replica is left; unmounting an unknown segment succeeds and changes nothing.
\<close>

theorem UnmountSegment_correct:
  assumes "reachable p (s, ttl, ps)" "shuffle_law p" "UnmountSegment sid c s = (s', r)"
  shows "r = Inl UNAVAILABLE_IN_CURRENT_STATUS \<and> s' = s
     \<or> r = Inr () \<and> map_of (mounted_segments (segment_manager s')) sid = None
       \<and> (if map_of (mounted_segments (segment_manager s)) sid = None then s' = s else unmounted p sid s s')"
  by (rule UnmountSegment_ok(3) [OF reachable_ms_ok(1,2) [OF assms(1,2)] assms(3)])

lemma UnmountSegment_correct_witness:
  "snd (UnmountSegment (1, 1) (2, 2) ex_stored) = Inr () \<and> find_metadata ex_platform ''k'' (fst (UnmountSegment (1, 1) (2, 2) ex_stored)) = None
    \<and> snd (UnmountSegment (1, 1) (2, 2) ex_stale) = Inl UNAVAILABLE_IN_CURRENT_STATUS"
proof (intro conjI)
  obtain sm w where "PrepareUnmountSegment (1, 1) (segment_manager ex_stored) (shared ex_stored) = (sm, w, OK, 33554432)" using ex_leaving_eq(1) by blast
  then show r: "snd (UnmountSegment (1, 1) (2, 2) ex_stored) = Inr ()" by (simp add: UnmountSegment_def CommitUnmountSegment_def Let_def)
  then show "find_metadata ex_platform ''k'' (fst (UnmountSegment (1, 1) (2, 2) ex_stored)) = None"
    using UnmountSegment_correct [where sid = "(1, 1)" and c = "(2, 2)", OF ex_stored_reachable ex_platform_law surjective_pairing]
    by (auto simp: ex_stored_fields ex_manager_eq unmounted_def visible_def live_def ex_complete_def)
  have "waiting (segment_manager ex_stale) ((1, 1), (2, 2), 33554432)" using reachable_ms_ok(2) [OF ex_stale_reachable ex_platform_law] by simp
  then show "snd (UnmountSegment (1, 1) (2, 2) ex_stale) = Inl UNAVAILABLE_IN_CURRENT_STATUS"
    by (auto simp: waiting_def UnmountSegment_def PrepareUnmountSegment_def Let_def)
qed

lemma composed_operations_are_steps_parts:
  "(step p)\<^sup>*\<^sup>* (s, ttl, ps) (fst (UnmountSegment sid c s), ttl, ps)"
  "(step p)\<^sup>*\<^sup>* (s, ttl, ps) (snd (ClientMonitor_iteration now ttl s), fst (ClientMonitor_iteration now ttl s), ps)"
  using unmount_steps [OF surjective_pairing] monitor_steps [OF surjective_pairing] by blast+


section \<open>Clients\<close>

lemma ClientMonitor_correct_parts:
  assumes "reachable p (s, ttl, ps)" "shuffle_law p" "ClientMonitor_iteration now ttl s = (ttl', s')"
    and "expired_clients now (fst (drain_pings now ttl s)) = (expired, rest)"
  shows "ttl' = rest" "ok_client s' = ok_client s - set expired"
    "mounts s' = (\<lambda>sid. if sid \<in> segments_of (segment_manager s) (set expired) \<inter> in_service (mounts s) then None else mounts s sid)"
    "objects p s' k = visible (fst (shared s')) (find_metadata p k s)"
  using ClientMonitor_iteration_ok(3-6) [OF reachable_ms_ok(1,2) [OF assms(1,2)] assms(3,4)] by blast+


definition ex_drained :: MasterService where
  "ex_drained = ex_stored\<lparr>client_ping_queue := []\<rparr>"

lemma ex_drained_reachable: "reachable ex_platform (ex_drained, [((2, 2), 10000000000)], [])"
proof -
  have "drain_pings 0 [] ex_stored = ([((2, 2), 10000000000)], ex_drained)"
    by (simp add: drain_pings_def ex_stored_fields ex_stored_object(4) ex_config_def seconds_def ex_drained_def)
  from reachable.step [OF ex_stored_reachable step.drain [OF this]] show ?thesis .
qed


lemma Ping_ignores_configured_view_version_parts:
  assumes "MasterService_new config v m = Inr s" "queue_accepts p [] c"
  shows "MasterService_new (config\<lparr>config_view_version := n\<rparr>) v m = Inr (s\<lparr>service_config := config\<lparr>config_view_version := n\<rparr>\<rparr>)"
    "snd (Ping p c s) = Inr (v, NEED_REMOUNT)"
proof -
  have "view_version s = v" "ok_client s = {}" "client_ping_queue s = []" using assms(1) by (auto simp: MasterService_new_def Let_def split: if_splits)
  then show "snd (Ping p c s) = Inr (v, NEED_REMOUNT)" using assms(2) by (simp add: Ping_def push_ping_def)
  show "MasterService_new (config\<lparr>config_view_version := n\<rparr>) v m = Inr (s\<lparr>service_config := config\<lparr>config_view_version := n\<rparr>\<rparr>)"
    using assms(1) by (auto simp: MasterService_new_def Let_def split: if_splits)
qed

text \<open>
  C37: The view version in the answer to a ping is the indeterminate value of a member that the
  constructor does not initialise: the version in the configuration has no influence on it.
\<close>

theorem Ping_ignores_configured_view_version:
  assumes "MasterService_new config v m = Inr s" "queue_accepts p [] c"
  shows "MasterService_new (config\<lparr>config_view_version := n\<rparr>) v m = Inr (s\<lparr>service_config := config\<lparr>config_view_version := n\<rparr>\<rparr>)
    \<and> snd (Ping p c s) = Inr (v, NEED_REMOUNT)"
  using Ping_ignores_configured_view_version_parts [OF assms] by blast

lemma Ping_ignores_configured_view_version_witness:
  "config_view_version ex_config = 7 \<and> snd (Ping ex_platform (2, 2) ex_new) = Inr (0, NEED_REMOUNT)"
  using Ping_ignores_configured_view_version [where p = ex_platform and c = "(2, 2)", OF ex_new_eq] by (simp add: ex_platform_def ex_config_def)

end
