(* ===== verification/Rpc_Steps.thy ===== *)
theory Rpc_Steps
  imports Master_System
begin

text \<open>
  The RPC layer over the transition system of the master: every request that keeps to the
  documented ranges is answered by a sequence of steps, and the counters of the metrics grow by
  exactly what the requests and their answers amount to.
\<close>

declare map_of_eq_Some_iff [simp del] split_paired_All [simp del] split_paired_Ex [simp del]

section \<open>Handlers that leave the counters alone\<close>

text \<open>A handler runs as a sequence of steps and does not touch the counters.\<close>

definition quiet :: "Platform \<Rightarrow> (MasterService \<Rightarrow> MasterService \<times> 'r) \<Rightarrow> bool" where
  "quiet p f \<longleftrightarrow> (\<forall>s s' r ttl ps. f s = (s', r) \<longrightarrow> (step p)\<^sup>*\<^sup>* (s, ttl, ps) (s', ttl, ps)
     \<and> (sys_ok p (s, ttl, ps) \<longrightarrow> shuffle_law p \<longrightarrow> counters (snd (shared s')) = counters (snd (shared s))))"

lemma quietI:
  assumes "\<And>s s' r ttl ps. f s = (s', r) \<Longrightarrow> (step p)\<^sup>*\<^sup>* (s, ttl, ps) (s', ttl, ps)"
    and "\<And>s s' r ttl ps. f s = (s', r) \<Longrightarrow> ms_ok p s {#} {#} \<Longrightarrow> pending_ok (segment_manager s) ps \<Longrightarrow> shuffle_law p
      \<Longrightarrow> counters (snd (shared s')) = counters (snd (shared s))"
  shows "quiet p f"
  using assms unfolding quiet_def sys_ok_def by blast

lemma quietD:
  assumes "quiet p f" "f s = (s', r)"
  shows "(step p)\<^sup>*\<^sup>* (s, ttl, ps) (s', ttl, ps)"
    "sys_ok p (s, ttl, ps) \<Longrightarrow> shuffle_law p \<Longrightarrow> counters (snd (shared s')) = counters (snd (shared s))"
  using assms unfolding quiet_def by blast+

lemma steps_ok: "(step p)\<^sup>*\<^sup>* S S' \<Longrightarrow> shuffle_law p \<Longrightarrow> sys_ok p S \<Longrightarrow> sys_ok p S'"
  by (induction rule: rtranclp_induct) (auto intro: step_keeps_ok)

lemma only_metadata_counters: "only_metadata s s' \<Longrightarrow> counters (snd (shared s')) = counters (snd (shared s))"
  by (simp add: only_metadata_def world_frame_def)

lemma quiet_ExistKey: "quiet p (ExistKey p now key)"
  by (rule quietI) (blast intro: r_into_rtranclp step.exist_key, use ExistKey_ok only_metadata_counters in blast)

lemma quiet_GetReplicaList: "quiet p (GetReplicaList p now key)"
  by (rule quietI) (blast intro: r_into_rtranclp step.get_replica_list, use GetReplicaList_ok only_metadata_counters in blast)

lemma quiet_GetReplicaListByRegex: "quiet p (GetReplicaListByRegex p nows rx)"
  by (rule quietI) (blast intro: r_into_rtranclp step.get_by_regex, use GetReplicaListByRegex_ok(1) only_metadata_counters in blast)

lemma quiet_PutEnd: "quiet p (PutEnd p now key rtype)"
  by (rule quietI) (blast intro: r_into_rtranclp step.put_end, use PutEnd_ok only_metadata_counters in blast)

lemma quiet_PutRevoke: "quiet p (PutRevoke p key rtype)"
  by (rule quietI) (blast intro: r_into_rtranclp step.put_revoke, use PutRevoke_ok only_metadata_counters in blast)

lemma quiet_Remove: "quiet p (Remove p now key)"
  by (rule quietI) (blast intro: r_into_rtranclp step.remove, use Remove_ok only_metadata_counters in blast)

lemma quiet_RemoveAll: "quiet p (RemoveAll now)"
  by (rule quietI) (blast intro: r_into_rtranclp step.remove_all, use RemoveAll_ok only_metadata_counters in blast)

lemma quiet_RemoveByRegex: "quiet p (RemoveByRegex p nows rx)"
proof (rule quietI)
  fix s s' r ttl ps assume r: "RemoveByRegex p nows rx s = (s', r)"
  then show "(step p)\<^sup>*\<^sup>* (s, ttl, ps) (s', ttl, ps)" by (blast intro: r_into_rtranclp step.remove_by_regex)
  assume "ms_ok p s {#} {#}"
  from RemoveByRegex_ok [OF this r] show "counters (snd (shared s')) = counters (snd (shared s))"
    by (cases "std_regex p rx") (auto dest: only_metadata_counters)
qed

lemma quiet_PutStart:
  assumes "\<forall>n \<in> set sizes. unat n \<le> 2 ^ 63"
  shows "quiet p (PutStart p key sizes config)"
proof (rule quietI)
  fix s s' r ttl ps assume r: "PutStart p key sizes config s = (s', r)"
  then show "(step p)\<^sup>*\<^sup>* (s, ttl, ps) (s', ttl, ps)" by (blast intro: r_into_rtranclp step.put_start [OF assms])
  assume "ms_ok p s {#} {#}" "shuffle_law p"
  then show "counters (snd (shared s')) = counters (snd (shared s))"
    using PutStart_ok(5) [OF _ _ assms r, of "{#}" "{#}"] by (simp add: shuffle_law_def world_frame_def)
qed

lemma quiet_Ping: "quiet p (Ping p c)"
proof (rule quietI)
  fix s s' r ttl ps assume r: "Ping p c s = (s', r)"
  then show "(step p)\<^sup>*\<^sup>* (s, ttl, ps) (s', ttl, ps)" by (blast intro: r_into_rtranclp step.ping)
  show "counters (snd (shared s')) = counters (snd (shared s))"
    using r by (auto simp: Ping_def Let_def push_ping_def split: if_splits)
qed

lemma quiet_MountSegment:
  assumes "seg_valid segment"
  shows "quiet p (MasterService_MountSegment p segment c)"
proof (rule quietI)
  fix s s' r ttl ps assume r: "MasterService_MountSegment p segment c s = (s', r)"
  then show "(step p)\<^sup>*\<^sup>* (s, ttl, ps) (s', ttl, ps)" by (blast intro: r_into_rtranclp step.mount [OF assms])
  obtain sm w e where m: "MountSegment segment c (segment_manager s) (shared s) = (sm, w, e)"
    by (cases "MountSegment segment c (segment_manager s) (shared s)")
  show "counters (snd (shared s')) = counters (snd (shared s))"
    using r m MountSegment_frame(4) [OF m]
    by (auto simp: MasterService_MountSegment_def Let_def push_ping_def split: if_splits)
qed

lemma ReMountSegment_counters:
  "ReMountSegment segments c sm w = (sm', w', e) \<Longrightarrow> counters (snd w') = counters (snd w)"
proof (induction segments arbitrary: sm w)
  case (Cons s segments)
  obtain sm1 w1 e1 where m: "MountSegment s c sm w = (sm1, w1, e1)" by (cases "MountSegment s c sm w")
  show ?case using Cons.IH [of sm1 w1] Cons.prems m MountSegment_frame(4) [OF m] by (auto split: if_splits)
qed simp

lemma quiet_ReMountSegment:
  assumes "\<forall>x \<in> set segments. seg_valid x"
  shows "quiet p (MasterService_ReMountSegment p segments c)"
proof (rule quietI)
  fix s s' r ttl ps assume r: "MasterService_ReMountSegment p segments c s = (s', r)"
  then show "(step p)\<^sup>*\<^sup>* (s, ttl, ps) (s', ttl, ps)" by (blast intro: r_into_rtranclp step.remount [OF assms])
  obtain sm w e where m: "ReMountSegment segments c (segment_manager s) (shared s) = (sm, w, e)"
    by (cases "ReMountSegment segments c (segment_manager s) (shared s)")
  show "counters (snd (shared s')) = counters (snd (shared s))"
    using r m ReMountSegment_counters [OF m]
    by (auto simp: MasterService_ReMountSegment_def Let_def push_ping_def inc_active_clients_def split: if_splits)
qed

lemma quiet_UnmountSegment: "quiet p (UnmountSegment sid c)"
proof (rule quietI)
  fix s s' r ttl ps assume r: "UnmountSegment sid c s = (s', r)"
  then show "(step p)\<^sup>*\<^sup>* (s, ttl, ps) (s', ttl, ps)" by (rule unmount_steps)
  assume ok: "ms_ok p s {#} {#}" "pending_ok (segment_manager s) ps"
  obtain sm w e cap where m: "PrepareUnmountSegment sid (segment_manager s) (shared s) = (sm, w, e, cap)"
    by (cases "PrepareUnmountSegment sid (segment_manager s) (shared s)")
  let ?s = "with_segments s sm w" and ?t = "ClearInvalidHandles (with_segments s sm w)"
  have "counters (snd (shared ?t)) = counters (snd w)"
    using only_metadata_counters [OF ClearInvalidHandles_ok(2) [OF Prepare_ok(1) [OF ok m]]] by simp
  moreover have "counters (snd w) = counters (snd (shared s))"
    using m by (auto simp: PrepareUnmountSegment_def Let_def split: option.splits if_splits)
  ultimately show "counters (snd (shared s')) = counters (snd (shared s))"
    using r m by (auto simp: UnmountSegment_def CommitUnmountSegment_def Let_def dec_total_mem_capacity_def split: if_splits prod.splits option.splits)
qed

section \<open>Batches\<close>

lemma quiet_batch:
  assumes "\<And>k. k \<in> set ks \<Longrightarrow> quiet p (f k)"
  shows "quiet p (batch f ks)"
  using assms
proof (induction ks)
  case Nil
  show ?case by (simp add: quiet_def)
next
  case (Cons k ks)
  have q: "quiet p (f k)" "quiet p (batch f ks)" using Cons by simp_all
  show ?case unfolding quiet_def
  proof (intro allI impI)
    fix s s' r ttl ps assume b: "batch f (k # ks) s = (s', r)"
    obtain s1 r1 where f: "f k s = (s1, r1)" by (cases "f k s")
    obtain rs where g: "batch f ks s1 = (s', rs)" using b f by (auto split: prod.splits)
    note st = quietD [OF q(1) f, of ttl ps] quietD [OF q(2) g, of ttl ps]
    show "(step p)\<^sup>*\<^sup>* (s, ttl, ps) (s', ttl, ps)
      \<and> (sys_ok p (s, ttl, ps) \<longrightarrow> shuffle_law p \<longrightarrow> counters (snd (shared s')) = counters (snd (shared s)))"
      using st steps_ok [OF st(1)] by (auto intro: rtranclp_trans)
  qed
qed

lemma batch_length [simp]: "batch f ks s = (s', rs) \<Longrightarrow> length rs = length ks"
  by (induction ks arbitrary: s rs) (auto split: prod.splits)

lemma quiet_put_start_same_node:
  assumes "\<forall>(key, ls) \<in> set ks. unat (sum_list ls) \<le> 2 ^ 63"
  shows "quiet p (put_start_same_node p config i ks)"
  using assms
proof (induction ks arbitrary: config i)
  case Nil
  show ?case by (simp add: quiet_def)
next
  case (Cons x ks)
  obtain key ls where x: "x = (key, ls)" by (cases x)
  have q: "quiet p (PutStart p key [sum_list ls] config)" using Cons.prems by (intro quiet_PutStart) (simp add: x)
  show ?case unfolding quiet_def
  proof (intro allI impI)
    fix s s' r ttl ps assume b: "put_start_same_node p config i (x # ks) s = (s', r)"
    obtain s1 r1 where f: "PutStart p key [sum_list ls] config s = (s1, r1)" by (cases "PutStart p key [sum_list ls] config s")
    obtain rs where g: "put_start_same_node p (if i = 0 then prefer_segment r1 config else config) (i + 1) ks s1 = (s', rs)"
      using b f by (auto simp: x split: prod.splits)
    have q2: "quiet p (put_start_same_node p (if i = 0 then prefer_segment r1 config else config) (i + 1) ks)"
      using Cons.prems by (intro Cons.IH) simp
    note st = quietD [OF q f, of ttl ps] quietD [OF q2 g, of ttl ps]
    show "(step p)\<^sup>*\<^sup>* (s, ttl, ps) (s', ttl, ps)
      \<and> (sys_ok p (s, ttl, ps) \<longrightarrow> shuffle_law p \<longrightarrow> counters (snd (shared s')) = counters (snd (shared s)))"
      using st steps_ok [OF st(1)] by (auto intro: rtranclp_trans)
  qed
qed

lemma put_start_same_node_length [simp]: "put_start_same_node p config i ks s = (s', rs) \<Longrightarrow> length rs = length ks"
  by (induction p config i ks s arbitrary: rs rule: put_start_same_node.induct) (auto split: prod.splits)

section \<open>What a request adds to the counters\<close>

lemma counters_upd_metrics [simp]: "counters (snd (shared (upd_metrics f s))) = counters (f (snd (shared s)))"
  by (simp add: upd_metrics_def)

lemma upd_metrics_upd_metrics: "upd_metrics f (upd_metrics g s) = upd_metrics (\<lambda>m. f (g m)) s"
  by (simp add: upd_metrics_def)

lemma count_steps:
  "(step p)\<^sup>*\<^sup>* (s, ttl, ps) (upd_metrics (inc_requests op) s, ttl, ps)"
  "(step p)\<^sup>*\<^sup>* (s, ttl, ps) (upd_metrics (inc_failures op) s, ttl, ps)"
  "(step p)\<^sup>*\<^sup>* (s, ttl, ps) (upd_metrics (inc_batch_requests bop n) s, ttl, ps)"
  "(step p)\<^sup>*\<^sup>* (s, ttl, ps) (upd_metrics (inc_batch_failures bop n) s, ttl, ps)"
  "(step p)\<^sup>*\<^sup>* (s, ttl, ps) (upd_metrics (inc_batch_partial_success bop n) s, ttl, ps)"
proof -
  have one: "(step p)\<^sup>*\<^sup>* (s, ttl, ps) (upd_metrics (inc_counter c k) s, ttl, ps)" for c k s by (intro r_into_rtranclp step.count)
  have two: "(step p)\<^sup>*\<^sup>* (s, ttl, ps) (upd_metrics (\<lambda>m. inc_counter d j (inc_counter c k m)) s, ttl, ps)" for c k d j
    using rtranclp_trans [OF one [of s c k] one [of "upd_metrics (inc_counter c k) s" d j]] by (simp only: upd_metrics_upd_metrics)
  show "(step p)\<^sup>*\<^sup>* (s, ttl, ps) (upd_metrics (inc_requests op) s, ttl, ps)"
    "(step p)\<^sup>*\<^sup>* (s, ttl, ps) (upd_metrics (inc_failures op) s, ttl, ps)"
    using one [of s "requests op" 1] one [of s "failures op" 1] by (simp_all add: inc_requests_def [abs_def] inc_failures_def [abs_def])
  show "(step p)\<^sup>*\<^sup>* (s, ttl, ps) (upd_metrics (inc_batch_requests bop n) s, ttl, ps)"
    "(step p)\<^sup>*\<^sup>* (s, ttl, ps) (upd_metrics (inc_batch_failures bop n) s, ttl, ps)"
    "(step p)\<^sup>*\<^sup>* (s, ttl, ps) (upd_metrics (inc_batch_partial_success bop n) s, ttl, ps)"
    unfolding inc_batch_requests_def [abs_def] inc_batch_failures_def [abs_def] inc_batch_partial_success_def [abs_def] by (rule two)+
qed

text \<open>What the answers of the two kinds of requests add.\<close>

definition rpc_adds :: "rpc_op \<Rightarrow> bool \<Rightarrow> counter \<Rightarrow> nat" where
  "rpc_adds op failed c = (if c = requests op \<or> failed \<and> c = failures op then 1 else 0)"

definition batch_adds :: "batch_op \<Rightarrow> nat \<Rightarrow> nat \<Rightarrow> counter \<Rightarrow> nat" where
  "batch_adds op items failed c =
     (if c = batch_requests op then 1
      else if c = batch_items op then items
      else if c = batch_failures op then if failed = items then 1 else 0
      else if c = batch_partial_successes op then if 0 < failed \<and> failed < items then 1 else 0
      else if c = batch_failed_items op then failed
      else 0)"

lemma execute_rpc_ok:
  assumes "quiet p f" "execute_rpc op f s = (s', r)"
  shows "(step p)\<^sup>*\<^sup>* (s, ttl, ps) (s', ttl, ps)"
    "sys_ok p (s, ttl, ps) \<Longrightarrow> shuffle_law p \<Longrightarrow> counters (snd (shared s')) c = counters (snd (shared s)) c + of_nat (rpc_adds op (isl r) c)"
proof -
  let ?s = "upd_metrics (inc_requests op) s"
  obtain t where t: "f ?s = (t, r)" "s' = (if isl r then upd_metrics (inc_failures op) t else t)"
    using assms(2) by (auto simp: execute_rpc_def split: prod.splits)
  note q = quietD [OF assms(1) t(1), of ttl ps]
  have st: "(step p)\<^sup>*\<^sup>* (s, ttl, ps) (?s, ttl, ps)" by (rule count_steps)
  show "(step p)\<^sup>*\<^sup>* (s, ttl, ps) (s', ttl, ps)"
    using rtranclp_trans [OF st q(1)] count_steps(2) [of p t ttl ps op] by (auto simp: t(2) intro: rtranclp_trans)
  assume "sys_ok p (s, ttl, ps)" "shuffle_law p"
  then have "counters (snd (shared t)) = counters (snd (shared ?s))" using q(2) steps_ok [OF st] by blast
  then show "counters (snd (shared s')) c = counters (snd (shared s)) c + of_nat (rpc_adds op (isl r) c)"
    by (simp add: t(2) inc_requests_def inc_failures_def rpc_adds_def)
qed

lemma execute_batch_ok:
  assumes "quiet p f" "execute_batch op n f s = (s', rs)" "\<And>s s' rs. f s = (s', rs) \<Longrightarrow> length rs = n"
  shows "(step p)\<^sup>*\<^sup>* (s, ttl, ps) (s', ttl, ps)" "length rs = n"
    "sys_ok p (s, ttl, ps) \<Longrightarrow> shuffle_law p
      \<Longrightarrow> counters (snd (shared s')) c = counters (snd (shared s)) c + of_nat (batch_adds op (length rs) (failure_count rs) c)"
proof -
  let ?s = "upd_metrics (inc_batch_requests op (of_nat n)) s"
  obtain t where t: "f ?s = (t, rs)" "s' = count_batch op n rs t"
    using assms(2) by (auto simp: execute_batch_def split: prod.splits)
  show n: "length rs = n" by (rule assms(3) [OF t(1)])
  note q = quietD [OF assms(1) t(1), of ttl ps]
  have st: "(step p)\<^sup>*\<^sup>* (s, ttl, ps) (?s, ttl, ps)" by (rule count_steps)
  have "(step p)\<^sup>*\<^sup>* (t, ttl, ps) (s', ttl, ps)"
    using count_steps(4,5) [of p t ttl ps op "of_nat (failure_count rs)"] by (auto simp: t(2) count_batch_def Let_def)
  then show "(step p)\<^sup>*\<^sup>* (s, ttl, ps) (s', ttl, ps)" using rtranclp_trans [OF st q(1)] by (rule rtranclp_trans [rotated])
  have le: "failure_count rs \<le> n" using n by (auto simp: failure_count_def)
  assume "sys_ok p (s, ttl, ps)" "shuffle_law p"
  then have "counters (snd (shared t)) = counters (snd (shared ?s))" using q(2) steps_ok [OF st] by blast
  then show "counters (snd (shared s')) c = counters (snd (shared s)) c + of_nat (batch_adds op (length rs) (failure_count rs) c)"
    using le by (auto simp: t(2) n count_batch_def Let_def inc_batch_requests_def inc_batch_failures_def inc_batch_partial_success_def batch_adds_def)
qed

section \<open>All requests\<close>

text \<open>
  The ranges a request has to keep to: segments lie in the address space, no slice has more than
  \<open>2 ^ 63\<close> bytes, and a batch of puts comes with the slices of each of its keys.
\<close>

fun request_valid :: "rpc_request \<Rightarrow> bool" where
  "request_valid (Rq_PutStart key slice_lengths config) = (\<forall>n \<in> set slice_lengths. unat n \<le> 2 ^ 63)"
| "request_valid (Rq_BatchPutStart keys slice_lengths config) = (length keys \<le> length slice_lengths
     \<and> (\<forall>ls \<in> set slice_lengths. (\<forall>n \<in> set ls. unat n \<le> 2 ^ 63) \<and> unat (sum_list ls) \<le> 2 ^ 63))"
| "request_valid (Rq_MountSegment segment client_id) = seg_valid segment"
| "request_valid (Rq_ReMountSegment segments client_id) = (\<forall>x \<in> set segments. seg_valid x)"
| "request_valid _ = True"

text \<open>The counters a request belongs to, and how many of the items of the answer are errors.\<close>

fun request_op :: "rpc_request \<Rightarrow> (rpc_op + batch_op) option" where
  "request_op (Rq_ExistKey _ _) = Some (Inl Op_exist_key)"
| "request_op (Rq_GetReplicaListByRegex _ _) = Some (Inl Op_get_replica_list_by_regex)"
| "request_op (Rq_GetReplicaList _ _) = Some (Inl Op_get_replica_list)"
| "request_op (Rq_BatchGetReplicaList _) = Some (Inr Batch_get_replica_list)"
| "request_op (Rq_PutStart _ _ _) = Some (Inl Op_put_start)"
| "request_op (Rq_PutEnd _ _ _) = Some (Inl Op_put_end)"
| "request_op (Rq_PutRevoke _ _) = Some (Inl Op_put_revoke)"
| "request_op (Rq_BatchPutStart _ _ _) = Some (Inr Batch_put_start)"
| "request_op (Rq_BatchPutEnd _) = Some (Inr Batch_put_end)"
| "request_op (Rq_BatchPutRevoke _) = Some (Inr Batch_put_revoke)"
| "request_op (Rq_Remove _ _) = Some (Inl Op_remove)"
| "request_op (Rq_RemoveByRegex _ _) = Some (Inl Op_remove_by_regex)"
| "request_op (Rq_RemoveAll _) = Some (Inl Op_remove_all)"
| "request_op (Rq_MountSegment _ _) = Some (Inl Op_mount_segment)"
| "request_op (Rq_ReMountSegment _ _) = Some (Inl Op_remount_segment)"
| "request_op (Rq_UnmountSegment _ _) = Some (Inl Op_unmount_segment)"
| "request_op (Rq_Ping _) = Some (Inl Op_ping)"
| "request_op Rq_GetFsdir = None"
| "request_op (Rq_BatchExistKey _) = Some (Inr Batch_exist_key)"
| "request_op Rq_ServiceReady = None"

fun answered_items :: "rpc_response \<Rightarrow> nat" where
  "answered_items (Rs_bools rs) = length rs"
| "answered_items (Rs_units rs) = length rs"
| "answered_items (Rs_replica_lists rs) = length rs"
| "answered_items (Rs_started_all rs) = length rs"
| "answered_items _ = 1"

fun failed_items :: "rpc_response \<Rightarrow> nat" where
  "failed_items (Rs_bool r) = of_bool (isl r)"
| "failed_items (Rs_bools rs) = failure_count rs"
| "failed_items (Rs_unit r) = of_bool (isl r)"
| "failed_items (Rs_units rs) = failure_count rs"
| "failed_items (Rs_matches r) = of_bool (isl r)"
| "failed_items (Rs_replicas r) = of_bool (isl r)"
| "failed_items (Rs_replica_lists rs) = failure_count rs"
| "failed_items (Rs_started r) = of_bool (isl r)"
| "failed_items (Rs_started_all rs) = failure_count rs"
| "failed_items (Rs_removed r) = of_bool (isl r)"
| "failed_items (Rs_long n) = 0"
| "failed_items (Rs_ping r) = of_bool (isl r)"
| "failed_items (Rs_string r) = of_bool (isl r)"

definition request_adds :: "rpc_request \<Rightarrow> rpc_response \<Rightarrow> counter \<Rightarrow> nat" where
  "request_adds rq rs c =
     (case request_op rq of
        None \<Rightarrow> 0
      | Some (Inl op) \<Rightarrow> rpc_adds op (0 < failed_items rs \<and> op \<noteq> Op_ping) c
      | Some (Inr op) \<Rightarrow> batch_adds op (answered_items rs) (failed_items rs) c)"

definition answered :: "Platform \<Rightarrow> rpc_request \<Rightarrow> MasterService \<Rightarrow> (MasterService \<times> rpc_response) option \<Rightarrow> bool" where
  "answered p rq s q \<longleftrightarrow> (\<exists>s' rs. q = Some (s', rs) \<and> (\<forall>ttl ps. (step p)\<^sup>*\<^sup>* (s, ttl, ps) (s', ttl, ps)
     \<and> (sys_ok p (s, ttl, ps) \<longrightarrow> shuffle_law p
        \<longrightarrow> (\<forall>c. counters (snd (shared s')) c = counters (snd (shared s)) c + of_nat (request_adds rq rs c)))))"

lemma answered_single:
  assumes "quiet p f" "request_op rq = Some (Inl op)" "op \<noteq> Op_ping" "\<And>r. failed_items (C r) = of_bool (isl r)"
  shows "answered p rq s (Some (apsnd C (execute_rpc op f s)))"
proof -
  obtain s' r where e: "execute_rpc op f s = (s', r)" by (cases "execute_rpc op f s")
  have "0 < failed_items (C r) \<longleftrightarrow> isl r" by (simp add: assms(4))
  then show ?thesis using execute_rpc_ok [OF assms(1) e] by (auto simp: answered_def e request_adds_def assms(2,3))
qed

lemma answered_batch:
  assumes "quiet p f" "request_op rq = Some (Inr op)" "\<And>s s' rs. f s = (s', rs) \<Longrightarrow> length rs = n"
    and "\<And>rs. failed_items (C rs) = failure_count rs" "\<And>rs. answered_items (C rs) = length rs"
  shows "answered p rq s (Some (apsnd C (execute_batch op n f s)))"
proof -
  obtain s' rs where e: "execute_batch op n f s = (s', rs)" by (cases "execute_batch op n f s")
  show ?thesis using execute_batch_ok [OF assms(1) e assms(3)] by (auto simp: answered_def e request_adds_def assms(2,4,5))
qed

text \<open>Requests that only count that they arrive, and those that do not count at all.\<close>

lemma answered_counted:
  assumes "quiet p f" "request_op rq = Some (Inl op)" "\<And>r. failed_items (C r) = 0 \<or> op = Op_ping"
  shows "answered p rq s (Some (apsnd C (f (upd_metrics (inc_requests op) s))))"
proof -
  let ?s = "upd_metrics (inc_requests op) s"
  obtain s' r where e: "f ?s = (s', r)" by (cases "f ?s")
  have st: "(step p)\<^sup>*\<^sup>* (s, ttl, ps) (?s, ttl, ps)" for ttl ps by (rule count_steps)
  have c: "counters (snd (shared s')) = counters (snd (shared ?s))" if "sys_ok p (s, ttl, ps)" "shuffle_law p" for ttl ps
    using quietD(2) [OF assms(1) e] steps_ok [OF st that(2,1)] that(2) by blast
  have "\<not> (0 < failed_items (C r) \<and> op \<noteq> Op_ping)" using assms(3) by auto
  then show ?thesis using rtranclp_trans [OF st quietD(1) [OF assms(1) e]] c
    by (auto simp: answered_def e request_adds_def assms(2) rpc_adds_def inc_requests_def)
qed

lemma answered_free: "request_op rq = None \<Longrightarrow> answered p rq s (Some (s, rs))"
  by (simp add: answered_def request_adds_def)

lemma rpc_call_answered: "request_valid rq \<Longrightarrow> answered p rq s (rpc_call p rq s)"
proof (cases rq)
  case (Rq_BatchPutStart keys lens config)
  assume "request_valid rq"
  then have v: "length keys \<le> length lens" "\<forall>ls \<in> set lens. (\<forall>n \<in> set ls. unat n \<le> 2 ^ 63) \<and> unat (sum_list ls) \<le> 2 ^ 63"
    by (simp_all add: Rq_BatchPutStart)
  let ?f = "if prefer_alloc_in_same_node config then put_start_same_node p config 0 (zip keys lens)
         else batch (\<lambda>(key, ls). PutStart p key ls config) (zip keys lens)"
  have "quiet p (put_start_same_node p config 0 (zip keys lens))"
    using v(2) by (intro quiet_put_start_same_node) (auto dest: set_zip_rightD)
  moreover have "quiet p (batch (\<lambda>(key, ls). PutStart p key ls config) (zip keys lens))"
    using v(2) by (intro quiet_batch) (auto intro!: quiet_PutStart dest: set_zip_rightD)
  ultimately have "quiet p ?f" by simp
  moreover have "?f s = (s', rs) \<Longrightarrow> length rs = length keys" for s s' rs
    using v(1) by (cases "prefer_alloc_in_same_node config") (auto dest!: put_start_same_node_length batch_length)
  ultimately have "answered p rq s (Some (apsnd Rs_started_all (execute_batch Batch_put_start (length keys) ?f s)))"
    by (intro answered_batch) (auto simp: Rq_BatchPutStart)
  then show ?thesis using v(1) by (simp add: Rq_BatchPutStart Wrapped_BatchPutStart_def)
next
  case (Rq_RemoveAll now)
  show ?thesis unfolding Rq_RemoveAll rpc_call.simps Wrapped_RemoveAll_def
    by (rule answered_counted [where f = "RemoveAll now"]) (simp_all add: quiet_RemoveAll)
next
  case (Rq_Ping client_id)
  show ?thesis unfolding Rq_Ping rpc_call.simps Wrapped_Ping_def
    by (rule answered_counted [where f = "Ping p client_id"]) (simp_all add: quiet_Ping)
qed (simp_all only: rpc_call.simps Wrapped_ExistKey_def Wrapped_GetReplicaListByRegex_def Wrapped_GetReplicaList_def Wrapped_BatchGetReplicaList_def
    Wrapped_PutStart_def Wrapped_PutEnd_def Wrapped_PutRevoke_def Wrapped_BatchPutEnd_def Wrapped_BatchPutRevoke_def Wrapped_Remove_def
    Wrapped_RemoveByRegex_def Wrapped_MountSegment_def Wrapped_ReMountSegment_def Wrapped_UnmountSegment_def
    Wrapped_GetFsdir_def Wrapped_BatchExistKey_def BatchExistKey_def ServiceReady_def request_valid.simps,
  auto intro!: answered_single answered_batch answered_free quiet_batch quiet_ExistKey quiet_GetReplicaListByRegex
    quiet_GetReplicaList quiet_PutStart quiet_PutEnd quiet_PutRevoke quiet_Remove quiet_RemoveByRegex quiet_MountSegment
    quiet_ReMountSegment quiet_UnmountSegment)

lemma rpc_run_ok:
  assumes "list_all request_valid rqs"
  shows "\<exists>s' rss. rpc_run p rqs s = Some (s', rss) \<and> length rss = length rqs \<and> (step p)\<^sup>*\<^sup>* (s, ttl, ps) (s', ttl, ps)
    \<and> (sys_ok p (s, ttl, ps) \<longrightarrow> shuffle_law p \<longrightarrow> (\<forall>c. counters (snd (shared s')) c
         = counters (snd (shared s)) c + of_nat (sum_list (map2 (\<lambda>rq rs. request_adds rq rs c) rqs rss))))"
  using assms
proof (induction rqs arbitrary: s)
  case (Cons rq rqs)
  from rpc_call_answered [of rq p s] Cons.prems obtain s1 rs where
    a: "rpc_call p rq s = Some (s1, rs)" "(step p)\<^sup>*\<^sup>* (s, ttl, ps) (s1, ttl, ps)"
      "sys_ok p (s, ttl, ps) \<longrightarrow> shuffle_law p
        \<longrightarrow> (\<forall>c. counters (snd (shared s1)) c = counters (snd (shared s)) c + of_nat (request_adds rq rs c))"
    by (auto simp: answered_def)
  from Cons.IH [of s1] Cons.prems obtain s' rss where
    b: "rpc_run p rqs s1 = Some (s', rss)" "length rss = length rqs" "(step p)\<^sup>*\<^sup>* (s1, ttl, ps) (s', ttl, ps)"
      "sys_ok p (s1, ttl, ps) \<longrightarrow> shuffle_law p \<longrightarrow> (\<forall>c. counters (snd (shared s')) c
         = counters (snd (shared s1)) c + of_nat (sum_list (map2 (\<lambda>rq rs. request_adds rq rs c) rqs rss)))"
    by auto
  have "counters (snd (shared s')) c = counters (snd (shared s)) c + of_nat (request_adds rq rs c + sum_list (map2 (\<lambda>rq rs. request_adds rq rs c) rqs rss))"
    if "sys_ok p (s, ttl, ps)" "shuffle_law p" for c
    using a(3) b(4) steps_ok [OF a(2)] that by simp
  then show ?case using a(1) b(1,2) rtranclp_trans [OF a(2) b(3)] by (intro exI [of _ s'] exI [of _ "rs # rss"]) simp
qed simp

end
