(* ===== verification/Rpc_Properties.thy ===== *)
theory Rpc_Properties
  imports Rpc_Steps Master_Example
begin

text \<open>
  The property of the service behind the remote procedure calls: any sequence of valid requests is
  answered, stays within the transition system of the master, and is counted as documented.
\<close>

declare map_of_eq_Some_iff [simp del] split_paired_All [simp del] split_paired_Ex [simp del]

text \<open>
  C14: A sequence of valid requests (sizes of at most \<open>2^63\<close> bytes, segments inside the address space, a
  list of slice lengths for every key) is answered to the end, one response for each request. Every
  state on the way is one the master can reach, so that all invariants of the master hold behind the
  remote calls as well. Every counter of the metrics has grown by exactly what the requests and their
  responses add to it: one for every request, one for every failure, and for a batch the number of
  its items and of its failed items, as a full or a partial success or as a failure.
\<close>

theorem rpc_run_correct:
  assumes "reachable p (s, ttl, ps)" "shuffle_law p" "list_all request_valid rqs"
  shows "\<exists>s' rss. rpc_run p rqs s = Some (s', rss) \<and> length rss = length rqs \<and> reachable p (s', ttl, ps)
    \<and> (\<forall>c. counters (snd (shared s')) c
         = counters (snd (shared s)) c + of_nat (sum_list (map2 (\<lambda>rq rs. request_adds rq rs c) rqs rss)))"
  using rpc_run_ok [OF assms(3), of p s ttl ps] reachable_ok [OF assms(1,2)] assms(2) reachable_steps [OF _ assms(1)] by blast

lemma rpc_run_correct_witness:
  "\<exists>s' rss. rpc_run ex_platform [Rq_BatchExistKey [], Rq_Ping (2, 2), Rq_Remove 0 ''k''] ex_stored = Some (s', rss) \<and> length rss = 3
    \<and> reachable ex_platform (s', [], [])
    \<and> (\<forall>c. counters (snd (shared s')) c = counters (snd (shared ex_stored)) c
         + of_nat (sum_list (map2 (\<lambda>rq rs. request_adds rq rs c) [Rq_BatchExistKey [], Rq_Ping (2, 2), Rq_Remove 0 ''k''] rss)))"
  using rpc_run_correct [OF ex_stored_reachable ex_platform_law, of "[Rq_BatchExistKey [], Rq_Ping (2, 2), Rq_Remove 0 ''k'']"] by (simp add: numeral_3_eq_3 del: rpc_run.simps)

end
