(* ===== verification/Transfer_Task.thy ===== *)
theory Transfer_Task
  imports Replica
begin

text \<open>
  The transfers of the client (\<open>transfer_task.h\<close>, \<open>transfer_task.cpp\<close>): what \<open>TransferSubmitter\<close> checks,
  which strategy it takes and which copies it asks for, and how the state of an operation on the
  transfer engine is found. The memory is one byte for every address of every process, a process
  being named by its endpoint. The transfer engine and the file system are arguments, in the
  record \<open>Engine\<close>; a copy that has been submitted and waited for is one step.
\<close>

section \<open>Slices and memory\<close>

record Slice =
  slice_ptr :: "u64 option"
  slice_size :: u64

definition CalculateSliceSize :: "Slice list \<Rightarrow> u64" where
  "CalculateSliceSize slices = sum_list (map slice_size slices)"

type_synonym memory = "string \<Rightarrow> u64 \<Rightarrow> u8"

datatype OpCode = READ | WRITE

record TransferRequest =
  opcode :: OpCode
  rq_source :: u64
  rq_target :: string
  target_offset :: u64
  rq_length :: u64

record MemcpyOperation =
  mc_dest :: u64
  mc_src :: u64
  mc_size :: u64

text \<open>Copying \<open>n\<close> bytes from one place to another.\<close>

definition copy_bytes :: "string \<Rightarrow> u64 \<Rightarrow> string \<Rightarrow> u64 \<Rightarrow> u64 \<Rightarrow> memory \<Rightarrow> memory" where
  "copy_bytes dst_ep dst src_ep src n mem =
     mem(dst_ep := (\<lambda>x. if x - dst < n then mem src_ep (src + (x - dst)) else mem dst_ep x))"

definition perform_request :: "string \<Rightarrow> TransferRequest \<Rightarrow> memory \<Rightarrow> memory" where
  "perform_request local_ep rq =
     (case opcode rq of
        READ \<Rightarrow> copy_bytes local_ep (rq_source rq) (rq_target rq) (target_offset rq) (rq_length rq)
      | WRITE \<Rightarrow> copy_bytes (rq_target rq) (target_offset rq) local_ep (rq_source rq) (rq_length rq))"

text \<open>The loop of \<open>MemcpyWorkerPool::workerThread\<close> over the operations of a task.\<close>

definition perform_memcpy :: "string \<Rightarrow> MemcpyOperation list \<Rightarrow> memory \<Rightarrow> memory" where
  "perform_memcpy local_ep = fold (\<lambda>op. copy_bytes local_ep (mc_dest op) local_ep (mc_src op) (mc_size op))"

text \<open>
  The engine: which segments can be opened, the endpoint of this process, what becomes of a batch of
  requests (\<open>None\<close> when it is not accepted, otherwise the memory and whether all of its tasks were
  completed in time), and how an object is loaded from a file into slices.
\<close>

record Engine =
  openSegment :: "string \<Rightarrow> bool"
  getLocalIpAndPort :: string
  engine_run :: "TransferRequest list \<Rightarrow> memory \<Rightarrow> (memory \<times> bool) option"
  LoadObject :: "string \<Rightarrow> Slice list \<Rightarrow> u64 \<Rightarrow> memory \<Rightarrow> memory \<times> bool"

record TransferSubmitter =
  ts_engine :: Engine
  memcpy_enabled :: bool

section \<open>The submitter\<close>

datatype TransferStrategy = LOCAL_MEMCPY | TRANSFER_ENGINE | FILE_READ | EMPTY

text \<open>The environment variable \<open>MC_STORE_MEMCPY\<close>, in lower case.\<close>

definition memcpy_setting :: "string option \<Rightarrow> bool" where
  "memcpy_setting env_value =
     (case env_value of
        None \<Rightarrow> False
      | Some env_str \<Rightarrow>
          if env_str = ''false'' \<or> env_str = ''0'' \<or> env_str = ''no'' \<or> env_str = ''off'' then False
          else if env_str = ''true'' \<or> env_str = ''1'' \<or> env_str = ''yes'' \<or> env_str = ''on'' then True
          else True)"

definition validateTransferParams :: "BufferDescriptor list \<Rightarrow> Slice list \<Rightarrow> bool \<Rightarrow> bool" where
  "validateTransferParams handles slices is_multi_buffers =
     (if handles = [] then False
      else if length handles > length slices then False
      else if is_multi_buffers then desc_size (hd handles) = CalculateSliceSize slices
      else list_all2 (\<lambda>h s. desc_size h = slice_size s) handles (take (length handles) slices))"

definition isLocalTransfer :: "Engine \<Rightarrow> BufferDescriptor list \<Rightarrow> bool" where
  "isLocalTransfer e handles =
     (let local_ep = getLocalIpAndPort e
      in if local_ep \<noteq> [] then list_all (\<lambda>h. transport_endpoint h \<noteq> [] \<and> transport_endpoint h = local_ep) handles else False)"

definition selectStrategy :: "TransferSubmitter \<Rightarrow> BufferDescriptor list \<Rightarrow> TransferStrategy" where
  "selectStrategy t handles =
     (if \<not> memcpy_enabled t then TRANSFER_ENGINE
      else if isLocalTransfer (ts_engine t) handles then LOCAL_MEMCPY
      else TRANSFER_ENGINE)"

text \<open>The result of an operation on the engine, as \<open>wait_for_completion\<close> below finds it.\<close>

definition submitTransfer :: "Engine \<Rightarrow> TransferRequest list \<Rightarrow> memory \<Rightarrow> (memory \<times> ErrorCode) option" where
  "submitTransfer e rqs mem = map_option (apsnd (\<lambda>completed. if completed then OK else TRANSFER_FAIL)) (engine_run e rqs mem)"

text \<open>Null slices are passed over.\<close>

fun memcpy_operations :: "OpCode \<Rightarrow> BufferDescriptor list \<Rightarrow> Slice list \<Rightarrow> MemcpyOperation list" where
  "memcpy_operations op_code (handle # handles) (sl # slices) =
     (case slice_ptr sl of
        None \<Rightarrow> []
      | Some ptr \<Rightarrow>
          [case op_code of
             READ \<Rightarrow> \<lparr>mc_dest = ptr, mc_src = buffer_address handle, mc_size = desc_size handle\<rparr>
           | WRITE \<Rightarrow> \<lparr>mc_dest = buffer_address handle, mc_src = ptr, mc_size = desc_size handle\<rparr>])
     @ memcpy_operations op_code handles slices"
| "memcpy_operations op_code _ _ = []"

fun engine_requests :: "Engine \<Rightarrow> OpCode \<Rightarrow> BufferDescriptor list \<Rightarrow> Slice list \<Rightarrow> TransferRequest list option" where
  "engine_requests e op_code (handle # handles) (sl # slices) =
     (case slice_ptr sl of
        None \<Rightarrow> engine_requests e op_code handles slices
      | Some ptr \<Rightarrow>
          if transport_endpoint handle = [] then None
          else if \<not> openSegment e (transport_endpoint handle) then None
          else map_option ((#) \<lparr>opcode = op_code, rq_source = ptr, rq_target = transport_endpoint handle,
                 target_offset = buffer_address handle, rq_length = desc_size handle\<rparr>) (engine_requests e op_code handles slices))"
| "engine_requests e op_code _ _ = Some []"

definition submitMemcpyOperation :: "Engine \<Rightarrow> BufferDescriptor list \<Rightarrow> Slice list \<Rightarrow> OpCode \<Rightarrow> memory \<Rightarrow> (memory \<times> ErrorCode) option" where
  "submitMemcpyOperation e handles slices op_code mem =
     Some (perform_memcpy (getLocalIpAndPort e) (memcpy_operations op_code handles slices) mem, OK)"

definition submitTransferEngineOperation ::
  "Engine \<Rightarrow> BufferDescriptor list \<Rightarrow> Slice list \<Rightarrow> OpCode \<Rightarrow> memory \<Rightarrow> (memory \<times> ErrorCode) option" where
  "submitTransferEngineOperation e handles slices op_code mem =
     (case engine_requests e op_code handles slices of
        None \<Rightarrow> None
      | Some rqs \<Rightarrow> submitTransfer e rqs mem)"

definition submitFileReadOperation ::
  "Engine \<Rightarrow> string \<Rightarrow> u64 \<Rightarrow> Slice list \<Rightarrow> memory \<Rightarrow> (memory \<times> ErrorCode) option" where
  "submitFileReadOperation e file_path object_size slices mem =
     (case LoadObject e file_path slices object_size mem of (mem, ok) \<Rightarrow> Some (mem, if ok then OK else TRANSFER_FAIL))"

definition submit :: "TransferSubmitter \<Rightarrow> ReplicaDescriptor \<Rightarrow> Slice list \<Rightarrow> OpCode \<Rightarrow> memory \<Rightarrow> (memory \<times> ErrorCode) option" where
  "submit t replica slices op_code mem =
     (case descriptor_variant replica of
        MemoryDescriptor handles \<Rightarrow>
          if \<not> validateTransferParams handles slices False then None
          else
            (case selectStrategy t handles of
               LOCAL_MEMCPY \<Rightarrow> submitMemcpyOperation (ts_engine t) handles slices op_code mem
             | TRANSFER_ENGINE \<Rightarrow> submitTransferEngineOperation (ts_engine t) handles slices op_code mem
             | _ \<Rightarrow> None)
      | DiskDescriptor file_path object_size \<Rightarrow> submitFileReadOperation (ts_engine t) file_path object_size slices mem)"

text \<open>
  Several objects at once: all slices of an object go to its first buffer, one behind the other.
  \<open>None\<close> inside the result of \<open>batch_requests_of\<close> is the early return.
\<close>

fun slice_requests :: "OpCode \<Rightarrow> BufferDescriptor \<Rightarrow> u64 \<Rightarrow> Slice list \<Rightarrow> TransferRequest list" where
  "slice_requests op_code handle offset [] = []"
| "slice_requests op_code handle offset (sl # slices) =
     \<lparr>opcode = op_code, rq_source = (case slice_ptr sl of None \<Rightarrow> 0 | Some ptr \<Rightarrow> ptr), rq_target = transport_endpoint handle,
      target_offset = buffer_address handle + offset, rq_length = slice_size sl\<rparr>
     # slice_requests op_code handle (offset + slice_size sl) slices"

fun batch_requests_of :: "Engine \<Rightarrow> OpCode \<Rightarrow> ReplicaDescriptor list \<Rightarrow> Slice list list \<Rightarrow> TransferRequest list option" where
  "batch_requests_of e op_code (replica # reps) (slices # all_slices) =
     (case descriptor_variant replica of
        DiskDescriptor _ _ \<Rightarrow> None
      | MemoryDescriptor handles \<Rightarrow>
          if \<not> validateTransferParams handles slices True then None
          else if \<not> openSegment e (transport_endpoint (hd handles)) then None
          else map_option ((@) (slice_requests op_code (hd handles) 0 slices)) (batch_requests_of e op_code reps all_slices))"
| "batch_requests_of e op_code _ _ = Some []"

definition submit_batch :: "TransferSubmitter \<Rightarrow> ReplicaDescriptor list \<Rightarrow> Slice list list \<Rightarrow> OpCode \<Rightarrow> memory \<Rightarrow> (memory \<times> ErrorCode) option" where
  "submit_batch t reps all_slices op_code mem =
     (case batch_requests_of (ts_engine t) op_code reps all_slices of
        None \<Rightarrow> None
      | Some rqs \<Rightarrow> submitTransfer (ts_engine t) rqs mem)"

section \<open>The state of an operation on the engine\<close>

datatype TransferStatusEnum = WAITING | PENDING_TRANSFER | INVALID_TRANSFER | CANCELED | COMPLETED | TIMEOUT | FAILED_TRANSFER

text \<open>The loop over the tasks of a batch; a status that cannot be had is \<open>None\<close>.\<close>

fun check_task_status :: "TransferStatusEnum option list \<Rightarrow> bool \<Rightarrow> bool \<Rightarrow> ErrorCode option" where
  "check_task_status [] all_completed has_failure =
     (if has_failure then Some TRANSFER_FAIL else if all_completed then Some OK else None)"
| "check_task_status (None # ts) all_completed has_failure = Some TRANSFER_FAIL"
| "check_task_status (Some st # ts) all_completed has_failure =
     (case st of
        COMPLETED \<Rightarrow> check_task_status ts all_completed has_failure
      | FAILED_TRANSFER \<Rightarrow> check_task_status ts all_completed True
      | CANCELED \<Rightarrow> check_task_status ts all_completed True
      | INVALID_TRANSFER \<Rightarrow> check_task_status ts all_completed True
      | _ \<Rightarrow> check_task_status ts False has_failure)"

text \<open>
  The tasks are looked at once, and then polled: in every round the clock is read and the tasks are
  looked at; \<open>None\<close> when the rounds given are not enough.
\<close>

fun poll_completion :: "time \<Rightarrow> (time \<times> TransferStatusEnum option list) list \<Rightarrow> ErrorCode option" where
  "poll_completion start_ts [] = None"
| "poll_completion start_ts ((now, tasks) # rounds) =
     (if now - start_ts > 60 * 1000000000 then Some TRANSFER_FAIL
      else case check_task_status tasks True False of
        Some result \<Rightarrow> Some result
      | None \<Rightarrow> poll_completion start_ts rounds)"

definition wait_for_completion ::
  "TransferStatusEnum option list \<Rightarrow> time \<Rightarrow> (time \<times> TransferStatusEnum option list) list \<Rightarrow> ErrorCode option" where
  "wait_for_completion tasks start_ts rounds =
     (case check_task_status tasks True False of
        Some result \<Rightarrow> Some result
      | None \<Rightarrow> poll_completion start_ts rounds)"

lemma check_task_status_OK:
  "check_task_status ts c f = Some OK \<longleftrightarrow> c \<and> \<not> f \<and> (\<forall>t \<in> set ts. t = Some COMPLETED)"
  by (induction ts c f rule: check_task_status.induct) (auto split: TransferStatusEnum.splits)

text \<open>An operation is reported as done only when all its tasks are, and the wait ends after a minute.\<close>

lemma poll_completion_OK:
  "poll_completion start rounds = Some OK \<Longrightarrow> \<exists>tasks \<in> set (map snd rounds). \<forall>t \<in> set tasks. t = Some COMPLETED"
  by (induction start rounds rule: poll_completion.induct) (auto simp: check_task_status_OK split: if_splits option.splits)

lemma wait_for_completion_OK:
  "wait_for_completion first start rounds = Some OK \<Longrightarrow> \<exists>tasks \<in> set (first # map snd rounds). \<forall>t \<in> set tasks. t = Some COMPLETED"
  using poll_completion_OK [of start rounds] by (auto simp: wait_for_completion_def check_task_status_OK split: option.splits)

lemma wait_for_completion_codes: "wait_for_completion first start rounds = Some e \<Longrightarrow> e = OK \<or> e = TRANSFER_FAIL"
proof -
  have c: "check_task_status ts a f = Some e \<Longrightarrow> e = OK \<or> e = TRANSFER_FAIL" for ts a f e
    by (induction ts a f rule: check_task_status.induct) (auto split: if_splits TransferStatusEnum.splits)
  have "poll_completion start rounds = Some e \<Longrightarrow> e = OK \<or> e = TRANSFER_FAIL" for e
    by (induction start rounds rule: poll_completion.induct) (auto split: if_splits option.splits dest: c)
  then show "wait_for_completion first start rounds = Some e \<Longrightarrow> e = OK \<or> e = TRANSFER_FAIL"
    by (auto simp: wait_for_completion_def split: option.splits dest: c)
qed

lemma poll_completion_ends:
  "(now, tasks) \<in> set rounds \<Longrightarrow> now - start > 60 * 1000000000 \<Longrightarrow> \<exists>e. poll_completion start rounds = Some e"
  by (induction start rounds rule: poll_completion.induct) (auto split: option.splits)

lemma wait_for_completion_ends:
  "(now, tasks) \<in> set rounds \<Longrightarrow> now - start > 60 * 1000000000 \<Longrightarrow> \<exists>e. wait_for_completion first start rounds = Some e"
  using poll_completion_ends by (auto simp: wait_for_completion_def split: option.splits)

section \<open>What a transfer does to the memory\<close>

text \<open>The bytes of a region, as pairs of a process and an address.\<close>

definition cells :: "string \<Rightarrow> u64 \<Rightarrow> u64 \<Rightarrow> (string \<times> u64) set" where
  "cells ep a n = {(ep, x) | x. x - a < n}"

lemma mem_cells [simp]: "(e, x) \<in> cells ep a n \<longleftrightarrow> e = ep \<and> x - a < n"
  by (auto simp: cells_def)

text \<open>A copy: its target and its source as pairs of a process and an address, and the length.\<close>

type_synonym copy = "(string \<times> u64) \<times> (string \<times> u64) \<times> u64"

definition do_copy :: "copy \<Rightarrow> memory \<Rightarrow> memory" where
  "do_copy = (\<lambda>((de, d), (se, s), n). copy_bytes de d se s n)"

definition target_cells :: "copy \<Rightarrow> (string \<times> u64) set" where
  "target_cells = (\<lambda>((de, d), _, n). cells de d n)"

definition source_cells :: "copy \<Rightarrow> (string \<times> u64) set" where
  "source_cells = (\<lambda>(_, (se, s), n). cells se s n)"

lemma do_copy_other: "(e, x) \<notin> target_cells c \<Longrightarrow> do_copy c mem e x = mem e x"
  by (cases c) (auto simp: do_copy_def target_cells_def copy_bytes_def split: prod.splits)

lemma copies_other: "\<forall>c \<in> set cs. (e, x) \<notin> target_cells c \<Longrightarrow> fold do_copy cs mem e x = mem e x"
  by (induction cs arbitrary: mem) (simp_all add: do_copy_other)

lemma do_copy_target: "k < n \<Longrightarrow> do_copy ((de, d), (se, s), n) mem de (d + k) = mem se (s + k)"
  by (simp add: do_copy_def copy_bytes_def)

text \<open>
  Copies with disjoint targets that do not touch any source: afterwards every target holds what its
  source held before.
\<close>

lemma copies_done:
  assumes "sorted_wrt (\<lambda>c d. target_cells c \<inter> target_cells d = {}) cs"
    and "\<And>c d. c \<in> set cs \<Longrightarrow> d \<in> set cs \<Longrightarrow> source_cells c \<inter> target_cells d = {}"
    and "((de, d), (se, s), n) \<in> set cs" "k < n"
  shows "fold do_copy cs mem de (d + k) = mem se (s + k)"
  using assms
proof (induction cs arbitrary: mem)
  case (Cons c cs)
  show ?case
  proof (cases "((de, d), (se, s), n) = c")
    case True
    have "(de, d + k) \<in> target_cells c" using Cons.prems(4) by (simp add: True [symmetric] target_cells_def)
    then have "\<forall>x \<in> set cs. (de, d + k) \<notin> target_cells x" using Cons.prems(1) by auto
    then have "fold do_copy (c # cs) mem de (d + k) = do_copy c mem de (d + k)" by (simp add: copies_other)
    then show ?thesis using do_copy_target [OF Cons.prems(4), of de d se s mem] by (simp add: True)
  next
    case False
    then have "((de, d), (se, s), n) \<in> set cs" using Cons.prems(3) by simp
    then have "fold do_copy (c # cs) mem de (d + k) = do_copy c mem se (s + k)"
      using Cons.IH [of "do_copy c mem"] Cons.prems(1,2,4) by simp
    moreover have "(se, s + k) \<notin> target_cells c"
    proof -
      have "(se, s + k) \<in> source_cells ((de, d), (se, s), n)" using Cons.prems(4) by (simp add: source_cells_def)
      then show ?thesis using Cons.prems(2) [of "((de, d), (se, s), n)" c] Cons.prems(3) by auto
    qed
    ultimately show ?thesis by (simp add: do_copy_other)
  qed
qed simp

end
