(* ===== verification/Client.thy ===== *)
theory Client
  imports Rpc Transfer_Task
begin

text \<open>
  The client of the store (\<open>client.h\<close>, \<open>client.cpp\<close>) and the calls it makes to the master
  (\<open>master_client.cpp\<close>). A \<open>Site\<close> is what its operations work on: the master, the memory of all
  processes, and the queue of the thread that writes objects to files. What happens to a request on
  the network is an argument, as are the readings of the clock; the transfer engine is the one of
  the theory \<open>Transfer_Task\<close>. Metrics and log lines are left out.
\<close>

section \<open>Calling the master\<close>

text \<open>A request is answered, or does not arrive, or arrives and its answer is lost.\<close>

datatype delivery = Delivered | Request_lost | Reply_lost

definition invoke_rpc :: "delivery \<Rightarrow> (MasterService \<Rightarrow> MasterService \<times> (ErrorCode + 'a)) \<Rightarrow> MasterService \<Rightarrow> MasterService \<times> (ErrorCode + 'a)" where
  "invoke_rpc d call s =
     (case d of
        Delivered \<Rightarrow> call s
      | Request_lost \<Rightarrow> (s, Inl RPC_FAIL)
      | Reply_lost \<Rightarrow> (fst (call s), Inl RPC_FAIL))"

definition invoke_batch_rpc ::
  "delivery \<Rightarrow> nat \<Rightarrow> (MasterService \<Rightarrow> MasterService \<times> (ErrorCode + 'a) list) \<Rightarrow> MasterService \<Rightarrow> MasterService \<times> (ErrorCode + 'a) list" where
  "invoke_batch_rpc d input_size call s =
     (case d of
        Delivered \<Rightarrow> call s
      | Request_lost \<Rightarrow> (s, replicate input_size (Inl RPC_FAIL))
      | Reply_lost \<Rightarrow> (fst (call s), replicate input_size (Inl RPC_FAIL)))"

datatype client_rpc = PutStart_rpc | PutEnd_rpc | PutRevoke_rpc

section \<open>State\<close>

record Client =
  c_id :: UUID
  local_hostname :: string
  p2p_handshake :: bool
  transfer_engine :: Engine
  transfer_submitter :: "TransferSubmitter option"
  storage_backend :: bool
  c_segments :: "(UUID \<times> Segment) list"

text \<open>A write that waits for the writing thread: the key, the value and the path of the file.\<close>

record Site =
  site_master :: MasterService
  site_memory :: memory
  site_writes :: "(string \<times> u8 list \<times> string) list"

definition own_endpoint :: "Client \<Rightarrow> string" where
  "own_endpoint c = getLocalIpAndPort (transfer_engine c)"

text \<open>The value of the environment variable is an argument.\<close>

definition InitTransferSubmitter :: "string option \<Rightarrow> Client \<Rightarrow> Client" where
  "InitTransferSubmitter env_value c =
     c\<lparr>transfer_submitter := Some \<lparr>ts_engine = transfer_engine c, memcpy_enabled = memcpy_setting env_value\<rparr>\<rparr>"

definition on_master :: "(MasterService \<Rightarrow> MasterService \<times> 'r) \<Rightarrow> Site \<Rightarrow> Site \<times> 'r" where
  "on_master f site = (case f (site_master site) of (s, r) \<Rightarrow> (site\<lparr>site_master := s\<rparr>, r))"

section \<open>Reading\<close>

record QueryResult =
  qr_replicas :: "ReplicaDescriptor list"
  qr_lease_timeout :: time

definition QueryResult_IsLeaseExpired :: "time \<Rightarrow> QueryResult \<Rightarrow> bool" where
  "QueryResult_IsLeaseExpired now q \<longleftrightarrow> now \<ge> qr_lease_timeout q"

text \<open>The client reads its clock before the request, the master reads its own.\<close>

definition Client_Query :: "Platform \<Rightarrow> delivery \<Rightarrow> time \<Rightarrow> time \<Rightarrow> string \<Rightarrow> Site \<Rightarrow> Site \<times> (ErrorCode + QueryResult)" where
  "Client_Query p d start_time master_now object_key site =
     (case on_master (invoke_rpc d (Wrapped_GetReplicaList p master_now object_key)) site of (site, result) \<Rightarrow>
        (site, case result of
           Inl e \<Rightarrow> Inl e
         | Inr (reps, lease_ttl_ms) \<Rightarrow> Inr \<lparr>qr_replicas = reps, qr_lease_timeout = start_time + milliseconds lease_ttl_ms\<rparr>))"

definition Client_BatchQuery ::
  "Platform \<Rightarrow> delivery \<Rightarrow> time \<Rightarrow> (time \<times> string) list \<Rightarrow> Site \<Rightarrow> Site \<times> (ErrorCode + QueryResult) list" where
  "Client_BatchQuery p d start_time keys site =
     (case on_master (invoke_batch_rpc d (length keys) (Wrapped_BatchGetReplicaList p keys)) site of (site, response) \<Rightarrow>
        (site,
         if length response \<noteq> length keys then replicate (length keys) (Inl RPC_FAIL)
         else map (\<lambda>r. case r of
             Inl e \<Rightarrow> Inl e
           | Inr (reps, lease_ttl_ms) \<Rightarrow> Inr \<lparr>qr_replicas = reps, qr_lease_timeout = start_time + milliseconds lease_ttl_ms\<rparr>) response))"

fun FindFirstCompleteReplica :: "ReplicaDescriptor list \<Rightarrow> ErrorCode + ReplicaDescriptor" where
  "FindFirstCompleteReplica [] = Inl INVALID_REPLICA"
| "FindFirstCompleteReplica (r # rs) = (if descriptor_status r = COMPLETE then Inr r else FindFirstCompleteReplica rs)"

definition TransferData :: "Client \<Rightarrow> ReplicaDescriptor \<Rightarrow> Slice list \<Rightarrow> OpCode \<Rightarrow> memory \<Rightarrow> memory \<times> ErrorCode" where
  "TransferData c replica slices op_code mem =
     (case transfer_submitter c of
        None \<Rightarrow> (mem, INVALID_PARAMS)
      | Some t \<Rightarrow> (case submit t replica slices op_code mem of None \<Rightarrow> (mem, TRANSFER_FAIL) | Some r \<Rightarrow> r))"

definition TransferWrite :: "Client \<Rightarrow> ReplicaDescriptor \<Rightarrow> Slice list \<Rightarrow> memory \<Rightarrow> memory \<times> ErrorCode" where
  "TransferWrite c replica slices = TransferData c replica slices WRITE"

definition descriptor_size :: "ReplicaDescriptor \<Rightarrow> u64" where
  "descriptor_size replica =
     (case descriptor_variant replica of
        MemoryDescriptor handles \<Rightarrow> sum_list (map desc_size handles)
      | DiskDescriptor _ object_size \<Rightarrow> object_size)"

definition TransferRead :: "Client \<Rightarrow> ReplicaDescriptor \<Rightarrow> Slice list \<Rightarrow> memory \<Rightarrow> memory \<times> ErrorCode" where
  "TransferRead c replica slices mem =
     (if CalculateSliceSize slices < descriptor_size replica then (mem, INVALID_PARAMS)
      else TransferData c replica slices READ mem)"

text \<open>\<open>finish\<close> is the time at which the transfer has ended.\<close>

definition Client_Get_replica :: "Client \<Rightarrow> time \<Rightarrow> QueryResult \<Rightarrow> Slice list \<Rightarrow> Site \<Rightarrow> Site \<times> (ErrorCode + unit)" where
  "Client_Get_replica c finish query_result slices site =
     (case FindFirstCompleteReplica (qr_replicas query_result) of
        Inl e \<Rightarrow> (site, Inl e)
      | Inr replica \<Rightarrow>
          (case TransferRead c replica slices (site_memory site) of (mem, err) \<Rightarrow>
             let site = site\<lparr>site_memory := mem\<rparr>
             in if err \<noteq> OK then (site, Inl err)
                else if QueryResult_IsLeaseExpired finish query_result then (site, Inl LEASE_EXPIRED)
                else (site, Inr ())))"

definition Client_Get ::
  "Platform \<Rightarrow> Client \<Rightarrow> delivery \<Rightarrow> time \<Rightarrow> time \<Rightarrow> time \<Rightarrow> string \<Rightarrow> Slice list \<Rightarrow> Site \<Rightarrow> Site \<times> (ErrorCode + unit)" where
  "Client_Get p c d start_time master_now finish object_key slices site =
     (case Client_Query p d start_time master_now object_key site of
        (site, Inl e) \<Rightarrow> (site, Inl e)
      | (site, Inr query_result) \<Rightarrow> Client_Get_replica c finish query_result slices site)"

text \<open>Reading several objects: all transfers are submitted, then the lease of each is looked at.\<close>

definition submit_read :: "TransferSubmitter \<Rightarrow> (string \<rightharpoonup> Slice list) \<Rightarrow> string \<Rightarrow> QueryResult \<Rightarrow> memory \<Rightarrow> memory \<times> (ErrorCode + unit)" where
  "submit_read t slices key query_result mem =
     (case slices key of
        None \<Rightarrow> (mem, Inl INVALID_PARAMS)
      | Some key_slices \<Rightarrow>
          (case FindFirstCompleteReplica (qr_replicas query_result) of
             Inl e \<Rightarrow> (mem, Inl e)
           | Inr replica \<Rightarrow>
               (case submit t replica key_slices READ mem of
                  None \<Rightarrow> (mem, Inl TRANSFER_FAIL)
                | Some (mem, result) \<Rightarrow> (mem, if result \<noteq> OK then Inl result else Inr ()))))"

definition check_lease :: "time \<Rightarrow> QueryResult \<Rightarrow> ErrorCode + unit \<Rightarrow> ErrorCode + unit" where
  "check_lease now query_result result =
     (if \<not> isl result \<and> QueryResult_IsLeaseExpired now query_result then Inl LEASE_EXPIRED else result)"

text \<open>
  Objects of one node: the reads are put together by the endpoint of their first buffer; the
  groups are run in the order in which their endpoints come up.
\<close>

definition read_target :: "(string \<rightharpoonup> Slice list) \<Rightarrow> string \<Rightarrow> QueryResult \<Rightarrow> ErrorCode + string \<times> ReplicaDescriptor \<times> Slice list" where
  "read_target slices key query_result =
     (case slices key of
        None \<Rightarrow> Inl INVALID_PARAMS
      | Some key_slices \<Rightarrow>
          (case FindFirstCompleteReplica (qr_replicas query_result) of
             Inl e \<Rightarrow> Inl e
           | Inr replica \<Rightarrow>
               (case descriptor_variant replica of
                  MemoryDescriptor (h # _) \<Rightarrow> Inr (transport_endpoint h, replica, key_slices)
                | _ \<Rightarrow> Inl INVALID_REPLICA)))"

fun run_groups ::
  "TransferSubmitter \<Rightarrow> OpCode \<Rightarrow> (ErrorCode + string \<times> ReplicaDescriptor \<times> Slice list) list \<Rightarrow> string list \<Rightarrow> memory
     \<Rightarrow> memory \<times> (string \<rightharpoonup> ErrorCode + unit)" where
  "run_groups t op_code targets [] mem = (mem, Map.empty)"
| "run_groups t op_code targets (seg # segs) mem =
     (let members = [(replica, ss). Inr (e, replica, ss) \<leftarrow> targets, e = seg];
          (mem, result) =
            (case submit_batch t (map fst members) (map snd members) op_code mem of
               None \<Rightarrow> (mem, Inl TRANSFER_FAIL)
             | Some (mem, code) \<Rightarrow> (mem, if code \<noteq> OK then Inl TRANSFER_FAIL else Inr ()))
      in case run_groups t op_code targets segs mem of (mem, results) \<Rightarrow> (mem, results(seg \<mapsto> result)))"

definition group_segments :: "(ErrorCode + string \<times> ReplicaDescriptor \<times> Slice list) list \<Rightarrow> string list" where
  "group_segments targets = remdups [e. Inr (e, _, _) \<leftarrow> targets]"

definition BatchGetWhenPreferSameNode ::
  "TransferSubmitter \<Rightarrow> string list \<Rightarrow> QueryResult list \<Rightarrow> (string \<rightharpoonup> Slice list) \<Rightarrow> Site \<Rightarrow> Site \<times> (ErrorCode + unit) list" where
  "BatchGetWhenPreferSameNode t keys query_results slices site =
     (let targets = map2 (read_target slices) keys query_results
      in case run_groups t READ targets (group_segments targets) (site_memory site) of (mem, results) \<Rightarrow>
        (site\<lparr>site_memory := mem\<rparr>,
         map (\<lambda>x. case x of Inl e \<Rightarrow> Inl e | Inr (seg, _, _) \<Rightarrow> (case results seg of Some r \<Rightarrow> r | None \<Rightarrow> Inr ())) targets))"

definition Client_BatchGet_queried ::
  "Client \<Rightarrow> time \<Rightarrow> string list \<Rightarrow> QueryResult list \<Rightarrow> (string \<rightharpoonup> Slice list) \<Rightarrow> bool \<Rightarrow> Site \<Rightarrow> Site \<times> (ErrorCode + unit) list" where
  "Client_BatchGet_queried c now keys query_results slices prefer_same_node site =
     (case transfer_submitter c of
        None \<Rightarrow> (site, replicate (length keys) (Inl INVALID_PARAMS))
      | Some t \<Rightarrow>
          if length query_results \<noteq> length keys then (site, replicate (length keys) (Inl INVALID_PARAMS))
          else if prefer_same_node then BatchGetWhenPreferSameNode t keys query_results slices site
          else
            (case batch (\<lambda>(key, q). submit_read t slices key q) (zip keys query_results) (site_memory site) of (mem, results) \<Rightarrow>
               (site\<lparr>site_memory := mem\<rparr>, map2 (check_lease now) query_results results)))"

text \<open>The results of the keys that were found go back to their positions.\<close>

fun merge_results :: "(ErrorCode + 'q) list \<Rightarrow> (ErrorCode + unit) list \<Rightarrow> (ErrorCode + unit) list" where
  "merge_results [] rs = []"
| "merge_results (Inl e # qs) rs = Inl e # merge_results qs rs"
| "merge_results (Inr q # qs) (r # rs) = r # merge_results qs rs"
| "merge_results (Inr q # qs) [] = Inr () # merge_results qs []"

definition Client_BatchGet ::
  "Platform \<Rightarrow> Client \<Rightarrow> delivery \<Rightarrow> time \<Rightarrow> time \<Rightarrow> (time \<times> string) list \<Rightarrow> (string \<rightharpoonup> Slice list) \<Rightarrow> Site \<Rightarrow> Site \<times> (ErrorCode + unit) list" where
  "Client_BatchGet p c d start_time finish keys slices site =
     (case Client_BatchQuery p d start_time keys site of (site, queries) \<Rightarrow>
        let valid = [(key, q). ((_, key), Inr q) \<leftarrow> zip keys queries];
            (site, valid_results) =
              (if valid = [] then (site, [])
               else Client_BatchGet_queried c finish (map fst valid) (map snd valid) slices False site)
        in (site, merge_results queries valid_results))"

section \<open>Writing one object\<close>

definition slice_bytes :: "string \<Rightarrow> memory \<Rightarrow> Slice \<Rightarrow> u8 list" where
  "slice_bytes ep mem sl =
     (case slice_ptr sl of None \<Rightarrow> [] | Some ptr \<Rightarrow> map (\<lambda>k. mem ep (ptr + word_of_nat k)) [0..<unat (slice_size sl)])"

definition PutToLocalFile :: "Client \<Rightarrow> string \<Rightarrow> Slice list \<Rightarrow> string \<Rightarrow> Site \<Rightarrow> Site" where
  "PutToLocalFile c key slices path site =
     (if \<not> storage_backend c then site
      else site\<lparr>site_writes := site_writes site @ [(key, concat (map (slice_bytes (own_endpoint c) (site_memory site)) slices), path)]\<rparr>)"

text \<open>A turn of the writing thread: \<open>stored\<close> says whether \<open>StoreObject\<close> succeeded.\<close>

definition write_task :: "Platform \<Rightarrow> delivery \<Rightarrow> time \<Rightarrow> bool \<Rightarrow> Site \<Rightarrow> Site" where
  "write_task p d now stored site =
     (case site_writes site of
        [] \<Rightarrow> site
      | (key, value, path) # rest \<Rightarrow>
          let site = site\<lparr>site_writes := rest\<rparr>
          in if \<not> stored then fst (on_master (invoke_rpc d (Wrapped_PutRevoke p key DISK)) site)
             else fst (on_master (invoke_rpc d (Wrapped_PutEnd p now key DISK)) site))"

text \<open>The last disk replica goes to a file, when there is a storage backend.\<close>

definition put_disk_replica :: "Client \<Rightarrow> string \<Rightarrow> Slice list \<Rightarrow> ReplicaDescriptor list \<Rightarrow> Site \<Rightarrow> Site" where
  "put_disk_replica c key slices reps site =
     (if storage_backend c
      then case [path. DiskDescriptor path _ \<leftarrow> rev (map descriptor_variant reps)] of
          [] \<Rightarrow> site
        | path # _ \<Rightarrow> PutToLocalFile c key slices path site
      else site)"

definition is_memory_descriptor :: "ReplicaDescriptor \<Rightarrow> bool" where
  "is_memory_descriptor d = (case descriptor_variant d of MemoryDescriptor _ \<Rightarrow> True | DiskDescriptor _ _ \<Rightarrow> False)"

fun write_replicas :: "Client \<Rightarrow> Slice list \<Rightarrow> ReplicaDescriptor list \<Rightarrow> memory \<Rightarrow> memory \<times> ErrorCode" where
  "write_replicas c slices [] mem = (mem, OK)"
| "write_replicas c slices (replica # reps) mem =
     (if is_memory_descriptor replica then
        case TransferWrite c replica slices mem of (mem, err) \<Rightarrow>
          if err \<noteq> OK then (mem, err) else write_replicas c slices reps mem
      else write_replicas c slices reps mem)"

definition Client_Put ::
  "Platform \<Rightarrow> Client \<Rightarrow> (client_rpc \<Rightarrow> delivery) \<Rightarrow> time \<Rightarrow> string \<Rightarrow> Slice list \<Rightarrow> ReplicateConfig \<Rightarrow> Site \<Rightarrow> Site \<times> (ErrorCode + unit)" where
  "Client_Put p c net now key slices config site =
     (case on_master (invoke_rpc (net PutStart_rpc) (Wrapped_PutStart p key (map slice_size slices) config)) site of
        (site, Inl err) \<Rightarrow> if err = OBJECT_ALREADY_EXISTS then (site, Inr ()) else (site, Inl err)
      | (site, Inr reps) \<Rightarrow>
          let site = put_disk_replica c key slices reps site
          in case write_replicas c slices reps (site_memory site) of (mem, transfer_err) \<Rightarrow>
            let site = site\<lparr>site_memory := mem\<rparr>
            in if transfer_err \<noteq> OK then
                 (case on_master (invoke_rpc (net PutRevoke_rpc) (Wrapped_PutRevoke p key MEMORY)) site of
                    (site, Inl e) \<Rightarrow> (site, Inl e)
                  | (site, Inr _) \<Rightarrow> (site, Inl transfer_err))
               else on_master (invoke_rpc (net PutEnd_rpc) (Wrapped_PutEnd p now key MEMORY)) site)"

section \<open>Writing several objects\<close>

datatype PutOperationState = PENDING | MASTER_FAILED | TRANSFER_FAILED | FINALIZE_FAILED | SUCCESS

text \<open>A transfer that is pending is its result.\<close>

record PutOperation =
  op_key :: string
  op_slices :: "Slice list"
  op_state :: PutOperationState
  op_result :: "ErrorCode + unit"
  op_replicas :: "ReplicaDescriptor list"
  op_transfers :: "ErrorCode list"

definition PutOperation_new :: "string \<Rightarrow> Slice list \<Rightarrow> PutOperation" where
  "PutOperation_new key slices =
     \<lparr>op_key = key, op_slices = slices, op_state = PENDING, op_result = Inl INTERNAL_ERROR, op_replicas = [], op_transfers = []\<rparr>"

definition SetSuccess :: "PutOperation \<Rightarrow> PutOperation" where
  "SetSuccess op = op\<lparr>op_state := SUCCESS, op_result := Inr ()\<rparr>"

definition SetError :: "ErrorCode \<Rightarrow> PutOperation \<Rightarrow> PutOperation" where
  "SetError err op =
     op\<lparr>op_result := Inl err,
        op_state := (if op_replicas op = [] then MASTER_FAILED else if op_transfers op = [] then TRANSFER_FAILED else FINALIZE_FAILED)\<rparr>"

definition IsResolved :: "PutOperation \<Rightarrow> bool" where
  "IsResolved op \<longleftrightarrow> op_state op \<noteq> PENDING"

definition IsSuccessful :: "PutOperation \<Rightarrow> bool" where
  "IsSuccessful op \<longleftrightarrow> op_state op = SUCCESS \<and> \<not> isl (op_result op)"

text \<open>The keys come with their slices.\<close>

definition CreatePutOperations :: "(string \<times> Slice list) list \<Rightarrow> PutOperation list" where
  "CreatePutOperations keys = map (\<lambda>(key, slices). PutOperation_new key slices) keys"

definition put_started :: "ErrorCode + ReplicaDescriptor list \<Rightarrow> PutOperation \<Rightarrow> PutOperation" where
  "put_started response op = (case response of Inl e \<Rightarrow> SetError e op | Inr reps \<Rightarrow> op\<lparr>op_replicas := reps\<rparr>)"

text \<open>There are as many lists of slice lengths as keys, so that the master always answers.\<close>

definition StartBatchPut ::
  "Platform \<Rightarrow> delivery \<Rightarrow> ReplicateConfig \<Rightarrow> PutOperation list \<Rightarrow> Site \<Rightarrow> Site \<times> PutOperation list" where
  "StartBatchPut p d config ops site =
     (let call = (\<lambda>s. case Wrapped_BatchPutStart p (map op_key ops) (map (\<lambda>op. map slice_size (op_slices op)) ops) config s of
                    Some r \<Rightarrow> r | None \<Rightarrow> (s, []))
      in case on_master (invoke_batch_rpc d (length ops) call) site of (site, responses) \<Rightarrow>
        (site,
         if length responses \<noteq> length ops then map (SetError RPC_FAIL) ops
         else map2 put_started responses ops))"

text \<open>Submitting the transfers to the memory replicas of an operation; it ends at the first that is refused.\<close>

fun submit_replicas ::
  "TransferSubmitter \<Rightarrow> Slice list \<Rightarrow> ReplicaDescriptor list \<Rightarrow> memory \<Rightarrow> memory \<times> bool \<times> ErrorCode list" where
  "submit_replicas t slices [] mem = (mem, True, [])"
| "submit_replicas t slices (replica # reps) mem =
     (if is_memory_descriptor replica then
        case submit t replica slices WRITE mem of
          None \<Rightarrow> (mem, False, [])
        | Some (mem, code) \<Rightarrow>
            (case submit_replicas t slices reps mem of (mem, ok, codes) \<Rightarrow> (mem, ok, code # codes))
      else submit_replicas t slices reps mem)"

definition submit_operation :: "Client \<Rightarrow> TransferSubmitter \<Rightarrow> PutOperation \<Rightarrow> Site \<Rightarrow> Site \<times> PutOperation" where
  "submit_operation c t op site =
     (if IsResolved op then (site, op)
      else if op_replicas op = [] then (site, SetError INTERNAL_ERROR op)
      else
        let site = put_disk_replica c (op_key op) (op_slices op) (op_replicas op) site
        in case submit_replicas t (op_slices op) (op_replicas op) (site_memory site) of (mem, ok, codes) \<Rightarrow>
          let site = site\<lparr>site_memory := mem\<rparr>; op = op\<lparr>op_transfers := codes\<rparr>
          in (site, if ok then op else (SetError TRANSFER_FAIL op)\<lparr>op_transfers := []\<rparr>))"

definition SubmitTransfers :: "Client \<Rightarrow> PutOperation list \<Rightarrow> Site \<Rightarrow> Site \<times> PutOperation list" where
  "SubmitTransfers c ops site =
     (case transfer_submitter c of
        None \<Rightarrow> (site, map (SetError INVALID_PARAMS) ops)
      | Some t \<Rightarrow> batch (submit_operation c t) ops site)"

definition wait_operation :: "PutOperation \<Rightarrow> PutOperation" where
  "wait_operation op =
     (if IsResolved op then op
      else if op_transfers op = [] then SetError INTERNAL_ERROR op
      else case filter (\<lambda>e. e \<noteq> OK) (op_transfers op) of
        [] \<Rightarrow> op
      | first_error # _ \<Rightarrow> SetError first_error op)"

definition WaitForTransfers :: "PutOperation list \<Rightarrow> PutOperation list" where
  "WaitForTransfers = map wait_operation"

text \<open>
  Which operations are to be ended and which revoked is decided first; the answers then go to the
  operations in order.
\<close>

definition to_end :: "PutOperation \<Rightarrow> bool" where
  "to_end op \<longleftrightarrow> \<not> IsResolved op \<and> op_replicas op \<noteq> [] \<and> op_transfers op \<noteq> []"

definition to_revoke :: "PutOperation \<Rightarrow> bool" where
  "to_revoke op \<longleftrightarrow> \<not> to_end op \<and> op_state op \<noteq> PENDING \<and> op_replicas op \<noteq> []"

fun answer_operations :: "('r \<Rightarrow> PutOperation \<Rightarrow> PutOperation) \<Rightarrow> bool list \<Rightarrow> 'r list \<Rightarrow> PutOperation list \<Rightarrow> PutOperation list" where
  "answer_operations f (True # bs) (r # rs) (op # ops) = f r op # answer_operations f bs rs ops"
| "answer_operations f (False # bs) rs (op # ops) = op # answer_operations f bs rs ops"
| "answer_operations f _ _ ops = ops"

definition end_answer :: "ErrorCode + unit \<Rightarrow> PutOperation \<Rightarrow> PutOperation" where
  "end_answer response op = (case response of Inl e \<Rightarrow> SetError e op | Inr _ \<Rightarrow> SetSuccess op)"

text \<open>The time of the request comes with each key.\<close>

definition FinalizeBatchPut ::
  "Platform \<Rightarrow> (client_rpc \<Rightarrow> delivery) \<Rightarrow> time \<Rightarrow> PutOperation list \<Rightarrow> Site \<Rightarrow> Site \<times> PutOperation list" where
  "FinalizeBatchPut p net now ops site =
     (let ends = map to_end ops; revokes = map to_revoke ops;
          successful_keys = map op_key (filter to_end ops);
          failed_keys = map op_key (filter to_revoke ops);
          (site, ops) =
            (if successful_keys = [] then (site, ops)
             else case on_master (invoke_batch_rpc (net PutEnd_rpc) (length successful_keys)
                      (Wrapped_BatchPutEnd p (map (Pair now) successful_keys))) site of (site, responses) \<Rightarrow>
               (site,
                if length responses \<noteq> length successful_keys
                then map2 (\<lambda>e op. if e then SetError RPC_FAIL op else op) ends ops
                else answer_operations end_answer ends responses ops));
          (site, ops) =
            (if failed_keys = [] then (site, ops)
             else case on_master (invoke_batch_rpc (net PutRevoke_rpc) (length failed_keys)
                      (Wrapped_BatchPutRevoke p failed_keys)) site of (site, responses) \<Rightarrow>
               (site,
                if length responses \<noteq> length failed_keys
                then map2 (\<lambda>r op. if r then SetError RPC_FAIL op else op) revokes ops
                else ops))
      in (site, map (\<lambda>op. if \<not> IsResolved op then SetError INTERNAL_ERROR op else op) ops))"

definition CollectResults :: "PutOperation list \<Rightarrow> (ErrorCode + unit) list" where
  "CollectResults ops = map (\<lambda>op. if op_result op = Inl OBJECT_ALREADY_EXISTS then Inr () else op_result op) ops"

text \<open>
  The variant for objects of one node: the transfers are put together by endpoint, and every
  operation takes over the state of its group and a transfer that is done.
\<close>

definition write_target :: "PutOperation \<Rightarrow> PutOperation \<times> (ErrorCode + string \<times> ReplicaDescriptor \<times> Slice list)" where
  "write_target op =
     (if IsResolved op then (op, Inl INTERNAL_ERROR)
      else case op_replicas op of
        [] \<Rightarrow> (SetError INTERNAL_ERROR op, Inl INTERNAL_ERROR)
      | replica # _ \<Rightarrow>
          (case descriptor_variant replica of
             DiskDescriptor _ _ \<Rightarrow> (SetError INVALID_PARAMS op, Inl INVALID_PARAMS)
           | MemoryDescriptor [] \<Rightarrow> (SetError INVALID_PARAMS op, Inl INVALID_PARAMS)
           | MemoryDescriptor (h # _) \<Rightarrow> (op, Inr (transport_endpoint h, replica, op_slices op))))"

fun write_groups ::
  "TransferSubmitter \<Rightarrow> (ErrorCode + string \<times> ReplicaDescriptor \<times> Slice list) list \<Rightarrow> string list \<Rightarrow> memory
     \<Rightarrow> memory \<times> (string \<rightharpoonup> PutOperationState)" where
  "write_groups t targets [] mem = (mem, Map.empty)"
| "write_groups t targets (seg # segs) mem =
     (let members = [(replica, ss). Inr (e, replica, ss) \<leftarrow> targets, e = seg];
          merged = (PutOperation_new [] [])\<lparr>op_replicas := map fst members\<rparr>;
          (mem, merged) =
            (case submit_batch t (map fst members) (map snd members) WRITE mem of
               None \<Rightarrow> (mem, SetError TRANSFER_FAIL merged)
             | Some (mem, code) \<Rightarrow> (mem, merged\<lparr>op_transfers := [code]\<rparr>))
      in case write_groups t targets segs mem of (mem, states) \<Rightarrow> (mem, states(seg \<mapsto> op_state (wait_operation merged))))"

definition join_group :: "(string \<rightharpoonup> PutOperationState) \<Rightarrow> PutOperation \<times> (ErrorCode + string \<times> ReplicaDescriptor \<times> Slice list) \<Rightarrow> PutOperation" where
  "join_group states = (\<lambda>(op, target).
     case target of
       Inl _ \<Rightarrow> op
     | Inr (seg, _, _) \<Rightarrow>
         op\<lparr>op_state := (case states seg of Some st \<Rightarrow> st | None \<Rightarrow> op_state op), op_transfers := op_transfers op @ [OK]\<rparr>)"

text \<open>\<open>None\<close>: the submitter is used without a check, and there is none.\<close>

definition BatchPutWhenPreferSameNode ::
  "Platform \<Rightarrow> TransferSubmitter option \<Rightarrow> (client_rpc \<Rightarrow> delivery) \<Rightarrow> time \<Rightarrow> PutOperation list \<Rightarrow> Site
     \<Rightarrow> (Site \<times> (ErrorCode + unit) list) option" where
  "BatchPutWhenPreferSameNode p submitter net now ops site =
     (let ops = map write_target ops; targets = map snd ops; segs = group_segments targets;
          run = (case submitter of
                   None \<Rightarrow> if segs = [] then Some (site_memory site, Map.empty) else None
                 | Some t \<Rightarrow> Some (write_groups t targets segs (site_memory site)))
      in case run of
        None \<Rightarrow> None
      | Some (mem, states) \<Rightarrow>
          (case FinalizeBatchPut p net now (map (join_group states) ops) (site\<lparr>site_memory := mem\<rparr>) of (site, ops) \<Rightarrow>
             Some (site, CollectResults ops)))"

definition Client_BatchPut ::
  "Platform \<Rightarrow> Client \<Rightarrow> (client_rpc \<Rightarrow> delivery) \<Rightarrow> time \<Rightarrow> (string \<times> Slice list) list \<Rightarrow> ReplicateConfig \<Rightarrow> Site
     \<Rightarrow> (Site \<times> (ErrorCode + unit) list) option" where
  "Client_BatchPut p c net now keys config site =
     (let ops = CreatePutOperations keys
      in if prefer_alloc_in_same_node config then
           if replica_num config \<noteq> 1 then Some (site, replicate (length keys) (Inl INVALID_PARAMS))
           else
             (case StartBatchPut p (net PutStart_rpc) config ops site of (site, ops) \<Rightarrow>
                BatchPutWhenPreferSameNode p (transfer_submitter c) net now ops site)
         else
           (case StartBatchPut p (net PutStart_rpc) config ops site of (site, ops) \<Rightarrow>
              case SubmitTransfers c ops site of (site, ops) \<Rightarrow>
                case FinalizeBatchPut p net now (WaitForTransfers ops) site of (site, ops) \<Rightarrow>
                  Some (site, CollectResults ops)))"

section \<open>The other operations\<close>

definition Client_Remove :: "Platform \<Rightarrow> delivery \<Rightarrow> time \<Rightarrow> string \<Rightarrow> Site \<Rightarrow> Site \<times> (ErrorCode + unit)" where
  "Client_Remove p d now key = on_master (invoke_rpc d (Wrapped_Remove p now key))"

definition Client_RemoveByRegex :: "Platform \<Rightarrow> delivery \<Rightarrow> (string \<Rightarrow> time) \<Rightarrow> string \<Rightarrow> Site \<Rightarrow> Site \<times> (ErrorCode + int)" where
  "Client_RemoveByRegex p d now str = on_master (invoke_rpc d (Wrapped_RemoveByRegex p now str))"

definition Client_RemoveAll :: "delivery \<Rightarrow> time \<Rightarrow> Site \<Rightarrow> Site \<times> (ErrorCode + int)" where
  "Client_RemoveAll d now = on_master (invoke_rpc d (\<lambda>s. apsnd Inr (Wrapped_RemoveAll now s)))"

definition Client_QueryByRegex ::
  "Platform \<Rightarrow> delivery \<Rightarrow> (string \<Rightarrow> time) \<Rightarrow> string \<Rightarrow> Site \<Rightarrow> Site \<times> (ErrorCode + (string \<times> ReplicaDescriptor list) list)" where
  "Client_QueryByRegex p d now str = on_master (invoke_rpc d (Wrapped_GetReplicaListByRegex p now str))"

definition Client_IsExist :: "Platform \<Rightarrow> delivery \<Rightarrow> time \<Rightarrow> string \<Rightarrow> Site \<Rightarrow> Site \<times> (ErrorCode + bool)" where
  "Client_IsExist p d now key = on_master (invoke_rpc d (Wrapped_ExistKey p now key))"

definition Client_BatchIsExist :: "Platform \<Rightarrow> delivery \<Rightarrow> (time \<times> string) list \<Rightarrow> Site \<Rightarrow> Site \<times> (ErrorCode + bool) list" where
  "Client_BatchIsExist p d keys site =
     (case on_master (invoke_batch_rpc d (length keys) (Wrapped_BatchExistKey p keys)) site of (site, response) \<Rightarrow>
        (site, if length response \<noteq> length keys then replicate (length keys) (Inl RPC_FAIL) else response))"

text \<open>Mounting: the null pointer is the address 0; \<open>rc\<close> is what the engine returns.\<close>

definition CheckRegisterMemoryParams :: "u64 \<Rightarrow> u64 \<Rightarrow> u64 \<Rightarrow> ErrorCode + unit" where
  "CheckRegisterMemoryParams max_mr_size addr len =
     (if addr = 0 then Inl INVALID_PARAMS
      else if len = 0 then Inl INVALID_PARAMS
      else if len > max_mr_size then Inl INVALID_PARAMS
      else Inr ())"

definition segment_overlaps :: "u64 \<Rightarrow> u64 \<Rightarrow> Segment \<Rightarrow> bool" where
  "segment_overlaps buffer sz mtseg =
     (let l1 = seg_base mtseg; r1 = seg_size mtseg + l1; l2 = buffer; r2 = sz + l2
      in max l1 l2 < min r1 r2)"

definition Client_MountSegment ::
  "Platform \<Rightarrow> delivery \<Rightarrow> u64 \<Rightarrow> int \<Rightarrow> UUID \<Rightarrow> u64 \<Rightarrow> u64 \<Rightarrow> Client \<times> Site \<Rightarrow> (Client \<times> Site) \<times> (ErrorCode + unit)" where
  "Client_MountSegment p d max_mr_size rc new_id buffer sz = (\<lambda>(c, site).
     case CheckRegisterMemoryParams max_mr_size buffer sz of
       Inl e \<Rightarrow> ((c, site), Inl e)
     | Inr _ \<Rightarrow>
         if list_ex (\<lambda>(_, mtseg). segment_overlaps buffer sz mtseg) (c_segments c) then ((c, site), Inl INVALID_PARAMS)
         else if rc \<noteq> 0 then ((c, site), Inl INVALID_PARAMS)
         else
           let segment = \<lparr>seg_id = new_id, seg_name = local_hostname c, seg_base = buffer, seg_size = sz,
                 te_endpoint = (if p2p_handshake c then own_endpoint c else local_hostname c)\<rparr>
           in case on_master (invoke_rpc d (Wrapped_MountSegment p segment (c_id c))) site of
             (site, Inl err) \<Rightarrow> ((c, site), Inl err)
           | (site, Inr _) \<Rightarrow> ((c\<lparr>c_segments := AList.update new_id segment (c_segments c)\<rparr>, site), Inr ()))"

text \<open>\<open>ERR_ADDRESS_NOT_REGISTERED\<close> of the transfer engine.\<close>

definition ERR_ADDRESS_NOT_REGISTERED :: int where "ERR_ADDRESS_NOT_REGISTERED = - 3"

definition Client_UnmountSegment :: "delivery \<Rightarrow> int \<Rightarrow> u64 \<Rightarrow> u64 \<Rightarrow> Client \<times> Site \<Rightarrow> (Client \<times> Site) \<times> (ErrorCode + unit)" where
  "Client_UnmountSegment d rc buffer sz = (\<lambda>(c, site).
     case filter (\<lambda>(_, seg). seg_base seg = buffer \<and> seg_size seg = sz) (c_segments c) of
       [] \<Rightarrow> ((c, site), Inl INVALID_PARAMS)
     | (i, segment) # _ \<Rightarrow>
         (case on_master (invoke_rpc d (Wrapped_UnmountSegment (seg_id segment) (c_id c))) site of
            (site, Inl err) \<Rightarrow> ((c, site), Inl err)
          | (site, Inr _) \<Rightarrow>
              if rc \<noteq> 0 \<and> rc \<noteq> ERR_ADDRESS_NOT_REGISTERED then ((c, site), Inl INTERNAL_ERROR)
              else ((c\<lparr>c_segments := AList.delete i (c_segments c)\<rparr>, site), Inr ())))"

text \<open>The destructor unmounts every segment that is mounted; the network and the engine may answer differently for each.\<close>

definition Client_destroy :: "(Segment \<Rightarrow> delivery) \<Rightarrow> (Segment \<Rightarrow> int) \<Rightarrow> Client \<times> Site \<Rightarrow> Client \<times> Site" where
  "Client_destroy d rc = (\<lambda>(c, site).
     let segments_to_unmount = map snd (c_segments c);
         (c, site) = fold (\<lambda>segment state. fst (Client_UnmountSegment (d segment) (rc segment) (seg_base segment) (seg_size segment) state))
           segments_to_unmount (c, site)
     in (c\<lparr>c_segments := []\<rparr>, site))"

text \<open>Memory of the client that is registered with the engine only; \<open>rc\<close> is again what the engine returns.\<close>

definition RegisterLocalMemory :: "u64 \<Rightarrow> int \<Rightarrow> u64 \<Rightarrow> u64 \<Rightarrow> ErrorCode + unit" where
  "RegisterLocalMemory max_mr_size rc addr len =
     (case CheckRegisterMemoryParams max_mr_size addr len of
        Inl e \<Rightarrow> Inl e
      | Inr _ \<Rightarrow> if rc \<noteq> 0 then Inl INVALID_PARAMS else Inr ())"

definition unregisterLocalMemory :: "int \<Rightarrow> ErrorCode + unit" where
  "unregisterLocalMemory rc = (if rc \<noteq> 0 then Inl INVALID_PARAMS else Inr ())"

section \<open>The ping thread\<close>

text \<open>\<open>remount_running\<close>: the future of the thread that mounts the segments again is valid.\<close>

record PingThread =
  ping_fail_count :: int
  remount_running :: bool
  current_master_address :: string

definition max_ping_fail_count :: int where "max_ping_fail_count = 3"

definition remount_segment :: "Platform \<Rightarrow> delivery \<Rightarrow> Client \<Rightarrow> Site \<Rightarrow> Site" where
  "remount_segment p d c site =
     fst (on_master (invoke_rpc d (Wrapped_ReMountSegment p (map snd (c_segments c)) (c_id c))) site)"

text \<open>
  A round of \<open>PingThreadMain\<close>. Whether the remount has ended, what \<open>GetMasterView\<close> returns and whether
  the connection to an address succeeds are arguments. The remount that a round starts runs on its own.
\<close>

definition ping_round ::
  "Platform \<Rightarrow> Client \<Rightarrow> bool \<Rightarrow> bool \<Rightarrow> delivery \<Rightarrow> ErrorCode + string \<Rightarrow> (string \<Rightarrow> ErrorCode) \<Rightarrow> PingThread \<times> Site \<Rightarrow> PingThread \<times> Site" where
  "ping_round p c is_ha_mode remount_ready d master_view connect = (\<lambda>(th, site).
     let th = (if remount_running th \<and> remount_ready then th\<lparr>remount_running := False\<rparr> else th)
     in case on_master (invoke_rpc d (Wrapped_Ping p (c_id c))) site of
       (site, Inr (_, client_status)) \<Rightarrow>
         let th = th\<lparr>ping_fail_count := 0\<rparr>
         in (if client_status = NEED_REMOUNT \<and> \<not> remount_running th then th\<lparr>remount_running := True\<rparr> else th, site)
     | (site, Inl _) \<Rightarrow>
         let th = th\<lparr>ping_fail_count := ping_fail_count th + 1\<rparr>
         in if ping_fail_count th < max_ping_fail_count then (th, site)
            else if is_ha_mode then
              (case master_view of
                 Inl _ \<Rightarrow> (th, site)
               | Inr master_address \<Rightarrow>
                   if connect master_address \<noteq> OK then (th, site)
                   else (th\<lparr>current_master_address := master_address, ping_fail_count := 0\<rparr>, site))
            else if connect (current_master_address th) \<noteq> OK then (th, site)
            else (th\<lparr>ping_fail_count := 0\<rparr>, site))"

text \<open>
  Three lost pings in a row are answered by a new connection, and a master that does not know the
  client gets the segments mounted again.
\<close>

lemma ping_round_lost:
  assumes "ping_fail_count th + 1 \<ge> max_ping_fail_count" "\<And>a. connect a = OK"
  shows "ping_fail_count (fst (ping_round p c is_ha_mode ready Request_lost (Inr addr) connect (th, site))) = 0"
  using assms by (simp add: ping_round_def on_master_def invoke_rpc_def Let_def)

lemma ping_round_remounts:
  assumes "c_id c \<notin> ok_client (site_master site)" "queue_accepts p (client_ping_queue (site_master site)) (c_id c)"
  shows "remount_running (fst (ping_round p c is_ha_mode ready Delivered view connect (th, site)))"
  using assms
  by (simp add: ping_round_def on_master_def invoke_rpc_def Wrapped_Ping_def Ping_def push_ping_def upd_metrics_def Let_def)

end
