(* ===== verification/Client_Transfers.thy ===== *)
theory Client_Transfers
  imports Client
begin

text \<open>
  What the transfers of the client do to the memory: writing an object and reading it are lists of
  copies between the buffers of its replicas and the slices of the client. The transfer engine is an
  argument; what is relied on is that a run it reports as successful has carried out its requests,
  and that no run writes anywhere but to the targets of its requests.
\<close>

section \<open>The laws of the engine\<close>

definition copy_between :: "OpCode \<Rightarrow> string \<times> u64 \<Rightarrow> string \<times> u64 \<Rightarrow> u64 \<Rightarrow> copy" where
  "copy_between op_code loc buf n = (case op_code of READ \<Rightarrow> (loc, buf, n) | WRITE \<Rightarrow> (buf, loc, n))"

definition request_copy :: "string \<Rightarrow> TransferRequest \<Rightarrow> copy" where
  "request_copy own rq = copy_between (opcode rq) (own, rq_source rq) (rq_target rq, target_offset rq) (rq_length rq)"

lemma perform_request_copy: "perform_request own rq = do_copy (request_copy own rq)"
  by (simp add: perform_request_def request_copy_def copy_between_def do_copy_def split: OpCode.splits)

definition slice_cells :: "string \<Rightarrow> Slice \<Rightarrow> (string \<times> u64) set" where
  "slice_cells own sl = (case slice_ptr sl of None \<Rightarrow> {} | Some ptr \<Rightarrow> cells own ptr (slice_size sl))"

text \<open>The memory is the same outside of a set of addresses.\<close>

definition same_outside :: "(string \<times> u64) set \<Rightarrow> memory \<Rightarrow> memory \<Rightarrow> bool" where
  "same_outside T mem mem' \<longleftrightarrow> (\<forall>ep x. (ep, x) \<notin> T \<longrightarrow> mem' ep x = mem ep x)"

lemma same_outside_refl [simp]: "same_outside T mem mem"
  by (simp add: same_outside_def)

lemma same_outside_trans: "same_outside T mem mem' \<Longrightarrow> same_outside T mem' mem'' \<Longrightarrow> same_outside T mem mem''"
  by (simp add: same_outside_def)

lemma same_outside_mono: "same_outside T mem mem' \<Longrightarrow> T \<subseteq> T' \<Longrightarrow> same_outside T' mem mem'"
  by (auto simp: same_outside_def)

definition engine_law :: "Engine \<Rightarrow> bool" where
  "engine_law e \<longleftrightarrow>
     (\<forall>rqs mem mem' completed. engine_run e rqs mem = Some (mem', completed) \<longrightarrow>
        (completed \<longrightarrow> mem' = fold (perform_request (getLocalIpAndPort e)) rqs mem)
        \<and> same_outside (\<Union>rq \<in> set rqs. target_cells (request_copy (getLocalIpAndPort e) rq)) mem mem')
     \<and> (\<forall>path slices n mem mem' ok. LoadObject e path slices n mem = (mem', ok) \<longrightarrow>
        same_outside (\<Union>sl \<in> set slices. slice_cells (getLocalIpAndPort e) sl) mem mem')"

section \<open>Transfers as copies\<close>

definition copy_of :: "OpCode \<Rightarrow> string \<Rightarrow> BufferDescriptor \<times> Slice \<Rightarrow> copy" where
  "copy_of op_code own = (\<lambda>(h, sl). copy_between op_code (own, the (slice_ptr sl)) (transport_endpoint h, buffer_address h) (desc_size h))"

definition copies_of :: "OpCode \<Rightarrow> string \<Rightarrow> BufferDescriptor list \<Rightarrow> Slice list \<Rightarrow> copy list" where
  "copies_of op_code own handles slices = map (copy_of op_code own) (zip handles slices)"

abbreviation targets :: "copy list \<Rightarrow> (string \<times> u64) set" where
  "targets cs \<equiv> \<Union>c \<in> set cs. target_cells c"

abbreviation no_null :: "Slice list \<Rightarrow> bool" where
  "no_null slices \<equiv> \<forall>sl \<in> set slices. slice_ptr sl \<noteq> None"

lemma copies_same_outside: "same_outside (targets cs) mem (fold do_copy cs mem)"
  by (simp add: same_outside_def copies_other)

lemma engine_requests_copies:
  "engine_requests e op_code hs slices = Some rqs \<Longrightarrow> no_null slices
    \<Longrightarrow> map (request_copy own) rqs = copies_of op_code own hs slices"
proof (induction e op_code hs slices arbitrary: rqs rule: engine_requests.induct)
  case (1 e op_code handle handles sl slices)
  then show ?case by (auto simp: copies_of_def copy_of_def request_copy_def split: option.splits if_splits)
qed (simp_all add: copies_of_def)

lemma memcpy_operations_copies:
  "\<forall>h \<in> set hs. transport_endpoint h = own \<Longrightarrow> no_null slices
    \<Longrightarrow> perform_memcpy own (memcpy_operations op_code hs slices) = fold do_copy (copies_of op_code own hs slices)"
proof (induction op_code hs slices rule: memcpy_operations.induct)
  case (1 op_code handle handles sl slices)
  then show ?case
    by (auto simp: perform_memcpy_def copies_of_def copy_of_def copy_between_def do_copy_def fun_eq_iff split: OpCode.splits)
qed (simp_all add: perform_memcpy_def copies_of_def)

lemma fold_requests: "fold (perform_request own) rqs = fold do_copy (map (request_copy own) rqs)"
  by (induction rqs) (simp_all add: perform_request_copy)

lemma submit_memory:
  assumes law: "engine_law (ts_engine t)" and d: "descriptor_variant d = MemoryDescriptor hs" and nn: "no_null slices"
    and s: "submit t d slices op_code mem = Some (mem', code)"
  defines "own \<equiv> getLocalIpAndPort (ts_engine t)"
  shows "code = OK \<Longrightarrow> mem' = fold do_copy (copies_of op_code own hs slices) mem"
    "same_outside (targets (copies_of op_code own hs slices)) mem mem'"
    "list_all2 (\<lambda>h sl. desc_size h = slice_size sl) hs (take (length hs) slices)"
proof -
  from s d have v: "validateTransferParams hs slices False" by (simp add: submit_def split: if_splits)
  then show "list_all2 (\<lambda>h sl. desc_size h = slice_size sl) hs (take (length hs) slices)"
    by (simp add: validateTransferParams_def split: if_splits)
  have "(code = OK \<longrightarrow> mem' = fold do_copy (copies_of op_code own hs slices) mem) \<and> same_outside (targets (copies_of op_code own hs slices)) mem mem'"
  proof (cases "selectStrategy t hs = LOCAL_MEMCPY")
    case True
    then have "isLocalTransfer (ts_engine t) hs" by (simp add: selectStrategy_def split: if_splits)
    then have "\<forall>h \<in> set hs. transport_endpoint h = own" by (auto simp: isLocalTransfer_def own_def Let_def list_all_iff split: if_splits)
    from memcpy_operations_copies [OF this nn, of op_code] s v d True show ?thesis
      by (auto simp: submit_def submitMemcpyOperation_def own_def copies_same_outside)
  next
    case False
    then have "selectStrategy t hs = TRANSFER_ENGINE" by (simp add: selectStrategy_def split: if_splits)
    with s v d obtain rqs completed where r: "engine_requests (ts_engine t) op_code hs slices = Some rqs"
        "engine_run (ts_engine t) rqs mem = Some (mem', completed)" "code = OK \<longleftrightarrow> completed"
      by (auto simp: submit_def submitTransferEngineOperation_def submitTransfer_def split: option.splits)
    have c: "map (request_copy own) rqs = copies_of op_code own hs slices" by (rule engine_requests_copies [OF r(1) nn])
    then have "targets (copies_of op_code own hs slices) = (\<Union>rq \<in> set rqs. target_cells (request_copy own rq))" by (auto simp: c [symmetric])
    moreover have "code = OK \<longrightarrow> mem' = fold (perform_request own) rqs mem"
      "same_outside (\<Union>rq \<in> set rqs. target_cells (request_copy own rq)) mem mem'"
      using law r(2) unfolding engine_law_def own_def r(3) by blast+
    ultimately show ?thesis by (simp add: fold_requests c)
  qed
  then show "code = OK \<Longrightarrow> mem' = fold do_copy (copies_of op_code own hs slices) mem"
    "same_outside (targets (copies_of op_code own hs slices)) mem mem'" by blast+
qed

section \<open>Writing and reading an object\<close>

definition client_law :: "Client \<Rightarrow> bool" where
  "client_law c \<longleftrightarrow> engine_law (transfer_engine c) \<and> (\<forall>t. transfer_submitter c = Some t \<longrightarrow> ts_engine t = transfer_engine c)"

text \<open>The set-up of a client gives it a submitter for its engine.\<close>

lemma client_law_init: "engine_law (transfer_engine c) \<Longrightarrow> client_law (InitTransferSubmitter env_value c)"
  by (simp add: client_law_def InitTransferSubmitter_def)

lemma client_lawD:
  assumes "client_law c" "transfer_submitter c = Some t"
  shows "engine_law (ts_engine t)" "own_endpoint c = getLocalIpAndPort (ts_engine t)"
  using assms by (simp_all add: client_law_def own_endpoint_def)

definition write_copies :: "Client \<Rightarrow> ReplicaDescriptor list \<Rightarrow> Slice list \<Rightarrow> copy list" where
  "write_copies c reps slices = concat (map (\<lambda>d. copies_of WRITE (own_endpoint c) (memory_handles d) slices) reps)"

lemma write_replicas_memory:
  assumes "client_law c" "no_null slices" "write_replicas c slices reps mem = (mem', err)"
  shows "err = OK \<Longrightarrow> mem' = fold do_copy (write_copies c reps slices) mem" "same_outside (targets (write_copies c reps slices)) mem mem'"
  using assms(3)
proof (induction reps arbitrary: mem)
  case Nil
  { case 1 then show ?case by (simp add: write_copies_def) }
  { case 2 then show ?case by (simp add: write_copies_def) }
next
  case (Cons d reps)
  have step: "(err = OK \<longrightarrow> mem' = fold do_copy (write_copies c (d # reps) slices) mem) \<and> same_outside (targets (write_copies c (d # reps) slices)) mem mem'"
    if w: "write_replicas c slices (d # reps) mem = (mem', err)" for mem
  proof (cases "descriptor_variant d")
    case (MemoryDescriptor hs)
    obtain mem1 e1 where t: "TransferWrite c d slices mem = (mem1, e1)" by (cases "TransferWrite c d slices mem")
    have m: "memory_handles d = hs" by (simp add: memory_handles_def MemoryDescriptor)
    have one: "(e1 = OK \<longrightarrow> mem1 = fold do_copy (copies_of WRITE (own_endpoint c) hs slices) mem)
      \<and> same_outside (targets (copies_of WRITE (own_endpoint c) hs slices)) mem mem1"
    proof (cases "mem1 = mem \<and> e1 \<noteq> OK")
      case False
      then obtain u where u: "transfer_submitter c = Some u" "submit u d slices WRITE mem = Some (mem1, e1)"
        using t by (auto simp: TransferWrite_def TransferData_def split: option.splits)
      show ?thesis using submit_memory [OF client_lawD(1) [OF assms(1) u(1)] MemoryDescriptor assms(2) u(2)]
        by (simp add: client_lawD(2) [OF assms(1) u(1)])
    qed simp
    have sub: "targets (copies_of WRITE (own_endpoint c) hs slices) \<subseteq> targets (write_copies c (d # reps) slices)"
      "targets (write_copies c reps slices) \<subseteq> targets (write_copies c (d # reps) slices)"
      by (auto simp: write_copies_def m)
    show ?thesis
    proof (cases "e1 = OK")
      case True
      then have w': "write_replicas c slices reps mem1 = (mem', err)" using w t by (simp add: is_memory_descriptor_def MemoryDescriptor)
      have "same_outside (targets (write_copies c (d # reps) slices)) mem mem'"
        using same_outside_mono [OF conjunct2 [OF one] sub(1)] same_outside_mono [OF Cons.IH(2) [OF w'] sub(2)]
        by (rule same_outside_trans)
      then show ?thesis using Cons.IH(1) [OF _ w'] one True by (simp add: write_copies_def m)
    next
      case False
      then have "mem' = mem1" "err = e1" using w t by (simp_all add: is_memory_descriptor_def MemoryDescriptor)
      then show ?thesis using one False sub(1) same_outside_mono by blast
    qed
  next
    case (DiskDescriptor path n)
    then have "write_replicas c slices reps mem = (mem', err)" using w by (simp add: is_memory_descriptor_def)
    moreover have "write_copies c (d # reps) slices = write_copies c reps slices"
      by (simp add: write_copies_def memory_handles_def DiskDescriptor copies_of_def)
    ultimately show ?thesis using Cons.IH by simp
  qed
  { case 1 show ?case using step [OF 1(2)] 1(1) by simp }
  { case 2 show ?case using step [OF 2] by simp }
qed

text \<open>A read only writes into the slices, whatever replica it is from.\<close>

lemma read_targets:
  assumes "list_all2 (\<lambda>h sl. desc_size h = slice_size sl) hs (take (length hs) slices)" "no_null slices"
  shows "targets (copies_of READ own hs slices) \<subseteq> (\<Union>sl \<in> set slices. slice_cells own sl)"
proof
  fix y assume "y \<in> targets (copies_of READ own hs slices)"
  then obtain h sl where z: "(h, sl) \<in> set (zip hs slices)" "y \<in> target_cells (copy_of READ own (h, sl))"
    by (auto simp: copies_of_def)
  have "zip hs slices = zip hs (take (length hs) slices)" using take_zip [of "length hs" hs slices] by simp
  then have "desc_size h = slice_size sl" using assms(1) z(1) by (auto simp: list_all2_iff)
  moreover have s: "sl \<in> set slices" using z(1) by (rule set_zip_rightD)
  ultimately have "y \<in> slice_cells own sl" using z(2) assms(2)
    by (auto simp: copy_of_def copy_between_def target_cells_def slice_cells_def)
  then show "y \<in> (\<Union>sl \<in> set slices. slice_cells own sl)" using s by blast
qed

lemma TransferRead_memory:
  assumes law: "client_law c" and nn: "no_null slices" and r: "TransferRead c d slices mem = (mem', err)"
  shows "same_outside (\<Union>sl \<in> set slices. slice_cells (own_endpoint c) sl) mem mem'"
    "err = OK \<Longrightarrow> descriptor_variant d = MemoryDescriptor hs \<Longrightarrow>
      mem' = fold do_copy (copies_of READ (own_endpoint c) hs slices) mem \<and> list_all2 (\<lambda>h sl. desc_size h = slice_size sl) hs (take (length hs) slices)"
proof -
  consider (refused) "mem' = mem" "err \<noteq> OK"
    | (run) t where "transfer_submitter c = Some t" "submit t d slices READ mem = Some (mem', err)" "own_endpoint c = getLocalIpAndPort (ts_engine t)"
    using r client_lawD(2) [OF law] by (auto simp: TransferRead_def TransferData_def split: if_splits option.splits)
  note cs = this
  show "same_outside (\<Union>sl \<in> set slices. slice_cells (own_endpoint c) sl) mem mem'" using cs
  proof cases
    case run
    have l: "engine_law (ts_engine t)" by (rule client_lawD(1) [OF law run(1)])
    show ?thesis
    proof (cases "descriptor_variant d")
      case (MemoryDescriptor hs)
      note m = submit_memory [OF l MemoryDescriptor nn run(2)]
      show ?thesis using same_outside_mono [OF m(2) read_targets [OF m(3) nn]] by (simp add: run(3))
    next
      case (DiskDescriptor path n)
      then have "LoadObject (ts_engine t) path slices n mem = (mem', err = OK)"
        using run(2) by (auto simp: submit_def submitFileReadOperation_def split: prod.splits if_splits)
      then show ?thesis using l unfolding engine_law_def run(3) by blast
    qed
  qed simp
  show "err = OK \<Longrightarrow> descriptor_variant d = MemoryDescriptor hs \<Longrightarrow>
      mem' = fold do_copy (copies_of READ (own_endpoint c) hs slices) mem \<and> list_all2 (\<lambda>h sl. desc_size h = slice_size sl) hs (take (length hs) slices)"
    using cs law submit_memory [OF _ _ nn, of _ d hs READ mem mem' err] by cases (auto dest: client_lawD(1))
qed

end
