(* ===== verification/Client_Memory.thy ===== *)
theory Client_Memory
  imports Client_Transfers Store_Properties
begin

text \<open>
  The bytes of the stored objects: the addresses of their buffers lie in the mounted segments and are
  apart from each other, when the clients have mounted segments that are apart. A stored object is
  therefore untouched by what is written to the buffers of another.
\<close>

declare map_of_eq_Some_iff [simp del] split_paired_All [simp del] split_paired_Ex [simp del]

section \<open>Address ranges\<close>

lemma cells_region:
  assumes "unat a + unat n < 2 ^ 64"
  shows "(e, y) \<in> cells ep a n \<longleftrightarrow> e = ep \<and> unat a \<le> unat y \<and> unat y < unat a + unat n"
proof -
  have "unat y < 2 ^ 64" using unsigned_less [of y, where ?'a = nat] by simp
  then show ?thesis using assms by (auto simp: word_less_nat_alt unat_sub_if' split: if_splits)
qed

definition segment_region :: "Segment \<Rightarrow> nat \<times> nat" where
  "segment_region segment = (unat (seg_base segment), unat (seg_size segment))"

text \<open>
  The clients mount memory of their own: a segment does not wrap around, and two segments of one
  process are apart.
\<close>

definition segments_apart :: "SegmentManager \<Rightarrow> bool" where
  "segments_apart sm \<longleftrightarrow>
     (\<forall>sid ms. map_of (mounted_segments sm) sid = Some ms \<longrightarrow> seg_valid (ms_segment ms)
        \<and> (\<forall>sid' ms'. map_of (mounted_segments sm) sid' = Some ms' \<longrightarrow> sid' \<noteq> sid
             \<longrightarrow> te_endpoint (ms_segment ms') = te_endpoint (ms_segment ms)
             \<longrightarrow> disjoint_regions (segment_region (ms_segment ms)) (segment_region (ms_segment ms'))))"

definition segment_cells :: "SegmentManager \<Rightarrow> (string \<times> u64) set" where
  "segment_cells sm = (\<Union>(sid, ms) \<in> set (mounted_segments sm).
     cells (te_endpoint (ms_segment ms)) (seg_base (ms_segment ms)) (seg_size (ms_segment ms)))"

definition handle_cells :: "BufferDescriptor \<Rightarrow> (string \<times> u64) set" where
  "handle_cells h = cells (transport_endpoint h) (buffer_address h) (desc_size h)"

abbreviation buffer_cells :: "allocator_heap \<Rightarrow> AllocatedBuffer \<Rightarrow> (string \<times> u64) set" where
  "buffer_cells H x \<equiv> handle_cells (get_buffer_descriptor H x)"

section \<open>Where the buffers lie\<close>

text \<open>The segment a buffer is in.\<close>

definition home :: "SegmentManager \<Rightarrow> AllocatedBuffer \<Rightarrow> UUID \<Rightarrow> MountedSegment \<Rightarrow> bool" where
  "home sm x sid ms \<longleftrightarrow> map_of (mounted_segments sm) sid = Some ms \<and> ms_allocator ms = Some (buf_allocator x)"

lemma home_unique:
  assumes "ms_ok p s X B" "isAllocatorValid (fst (shared s)) x" "home (segment_manager s) x sid ms" "home (segment_manager s) x sid' ms'"
  shows "sid = sid'" "ms = ms'"
proof -
  obtain b where b: "fst (shared s) (buf_allocator x) = Some b" using assms(2) by (auto simp: isAllocatorValid_def)
  show s: "sid = sid'" using seg_invD(3) [OF ms_okD(2) [OF assms(1)] b] assms(3,4) by (auto simp: home_def mounted_as_def)
  show "ms = ms'" using assms(3,4) s by (simp add: home_def)
qed

lemma home_ex:
  assumes ok: "ms_ok p s X B" and v: "isAllocatorValid (fst (shared s)) x"
  shows "\<exists>sid ms. home (segment_manager s) x sid ms \<and> transport_endpoint (get_buffer_descriptor (fst (shared s)) x) = te_endpoint (ms_segment ms)
    \<and> (x \<in># all_buffers (all_metadata s) \<longrightarrow> within_region (segment_region (ms_segment ms)) (buffer_region x))"
proof -
  obtain b where b: "fst (shared s) (buf_allocator x) = Some b" using v by (auto simp: isAllocatorValid_def)
  obtain sid where "mounted_as (segment_manager s) sid (buf_allocator x)" using seg_invD(3) [OF ms_okD(2) [OF ok] b] by blast
  then obtain ms where ms: "map_of (mounted_segments (segment_manager s)) sid = Some ms" "ms_allocator ms = Some (buf_allocator x)"
    by (auto simp: mounted_as_def)
  have sv: "serves b (ms_segment ms)" using seg_invD(2) [OF ms_okD(2) [OF ok] ms(1)] ms(2) b by (auto simp: mounted_ok_def)
  have "within_region (ba_range b) (buffer_region x)" if "x \<in># all_buffers (all_metadata s)"
  proof (rule heap_within [where H = "fst (shared s)", OF _ _ b])
    show "heap_ok (fst (shared s)) (all_buffers (all_metadata s + X) + B)" using ok by (simp add: ms_ok_def store_ok_def world_ok_def)
  qed (simp add: that)
  then show ?thesis using ms sv b by (auto simp: home_def serves_def segment_region_def get_buffer_descriptor_def)
qed

lemma home_same:
  assumes "ms_ok p s X B" "ms_ok p s' X' B'" "segment_manager s' = segment_manager s" "isAllocatorValid (fst (shared s)) x" "isAllocatorValid (fst (shared s')) x"
  shows "get_buffer_descriptor (fst (shared s')) x = get_buffer_descriptor (fst (shared s)) x"
proof -
  obtain sid ms where h: "home (segment_manager s) x sid ms" "transport_endpoint (get_buffer_descriptor (fst (shared s)) x) = te_endpoint (ms_segment ms)"
    using home_ex [OF assms(1,4)] by blast
  obtain sid' ms' where h': "home (segment_manager s) x sid' ms'" "transport_endpoint (get_buffer_descriptor (fst (shared s')) x) = te_endpoint (ms_segment ms')"
    using home_ex [OF assms(2,5)] assms(3) by auto
  show ?thesis using home_unique(2) [OF assms(1,4) h(1) h'(1)] h(2) h'(2) by (simp add: get_buffer_descriptor_def)
qed

lemma segment_cells_home:
  assumes "home sm x sid ms" "seg_valid (ms_segment ms)" "within_region (segment_region (ms_segment ms)) (buffer_region x)"
    and "transport_endpoint (get_buffer_descriptor H x) = te_endpoint (ms_segment ms)"
  shows "buffer_cells H x \<subseteq> segment_cells sm" "unat (buffer_ptr x) + unat (buf_size x) < 2 ^ 64"
proof -
  show nw: "unat (buffer_ptr x) + unat (buf_size x) < 2 ^ 64"
    using assms(2,3) by (simp add: seg_valid_def within_region_def segment_region_def buffer_region_def)
  have m: "(sid, ms) \<in> set (mounted_segments sm)" using assms(1) by (simp add: home_def map_of_SomeD)
  have "buffer_cells H x \<subseteq> cells (te_endpoint (ms_segment ms)) (seg_base (ms_segment ms)) (seg_size (ms_segment ms))"
    using assms(2-4) nw
    by (auto simp: handle_cells_def get_buffer_descriptor_def cells_region seg_valid_def within_region_def segment_region_def buffer_region_def simp del: mem_cells)
  then show "buffer_cells H x \<subseteq> segment_cells sm" using m by (auto simp: segment_cells_def simp del: mem_cells)
qed

lemma buffer_cells_segment:
  assumes "ms_ok p s X B" "segments_apart (segment_manager s)" "x \<in># all_buffers (all_metadata s)" "isAllocatorValid (fst (shared s)) x"
  shows "buffer_cells (fst (shared s)) x \<subseteq> segment_cells (segment_manager s)"
proof -
  obtain sid ms where "home (segment_manager s) x sid ms" "transport_endpoint (get_buffer_descriptor (fst (shared s)) x) = te_endpoint (ms_segment ms)"
    "within_region (segment_region (ms_segment ms)) (buffer_region x)" using home_ex [OF assms(1,4)] assms(3) by blast
  then show ?thesis using assms(2) by (intro segment_cells_home) (auto simp: segments_apart_def home_def)
qed

lemma regions_cells_apart:
  assumes "disjoint_regions (buffer_region x) (buffer_region y)"
    and "unat (buffer_ptr x) + unat (buf_size x) < 2 ^ 64" "unat (buffer_ptr y) + unat (buf_size y) < 2 ^ 64"
  shows "buffer_cells H x \<inter> buffer_cells H y = {}"
  using assms by (auto simp: handle_cells_def get_buffer_descriptor_def cells_region disjoint_regions_def buffer_region_def simp del: mem_cells)

text \<open>Buffers of different segments are apart because the segments are, those of one segment because the allocator keeps them apart.\<close>

lemma buffer_cells_apart:
  assumes ok: "ms_ok p s {#} {#}" and apart: "segments_apart (segment_manager s)" and xy: "{#x, y#} \<subseteq># all_buffers (all_metadata s)"
    and v: "isAllocatorValid (fst (shared s)) x" "isAllocatorValid (fst (shared s)) y"
  shows "buffer_cells (fst (shared s)) x \<inter> buffer_cells (fst (shared s)) y = {}"
proof -
  let ?H = "fst (shared s)" and ?sm = "segment_manager s"
  have m: "x \<in># all_buffers (all_metadata s)" "y \<in># all_buffers (all_metadata s)" using xy by (metis insert_subset_eq_iff add_mset_commute)+
  obtain sid ms where h: "home ?sm x sid ms" "transport_endpoint (get_buffer_descriptor ?H x) = te_endpoint (ms_segment ms)"
    "within_region (segment_region (ms_segment ms)) (buffer_region x)" using home_ex [OF ok v(1)] m(1) by blast
  obtain sid' ms' where h': "home ?sm y sid' ms'" "transport_endpoint (get_buffer_descriptor ?H y) = te_endpoint (ms_segment ms')"
    "within_region (segment_region (ms_segment ms')) (buffer_region y)" using home_ex [OF ok v(2)] m(2) by blast
  have sv: "seg_valid (ms_segment ms)" "seg_valid (ms_segment ms')" using apart h(1) h'(1) by (auto simp: segments_apart_def home_def)
  note nw = segment_cells_home(2) [OF h(1) sv(1) h(3,2)] segment_cells_home(2) [OF h'(1) sv(2) h'(3,2)]
  consider "buf_allocator y = buf_allocator x" | "sid' \<noteq> sid" using h(1) h'(1) by (fastforce simp: home_def)
  then show ?thesis
  proof cases
    case 1
    have "heap_ok ?H (all_buffers (all_metadata s))" using ok by (simp add: ms_ok_def store_ok_def world_ok_def)
    from heap_disjoint [OF this xy] 1 v(1) have "disjoint_regions (buffer_region x) (buffer_region y)" by (simp add: isAllocatorValid_def)
    then show ?thesis using nw by (rule regions_cells_apart)
  next
    case 2
    show ?thesis
    proof (cases "te_endpoint (ms_segment ms') = te_endpoint (ms_segment ms)")
      case True
      then have "disjoint_regions (segment_region (ms_segment ms)) (segment_region (ms_segment ms'))"
        using apart h(1) h'(1) 2 by (auto simp: segments_apart_def home_def)
      then have "disjoint_regions (buffer_region x) (buffer_region y)" using h(3) h'(3) by (auto simp: disjoint_regions_def within_region_def)
      then show ?thesis using nw by (rule regions_cells_apart)
    next
      case False
      then show ?thesis using h(2) h'(2) by (auto simp: handle_cells_def)
    qed
  qed
qed

section \<open>The buffers of an object\<close>

lemma mset_concat_filter: "mset (concat (map f (filter P xs))) \<subseteq># mset (concat (map f xs))"
  by (induction xs) (auto intro: subset_mset.add_mono subset_mset.add_increasing)

lemma live_buffers:
  assumes "objects p s k = Some md"
  shows "\<exists>md0. find_metadata p k s = Some md0 \<and> metadata_buffers md \<subseteq># metadata_buffers md0"
    "x \<in># metadata_buffers md \<Longrightarrow> isAllocatorValid (fst (shared s)) x"
proof -
  obtain md0 where f: "find_metadata p k s = Some md0" "md = live (fst (shared s)) md0"
    using assms by (auto simp: objects_def visible_def split: option.splits if_splits)
  then show "\<exists>md0. find_metadata p k s = Some md0 \<and> metadata_buffers md \<subseteq># metadata_buffers md0"
    by (simp add: metadata_buffers_def live_def mset_concat_filter)
  show "x \<in># metadata_buffers md \<Longrightarrow> isAllocatorValid (fst (shared s)) x"
  proof -
    assume "x \<in># metadata_buffers md"
    then obtain r where "\<not> has_invalid_mem_handle (fst (shared s)) r" "x \<in> set (replica_buffers r)"
      by (auto simp: f(2) metadata_buffers_def live_def)
    then show ?thesis by (cases "rep_data r") (auto simp: replica_buffers_def has_invalid_mem_handle_def list_ex_iff)
  qed
qed

lemma object_buffers:
  assumes ok: "shards_ok p s" and o: "objects p s k = Some md"
  shows "metadata_buffers md \<subseteq># all_buffers (all_metadata s)"
proof -
  obtain md0 where f: "find_metadata p k s = Some md0" "metadata_buffers md \<subseteq># metadata_buffers md0" using live_buffers(1) [OF o] by blast
  obtain R where "all_metadata s = add_mset md0 R" using all_metadata_entry [OF ok f(1)] by blast
  then show ?thesis using f(2) by (simp add: subset_mset.add_increasing2)
qed

lemma objects_buffers:
  assumes ok: "shards_ok p s" and o: "objects p s k = Some md" "objects p s k' = Some md'" and ne: "k \<noteq> k'"
  shows "metadata_buffers md + metadata_buffers md' \<subseteq># all_buffers (all_metadata s)"
proof -
  let ?es = "entries s all_shards"
  obtain md0 where f: "find_metadata p k s = Some md0" "metadata_buffers md \<subseteq># metadata_buffers md0" using live_buffers(1) [OF o(1)] by blast
  obtain md1 where f': "find_metadata p k' s = Some md1" "metadata_buffers md' \<subseteq># metadata_buffers md1" using live_buffers(1) [OF o(2)] by blast
  have "(k, md0) \<in> set ?es" "(k', md1) \<in> set ?es" using f f' by (simp_all add: entries_find [OF ok])
  then obtain m n where mn: "m < length ?es" "n < length ?es" "?es ! m = (k, md0)" "?es ! n = (k', md1)" by (meson in_set_conv_nth)
  have "m \<noteq> n" using mn ne by auto
  then obtain R where "mset ?es = {#(k, md0), (k', md1)#} + R" using mset_two [of m ?es n] mn by (metis mset_subset_eq_exists_conv)
  then have "all_buffers (all_metadata s) = metadata_buffers md0 + metadata_buffers md1 + all_buffers (image_mset snd R)"
    by (simp add: all_metadata_entries)
  then show ?thesis using subset_mset.add_mono [OF f(2) f'(2)] by (simp add: subset_mset.add_increasing2)
qed

lemma two_of_sum: "x \<in># A \<Longrightarrow> y \<in># B \<Longrightarrow> {#x, y#} \<subseteq># A + B"
  by (metis add_mset_add_single mset_subset_eq_single subset_mset.add_mono union_commute)

lemma sorted_wrt_pairs: "(\<And>x y. {#x, y#} \<subseteq># mset xs \<Longrightarrow> P x y) \<Longrightarrow> sorted_wrt P xs"
proof (induction xs)
  case (Cons z xs)
  have "P z y" if "y \<in> set xs" for y using Cons.prems [of z y] that by simp
  moreover have "sorted_wrt P xs"
  proof (rule Cons.IH)
    fix x y assume "{#x, y#} \<subseteq># mset xs"
    then show "P x y" using Cons.prems [of x y] by (metis mset.simps(2) subset_mset.order_trans mset_subset_eq_add_right add_mset_add_single union_commute)
  qed
  ultimately show ?case by simp
qed simp

text \<open>The buffers of two objects are apart, and so are those of one.\<close>

lemma objects_apart:
  assumes ok: "ms_ok p s {#} {#}" "segments_apart (segment_manager s)" and o: "objects p s k = Some md" "objects p s k' = Some md'" "k \<noteq> k'"
    and x: "x \<in># metadata_buffers md" and y: "y \<in># metadata_buffers md'"
  shows "buffer_cells (fst (shared s)) x \<inter> buffer_cells (fst (shared s)) y = {}"
proof (rule buffer_cells_apart [OF ok])
  show "{#x, y#} \<subseteq># all_buffers (all_metadata s)"
    using subset_mset.order_trans [OF two_of_sum [OF x y] objects_buffers [OF ms_okD(3) [OF ok(1)] o]] .
qed (use live_buffers(2) o(1,2) x y in blast)+

lemma object_apart:
  assumes ok: "ms_ok p s {#} {#}" "segments_apart (segment_manager s)" and o: "objects p s k = Some md"
  shows "sorted_wrt (\<lambda>x y. buffer_cells (fst (shared s)) x \<inter> buffer_cells (fst (shared s)) y = {}) (concat (map replica_buffers (replicas md)))"
proof (rule sorted_wrt_pairs)
  fix x y assume xy: "{#x, y#} \<subseteq># mset (concat (map replica_buffers (replicas md)))"
  then have m: "{#x, y#} \<subseteq># metadata_buffers md" by (simp add: metadata_buffers_def)
  have "x \<in># metadata_buffers md" "y \<in># metadata_buffers md" using m by (metis insert_subset_eq_iff add_mset_commute)+
  then show "buffer_cells (fst (shared s)) x \<inter> buffer_cells (fst (shared s)) y = {}"
    using subset_mset.order_trans [OF m object_buffers [OF ms_okD(3) [OF ok(1)] o]] live_buffers(2) [OF o] by (intro buffer_cells_apart [OF ok])
qed

lemma object_in_segments:
  assumes "ms_ok p s {#} {#}" "segments_apart (segment_manager s)" "objects p s k = Some md" "x \<in># metadata_buffers md"
  shows "buffer_cells (fst (shared s)) x \<subseteq> segment_cells (segment_manager s)"
  using buffer_cells_segment [OF assms(1,2)] object_buffers [OF ms_okD(3) [OF assms(1)] assms(3)] live_buffers(2) [OF assms(3)] assms(4)
  by (meson mset_subset_eqD)

end
