(* ===== verification/Client_Data.thy ===== *)
theory Client_Data
  imports Client_Memory Rpc_Steps
begin

text \<open>
  The contents of the store across its components: what a client puts is what any client gets, byte
  for byte, whatever other clients put and get in between and whatever the master does, as long as
  the object stays and the segments stay mounted.
\<close>

declare map_of_eq_Some_iff [simp del] split_paired_All [simp del] split_paired_Ex [simp del]

section \<open>Calls over the network\<close>

text \<open>Two states of the master that differ in the counters of the metrics only.\<close>

definition same_view :: "MasterService \<Rightarrow> MasterService \<Rightarrow> bool" where
  "same_view s s' \<longleftrightarrow> (\<exists>m. s' = s\<lparr>shared := (fst (shared s), m)\<rparr>)"

lemma same_view_upd [simp]: "same_view s (upd_metrics f s)"
  by (auto simp: same_view_def upd_metrics_def)

lemma same_view_refl [simp]: "same_view s s"
  by (auto simp: same_view_def intro!: exI [of _ "snd (shared s)"])

lemma same_viewD:
  assumes "same_view s s'"
  shows "objects p s' = objects p s" "find_metadata p k s' = find_metadata p k s" "fst (shared s') = fst (shared s)"
    "segment_manager s' = segment_manager s" "service_config s' = service_config s" "use_disk_replica s' = use_disk_replica s"
    "need_eviction s' = need_eviction s"
  using assms by (auto simp: same_view_def objects_def find_metadata_def)

text \<open>A call is lost before it arrives, or it runs on the master and its result may be lost.\<close>

lemma invoke_view:
  assumes q: "quiet p f" and ok: "sys_ok p (s, ttl, ps)" "shuffle_law p" and e: "invoke_rpc d (execute_rpc op f) s = (s', r)"
  obtains (lost) "d \<noteq> Delivered" "s' = s" "r = Inl RPC_FAIL"
  | (run) s1 s2 r' where "f s1 = (s2, r')" "r = r' \<or> d \<noteq> Delivered \<and> r = Inl RPC_FAIL" "same_view s s1" "same_view s2 s'" "sys_ok p (s1, ttl, ps)" "sys_ok p (s', ttl, ps)"
proof (cases "d = Request_lost")
  case True
  then show thesis using lost e by (simp add: invoke_rpc_def)
next
  case False
  let ?s = "upd_metrics (inc_requests op) s"
  obtain s2 r' where f: "f ?s = (s2, r')" by (cases "f ?s")
  then have x: "execute_rpc op f s = (if isl r' then upd_metrics (inc_failures op) s2 else s2, r')" by (simp add: execute_rpc_def)
  then have s: "execute_rpc op f s = (s', r')" "r = r' \<or> d \<noteq> Delivered \<and> r = Inl RPC_FAIL" "same_view s2 s'"
    using e False by (auto simp: invoke_rpc_def split: delivery.splits if_splits)
  have "sys_ok p (s', ttl, ps)" by (rule steps_ok [OF execute_rpc_ok(1) [OF q s(1)] ok(2,1)])
  then show thesis using run [OF f s(2) _ s(3)] steps_ok [OF count_steps(1) ok(2,1)] by simp
qed

lemma put_start_call:
  assumes ok: "sys_ok p (s, ttl, ps)" "shuffle_law p" and sz: "\<forall>n \<in> set sizes. unat n \<le> 2 ^ 63"
    and e: "invoke_rpc d (Wrapped_PutStart p k sizes config) s = (s', r)"
  shows "sys_ok p (s', ttl, ps)" "segment_manager s' = segment_manager s"
    "d \<noteq> Delivered \<and> s' = s \<and> r = Inl RPC_FAIL \<or> (\<exists>r'. put_result p k sizes config s s' r' \<and> (r = r' \<or> d \<noteq> Delivered \<and> r = Inl RPC_FAIL))"
proof -
  have sh: "\<And>k xs. mset (std_shuffle p k xs) = mset xs" using ok(2) by (simp add: shuffle_law_def)
  have "sys_ok p (s', ttl, ps) \<and> segment_manager s' = segment_manager s
    \<and> (d \<noteq> Delivered \<and> s' = s \<and> r = Inl RPC_FAIL \<or> (\<exists>r'. put_result p k sizes config s s' r' \<and> (r = r' \<or> d \<noteq> Delivered \<and> r = Inl RPC_FAIL)))"
  proof (rule invoke_view [OF quiet_PutStart [OF sz] ok e [unfolded Wrapped_PutStart_def]])
    fix s1 s2 r'
    assume a: "PutStart p k sizes config s1 = (s2, r')" "r = r' \<or> d \<noteq> Delivered \<and> r = Inl RPC_FAIL" "same_view s s1" "same_view s2 s'"
      "sys_ok p (s1, ttl, ps)" "sys_ok p (s', ttl, ps)"
    have m: "ms_ok p s1 {#} {#}" using a(5) by (simp add: sys_ok_def)
    note ps = PutStart_ok [OF m sh sz a(1)]
    have "put_result p k sizes config s s' r'" using ps(2)
      by (auto simp: put_result_def put_args_ok_def put_replicas_def same_viewD [OF a(3)] same_viewD [OF a(4)] split: sum.splits)
    then show ?thesis using a ps(3) by (auto simp: same_viewD [OF a(3)] same_viewD [OF a(4)])
  qed (use ok in simp)
  then show "sys_ok p (s', ttl, ps)" "segment_manager s' = segment_manager s"
    "d \<noteq> Delivered \<and> s' = s \<and> r = Inl RPC_FAIL \<or> (\<exists>r'. put_result p k sizes config s s' r' \<and> (r = r' \<or> d \<noteq> Delivered \<and> r = Inl RPC_FAIL))" by blast+
qed

text \<open>The handlers that work on one entry of the table.\<close>

lemma entry_call:
  assumes q: "quiet p f" and ok: "sys_ok p (s, ttl, ps)" "shuffle_law p" and e: "invoke_rpc d (execute_rpc op f) s = (s', r)"
    and f: "\<And>s1 s2 r'. ms_ok p s1 {#} {#} \<Longrightarrow> f s1 = (s2, r') \<Longrightarrow> only_metadata s1 s2 \<and> (objects p s2, r') = spec (fst (shared s1)) (service_config s1) (objects p s1)"
  shows "sys_ok p (s', ttl, ps)" "segment_manager s' = segment_manager s" "same_allocators (fst (shared s)) (fst (shared s'))"
    "d \<noteq> Delivered \<and> s' = s \<and> r = Inl RPC_FAIL
      \<or> (\<exists>r'. (objects p s', r') = spec (fst (shared s)) (service_config s) (objects p s) \<and> (r = r' \<or> d \<noteq> Delivered \<and> r = Inl RPC_FAIL))"
    "service_config s' = service_config s"
proof -
  have "sys_ok p (s', ttl, ps) \<and> segment_manager s' = segment_manager s \<and> service_config s' = service_config s \<and> same_allocators (fst (shared s)) (fst (shared s'))
    \<and> (d \<noteq> Delivered \<and> s' = s \<and> r = Inl RPC_FAIL
      \<or> (\<exists>r'. (objects p s', r') = spec (fst (shared s)) (service_config s) (objects p s) \<and> (r = r' \<or> d \<noteq> Delivered \<and> r = Inl RPC_FAIL)))"
  proof (rule invoke_view [OF q ok e])
    fix s1 s2 r'
    assume a: "f s1 = (s2, r')" "r = r' \<or> d \<noteq> Delivered \<and> r = Inl RPC_FAIL" "same_view s s1" "same_view s2 s'" "sys_ok p (s1, ttl, ps)" "sys_ok p (s', ttl, ps)"
    have m: "ms_ok p s1 {#} {#}" using a(5) by (simp add: sys_ok_def)
    note v = same_viewD [OF a(3)] same_viewD [OF a(4)]
    show ?thesis using f [OF m a(1)] a(2,6) by (auto simp: v only_metadata_def world_frame_def)
  qed (use ok in simp)
  then show "sys_ok p (s', ttl, ps)" "segment_manager s' = segment_manager s" "same_allocators (fst (shared s)) (fst (shared s'))"
    "d \<noteq> Delivered \<and> s' = s \<and> r = Inl RPC_FAIL
      \<or> (\<exists>r'. (objects p s', r') = spec (fst (shared s)) (service_config s) (objects p s) \<and> (r = r' \<or> d \<noteq> Delivered \<and> r = Inl RPC_FAIL))"
    "service_config s' = service_config s" by blast+
qed

lemma put_end_call:
  assumes "sys_ok p (s, ttl, ps)" "shuffle_law p" "invoke_rpc d (Wrapped_PutEnd p now k rtype) s = (s', r)"
  shows "sys_ok p (s', ttl, ps)" "segment_manager s' = segment_manager s" "same_allocators (fst (shared s)) (fst (shared s'))"
    "d \<noteq> Delivered \<and> s' = s \<and> r = Inl RPC_FAIL
      \<or> (\<exists>r'. (objects p s', r') = spec_PutEnd now (default_kv_soft_pin_ttl (service_config s)) k rtype (objects p s) \<and> (r = r' \<or> d \<noteq> Delivered \<and> r = Inl RPC_FAIL))"
    "service_config s' = service_config s"
  by (rule entry_call [OF quiet_PutEnd assms(1,2) assms(3) [unfolded Wrapped_PutEnd_def],
      where spec = "\<lambda>H config. spec_PutEnd now (default_kv_soft_pin_ttl config) k rtype"]; use PutEnd_ok in blast)+

lemma put_revoke_call:
  assumes "sys_ok p (s, ttl, ps)" "shuffle_law p" "invoke_rpc d (Wrapped_PutRevoke p k rtype) s = (s', r)"
  shows "sys_ok p (s', ttl, ps)" "segment_manager s' = segment_manager s"
    "d \<noteq> Delivered \<and> s' = s \<and> r = Inl RPC_FAIL \<or> (\<exists>r'. (objects p s', r') = spec_PutRevoke k rtype (objects p s) \<and> (r = r' \<or> d \<noteq> Delivered \<and> r = Inl RPC_FAIL))"
  by (rule entry_call [OF quiet_PutRevoke assms(1,2) assms(3) [unfolded Wrapped_PutRevoke_def],
      where spec = "\<lambda>H config. spec_PutRevoke k rtype"]; use PutRevoke_ok in blast)+

lemma get_call:
  assumes "sys_ok p (s, ttl, ps)" "shuffle_law p" "invoke_rpc d (Wrapped_GetReplicaList p now k) s = (s', r)"
  shows "sys_ok p (s', ttl, ps)" "segment_manager s' = segment_manager s" "same_allocators (fst (shared s)) (fst (shared s'))"
    "d \<noteq> Delivered \<and> s' = s \<and> r = Inl RPC_FAIL
      \<or> (\<exists>r'. (objects p s', r') = spec_GetReplicaList (fst (shared s)) now (default_kv_lease_ttl (service_config s))
           (default_kv_soft_pin_ttl (service_config s)) k (objects p s) \<and> (r = r' \<or> d \<noteq> Delivered \<and> r = Inl RPC_FAIL))"
  by (rule entry_call [OF quiet_GetReplicaList assms(1,2) assms(3) [unfolded Wrapped_GetReplicaList_def],
      where spec = "\<lambda>H config. spec_GetReplicaList H now (default_kv_lease_ttl config) (default_kv_soft_pin_ttl config) k"];
      use GetReplicaList_ok in blast)+

section \<open>The bytes of an object\<close>

definition handle_bytes :: "memory \<Rightarrow> BufferDescriptor \<Rightarrow> u8 list" where
  "handle_bytes mem h = map (\<lambda>k. mem (transport_endpoint h) (buffer_address h + word_of_nat k)) [0..<unat (desc_size h)]"

lemma offset_cells: "k < unat n \<Longrightarrow> (ep, a + word_of_nat k) \<in> cells ep a n"
  by (simp add: word_less_nat_alt) (metis le_less_trans mod_less_eq_dividend unat_of_nat)

lemma handle_bytes_same: "same_outside T mem mem' \<Longrightarrow> handle_cells h \<inter> T = {} \<Longrightarrow> handle_bytes mem' h = handle_bytes mem h"
  using offset_cells [of _ "desc_size h" "transport_endpoint h" "buffer_address h"]
  by (fastforce simp: handle_bytes_def handle_cells_def same_outside_def simp del: mem_cells)

text \<open>The replica that a reader takes.\<close>

definition first_complete :: "Platform \<Rightarrow> MasterService \<Rightarrow> string \<Rightarrow> Replica option" where
  "first_complete p s key = (case objects p s key of None \<Rightarrow> None | Some md \<Rightarrow> find (\<lambda>r. rep_status r = COMPLETE) (replicas md))"

text \<open>An object is in the store with the given bytes: the replica that a reader takes is in memory and its buffers hold them.\<close>

definition stored :: "Platform \<Rightarrow> string \<Rightarrow> u8 list list \<Rightarrow> Site \<Rightarrow> bool" where
  "stored p key data site \<longleftrightarrow> (\<exists>r bufs. first_complete p (site_master site) key = Some r \<and> rep_data r = MemoryReplicaData bufs
     \<and> map (\<lambda>x. handle_bytes (site_memory site) (get_buffer_descriptor (fst (shared (site_master site))) x)) bufs = data)"

lemma first_complete_object:
  assumes "first_complete p s key = Some r" "rep_data r = MemoryReplicaData bufs" "x \<in> set bufs"
  obtains md where "objects p s key = Some md" "x \<in># metadata_buffers md" "isAllocatorValid (fst (shared s)) x"
proof -
  obtain md where o: "objects p s key = Some md" "find (\<lambda>r. rep_status r = COMPLETE) (replicas md) = Some r"
    using assms(1) by (auto simp: first_complete_def split: option.splits)
  then have "r \<in> set (replicas md)" by (metis find_Some_iff nth_mem)
  then have "x \<in># metadata_buffers md" using assms(2,3) by (auto simp: metadata_buffers_def replica_buffers_def intro!: bexI [of _ r])
  then show thesis using that o(1) live_buffers(2) by blast
qed

lemma stored_master:
  assumes "stored p key data site" "sys_ok p (site_master site, ttl, ps)" "sys_ok p (s', ttl', ps')"
    and "segment_manager s' = segment_manager (site_master site)" "first_complete p s' key = first_complete p (site_master site) key"
  shows "stored p key data (site\<lparr>site_master := s'\<rparr>)"
proof -
  obtain r bufs where r: "first_complete p (site_master site) key = Some r" "rep_data r = MemoryReplicaData bufs"
    "map (\<lambda>x. handle_bytes (site_memory site) (get_buffer_descriptor (fst (shared (site_master site))) x)) bufs = data"
    using assms(1) by (auto simp: stored_def)
  have "get_buffer_descriptor (fst (shared s')) x = get_buffer_descriptor (fst (shared (site_master site))) x" if "x \<in> set bufs" for x
  proof (rule home_same)
    show "ms_ok p (site_master site) {#} {#}" "ms_ok p s' {#} {#}" using assms(2,3) by (simp_all add: sys_ok_def)
    show "isAllocatorValid (fst (shared (site_master site))) x" using first_complete_object [OF r(1,2) that] by blast
    show "isAllocatorValid (fst (shared s')) x" using first_complete_object [OF r(1,2) [folded assms(5)] that] by blast
  qed (rule assms(4))
  then have "map (\<lambda>x. handle_bytes (site_memory site) (get_buffer_descriptor (fst (shared s')) x)) bufs = data" by (simp add: r(3) [symmetric])
  then show ?thesis using r(1,2) assms(5) by (auto simp: stored_def)
qed

lemma stored_memory:
  assumes "stored p key data site" "same_outside T (site_memory site) mem'"
    and "\<And>md x. objects p (site_master site) key = Some md \<Longrightarrow> x \<in># metadata_buffers md
      \<Longrightarrow> buffer_cells (fst (shared (site_master site))) x \<inter> T = {}"
  shows "stored p key data (site\<lparr>site_memory := mem'\<rparr>)"
proof -
  obtain r bufs where r: "first_complete p (site_master site) key = Some r" "rep_data r = MemoryReplicaData bufs"
    "map (\<lambda>x. handle_bytes (site_memory site) (get_buffer_descriptor (fst (shared (site_master site))) x)) bufs = data"
    using assms(1) by (auto simp: stored_def)
  have "handle_bytes mem' (get_buffer_descriptor (fst (shared (site_master site))) x)
    = handle_bytes (site_memory site) (get_buffer_descriptor (fst (shared (site_master site))) x)" if x: "x \<in> set bufs" for x
  proof (rule handle_bytes_same [OF assms(2)])
    show "buffer_cells (fst (shared (site_master site))) x \<inter> T = {}"
      by (rule first_complete_object [OF r(1,2) x]) (use assms(3) in blast)
  qed
  then have "map (\<lambda>x. handle_bytes mem' (get_buffer_descriptor (fst (shared (site_master site))) x)) bufs = data" by (simp add: r(3) [symmetric])
  then show ?thesis using r(1,2) by (auto simp: stored_def)
qed

lemma stored_writes [simp]: "stored p key data (site\<lparr>site_writes := w\<rparr>) = stored p key data site"
  by (simp add: stored_def)

section \<open>Getting\<close>

definition slices_ok :: "Client \<Rightarrow> SegmentManager \<Rightarrow> Slice list \<Rightarrow> bool" where
  "slices_ok c sm slices \<longleftrightarrow> no_null slices \<and> (\<forall>sl \<in> set slices. slice_cells (own_endpoint c) sl \<inter> segment_cells sm = {})"

lemma find_complete_descriptors:
  "FindFirstCompleteReplica (complete_descriptors H md) = (case find (\<lambda>r. rep_status r = COMPLETE) (replicas md) of
     None \<Rightarrow> Inl INVALID_REPLICA | Some r \<Rightarrow> Inr (get_descriptor H r))"
proof -
  have "FindFirstCompleteReplica (map (get_descriptor H) (filter (\<lambda>r. rep_status r = COMPLETE) rs)) = (case find (\<lambda>r. rep_status r = COMPLETE) rs of
     None \<Rightarrow> Inl INVALID_REPLICA | Some r \<Rightarrow> Inr (get_descriptor H r))" for rs
    by (induction rs) (simp_all add: get_descriptor_def)
  then show ?thesis by (simp add: complete_descriptors_def)
qed

text \<open>Asking for an object grants a lease and leaves its replicas alone.\<close>

lemma get_call_first_complete:
  assumes "sys_ok p (s, ttl, ps)" "shuffle_law p" "invoke_rpc d (Wrapped_GetReplicaList p now k) s = (s', r)"
  shows "first_complete p s' key = first_complete p s key"
    "r = Inr (reps, lease) \<Longrightarrow> FindFirstCompleteReplica reps
      = (case first_complete p s k of None \<Rightarrow> Inl INVALID_REPLICA | Some r \<Rightarrow> Inr (get_descriptor (fst (shared s)) r))"
  using get_call(4) [OF assms]
  by (auto simp: first_complete_def spec_GetReplicaList_def GrantLease_def find_complete_descriptors split: option.splits if_splits)

text \<open>The master and the memory after a get: a lost or failed get, or one that read from the first complete replica.\<close>

lemma Client_Get_effect:
  assumes ok: "sys_ok p (site_master site, ttl, ps)" "shuffle_law p" and law: "client_law c" "no_null slices"
    and g: "Client_Get p c d start_time master_now finish k slices site = (site', r)"
  obtains s' mem' where "site' = site\<lparr>site_memory := mem', site_master := s'\<rparr>" "sys_ok p (s', ttl, ps)"
    "segment_manager s' = segment_manager (site_master site)" "\<And>key. first_complete p s' key = first_complete p (site_master site) key"
    "same_outside (\<Union>sl \<in> set slices. slice_cells (own_endpoint c) sl) (site_memory site) mem'"
    "r = Inr () \<Longrightarrow> \<exists>rep. first_complete p (site_master site) k = Some rep
       \<and> TransferRead c (get_descriptor (fst (shared (site_master site))) rep) slices (site_memory site) = (mem', OK)"
proof -
  let ?s = "site_master site"
  obtain s' q where i: "invoke_rpc d (Wrapped_GetReplicaList p master_now k) ?s = (s', q)"
    by (cases "invoke_rpc d (Wrapped_GetReplicaList p master_now k) ?s")
  note gc = get_call [OF ok i] and fc = get_call_first_complete [OF ok i]
  show thesis
  proof (cases q)
    case (Inl e)
    then have "site' = site\<lparr>site_master := s'\<rparr>" "r = Inl e" using g i by (auto simp: Client_Get_def Client_Query_def on_master_def)
    then show thesis using that [of s' "site_memory site"] gc fc by auto
  next
    case (Inr x)
    obtain reps lease where x: "x = (reps, lease)" by (cases x)
    let ?q = "\<lparr>qr_replicas = reps, qr_lease_timeout = start_time + milliseconds lease\<rparr>"
    have g': "Client_Get_replica c finish ?q slices (site\<lparr>site_master := s'\<rparr>) = (site', r)"
      using g i by (simp add: Client_Get_def Client_Query_def on_master_def Inr x)
    note f = fc(2) [OF Inr [unfolded x]]
    show thesis
    proof (cases "first_complete p ?s k")
      case None
      then have "site' = site\<lparr>site_master := s'\<rparr>" "r = Inl INVALID_REPLICA" using g' f by (auto simp: Client_Get_replica_def)
      then show thesis using that [of s' "site_memory site"] gc fc by auto
    next
      case (Some rep)
      obtain mem' err where t: "TransferRead c (get_descriptor (fst (shared ?s)) rep) slices (site_memory site) = (mem', err)"
        by (cases "TransferRead c (get_descriptor (fst (shared ?s)) rep) slices (site_memory site)")
      have "site' = site\<lparr>site_memory := mem', site_master := s'\<rparr> \<and> (r = Inr () \<longrightarrow> err = OK)"
        using g' f Some t by (auto simp: Client_Get_replica_def Let_def split: if_splits)
      then show thesis using that [of s' mem'] gc(1,2) fc(1) TransferRead_memory(1) [OF law t] Some t by auto
    qed
  qed
qed

lemma Client_Get_keeps:
  assumes ok: "sys_ok p (site_master site, ttl, ps)" "shuffle_law p" "segments_apart (segment_manager (site_master site))"
    and law: "client_law c" "slices_ok c (segment_manager (site_master site)) slices" and st: "stored p key data site"
    and g: "Client_Get p c d start_time master_now finish k slices site = (site', r)"
  shows "stored p key data site' \<and> sys_ok p (site_master site', ttl, ps) \<and> segment_manager (site_master site') = segment_manager (site_master site)"
proof -
  have nn: "no_null slices" using law(2) by (simp add: slices_ok_def)
  show ?thesis
  proof (rule Client_Get_effect [OF ok(1,2) law(1) nn g])
    fix s' mem'
    assume a: "site' = site\<lparr>site_memory := mem', site_master := s'\<rparr>" "sys_ok p (s', ttl, ps)" "segment_manager s' = segment_manager (site_master site)"
      "\<And>key. first_complete p s' key = first_complete p (site_master site) key"
      "same_outside (\<Union>sl \<in> set slices. slice_cells (own_endpoint c) sl) (site_memory site) mem'"
    have "stored p key data (site\<lparr>site_memory := mem'\<rparr>)"
    proof (rule stored_memory [OF st a(5)])
      fix md x assume "objects p (site_master site) key = Some md" "x \<in># metadata_buffers md"
      then have "buffer_cells (fst (shared (site_master site))) x \<subseteq> segment_cells (segment_manager (site_master site))"
        using ok(1,3) by (intro object_in_segments) (simp_all add: sys_ok_def)
      then show "buffer_cells (fst (shared (site_master site))) x \<inter> (\<Union>sl \<in> set slices. slice_cells (own_endpoint c) sl) = {}"
        using law(2) by (auto simp: slices_ok_def)
    qed
    from stored_master [OF this _ a(2)] show ?thesis using ok(1) a by (simp add: a(1))
  qed
qed

text \<open>What is read: after copies that do not disturb each other every target holds the bytes of its source.\<close>

lemma copied_bytes:
  assumes "sorted_wrt (\<lambda>c d. target_cells c \<inter> target_cells d = {}) cs"
    and "\<And>c d. c \<in> set cs \<Longrightarrow> d \<in> set cs \<Longrightarrow> source_cells c \<inter> target_cells d = {}" and "((de, d), (se, s), n) \<in> set cs"
  shows "map (\<lambda>k. fold do_copy cs mem de (d + word_of_nat k)) [0..<unat n] = map (\<lambda>k. mem se (s + word_of_nat k)) [0..<unat n]"
proof -
  have "(word_of_nat k :: u64) < n" if "k < unat n" for k using offset_cells [OF that, of _ 0] by simp
  then show ?thesis using copies_done [OF assms] by simp
qed

lemma Client_Get_data:
  assumes ok: "sys_ok p (site_master site, ttl, ps)" "shuffle_law p" "segments_apart (segment_manager (site_master site))"
    and law: "client_law c" "slices_ok c (segment_manager (site_master site)) out"
    and out: "sorted_wrt (\<lambda>a b. slice_cells (own_endpoint c) a \<inter> slice_cells (own_endpoint c) b = {}) out" "length out = length data"
    and st: "stored p key data site" and g: "Client_Get p c d start_time master_now finish key out site = (site', Inr ())"
  shows "map (slice_bytes (own_endpoint c) (site_memory site')) out = data"
proof -
  let ?own = "own_endpoint c" and ?H = "fst (shared (site_master site))" and ?mem = "site_memory site"
  have nn: "no_null out" using law(2) by (simp add: slices_ok_def)
  obtain rep bufs where r: "first_complete p (site_master site) key = Some rep" "rep_data rep = MemoryReplicaData bufs"
    "map (\<lambda>x. handle_bytes ?mem (get_buffer_descriptor ?H x)) bufs = data"
    using st by (auto simp: stored_def)
  let ?hs = "map (get_buffer_descriptor ?H) bufs"
  have t: "TransferRead c (get_descriptor ?H rep) out ?mem = (site_memory site', OK)"
    by (rule Client_Get_effect [OF ok(1,2) law(1) nn g]) (use r(1) in auto)
  have len: "length ?hs = length out" using r(3) out(2) by auto
  note m = TransferRead_memory(2) [OF law(1) nn t refl, of ?hs]
  have sz: "i < length out \<Longrightarrow> desc_size (?hs ! i) = slice_size (out ! i)" for i
    using m len by (auto simp: get_descriptor_def r(2) list_all2_conv_all_nth)
  let ?cs = "copies_of READ ?own ?hs out"
  have cs: "?cs ! i = ((?own, the (slice_ptr (out ! i))), (transport_endpoint (?hs ! i), buffer_address (?hs ! i)), desc_size (?hs ! i))"
    "length ?cs = length out" if "i < length out" for i
    using that len by (simp_all add: copies_of_def copy_of_def copy_between_def)
  have len_cs: "length ?cs = length out" using len by (simp add: copies_of_def)
  have tc: "map target_cells ?cs = map (slice_cells ?own) out"
  proof (rule nth_equalityI)
    fix i assume "i < length (map target_cells ?cs)"
    then have i: "i < length out" by (simp add: len_cs)
    obtain ptr where "slice_ptr (out ! i) = Some ptr" using nn nth_mem [OF i] by blast
    then show "map target_cells ?cs ! i = map (slice_cells ?own) out ! i"
      using i sz [OF i] cs(1) [OF i] by (simp add: len_cs target_cells_def slice_cells_def)
  qed (simp add: len_cs)
  have sorted: "sorted_wrt (\<lambda>c d. target_cells c \<inter> target_cells d = {}) ?cs"
    using out(1) sorted_wrt_map [of "\<lambda>a b. a \<inter> b = {}" target_cells ?cs] sorted_wrt_map [of "\<lambda>a b. a \<inter> b = {}" "slice_cells ?own" out] tc by simp
  have src: "source_cells a \<subseteq> segment_cells (segment_manager (site_master site))" if mem: "a \<in> set ?cs" for a
  proof -
    obtain i where i: "i < length out" "a = ?cs ! i" using mem unfolding in_set_conv_nth len_cs by blast
    have "bufs ! i \<in> set bufs" using i(1) len by simp
    then obtain md where md: "objects p (site_master site) key = Some md" "bufs ! i \<in># metadata_buffers md"
      using first_complete_object [OF r(1,2)] by metis
    have "buffer_cells ?H (bufs ! i) \<subseteq> segment_cells (segment_manager (site_master site))"
      using ok(1,3) md by (intro object_in_segments) (simp_all add: sys_ok_def)
    moreover have "source_cells a = buffer_cells ?H (bufs ! i)" using cs(1) [OF i(1)] i len by (simp add: source_cells_def handle_cells_def)
    ultimately show ?thesis by simp
  qed
  have tgt: "target_cells b \<inter> segment_cells (segment_manager (site_master site)) = {}" if "b \<in> set ?cs" for b
  proof -
    have "target_cells b \<in> set (map (slice_cells ?own) out)" using that tc by (metis image_eqI list.set_map)
    then show ?thesis using law(2) by (auto simp: slices_ok_def)
  qed
  have apart: "source_cells a \<inter> target_cells b = {}" if "a \<in> set ?cs" "b \<in> set ?cs" for a b using src [OF that(1)] tgt [OF that(2)] by blast
  have mem: "site_memory site' = fold do_copy ?cs ?mem" using m by (simp add: get_descriptor_def r(2))
  have "slice_bytes ?own (site_memory site') (out ! i) = handle_bytes ?mem (?hs ! i)" if i: "i < length out" for i
  proof -
    have "?cs ! i \<in> set ?cs" using i len_cs by simp
    from copied_bytes [OF sorted apart this [unfolded cs(1) [OF i]], of ?mem]
    have "map (\<lambda>k. site_memory site' ?own (the (slice_ptr (out ! i)) + word_of_nat k)) [0..<unat (desc_size (?hs ! i))] = handle_bytes ?mem (?hs ! i)"
      by (simp only: handle_bytes_def mem)
    moreover obtain ptr where "slice_ptr (out ! i) = Some ptr" using nn nth_mem [OF i] by blast
    ultimately show ?thesis using sz [OF i] by (simp add: slice_bytes_def)
  qed
  then show ?thesis using len by (intro nth_equalityI) (simp_all add: r(3) [symmetric])
qed

section \<open>Putting\<close>

lemma memory_handles_descriptor: "memory_handles (get_descriptor H r) = map (get_buffer_descriptor H) (replica_buffers r)"
  by (simp add: memory_handles_def get_descriptor_def replica_buffers_def split: ReplicaData.splits)

lemma write_targets: "targets (write_copies c ds slices) \<subseteq> (\<Union>d \<in> set ds. \<Union>h \<in> set (memory_handles d). handle_cells h)"
  by (force simp: write_copies_def copies_of_def copy_of_def copy_between_def target_cells_def handle_cells_def dest: set_zip_leftD simp del: mem_cells)

text \<open>A put is refused at its start, or writes the replicas and then ends or revokes the put.\<close>

lemma Client_Put_parts:
  assumes "Client_Put p c net now k slices config site = (site', r)"
  obtains (refused) e where "invoke_rpc (net PutStart_rpc) (Wrapped_PutStart p k (map slice_size slices) config) (site_master site) = (site_master site', Inl e)"
      "site_memory site' = site_memory site" "r = Inr () \<Longrightarrow> e = OBJECT_ALREADY_EXISTS"
  | (ended) s1 ds where "invoke_rpc (net PutStart_rpc) (Wrapped_PutStart p k (map slice_size slices) config) (site_master site) = (s1, Inr ds)"
      "write_replicas c slices ds (site_memory site) = (site_memory site', OK)"
      "invoke_rpc (net PutEnd_rpc) (Wrapped_PutEnd p now k MEMORY) s1 = (site_master site', r)"
  | (revoked) s1 ds err q where "invoke_rpc (net PutStart_rpc) (Wrapped_PutStart p k (map slice_size slices) config) (site_master site) = (s1, Inr ds)"
      "write_replicas c slices ds (site_memory site) = (site_memory site', err)"
      "invoke_rpc (net PutRevoke_rpc) (Wrapped_PutRevoke p k MEMORY) s1 = (site_master site', q)" "isl r"
proof -
  obtain s1 q where i: "invoke_rpc (net PutStart_rpc) (Wrapped_PutStart p k (map slice_size slices) config) (site_master site) = (s1, q)"
    by (cases "invoke_rpc (net PutStart_rpc) (Wrapped_PutStart p k (map slice_size slices) config) (site_master site)")
  show thesis
  proof (cases q)
    case (Inl e)
    then show thesis using assms i by (intro refused [of e]) (auto simp: Client_Put_def on_master_def split: if_splits)
  next
    case (Inr ds)
    let ?site1 = "put_disk_replica c k slices ds (site\<lparr>site_master := s1\<rparr>)"
    have s1: "site_master ?site1 = s1" "site_memory ?site1 = site_memory site"
      by (simp_all add: put_disk_replica_def PutToLocalFile_def split: list.splits)
    obtain mem' err where w: "write_replicas c slices ds (site_memory site) = (mem', err)" by (cases "write_replicas c slices ds (site_memory site)")
    have body: "(if err \<noteq> OK then
        (case on_master (invoke_rpc (net PutRevoke_rpc) (Wrapped_PutRevoke p k MEMORY)) (?site1\<lparr>site_memory := mem'\<rparr>) of
           (site, Inl e) \<Rightarrow> (site, Inl e) | (site, Inr _) \<Rightarrow> (site, Inl err))
      else on_master (invoke_rpc (net PutEnd_rpc) (Wrapped_PutEnd p now k MEMORY)) (?site1\<lparr>site_memory := mem'\<rparr>)) = (site', r)"
      using assms i by (simp only: Client_Put_def on_master_def [of _ site] Inr prod.case sum.case Let_def s1(2) w)
    show thesis
    proof (cases "err = OK")
      case True
      then show thesis using body w i Inr s1 by (intro ended [of s1 ds]) (auto simp: on_master_def split: prod.splits)
    next
      case False
      obtain s2 q2 where q2: "invoke_rpc (net PutRevoke_rpc) (Wrapped_PutRevoke p k MEMORY) s1 = (s2, q2)"
        by (cases "invoke_rpc (net PutRevoke_rpc) (Wrapped_PutRevoke p k MEMORY) s1")
      show thesis using body False w i Inr s1 q2 by (intro revoked [of s1 ds err q2]) (auto simp: on_master_def split: sum.splits)
    qed
  qed
qed

end
