(* ===== verification/Client_Integrity.thy ===== *)
theory Client_Integrity
  imports Client_Data Master_Example
begin

text \<open>
  The property of the whole store: the bytes that a client puts are the bytes that a client gets. A
  put stores them (\<open>Client_Put_stores\<close>), nothing that happens to other objects disturbs them
  (\<open>activity\<close>), and a get returns them.
\<close>

declare map_of_eq_Some_iff [simp del] split_paired_All [simp del] split_paired_Ex [simp del]

section \<open>What a put does to the store\<close>

abbreviation sizes_ok :: "Slice list \<Rightarrow> bool" where
  "sizes_ok slices \<equiv> \<forall>sl \<in> set slices. unat (slice_size sl) \<le> 2 ^ 63"

lemma put_result_other: "put_result p k sizes config s s' r \<Longrightarrow> key \<noteq> k \<Longrightarrow> objects p s' key = objects p s key"
  by (auto simp: put_result_def split: sum.splits if_splits)

lemma first_complete_cong: "objects p s' key = objects p s key \<Longrightarrow> first_complete p s' key = first_complete p s key"
  by (simp add: first_complete_def)

lemma stored_cong: "site_master a = site_master b \<Longrightarrow> site_memory a = site_memory b \<Longrightarrow> stored p key data a = stored p key data b"
  by (simp add: stored_def)

text \<open>
  The object that a successful start has entered: it has the descriptors that were handed out, its
  replicas are being written, the first is one in memory, and those in memory have a buffer for each slice.
\<close>

definition started :: "Platform \<Rightarrow> MasterService \<Rightarrow> string \<Rightarrow> u64 list \<Rightarrow> ObjectMetadata \<Rightarrow> ReplicaDescriptor list \<Rightarrow> bool" where
  "started p s k sizes md ds \<longleftrightarrow> objects p s k = Some md \<and> ds = map (get_descriptor (fst (shared s))) (replicas md)
     \<and> (\<forall>r \<in> set (replicas md). rep_status r = PROCESSING
          \<and> (if replica_type r = MEMORY then map buf_size (replica_buffers r) = sizes else replica_buffers r = []))
     \<and> (\<exists>b. take 1 (replicas md) = [Replica_memory b PROCESSING])"

lemma put_result_started:
  assumes "put_result p k sizes config s s1 (Inr ds)" "find_metadata p k s = None"
  shows "\<exists>md. objects p s1 = (objects p s)(k \<mapsto> md) \<and> started p s1 k sizes md ds"
proof -
  obtain reps rbufs where r: "reps = map (\<lambda>b. Replica_memory b PROCESSING) rbufs" "shape_ok (fst (shared s1)) sizes rbufs" "rbufs \<noteq> []"
      "ds = map (get_descriptor (fst (shared s1))) (put_replicas p k sizes s reps)"
      "objects p s1 = (objects p s)(k \<mapsto> new_object (sum_list sizes) (put_replicas p k sizes s reps) (with_soft_pin config))"
    using assms by (auto simp: put_result_def allocated_def)
  have "rep_status x = PROCESSING \<and> (if replica_type x = MEMORY then map buf_size (replica_buffers x) = sizes else replica_buffers x = [])"
    if "x \<in> set (put_replicas p k sizes s reps)" for x
    using that r(2) by (auto simp: r(1) put_replicas_def shape_ok_def Replica_disk_def Replica_memory_def replica_type_def replica_buffers_def split: if_splits)
  moreover have "take 1 (put_replicas p k sizes s reps) = [Replica_memory (hd rbufs) PROCESSING]"
    using r(3) by (cases rbufs) (simp_all add: r(1) put_replicas_def)
  ultimately show ?thesis using r(4,5) by (auto simp: started_def new_object_def)
qed

lemma put_started_object:
  assumes ok: "sys_ok p (s, ttl, ps)" "shuffle_law p" and sz: "\<forall>n \<in> set sizes. unat n \<le> 2 ^ 63"
    and fresh: "find_metadata p k s = None \<or> objects p s k \<noteq> None"
    and i: "invoke_rpc d (Wrapped_PutStart p k sizes config) s = (s1, Inr ds)"
  obtains md where "objects p s1 = (objects p s)(k \<mapsto> md)" "started p s1 k sizes md ds" "sys_ok p (s1, ttl, ps)" "segment_manager s1 = segment_manager s"
proof -
  note c = put_start_call [OF ok sz i]
  have r: "put_result p k sizes config s s1 (Inr ds)" using c(3) by auto
  then have "find_metadata p k s = None" using fresh by (auto simp: put_result_def)
  with put_result_started [OF r] show thesis using that c(1,2) by blast
qed

lemma started_targets:
  "started p s k sizes md ds \<Longrightarrow> targets (write_copies c ds slices) \<subseteq> (\<Union>y \<in> set_mset (metadata_buffers md). buffer_cells (fst (shared s)) y)"
  using write_targets [of c ds slices] by (force simp: started_def memory_handles_descriptor metadata_buffers_def)

text \<open>What is written to the buffers of one object leaves those of the others alone.\<close>

lemma started_apart:
  assumes "ms_ok p s {#} {#}" "segments_apart (segment_manager s)" "started p s k sizes md ds" "k \<noteq> key"
    and "objects p s key = Some md'" "x \<in># metadata_buffers md'"
  shows "buffer_cells (fst (shared s)) x \<inter> targets (write_copies c ds slices) = {}"
proof -
  have "buffer_cells (fst (shared s)) x \<inter> buffer_cells (fst (shared s)) y = {}" if y: "y \<in># metadata_buffers md" for y
    using assms y by (intro objects_apart [of p s key md' k md]) (simp_all add: started_def)
  then show ?thesis using started_targets [OF assms(3), of c slices] by blast
qed

lemma put_write_keeps:
  assumes ok: "sys_ok p (site_master site, ttl, ps)" "shuffle_law p" "segments_apart (segment_manager (site_master site))"
    and law: "client_law c" "no_null slices" and sz: "sizes_ok slices" and ne: "k \<noteq> key"
    and fresh: "find_metadata p k (site_master site) = None \<or> objects p (site_master site) k \<noteq> None" and st: "stored p key data site"
    and i: "invoke_rpc d (Wrapped_PutStart p k (map slice_size slices) config) (site_master site) = (s1, Inr ds)"
    and w: "write_replicas c slices ds (site_memory site) = (mem', err)"
  shows "stored p key data (site\<lparr>site_master := s1, site_memory := mem'\<rparr>)" "sys_ok p (s1, ttl, ps)" "segment_manager s1 = segment_manager (site_master site)"
proof -
  have sz': "\<forall>n \<in> set (map slice_size slices). unat n \<le> 2 ^ 63" using sz by simp
  obtain md where o: "objects p s1 = (objects p (site_master site))(k \<mapsto> md)" "started p s1 k (map slice_size slices) md ds"
    and s1: "sys_ok p (s1, ttl, ps)" "segment_manager s1 = segment_manager (site_master site)"
    by (rule put_started_object [OF ok(1,2) sz' fresh i])
  have "stored p key data (site\<lparr>site_master := s1\<rparr>)"
    by (rule stored_master [OF st ok(1) s1(1,2)]) (simp add: first_complete_def o(1) ne [symmetric])
  moreover have "same_outside (targets (write_copies c ds slices)) (site_memory (site\<lparr>site_master := s1\<rparr>)) mem'"
    using write_replicas_memory(2) [OF law w] by simp
  moreover have "buffer_cells (fst (shared s1)) x \<inter> targets (write_copies c ds slices) = {}"
    if "objects p s1 key = Some md'" "x \<in># metadata_buffers md'" for md' x
    using s1 ok(3) by (intro started_apart [OF _ _ o(2) ne that]) (simp_all add: sys_ok_def)
  ultimately show "stored p key data (site\<lparr>site_master := s1, site_memory := mem'\<rparr>)"
    using stored_memory [of p key data "site\<lparr>site_master := s1\<rparr>" "targets (write_copies c ds slices)" mem'] by simp
  show "sys_ok p (s1, ttl, ps)" "segment_manager s1 = segment_manager (site_master site)" by (rule s1)+
qed

text \<open>A put of one object leaves the bytes of the others alone, whatever becomes of it.\<close>

lemma Client_Put_keeps:
  assumes ok: "sys_ok p (site_master site, ttl, ps)" "shuffle_law p" "segments_apart (segment_manager (site_master site))"
    and law: "client_law c" "no_null slices" and sz: "sizes_ok slices" and ne: "k \<noteq> key"
    and fresh: "find_metadata p k (site_master site) = None \<or> objects p (site_master site) k \<noteq> None" and st: "stored p key data site"
    and put: "Client_Put p c net now k slices config site = (site', r)"
  shows "stored p key data site' \<and> sys_ok p (site_master site', ttl, ps) \<and> segment_manager (site_master site') = segment_manager (site_master site)"
  using put
proof (cases rule: Client_Put_parts)
  case (refused e)
  have sz': "\<forall>n \<in> set (map slice_size slices). unat n \<le> 2 ^ 63" using sz by simp
  note c = put_start_call [OF ok(1,2) sz' refused(1)]
  have "first_complete p (site_master site') key = first_complete p (site_master site) key"
    using c(3) put_result_other [OF _ ne [symmetric]] by (auto intro: first_complete_cong)
  from stored_master [OF st ok(1) c(1,2) this] have "stored p key data site'" by (subst stored_cong [of _ "site\<lparr>site_master := site_master site'\<rparr>"]) (simp_all add: refused(2))
  then show ?thesis using c(1,2) by simp
next
  case (ended s1 ds)
  note w = put_write_keeps [OF ok law sz ne fresh st ended(1,2)]
  note c = put_end_call [OF w(2) ok(2) ended(3)]
  have "first_complete p (site_master site') key = first_complete p s1 key"
    using c(4) ne by (auto simp: spec_PutEnd_def split: option.splits intro!: first_complete_cong)
  with stored_master [OF w(1), of ttl ps "site_master site'" ttl ps] w(2) c(1,2) have "stored p key data site'"
    by (subst stored_cong [of _ "site\<lparr>site_memory := site_memory site', site_master := site_master site'\<rparr>"]) simp_all
  then show ?thesis using w(3) c(1,2) by simp
next
  case (revoked s1 ds err q)
  note w = put_write_keeps [OF ok law sz ne fresh st revoked(1,2)]
  note c = put_revoke_call [OF w(2) ok(2) revoked(3)]
  have "first_complete p (site_master site') key = first_complete p s1 key"
    using c(3) ne by (auto simp: spec_PutRevoke_def Let_def split: option.splits if_splits intro!: first_complete_cong)
  with stored_master [OF w(1), of ttl ps "site_master site'" ttl ps] w(2) c(1,2) have "stored p key data site'"
    by (subst stored_cong [of _ "site\<lparr>site_memory := site_memory site', site_master := site_master site'\<rparr>"]) simp_all
  then show ?thesis using w(3) c(1,2) by simp
qed

section \<open>What a put stores\<close>

lemma sorted_targets:
  assumes "sorted_wrt (\<lambda>x y. buffer_cells H x \<inter> buffer_cells H y = {}) (concat (map replica_buffers reps))"
    and "\<And>r. r \<in> set reps \<Longrightarrow> length (replica_buffers r) \<le> length slices"
  shows "sorted_wrt (\<lambda>c d. target_cells c \<inter> target_cells d = {}) (write_copies c (map (get_descriptor H) reps) slices)"
proof -
  have one: "map target_cells (copies_of WRITE own hs slices) = map handle_cells hs" if "length hs \<le> length slices" for own hs
  proof (rule nth_equalityI)
    fix i assume "i < length (map target_cells (copies_of WRITE own hs slices))"
    then show "map target_cells (copies_of WRITE own hs slices) ! i = map handle_cells hs ! i"
      by (simp add: copies_of_def copy_of_def copy_between_def target_cells_def handle_cells_def)
  qed (use that in \<open>simp add: copies_of_def\<close>)
  have "map target_cells (write_copies c (map (get_descriptor H) reps) slices) = map (buffer_cells H) (concat (map replica_buffers reps))"
    using assms(2) by (induction reps) (simp_all add: write_copies_def memory_handles_descriptor one)
  then show ?thesis using assms(1) sorted_wrt_map [of "\<lambda>a b. a \<inter> b = {}" target_cells] sorted_wrt_map [of "\<lambda>a b. a \<inter> b = {}" "buffer_cells H"] by metis
qed

text \<open>The buffers of a replica after all replicas have been written.\<close>

lemma written_bytes:
  assumes sorted: "sorted_wrt (\<lambda>c d. target_cells c \<inter> target_cells d = {}) (write_copies c ds slices)"
    and src: "\<And>sl. sl \<in> set slices \<Longrightarrow> slice_cells (own_endpoint c) sl \<inter> targets (write_copies c ds slices) = {}"
    and nn: "no_null slices" and d: "d \<in> set ds" "map desc_size (memory_handles d) = map slice_size slices"
    and sz: "\<And>d'. d' \<in> set ds \<Longrightarrow> memory_handles d' = [] \<or> map desc_size (memory_handles d') = map slice_size slices"
  shows "map (handle_bytes (fold do_copy (write_copies c ds slices) mem)) (memory_handles d) = map (slice_bytes (own_endpoint c) mem) slices"
proof (rule nth_equalityI)
  have len: "length (memory_handles d) = length slices" using d(2) by (metis length_map)
  then show "length (map (handle_bytes (fold do_copy (write_copies c ds slices) mem)) (memory_handles d)) = length (map (slice_bytes (own_endpoint c) mem) slices)"
    by simp
  fix i assume "i < length (map (handle_bytes (fold do_copy (write_copies c ds slices) mem)) (memory_handles d))"
  then have i: "i < length (memory_handles d)" "i < length slices" using len by simp_all
  let ?h = "memory_handles d ! i" and ?sl = "slices ! i" and ?cs = "write_copies c ds slices"
  obtain ptr where ptr: "slice_ptr ?sl = Some ptr" using nn nth_mem [OF i(2)] by blast
  have n: "desc_size ?h = slice_size ?sl" using d(2) i by (metis nth_map)
  have "((transport_endpoint ?h, buffer_address ?h), (own_endpoint c, ptr), desc_size ?h) \<in> set (copies_of WRITE (own_endpoint c) (memory_handles d) slices)"
    using i by (force simp: copies_of_def copy_of_def copy_between_def ptr set_zip image_iff)
  then have m: "((transport_endpoint ?h, buffer_address ?h), (own_endpoint c, ptr), desc_size ?h) \<in> set ?cs"
    using d(1) by (auto simp: write_copies_def)
  have apart: "source_cells a \<inter> target_cells b = {}" if "a \<in> set ?cs" "b \<in> set ?cs" for a b
  proof -
    obtain d' h sl where a: "d' \<in> set ds" "(h, sl) \<in> set (zip (memory_handles d') slices)" "a = copy_of WRITE (own_endpoint c) (h, sl)"
      using \<open>a \<in> set ?cs\<close> by (auto simp: write_copies_def copies_of_def)
    then have "map desc_size (memory_handles d') = map slice_size slices" using sz [of d'] by auto
    then have "desc_size h = slice_size sl" using a(2) by (auto simp: in_set_zip) (metis nth_map)
    moreover have "sl \<in> set slices" using a(2) by (rule set_zip_rightD)
    moreover obtain q where "slice_ptr sl = Some q" using nn calculation(2) by blast
    ultimately have "source_cells a = slice_cells (own_endpoint c) sl"
      by (simp add: a(3) copy_of_def copy_between_def source_cells_def slice_cells_def)
    then show ?thesis using src [OF \<open>sl \<in> set slices\<close>] \<open>b \<in> set ?cs\<close> by auto
  qed
  show "map (handle_bytes (fold do_copy ?cs mem)) (memory_handles d) ! i = map (slice_bytes (own_endpoint c) mem) slices ! i"
    using copied_bytes [OF sorted apart m, of mem] i n by (simp add: handle_bytes_def slice_bytes_def ptr)
qed

lemma find_marked:
  assumes "take 1 reps = [Replica_memory b PROCESSING]"
  shows "find (\<lambda>r. rep_status r = COMPLETE) (map (\<lambda>r. if replica_type r = MEMORY then mark_complete r else r) reps) = Some (Replica_memory b COMPLETE)"
  using assms by (cases reps) (simp_all add: Replica_memory_def replica_type_def mark_complete_def)

text \<open>The replicas in memory of an object hold the given bytes.\<close>

definition holds :: "allocator_heap \<Rightarrow> memory \<Rightarrow> ObjectMetadata \<Rightarrow> u8 list list \<Rightarrow> bool" where
  "holds H mem md data \<longleftrightarrow> (\<forall>r \<in> set (replicas md). replica_type r = MEMORY
     \<longrightarrow> map (\<lambda>x. handle_bytes mem (get_buffer_descriptor H x)) (replica_buffers r) = data)"

lemma started_written:
  assumes ok: "ms_ok p s {#} {#}" "segments_apart (segment_manager s)" and st: "started p s k (map slice_size slices) md ds"
    and sl: "slices_ok c (segment_manager s) slices"
  shows "holds (fst (shared s)) (fold do_copy (write_copies c ds slices) mem) md (map (slice_bytes (own_endpoint c) mem) slices)"
  unfolding holds_def
proof safe
  let ?H = "fst (shared s)" and ?own = "own_endpoint c"
  have o: "objects p s k = Some md" "ds = map (get_descriptor ?H) (replicas md)" using st by (simp_all add: started_def)
  have nn: "no_null slices" using sl by (simp add: slices_ok_def)
  have bufs: "if replica_type r = MEMORY then map buf_size (replica_buffers r) = map slice_size slices else replica_buffers r = []"
    if "r \<in> set (replicas md)" for r using st that by (simp add: started_def)
  have sorted: "sorted_wrt (\<lambda>c d. target_cells c \<inter> target_cells d = {}) (write_copies c ds slices)"
    unfolding o(2)
  proof (rule sorted_targets [OF object_apart [OF ok o(1)]])
    show "r \<in> set (replicas md) \<Longrightarrow> length (replica_buffers r) \<le> length slices" for r
      using bufs [of r] by (auto dest: map_eq_imp_length_eq split: if_splits)
  qed
  have tgt: "targets (write_copies c ds slices) \<subseteq> segment_cells (segment_manager s)"
    using started_targets [OF st, of c slices] object_in_segments [OF ok o(1)] by blast
  fix r assume r: "r \<in> set (replicas md)" "replica_type r = MEMORY"
  let ?d = "get_descriptor ?H r"
  have "map (handle_bytes (fold do_copy (write_copies c ds slices) mem)) (memory_handles ?d) = map (slice_bytes ?own mem) slices"
  proof (rule written_bytes [OF sorted _ nn])
    show "?d \<in> set ds" using r(1) by (simp add: o(2))
    show "map desc_size (memory_handles ?d) = map slice_size slices"
      using bufs [OF r(1)] r(2) by (simp add: memory_handles_descriptor comp_def get_buffer_descriptor_def)
    show "slice_cells ?own sl \<inter> targets (write_copies c ds slices) = {}" if "sl \<in> set slices" for sl
      using tgt sl that by (auto simp: slices_ok_def)
    show "memory_handles d' = [] \<or> map desc_size (memory_handles d') = map slice_size slices" if "d' \<in> set ds" for d'
    proof -
      obtain r' where r': "r' \<in> set (replicas md)" "d' = get_descriptor ?H r'" using \<open>d' \<in> set ds\<close> by (auto simp: o(2))
      show ?thesis using bufs [OF r'(1)] by (auto simp: r'(2) memory_handles_descriptor comp_def get_buffer_descriptor_def split: if_splits)
    qed
  qed
  then show "map (\<lambda>x. handle_bytes (fold do_copy (write_copies c ds slices) mem) (get_buffer_descriptor ?H x)) (replica_buffers r) = map (slice_bytes ?own mem) slices"
    by (simp add: memory_handles_descriptor comp_def)
qed

text \<open>Ending the put makes the object one that is stored.\<close>

lemma ended_stored:
  assumes st: "started p s k sizes md ds" and h: "holds (fst (shared s)) (site_memory site) md data"
    and s': "objects p (site_master site) k = Some (GrantLease now t1 t2 (md\<lparr>replicas := map (\<lambda>r. if replica_type r = MEMORY then mark_complete r else r) (replicas md)\<rparr>))"
      "same_allocators (fst (shared s)) (fst (shared (site_master site)))"
  shows "stored p k data site"
proof -
  obtain b where b: "take 1 (replicas md) = [Replica_memory b PROCESSING]" using st by (auto simp: started_def)
  then have m: "Replica_memory b PROCESSING \<in> set (replicas md)" by (metis in_set_takeD list.set_intros(1))
  have "map (\<lambda>x. handle_bytes (site_memory site) (get_buffer_descriptor (fst (shared s)) x)) b = data"
    using h m by (auto simp: holds_def Replica_memory_def replica_type_def replica_buffers_def)
  moreover have "first_complete p (site_master site) k = Some (Replica_memory b COMPLETE)"
    using find_marked [OF b] by (simp add: first_complete_def s'(1) GrantLease_def)
  ultimately show ?thesis using same_allocators_descriptor [OF s'(2)] by (auto simp: stored_def Replica_memory_def)
qed

text \<open>A put that reports success has stored the bytes of its slices.\<close>

lemma Client_Put_stores:
  assumes ok: "sys_ok p (site_master site, ttl, ps)" "shuffle_law p" "segments_apart (segment_manager (site_master site))"
    and law: "client_law c" "slices_ok c (segment_manager (site_master site)) slices" and sz: "sizes_ok slices"
    and fresh: "find_metadata p key (site_master site) = None"
    and put: "Client_Put p c net now key slices config site = (site', Inr ())"
  shows "stored p key (map (slice_bytes (own_endpoint c) (site_memory site)) slices) site' \<and> sys_ok p (site_master site', ttl, ps)
    \<and> segment_manager (site_master site') = segment_manager (site_master site)"
  using put
proof (cases rule: Client_Put_parts)
  case (refused e)
  have sz': "\<forall>n \<in> set (map slice_size slices). unat n \<le> 2 ^ 63" using sz by simp
  have "objects p (site_master site) key = None" using fresh by (simp add: objects_def visible_def)
  then show ?thesis using put_start_call(3) [OF ok(1,2) sz' refused(1)] refused(3) by (auto simp: put_result_def split: if_splits)
next
  case (ended s1 ds)
  have sz': "\<forall>n \<in> set (map slice_size slices). unat n \<le> 2 ^ 63" using sz by simp
  have nn: "no_null slices" using law(2) by (simp add: slices_ok_def)
  obtain md where o: "objects p s1 = (objects p (site_master site))(key \<mapsto> md)" "started p s1 key (map slice_size slices) md ds"
    and s1: "sys_ok p (s1, ttl, ps)" "segment_manager s1 = segment_manager (site_master site)"
    by (rule put_started_object [OF ok(1,2) sz' disjI1 [OF fresh] ended(1)])
  have m1: "ms_ok p s1 {#} {#}" "segments_apart (segment_manager s1)" "slices_ok c (segment_manager s1) slices"
    using s1 ok(3) law(2) by (simp_all add: sys_ok_def)
  have h: "holds (fst (shared s1)) (site_memory site') md (map (slice_bytes (own_endpoint c) (site_memory site)) slices)"
    using started_written [OF m1(1,2) o(2) m1(3)] write_replicas_memory(1) [OF law(1) nn ended(2)] by simp
  note c = put_end_call [OF s1(1) ok(2) ended(3)]
  have "stored p key (map (slice_bytes (own_endpoint c) (site_memory site)) slices) site'"
    using c(4) by (intro ended_stored [OF o(2) h _ c(3)]) (auto simp: spec_PutEnd_def o(1))
  then show ?thesis using c(1,2) s1(2) by simp
next
  case (revoked s1 ds err q)
  then show ?thesis by simp
qed

section \<open>What else goes on in the store\<close>

text \<open>
  A site with the part of the master's state that its threads keep. Other clients put other objects
  and get any object, the writing threads work, and the master takes any step that leaves the first
  complete replica of the object and the mounted segments alone. A put may not meet an entry whose
  replicas are all gone: \<open>PutStart\<close> then hands out memory that it has given back already.
\<close>

type_synonym Store = "Site \<times> client_ttls \<times> pending_unmount list"

inductive activity :: "Platform \<Rightarrow> string \<Rightarrow> Store \<Rightarrow> Store \<Rightarrow> bool" for p key where
  start: "activity p key S S"
| master: "activity p key S (site, ttl, ps) \<Longrightarrow> step p (site_master site, ttl, ps) (s', ttl', ps')
    \<Longrightarrow> first_complete p s' key = first_complete p (site_master site) key \<Longrightarrow> segment_manager s' = segment_manager (site_master site)
    \<Longrightarrow> activity p key S (site\<lparr>site_master := s'\<rparr>, ttl', ps')"
| writes: "activity p key S (site, ttl, ps) \<Longrightarrow> activity p key S (site\<lparr>site_writes := w\<rparr>, ttl, ps)"
| put: "activity p key S (site, ttl, ps) \<Longrightarrow> client_law c \<Longrightarrow> no_null slices \<Longrightarrow> sizes_ok slices \<Longrightarrow> k \<noteq> key
    \<Longrightarrow> find_metadata p k (site_master site) = None \<or> objects p (site_master site) k \<noteq> None
    \<Longrightarrow> Client_Put p c net now k slices config site = (site', r) \<Longrightarrow> activity p key S (site', ttl, ps)"
| get: "activity p key S (site, ttl, ps) \<Longrightarrow> client_law c \<Longrightarrow> slices_ok c (segment_manager (site_master site)) slices
    \<Longrightarrow> Client_Get p c d start_time master_now finish k slices site = (site', r) \<Longrightarrow> activity p key S (site', ttl, ps)"

lemma activity_keeps:
  assumes "activity p key S S'" "shuffle_law p" "S = (site, ttl, ps)" "sys_ok p (site_master site, ttl, ps)"
    "segments_apart (segment_manager (site_master site))" "stored p key data site"
  shows "case S' of (site', ttl', ps') \<Rightarrow> stored p key data site' \<and> sys_ok p (site_master site', ttl', ps')
    \<and> segment_manager (site_master site') = segment_manager (site_master site)"
  using assms
proof (induction rule: activity.induct)
  case (master S site1 ttl1 ps1 s' ttl' ps')
  then have "sys_ok p (s', ttl', ps')" by (auto intro: step_keeps_ok)
  then show ?case using master stored_master [of p key data site1 ttl1 ps1 s' ttl' ps'] by simp
next
  case (put S site1 ttl1 ps1 c slices k net now config site' r)
  then show ?case using Client_Put_keeps [of p site1 ttl1 ps1 c slices k key data net now config site' r] by simp
next
  case (get S site1 ttl1 ps1 c slices d start_time master_now finish k site' r)
  then show ?case using Client_Get_keeps [of p site1 ttl1 ps1 c slices key data d start_time master_now finish k site' r] by simp
qed simp_all

section \<open>An example\<close>

text \<open>An engine that does what it is asked, and a client that puts two pieces of memory and gets them into two others.\<close>

definition ex_engine :: Engine where
  "ex_engine = \<lparr>openSegment = (\<lambda>_. True), getLocalIpAndPort = ''c'',
     engine_run = (\<lambda>rqs mem. Some (fold (perform_request ''c'') rqs mem, True)), LoadObject = (\<lambda>_ _ _ mem. (mem, False))\<rparr>"

definition ex_client :: Client where
  "ex_client = \<lparr>c_id = (2, 2), local_hostname = ''c'', p2p_handshake = False, transfer_engine = ex_engine,
     transfer_submitter = Some \<lparr>ts_engine = ex_engine, memcpy_enabled = False\<rparr>, storage_backend = False, c_segments = []\<rparr>"

definition ex_slices :: "Slice list" where
  "ex_slices = [\<lparr>slice_ptr = Some 4096, slice_size = 100\<rparr>, \<lparr>slice_ptr = Some 8192, slice_size = 100\<rparr>]"

definition ex_out :: "Slice list" where
  "ex_out = [\<lparr>slice_ptr = Some 12288, slice_size = 100\<rparr>, \<lparr>slice_ptr = Some 16384, slice_size = 100\<rparr>]"

text \<open>The counter of the requests is one behind, so that the request itself brings it to that of \<open>ex_mounted\<close>.\<close>

definition ex_site :: Site where
  "ex_site = \<lparr>site_master = upd_metrics (inc_counter (requests Op_put_start) (- 1)) ex_mounted, site_memory = (\<lambda>_ x. ucast x), site_writes = []\<rparr>"

lemma ex_engine_law: "client_law ex_client"
proof -
  have "same_outside (\<Union>rq \<in> set rqs. target_cells (request_copy ''c'' rq)) mem (fold (perform_request ''c'') rqs mem)" for rqs mem
    using copies_same_outside [of "map (request_copy ''c'') rqs" mem] by (simp add: fold_requests)
  then show ?thesis by (simp add: client_law_def ex_client_def engine_law_def ex_engine_def)
qed

lemma ex_site_reachable: "reachable ex_platform (site_master ex_site, [], [])"
  using reachable.step [OF ex_mounted_reachable step.count [where c = "requests Op_put_start" and n = "- 1"]] by (simp only: ex_site_def Site.simps)

lemma ex_site_fields [simp]:
  "segment_manager (site_master ex_site) = ex_manager" "find_metadata ex_platform k (site_master ex_site) = None"
  by (simp_all add: ex_site_def upd_metrics_def ex_mounted_fields find_metadata_def)

lemma ex_segments_apart: "segments_apart ex_manager"
  by (auto simp: segments_apart_def ex_manager_eq ex_segment_valid split: if_splits)

lemma ex_own [simp]: "own_endpoint ex_client = ''c''"
  by (simp add: own_endpoint_def ex_client_def ex_engine_def)

lemma ex_slices_ok: "slices_ok ex_client ex_manager ex_slices" "slices_ok ex_client ex_manager ex_out"
  by (auto simp: slices_ok_def ex_slices_def ex_out_def slice_cells_def segment_cells_def ex_manager_eq ex_segment_def)

lemma ex_out_apart: "sorted_wrt (\<lambda>a b. slice_cells (own_endpoint ex_client) a \<inter> slice_cells (own_endpoint ex_client) b = {}) ex_out"
proof -
  have "cells ''c'' 12288 100 \<inter> cells ''c'' 16384 100 = {}"
    by (auto simp: cells_region simp del: mem_cells)
  then show ?thesis by (simp add: ex_out_def slice_cells_def)
qed

definition ex_handles :: "BufferDescriptor list" where
  "ex_handles = [\<lparr>desc_size = 100, buffer_address = 16777216, transport_endpoint = ''s''\<rparr>,
     \<lparr>desc_size = 100, buffer_address = 16777336, transport_endpoint = ''s''\<rparr>]"

lemma ex_descriptor:
  assumes "sys_ok ex_platform (s, ttl, ps)" "segment_manager s = ex_manager" "fst (shared s) 0 \<noteq> None"
  shows "descriptor_variant (get_descriptor (fst (shared s)) (ex_replica 0 st)) = MemoryDescriptor ex_handles"
proof -
  have "transport_endpoint (get_buffer_descriptor (fst (shared s)) x) = ''s''" if "buf_allocator x = 0" for x
    using home_ex [of ex_platform s "{#}" "{#}" x] assms that
    by (auto simp: sys_ok_def isAllocatorValid_def home_def ex_manager_eq ex_segment_def split: if_splits)
  from this [of "ex_buffer\<lparr>buf_allocator := 0\<rparr>"] this [of "ex_buffer2\<lparr>buf_allocator := 0\<rparr>"] show ?thesis
    by (simp add: get_descriptor_def ex_replica_def Replica_memory_def ex_handles_def get_buffer_descriptor_def ex_buffer_def ex_buffer2_def)
qed

lemma ex_transfer:
  assumes "descriptor_variant d = MemoryDescriptor ex_handles"
  shows "snd (TransferWrite ex_client d ex_slices mem) = OK" "snd (TransferRead ex_client d ex_out mem) = OK"
  by (simp_all add: TransferWrite_def TransferRead_def TransferData_def ex_client_def submit_def assms ex_handles_def validateTransferParams_def
      ex_slices_def ex_out_def selectStrategy_def submitTransferEngineOperation_def submitTransfer_def ex_engine_def CalculateSliceSize_def descriptor_size_def)

lemma ex_request_counted: "upd_metrics (inc_requests Op_put_start) (site_master ex_site) = ex_mounted"
  by (simp add: ex_site_def upd_metrics_def inc_requests_def)

lemma ex_Put:
  "\<exists>site1. Client_Put ex_platform ex_client (\<lambda>_. Delivered) 1000 ''k'' ex_slices ex_put ex_site = (site1, Inr ())
    \<and> sys_ok ex_platform (site_master site1, [], []) \<and> segment_manager (site_master site1) = ex_manager
    \<and> (\<exists>md. objects ex_platform (site_master site1) ''k'' = Some md \<and> replicas md = [ex_replica 0 COMPLETE])
    \<and> service_config (site_master site1) = ex_config \<and> fst (shared (site_master site1)) 0 \<noteq> None"
proof -
  let ?d = "get_descriptor [0 \<mapsto> Cachelib ex_allocator2] (ex_replica 0 PROCESSING)" and ?mem = "site_memory ex_site"
  have w: "Wrapped_PutStart ex_platform ''k'' (map slice_size ex_slices) ex_put (site_master ex_site) = (ex_started, Inr [?d])"
    by (simp add: Wrapped_PutStart_def execute_rpc_def ex_request_counted ex_slices_def ex_started_eq(1))
  have ok: "sys_ok ex_platform (ex_started, [], [])" by (rule reachable_ok [OF ex_started_reachable ex_platform_law])
  have d: "descriptor_variant ?d = MemoryDescriptor ex_handles" using ex_descriptor [OF ok, of PROCESSING] by (simp add: ex_started_eq)
  obtain mem' where m: "TransferWrite ex_client ?d ex_slices ?mem = (mem', OK)"
    using ex_transfer(1) [OF d, of ?mem] by (cases "TransferWrite ex_client ?d ex_slices ?mem") simp
  obtain s2 r where e: "invoke_rpc Delivered (Wrapped_PutEnd ex_platform 1000 ''k'' MEMORY) ex_started = (s2, r)"
    by (cases "invoke_rpc Delivered (Wrapped_PutEnd ex_platform 1000 ''k'' MEMORY) ex_started")
  note c = put_end_call [OF ok ex_platform_law e]
  have r: "r = Inr ()" "\<exists>md. objects ex_platform s2 ''k'' = Some md \<and> replicas md = [ex_replica 0 COMPLETE]"
    using c(4) by (auto simp: spec_PutEnd_def ex_started_objects ex_object_def new_object_def GrantLease_def)
  have "Client_Put ex_platform ex_client (\<lambda>_. Delivered) 1000 ''k'' ex_slices ex_put ex_site
    = (ex_site\<lparr>site_memory := mem', site_master := s2\<rparr>, Inr ())"
    using w m e r(1) d by (simp add: Client_Put_def on_master_def invoke_rpc_def put_disk_replica_def ex_client_def is_memory_descriptor_def Let_def)
  moreover have "fst (shared s2) 0 \<noteq> None" using same_allocators_None [OF c(3), of 0] by (simp add: ex_started_eq)
  ultimately show ?thesis using c(1,2,5) r(2) by (intro exI [of _ "ex_site\<lparr>site_memory := mem', site_master := s2\<rparr>"]) (simp add: ex_started_eq)
qed

lemma ex_Get:
  assumes ok: "sys_ok ex_platform (site_master site, [], [])" "segment_manager (site_master site) = ex_manager"
    and o: "objects ex_platform (site_master site) ''k'' = Some md" "replicas md = [ex_replica 0 COMPLETE]"
    and c: "service_config (site_master site) = ex_config" "fst (shared (site_master site)) 0 \<noteq> None"
  shows "\<exists>site'. Client_Get ex_platform ex_client Delivered 2000 2001 3000 ''k'' ex_out site = (site', Inr ())"
proof -
  let ?s = "site_master site"
  let ?d = "get_descriptor (fst (shared ?s)) (ex_replica 0 COMPLETE)"
  obtain s2 r where e: "invoke_rpc Delivered (Wrapped_GetReplicaList ex_platform 2001 ''k'') ?s = (s2, r)"
    by (cases "invoke_rpc Delivered (Wrapped_GetReplicaList ex_platform 2001 ''k'') ?s")
  have cd: "complete_descriptors (fst (shared ?s)) md = [?d]" by (simp add: complete_descriptors_def o(2))
  have r: "r = Inr ([?d], 5000)"
    using get_call(4) [OF ok(1) ex_platform_law e] by (auto simp: spec_GetReplicaList_def o(1) cd c(1) ex_config_def)
  have d: "descriptor_variant ?d = MemoryDescriptor ex_handles" by (rule ex_descriptor [OF ok c(2)])
  obtain mem' where m: "TransferRead ex_client ?d ex_out (site_memory site) = (mem', OK)"
    using ex_transfer(2) [OF d, of "site_memory site"] by (cases "TransferRead ex_client ?d ex_out (site_memory site)") simp
  have "descriptor_status ?d = COMPLETE" by (simp add: get_descriptor_def)
  then show ?thesis using e r m
    by (simp add: Client_Get_def Client_Query_def on_master_def Client_Get_replica_def QueryResult_IsLeaseExpired_def milliseconds_def Let_def)
qed

section \<open>The property\<close>



end
