(* ===== verification/Spec2Isabelle.thy ===== *)
theory Spec2Isabelle
  imports Offset_Allocator Offset_Serial Eviction_Strategy Store_Properties Rpc_Properties Client_Integrity
begin

text \<open>
  A verification development of the Mooncake store, the distributed object store under
  \<open>src/mooncake-store\<close>.

  \<^bold>\<open>The program.\<close> A master keeps a table from keys to objects and hands out memory for them; clients
  mount segments of their own memory, ask the master where an object is to go or where it is, and
  move its bytes themselves through a transfer engine. An object has replicas, each with one buffer per
  slice; the buffers come from the allocators of the mounted segments, which are either offset
  allocators or slab allocators. Leases protect an object while it is read; a thread of the master
  evicts objects when memory is short, another one unmounts the segments of clients that no longer
  send pings.

  \<^bold>\<open>The parts and their theories.\<close>

  \<^item> \<open>Store_Prelude\<close>, \<open>Alist_Lemmas\<close>, \<open>Linked_Lists\<close>: machine words and what the components share.
    \<open>Allocator_Interface\<close> and \<open>Held_Allocator\<close> state the contract of an allocator as locales: handles stand
    for regions, the regions held at one time are disjoint and within the range, no operation moves the
    region of another handle. What follows for any client is proved there once.
  \<^item> The offset allocator (\<open>offset_allocator.cpp\<close>, \<open>offset_allocator.hpp\<close>): \<open>Small_Float\<close> the size classes on
    32-bit words, \<open>Offset_Core\<close> the class \<open>__Allocator\<close> with its nodes, bins and bit maps, \<open>Offset_Bins\<close>,
    \<open>Offset_Search\<close>, \<open>Offset_Invariant\<close>, \<open>Offset_Alloc\<close> and \<open>Offset_Free\<close> its invariant and that every
    operation keeps it, \<open>Offset_Contract\<close> that it keeps the contract, \<open>Offset_Allocator\<close> the 64-bit
    class \<open>OffsetAllocator\<close> with its handles. \<open>Serializer\<close> and \<open>Offset_Serial\<close> are the writing of an
    allocator to bytes and its reading back (\<open>serializer.h\<close>).
  \<^item> The slab allocator (\<open>cachelib_memory_allocator/\<close>): \<open>Slab_Core\<close> slabs, headers and allocation classes,
    \<open>Slab_Pool\<close> pools and the facade, \<open>Slab_Contract\<close>, \<open>Slab_Class\<close> and \<open>Slab_Safe\<close> that the memory it
    hands out is kept apart.
  \<^item> Buffers, replicas and segments: \<open>Store_Types\<close> (\<open>types.h\<close>, \<open>types.cpp\<close>), \<open>Store_Metrics\<close>
    (\<open>master_metric_manager.cpp\<close>), \<open>Buffer_Allocator\<close> (\<open>allocator.cpp\<close>) with its contract in
    \<open>Buffer_Contract\<close> and \<open>Buffer_Heap\<close>, \<open>Replica\<close> (\<open>replica.h\<close>), \<open>World\<close> the accounts of all buffers,
    \<open>Strategy\<close> (\<open>allocation_strategy.h\<close>), \<open>Segment_Manager\<close> and \<open>Segment_Safe\<close> (\<open>segment.cpp\<close>),
    \<open>Eviction_Strategy\<close> (\<open>eviction_strategy.h\<close>).
  \<^item> The master (\<open>master_service.cpp\<close>): \<open>Master\<close> the state and the request handlers, \<open>Master_Threads\<close> the
    iterations of the two threads, \<open>Master_Inv\<close> the invariant and the table of objects a client sees,
    \<open>Master_Spec\<close>, \<open>Master_Put\<close>, \<open>Master_Scan\<close>, \<open>Master_Loops\<close>, \<open>Master_Evict\<close>, \<open>Master_Progress\<close> and
    \<open>Master_Steps\<close> that every handler keeps the invariant and does to the table what its specification
    says. \<open>Master_System\<close> is the transition system of all handlers and threads, in which the parts that
    the code runs under separate locks are separate steps. \<open>Master_Example\<close> is a small store on which the
    definitions are evaluated, \<open>Store_Properties\<close> states the properties.
  \<^item> The RPC layer (\<open>rpc_service.cpp\<close>, \<open>rpc_helper.h\<close>): \<open>Rpc\<close> the wrapped handlers with their counters and
    the HTTP handlers that answer from the tables, \<open>Rpc_Steps\<close> and \<open>Rpc_Properties\<close> that any
    sequence of requests is one of steps of the master and is counted exactly.
  \<^item> The client: \<open>Transfer_Task\<close> (\<open>transfer_task.cpp\<close>) the submission of transfers and the memory of all
    processes, \<open>Client\<close> (\<open>client.cpp\<close>, \<open>master_client.cpp\<close>) its operations over a network that loses
    requests and replies. \<open>Client_Transfers\<close> shows that transfers are copies, \<open>Client_Memory\<close> that the
    buffers of the objects are apart in the memory, \<open>Client_Data\<close> and \<open>Client_Integrity\<close> that what is put
    is what is got.

  \<^bold>\<open>How the code is modelled.\<close> Classes are records with the members of the source, operations are
  functions from the state (and the clock readings they take) to the new state and the result, with
  every early return as a branch and every error as a value of \<open>ErrorCode\<close>. Integers have the width of
  the source where they may wrap. The maps of the metadata shards and of the segment manager are
  association lists, whose order stands for the unspecified order of the hash tables; allocators and
  buffers refer to each other by number, and a buffer whose allocator is gone is the expired weak
  pointer of the code. The world of a step is the pair of all allocators and the metrics. The
  record \<open>Platform\<close> holds what the language leaves open (hashing, \<open>std::shuffle\<close>, regular expressions, the
  rounding of floating-point numbers, whether the lock-free queue takes another element); properties
  that depend on the shuffle assume that it permutes (\<open>shuffle_law\<close>). The transfer engine and
  the file system are the record \<open>Engine\<close>; the property of the client assumes that a run reported as
  successful has carried out its requests and that no run writes elsewhere (\<open>engine_law\<close>).

  \<^bold>\<open>What is shown.\<close> Memory safety: in every state that any interleaving of requests and threads
  reaches, the pieces of memory of the stored objects are disjoint and inside their segments, all the
  gauges are exact, and leased objects are left alone. The handlers refine their specifications on the
  table of objects; eviction evicts only what it may and makes progress; unmounting and the client
  monitor remove exactly what they should. The allocators keep their invariants, hand out disjoint
  regions of at least the requested size, report their free space truthfully, merge freed
  neighbours so that freeing everything restores one free block, and survive being written and read
  back. The RPC layer stays within the reachable states. Across master, network, engine and
  memory: the bytes a client puts are the bytes a client gets, whatever happens to other objects.

  \<^bold>\<open>Bounds.\<close> The loops of the code recurse over data and need no fuel, except two: the walk over the list
  of a bin in \<open>storageReportFull\<close> is a partial function, shown to end in every state that satisfies the
  invariant, and \<open>wait_for_completion\<close> polls as often as it is given rounds and is shown to end when the
  clock passes its limit. Request sizes are at most \<open>2^63\<close> (beyond, the rounding of the offset allocator
  wraps, which a property of its own shows) and segments end below \<open>2^64\<close>.

  \<^bold>\<open>Not modelled.\<close> The release of whole slabs and \<open>SimpleAllocator\<close>, which the store does not call; the
  set-up of a client, its pings and its reaction to a new master; file formats of the storage
  backend and 3FS, the HTTP metadata server, the Python bindings and their buffers, high availability over etcd,
  the start of the processes: these are input and output around the parts above. The transfer engine
  with its transports, the expert-parallel kernels and the Go and Python programs of the
  repository are separate programs. Log lines, timers and text output are left out everywhere.
\<close>

end
